(* ===== verification/Prelude.thy ===== *)
theory Prelude
  imports Main "HOL-Library.Word" "HOL-Library.AList" "HOL-Library.Multiset"
begin

text \<open>
  Shared vocabulary of the development: the machine types of the C++ code, the error values its
  exceptions become, sequencing of fallible computations, big-endian byte strings, decimal
  rendering, sorting by a C++ comparator and association lists that stand for
  \<^verbatim>\<open>std::unordered_map\<close>.
\<close>

unbundle bit_operations_syntax

type_synonym u8 = "8 word"
type_synonym u32 = "32 word"
type_synonym u64 = "64 word"
type_synonym bytes = "8 word list"

named_theorems codec_simps \<open>equations that evaluate an encoder or a decoder\<close>
named_theorems bytes_length \<open>lengths of byte strings\<close>

section \<open>Errors as values\<close>

text \<open>
  \<open>Canon_Error\<close>, \<open>Runtime_Error\<close> and \<open>Invalid_Argument\<close> are the exceptions
  \<^verbatim>\<open>CanonError\<close>, \<^verbatim>\<open>std::runtime_error\<close> and \<^verbatim>\<open>std::invalid_argument\<close> with their messages.
  \<open>Out_Of_Bounds\<close> is no exception: it marks a read past the end of a buffer, which is
  undefined behaviour in C++.
\<close>

datatype error = Canon_Error string | Runtime_Error string | Invalid_Argument string | Out_Of_Bounds

type_synonym 'a res = "error + 'a"

definition bindE :: "'a res \<Rightarrow> ('a \<Rightarrow> 'b res) \<Rightarrow> 'b res" where
  "bindE m f = (case m of Inl e \<Rightarrow> Inl e | Inr v \<Rightarrow> f v)"

lemma bindE_simps [simp]:
  "bindE (Inl e) f = Inl e"
  "bindE (Inr v) f = f v"
  by (simp_all add: bindE_def)

lemma bindE_eq_Inr: "bindE m f = Inr w \<longleftrightarrow> (\<exists>v. m = Inr v \<and> f v = Inr w)"
  by (cases m) simp_all

lemma bindE_eq_Inl: "bindE m f = Inl e \<longleftrightarrow> m = Inl e \<or> (\<exists>v. m = Inr v \<and> f v = Inl e)"
  by (cases m) simp_all

lemma bindE_cong [fundef_cong]:
  "m = m' \<Longrightarrow> (\<And>v. m' = Inr v \<Longrightarrow> f v = g v) \<Longrightarrow> bindE m f = bindE m' g"
  by (cases m') simp_all

definition guardE :: "bool \<Rightarrow> error \<Rightarrow> unit res" where
  "guardE ok e = (if ok then Inr () else Inl e)"

lemma guardE_simps [simp]:
  "guardE True e = Inr ()"
  "guardE False e = Inl e"
  by (simp_all add: guardE_def)

lemma guardE_eq_Inr [simp]: "guardE ok e = Inr u \<longleftrightarrow> ok"
  by (simp add: guardE_def)

fun mapE :: "('a \<Rightarrow> 'b res) \<Rightarrow> 'a list \<Rightarrow> 'b list res" where
  "mapE f [] = Inr []"
| "mapE f (x # xs) = bindE (f x) (\<lambda>y. bindE (mapE f xs) (\<lambda>ys. Inr (y # ys)))"

lemma mapE_Inr: "(\<And>x. x \<in> set xs \<Longrightarrow> f x = Inr (g x)) \<Longrightarrow> mapE f xs = Inr (map g xs)"
  by (induction xs) simp_all

lemma mapE_eq_Inr: "mapE f xs = Inr ys \<longleftrightarrow> list_all2 (\<lambda>x y. f x = Inr y) xs ys"
  by (induction xs arbitrary: ys) (auto simp: bindE_eq_Inr list_all2_Cons1)

section \<open>Big-endian byte strings\<close>

text \<open>
  The code writes integers most significant byte first. \<open>be_bytes n w\<close> is the reference
  form of such a string, \<open>be_word\<close> reads one back; \<open>be_nat\<close> is its value.
\<close>

definition be_bytes :: "nat \<Rightarrow> 'a::len word \<Rightarrow> bytes" where
  "be_bytes n w = map (\<lambda>i. ucast (drop_bit (8 * (n - 1 - i)) w)) [0..<n]"

definition be_word :: "bytes \<Rightarrow> 'a::len word" where
  "be_word bs = foldl (\<lambda>w b. push_bit 8 w OR ucast b) 0 bs"

definition be_nat :: "bytes \<Rightarrow> nat" where
  "be_nat bs = foldl (\<lambda>n b. 256 * n + unat b) 0 bs"

lemma length_be_bytes [simp, bytes_length]: "length (be_bytes n w) = n"
  by (simp add: be_bytes_def)

lemma be_word_snoc: "be_word (bs @ [b]) = push_bit 8 (be_word bs) OR ucast b"
  by (simp add: be_word_def)

lemma be_word_Nil [simp]: "be_word [] = 0"
  by (simp add: be_word_def)

lemma bit_be_word:
  "bit (be_word bs :: 'a::len word) k \<longleftrightarrow>
     k < LENGTH('a) \<and> k < 8 * length bs \<and> bit (rev bs ! (k div 8)) (k mod 8)"
proof (induction bs arbitrary: k rule: rev_induct)
  case Nil
  then show ?case by simp
next
  case (snoc b bs)
  show ?case
  proof (cases "k < 8")
    case True
    then show ?thesis
      by (auto simp: be_word_snoc bit_or_iff bit_push_bit_iff bit_ucast_iff)
  next
    case False
    then have "k div 8 = Suc ((k - 8) div 8)" and "k mod 8 = (k - 8) mod 8"
      by (simp_all add: le_div_geq le_mod_geq)
    moreover have "\<not> bit (ucast b :: 'a word) k"
      using False by (auto simp: bit_ucast_iff dest: bit_imp_le_length)
    moreover have "k < 8 * length bs + 8 \<longleftrightarrow> k - 8 < 8 * length bs"
      using False by linarith
    ultimately show ?thesis
      using False
      by (auto simp: be_word_snoc bit_or_iff bit_push_bit_iff snoc.IH dest: bit_imp_le_length)
  qed
qed

lemma nth_be_bytes: "i < n \<Longrightarrow> be_bytes n w ! i = ucast (drop_bit (8 * (n - 1 - i)) w)"
  by (simp add: be_bytes_def)

lemma be_word_be_bytes:
  assumes "LENGTH('a::len) = 8 * n"
  shows "be_word (be_bytes n (w :: 'a word)) = w"
proof (rule bit_word_eqI)
  fix k
  assume k: "k < LENGTH('a)"
  then have d: "k div 8 < n"
    using assms by auto
  have "k mod 8 < LENGTH(8)"
    by simp
  moreover have "8 * (n - 1 - (n - Suc (k div 8))) + k mod 8 = k"
    using d by (simp add: Suc_diff_Suc)
  ultimately show "bit (be_word (be_bytes n w) :: 'a word) k = bit w k"
    using k d assms
    by (simp add: bit_be_word rev_nth nth_be_bytes bit_ucast_iff bit_drop_bit_eq add.commute
        del: len_num0 len_num1 len_bit0 len_bit1)
qed

lemma be_bytes_be_word:
  assumes "LENGTH('a::len) = 8 * length bs"
  shows "be_bytes (length bs) (be_word bs :: 'a word) = bs"
proof (rule nth_equalityI)
  show "length (be_bytes (length bs) (be_word bs :: 'a word)) = length bs"
    by simp
next
  fix i
  assume "i < length (be_bytes (length bs) (be_word bs :: 'a word))"
  then have i: "i < length bs" by simp
  let ?j = "length bs - 1 - i"
  show "be_bytes (length bs) (be_word bs :: 'a word) ! i = bs ! i"
  proof (rule bit_word_eqI)
    fix k
    assume "k < LENGTH(8)"
    then have k: "k < 8" by simp
    have "8 * ?j + k < 8 * length bs"
      using i k by linarith
    moreover have "(8 * ?j + k) div 8 = ?j" and "(8 * ?j + k) mod 8 = k"
      using k by simp_all
    moreover have "rev bs ! ?j = bs ! i"
      using i by (simp add: rev_nth)
    ultimately show "bit (be_bytes (length bs) (be_word bs :: 'a word) ! i) k = bit (bs ! i) k"
      using i k assms by (simp add: nth_be_bytes bit_ucast_iff bit_drop_bit_eq bit_be_word)
  qed
qed

lemma be_nat_Nil [simp]: "be_nat [] = 0"
  by (simp add: be_nat_def)

lemma be_nat_snoc: "be_nat (bs @ [b]) = 256 * be_nat bs + unat b"
  by (simp add: be_nat_def)

lemma be_nat_Cons: "be_nat (b # bs) = unat b * 256 ^ length bs + be_nat bs"
proof (induction bs rule: rev_induct)
  case Nil
  show ?case by (simp add: be_nat_def)
next
  case (snoc c bs)
  have "be_nat (b # bs @ [c]) = 256 * be_nat (b # bs) + unat c"
    using be_nat_snoc [of "b # bs" c] by simp
  then show ?case
    using snoc.IH by (simp add: be_nat_snoc algebra_simps)
qed

lemma be_nat_less: "be_nat bs < 256 ^ length bs"
proof (induction bs rule: rev_induct)
  case Nil
  show ?case by simp
next
  case (snoc b bs)
  have "unat b < 256"
    using unsigned_less [of b] by simp
  with snoc show ?case by (simp add: be_nat_snoc)
qed

text \<open>Comparing equally long strings byte by byte is comparing their values.\<close>

lemma be_nat_lexordp:
  "length xs = length ys \<Longrightarrow> ord_class.lexordp xs ys \<longleftrightarrow> be_nat xs < be_nat ys"
proof (induction xs ys rule: list_induct2)
  case Nil
  show ?case by simp
next
  case (Cons x xs y ys)
  let ?m = "256 ^ length ys"
  have bound: "be_nat xs < ?m" "be_nat ys < ?m"
    using be_nat_less [of xs] be_nat_less [of ys] Cons.hyps by simp_all
  have step: "unat a * ?m + p < unat b * ?m + q" if "a < b" "p < ?m" for a b :: u8 and p q
  proof -
    have "Suc (unat a) \<le> unat b"
      using that(1) by (simp add: word_less_nat_alt)
    then have "Suc (unat a) * ?m \<le> unat b * ?m"
      by (rule mult_le_mono1)
    with that(2) show ?thesis by simp
  qed
  consider "x < y" | "x = y" | "y < x"
    using less_linear by blast
  then show ?case
  proof cases
    case 1
    then show ?thesis
      using step [of x y "be_nat xs" "be_nat ys"] bound Cons.hyps by (simp add: be_nat_Cons)
  next
    case 2
    then show ?thesis
      using Cons.IH Cons.hyps by (simp add: be_nat_Cons)
  next
    case 3
    then have "\<not> be_nat (x # xs) < be_nat (y # ys)"
      using step [of y x "be_nat ys" "be_nat xs"] bound Cons.hyps by (simp add: be_nat_Cons)
    with 3 show ?thesis by (simp add: less_not_sym)
  qed
qed

section \<open>Decimal rendering (\<^verbatim>\<open>std::to_string\<close>)\<close>

definition digit_char :: "nat \<Rightarrow> char" where
  "digit_char d = char_of (48 + d)"

fun show_nat :: "nat \<Rightarrow> string" where
  "show_nat n =
     (if n < 10 then [digit_char n] else show_nat (n div 10) @ [digit_char (n mod 10)])"

declare show_nat.simps [simp del]

definition show_int :: "int \<Rightarrow> string" where
  "show_int i = (if i < 0 then CHR ''-'' # show_nat (nat (- i)) else show_nat (nat i))"

definition digits_value :: "string \<Rightarrow> nat" where
  "digits_value s = foldl (\<lambda>n c. 10 * n + (of_char c - 48)) 0 s"

lemma digits_value_show_nat: "digits_value (show_nat n) = n"
proof (induction n rule: show_nat.induct)
  case (1 n)
  show ?case
  proof (cases "n < 10")
    case True
    then show ?thesis
      by (subst show_nat.simps) (simp add: digits_value_def digit_char_def)
  next
    case False
    have "n mod 10 < 10" by simp
    then have "digits_value (show_nat n) = 10 * digits_value (show_nat (n div 10)) + n mod 10"
      using False by (subst show_nat.simps) (simp add: digits_value_def digit_char_def)
    also have "\<dots> = n"
      using "1.IH" False by simp
    finally show ?thesis .
  qed
qed

lemma show_nat_inject [simp]: "show_nat m = show_nat n \<longleftrightarrow> m = n"
  by (metis digits_value_show_nat)

section \<open>Sorting by a comparator (\<^verbatim>\<open>std::sort\<close>)\<close>

fun insert_by :: "('a \<Rightarrow> 'a \<Rightarrow> bool) \<Rightarrow> 'a \<Rightarrow> 'a list \<Rightarrow> 'a list" where
  "insert_by lt x [] = [x]"
| "insert_by lt x (y # ys) = (if lt y x then y # insert_by lt x ys else x # y # ys)"

fun sort_by :: "('a \<Rightarrow> 'a \<Rightarrow> bool) \<Rightarrow> 'a list \<Rightarrow> 'a list" where
  "sort_by lt [] = []"
| "sort_by lt (x # xs) = insert_by lt x (sort_by lt xs)"

lemma mset_insert_by [simp]: "mset (insert_by lt x xs) = add_mset x (mset xs)"
  by (induction xs) simp_all

lemma mset_sort_by [simp]: "mset (sort_by lt xs) = mset xs"
  by (induction xs) simp_all

lemma set_sort_by [simp]: "set (sort_by lt xs) = set xs"
  by (metis mset_sort_by set_mset_mset)

lemma length_sort_by [simp]: "length (sort_by lt xs) = length xs"
  by (metis mset_sort_by size_mset)

text \<open>
  The named requirement \<^verbatim>\<open>Compare\<close> of the C++ standard: a strict weak ordering. Under it a
  sorted result exists; \<^verbatim>\<open>std::sort\<close> is not stable, so the result is only determined when the
  comparator separates the elements, which is what \<open>sort_by_unique\<close> needs and what every
  caller in the program has to provide to be deterministic.
\<close>

locale comparator =
  fixes lt :: "'a \<Rightarrow> 'a \<Rightarrow> bool"
  assumes lt_irrefl: "\<not> lt x x"
    and lt_trans: "lt x y \<Longrightarrow> lt y z \<Longrightarrow> lt x z"
    and incomp_trans: "\<not> lt x y \<Longrightarrow> \<not> lt y z \<Longrightarrow> \<not> lt x z"
begin

lemma lt_asym: "lt x y \<Longrightarrow> \<not> lt y x"
  using lt_irrefl lt_trans by blast

lemma sorted_insert_by:
  "sorted_wrt (\<lambda>a b. \<not> lt b a) xs \<Longrightarrow> sorted_wrt (\<lambda>a b. \<not> lt b a) (insert_by lt x xs)"
proof (induction xs)
  case Nil
  then show ?case by simp
next
  case (Cons y ys)
  have "set (insert_by lt x ys) = insert x (set ys)"
    by (metis mset_insert_by set_mset_add_mset_insert set_mset_mset)
  then show ?case
    using Cons by (auto dest: lt_asym) (metis incomp_trans)
qed

lemma sorted_sort_by: "sorted_wrt (\<lambda>a b. \<not> lt b a) (sort_by lt xs)"
  by (induction xs) (simp_all add: sorted_insert_by)

lemma sorted_unique:
  assumes "mset xs = mset ys"
    and "sorted_wrt (\<lambda>a b. \<not> lt b a) xs" and "sorted_wrt (\<lambda>a b. \<not> lt b a) ys"
    and "\<And>a b. a \<in> set xs \<Longrightarrow> b \<in> set xs \<Longrightarrow> a \<noteq> b \<Longrightarrow> lt a b \<or> lt b a"
  shows "xs = ys"
  using assms
proof (induction xs arbitrary: ys)
  case Nil
  then show ?case by simp
next
  case (Cons x xs)
  then obtain y ys' where ys: "ys = y # ys'"
    by (cases ys) auto
  have sets: "insert x (set xs) = insert y (set ys')"
    using Cons.prems(1) ys by (metis list.set(2) mset_eq_setD)
  have "x = y"
  proof (rule ccontr)
    assume "x \<noteq> y"
    then have "y \<in> set xs" and "x \<in> set ys'"
      using sets by auto
    then show False
      using Cons.prems(2,3,4) \<open>x \<noteq> y\<close> ys by auto
  qed
  moreover have "xs = ys'"
    using Cons.prems \<open>x = y\<close> ys by (intro Cons.IH) auto
  ultimately show ?case
    using ys by simp
qed

lemma sort_by_unique:
  assumes "mset xs = mset ys"
    and "\<And>a b. a \<in> set xs \<Longrightarrow> b \<in> set xs \<Longrightarrow> a \<noteq> b \<Longrightarrow> lt a b \<or> lt b a"
  shows "sort_by lt xs = sort_by lt ys"
  using assms by (intro sorted_unique) (simp_all add: sorted_sort_by)

lemma sort_by_id: "sorted_wrt (\<lambda>a b. \<not> lt b a) xs \<Longrightarrow>
    (\<And>a b. a \<in> set xs \<Longrightarrow> b \<in> set xs \<Longrightarrow> a \<noteq> b \<Longrightarrow> lt a b \<or> lt b a) \<Longrightarrow> sort_by lt xs = xs"
  by (intro sorted_unique) (simp_all add: sorted_sort_by)

end

section \<open>Association lists as hash maps\<close>

text \<open>
  A \<^verbatim>\<open>std::unordered_map\<close> is an association list with distinct keys; its order stands for the
  iteration order, which the C++ standard leaves open. \<open>map_of\<close> is \<^verbatim>\<open>find\<close>, \<open>AList.update\<close>
  is assignment through \<^verbatim>\<open>operator[]\<close> and \<open>AList.delete\<close> is \<^verbatim>\<open>erase\<close>.
\<close>

type_synonym ('k, 'v) umap = "('k \<times> 'v) list"

abbreviation keys :: "('k, 'v) umap \<Rightarrow> 'k list" where
  "keys m \<equiv> map fst m"

abbreviation umap_ok :: "('k, 'v) umap \<Rightarrow> bool" where
  "umap_ok m \<equiv> distinct (keys m)"

lemma map_of_update [simp]: "map_of (AList.update k v m) = (map_of m)(k \<mapsto> v)"
  by (rule update_conv')

lemma map_of_delete [simp]: "map_of (AList.delete k m) = (map_of m)(k := None)"
  by (rule delete_conv')

lemma umap_ok_update: "umap_ok m \<Longrightarrow> umap_ok (AList.update k v m)"
  by (rule distinct_update)

lemma umap_ok_delete: "umap_ok m \<Longrightarrow> umap_ok (AList.delete k m)"
  by (rule distinct_delete)

lemma umap_mset_eq: "mset m = mset m' \<Longrightarrow> umap_ok m \<Longrightarrow> map_of m = map_of m'"
  by (metis map_of_inject_set mset_eq_setD mset_map distinct_count_atmost_1 mset_eq_imp_distinct_iff)

end
