(* ===== verification/Identity.thy ===== *)
theory Identity
  imports Prelude "HOL-Library.List_Lexorder"
begin

text \<open>
  \<^verbatim>\<open>include/compat/uuid.hpp\<close> and \<^verbatim>\<open>include/compat/id.hpp\<close>: the 128-bit identifiers, their text
  form, their order and hash, and generation counters. The sixteen bytes of a
  \<^verbatim>\<open>Uuid\<close> are held as one 128-bit word, the first byte on top; \<open>uuid_bytes\<close> gives the
  array back.
\<close>

section \<open>Identifiers\<close>

datatype uuid = Uuid (uuid_word: "128 word")

definition uuid_bytes :: "uuid \<Rightarrow> bytes" where
  "uuid_bytes u = be_bytes 16 (uuid_word u)"

definition uuid_of_bytes :: "bytes \<Rightarrow> uuid" where
  "uuid_of_bytes bs = Uuid (be_word bs)"

definition zero_uuid :: uuid where
  "zero_uuid = Uuid 0"

definition is_zero :: "uuid \<Rightarrow> bool" where
  "is_zero u = list_all (\<lambda>c. c = 0) (uuid_bytes u)"

lemma length_uuid_bytes [simp, bytes_length]: "length (uuid_bytes u) = 16"
  by (simp add: uuid_bytes_def)

lemma uuid_of_bytes_bytes [simp]: "uuid_of_bytes (uuid_bytes u) = u"
  by (cases u) (simp add: uuid_of_bytes_def uuid_bytes_def be_word_be_bytes)

lemma uuid_bytes_of_bytes: "length bs = 16 \<Longrightarrow> uuid_bytes (uuid_of_bytes bs) = bs"
  using be_bytes_be_word [of bs, where 'a = 128] by (simp add: uuid_of_bytes_def uuid_bytes_def)

lemma uuid_bytes_inject [simp]: "uuid_bytes u = uuid_bytes v \<longleftrightarrow> u = v"
  by (metis uuid_of_bytes_bytes)

text \<open>\<^verbatim>\<open>operator<\<close> compares the arrays lexicographically.\<close>

instantiation uuid :: linorder
begin

definition less_eq_uuid :: "uuid \<Rightarrow> uuid \<Rightarrow> bool" where
  "less_eq_uuid u v \<longleftrightarrow> uuid_word u \<le> uuid_word v"

definition less_uuid :: "uuid \<Rightarrow> uuid \<Rightarrow> bool" where
  "less_uuid u v \<longleftrightarrow> uuid_word u < uuid_word v"

instance
  by standard (auto simp: less_eq_uuid_def less_uuid_def intro: uuid.expand)

end

lemma be_nat_be_word:
  "length bs * 8 \<le> LENGTH('a) \<Longrightarrow> unat (be_word bs :: 'a::len word) = be_nat bs"
proof (induction bs rule: rev_induct)
  case Nil
  show ?case by simp
next
  case (snoc b bs)
  let ?w = "be_word bs :: 'a word"
  have len: "length bs * 8 + 8 \<le> LENGTH('a)"
    using snoc.prems by simp
  have "push_bit 8 ?w AND ucast b = 0"
    by (rule bit_word_eqI)
       (auto simp: bit_and_iff bit_push_bit_iff bit_ucast_iff dest: bit_imp_le_length)
  then have "push_bit 8 ?w OR ucast b = push_bit 8 ?w + ucast b"
    by (rule disjunctive_add_eq_or [symmetric])
  moreover have bound: "unat ?w * 256 + unat b < 2 ^ LENGTH('a)"
  proof -
    have "be_nat (bs @ [b]) < 256 ^ (length bs + 1)"
      using be_nat_less [of "bs @ [b]"] by simp
    also have "(256 :: nat) ^ (length bs + 1) = 2 ^ (8 * (length bs + 1))"
      by (simp add: power_mult power_add)
    also have "\<dots> \<le> 2 ^ LENGTH('a)"
      using len by (intro power_increasing) simp_all
    finally show ?thesis
      using snoc.IH len by (simp add: be_nat_snoc mult.commute)
  qed
  moreover have "unat (ucast b :: 'a word) = unat b"
    proof -
    have "unat b < 2 ^ 8"
      using unsigned_less [of b] by simp
    also have "(2 :: nat) ^ 8 \<le> 2 ^ LENGTH('a)"
      using len by (intro power_increasing) simp_all
    finally show ?thesis
      by (simp add: unsigned_ucast_eq take_bit_nat_eq_self)
  qed
  moreover have "unat (push_bit 8 ?w) = unat ?w * 256"
    using bound by (simp add: unsigned_push_bit_eq push_bit_nat_def take_bit_nat_eq_self
        del: push_bit_numeral)
  ultimately show ?case
    using snoc.IH len by (simp add: be_word_snoc be_nat_snoc unat_word_ariths mult.commute
        del: push_bit_numeral)
qed

text \<open>The order is the lexicographic order of the byte arrays, as \<^verbatim>\<open>std::array\<close> compares.\<close>

lemma less_uuid_bytes: "u < v \<longleftrightarrow> ord_class.lexordp (uuid_bytes u) (uuid_bytes v)"
proof -
  have val: "be_nat (uuid_bytes w) = unat (uuid_word w)" for w
  proof -
    have "unat (be_word (uuid_bytes w) :: 128 word) = be_nat (uuid_bytes w)"
      by (rule be_nat_be_word) simp
    then show ?thesis
      by (simp add: uuid_bytes_def be_word_be_bytes)
  qed
  have "ord_class.lexordp (uuid_bytes u) (uuid_bytes v) \<longleftrightarrow>
      be_nat (uuid_bytes u) < be_nat (uuid_bytes v)"
    by (rule be_nat_lexordp) simp
  then show ?thesis
    by (simp add: val less_uuid_def word_less_nat_alt)
qed

lemma is_zero_iff [simp]: "is_zero u \<longleftrightarrow> u = zero_uuid"
proof -
  have "uuid_bytes zero_uuid = replicate 16 0"
    by (simp add: uuid_bytes_def zero_uuid_def be_bytes_def map_replicate_const)
  then have "uuid_bytes u = uuid_bytes zero_uuid \<longleftrightarrow> is_zero u"
    unfolding is_zero_def list_all_iff
    by (metis length_uuid_bytes in_set_replicate replicate_eqI)
  then show ?thesis by simp
qed

text \<open>FNV-1a over the sixteen bytes (\<^verbatim>\<open>Uuid::hash\<close>); only hash maps use it.\<close>

definition uuid_hash :: "uuid \<Rightarrow> u64" where
  "uuid_hash u = foldl (\<lambda>h b. (h XOR ucast b) * 1099511628211) 14695981039346656037 (uuid_bytes u)"

text \<open>
  \<^verbatim>\<open>Uuid::generate_v4\<close>: the two seed words are copied with \<^verbatim>\<open>memcpy\<close>, little endian on the
  x86-64 targets the project builds for, then the version and variant bits are forced. The
  random seeds of \<^verbatim>\<open>Uuid::genseed\<close> come from outside the program: every operation that calls it
  takes the fresh identifier as an argument.
\<close>

definition le_bytes8 :: "u64 \<Rightarrow> bytes" where
  "le_bytes8 w = rev (be_bytes 8 w)"

definition generate_v4 :: "u64 \<Rightarrow> u64 \<Rightarrow> uuid" where
  "generate_v4 a b =
     (let by0 = le_bytes8 a @ le_bytes8 b;
          by1 = by0[6 := (by0 ! 6 AND 0x0F) OR 0x40];
          by2 = by1[8 := (by1 ! 8 AND 0x3F) OR 0x80]
      in uuid_of_bytes by2)"

text \<open>\<^verbatim>\<open>Uuid::genseed\<close>: four 32-bit draws of \<^verbatim>\<open>std::random_device\<close> make the two seeds.\<close>

definition genseed :: "u32 \<Rightarrow> u32 \<Rightarrow> u32 \<Rightarrow> u32 \<Rightarrow> uuid" where
  "genseed r1 r2 r3 r4 =
     generate_v4 (push_bit 32 (ucast r1) XOR ucast r2) (push_bit 32 (ucast r3) XOR ucast r4)"

section \<open>Text form\<close>

definition hexl :: "u8 \<Rightarrow> char" where
  "hexl nib = (if nib < 10 then char_of (48 + unat nib) else char_of (97 + (unat nib - 10)))"

definition hexv :: "char \<Rightarrow> u8 res" where
  "hexv c = (let n = of_char c :: nat in
     if 48 \<le> n \<and> n \<le> 57 then Inr (word_of_nat (n - 48))
     else if 97 \<le> n \<and> n \<le> 102 then Inr (word_of_nat (n - 97 + 10))
     else if 65 \<le> n \<and> n \<le> 70 then Inr (word_of_nat (n - 65 + 10))
     else Inl (Invalid_Argument ''Uuid::from_string: non-hex character''))"

definition hex_byte :: "u8 \<Rightarrow> string" where
  "hex_byte b = [hexl (drop_bit 4 b), hexl (b AND 0x0F)]"

text \<open>\<^verbatim>\<open>Uuid::to_string\<close>: lower-case hex digits with dashes before bytes 4, 6, 8 and 10.\<close>

definition uuid_to_string :: "uuid \<Rightarrow> string" where
  "uuid_to_string u = concat (map (\<lambda>i.
     (if i = 4 \<or> i = 6 \<or> i = 8 \<or> i = 10 then ''-'' else []) @ hex_byte (uuid_bytes u ! i)) [0..<16])"

fun hex_pairs :: "string \<Rightarrow> bytes res" where
  "hex_pairs (h # l # s) =
     bindE (hexv h) (\<lambda>a. bindE (hexv l) (\<lambda>b. bindE (hex_pairs s) (\<lambda>bs.
       Inr ((push_bit 4 a OR b) # bs))))"
| "hex_pairs s = Inr []"

text \<open>\<^verbatim>\<open>Uuid::from_string\<close>: every dash is dropped wherever it stands, then 32 digits are needed.\<close>

definition uuid_from_string :: "string \<Rightarrow> uuid res" where
  "uuid_from_string s =
     (let hex = filter (\<lambda>c. c \<noteq> CHR ''-'') s in
      if length hex \<noteq> 32 then Inl (Invalid_Argument ''Uuid::from_string: invalid length'')
      else bindE (hex_pairs hex) (\<lambda>bs. Inr (uuid_of_bytes bs)))"

lemma of_char_char_of [simp]: "of_char (char_of n :: char) = (n mod 256 :: nat)"
  by simp

lemma hexl_range: "nib < 16 \<Longrightarrow> (of_char (hexl nib) :: nat) \<in> {48..57} \<union> {97..102}"
  by (simp add: hexl_def word_less_nat_alt)

lemma hexl_not_dash: "nib < 16 \<Longrightarrow> hexl nib \<noteq> CHR ''-''"
  using hexl_range [of nib] by auto

lemma hexv_hexl: "nib < 16 \<Longrightarrow> hexv (hexl nib) = Inr nib"
proof -
  assume nib: "nib < 16"
  then have "unat nib < 16"
    by (simp add: word_less_nat_alt)
  then show ?thesis
    by (cases "unat nib < 10") (auto simp: hexl_def hexv_def word_less_nat_alt Let_def)
qed

lemma nibbles: "drop_bit 4 (b :: u8) < 16" "b AND 0x0F < 16" "push_bit 4 (drop_bit 4 b) OR (b AND 0x0F) = b"
proof -
  have "unat b < 256"
    using unsigned_less [of b] by simp
  then show "drop_bit 4 b < 16"
    by (simp add: word_less_nat_alt unat_div drop_bit_eq_div)
  have "b AND 0x0F \<le> 0x0F"
    by (rule word_and_le1)
  then show "b AND 0x0F < 16"
    by (rule le_less_trans) simp
  have low: "b AND 0x0F = take_bit 4 b"
    by (simp add: take_bit_eq_mask mask_eq_exp_minus_1)
  show "push_bit 4 (drop_bit 4 b) OR (b AND 0x0F) = b"
    unfolding low
    by (rule bit_word_eqI) (auto simp: bit_or_iff bit_push_bit_iff bit_drop_bit_eq bit_take_bit_iff)
qed

lemma filter_hex_byte: "filter (\<lambda>c. c \<noteq> CHR ''-'') (hex_byte b) = hex_byte b"
  using nibbles [of b] by (simp add: hex_byte_def hexl_not_dash)

lemma hex_pairs_bytes: "hex_pairs (concat (map hex_byte bs)) = Inr bs"
  by (induction bs) (simp_all add: hex_byte_def hexv_hexl nibbles del: drop_bit_numeral_bit0)

lemma filter_uuid_to_string:
  "filter (\<lambda>c. c \<noteq> CHR ''-'') (uuid_to_string u) = concat (map hex_byte (uuid_bytes u))"
proof -
  have "filter (\<lambda>c. c \<noteq> CHR ''-'') (uuid_to_string u) =
      concat (map (\<lambda>i. hex_byte (uuid_bytes u ! i)) [0..<16])"
    by (simp add: uuid_to_string_def filter_concat o_def filter_hex_byte)
  also have "\<dots> = concat (map hex_byte (map ((!) (uuid_bytes u)) [0..<length (uuid_bytes u)]))"
    by (simp add: o_def)
  finally show ?thesis
    by (simp only: map_nth)
qed

lemma length_hex_bytes [bytes_length]: "length (concat (map hex_byte bs)) = 2 * length bs"
  by (induction bs) (simp_all add: hex_byte_def)

lemma uuid_from_to_string: "uuid_from_string (uuid_to_string u) = Inr u"
  by (simp add: uuid_from_string_def filter_uuid_to_string length_hex_bytes hex_pairs_bytes)

lemma uuid_to_string_inject [simp]: "uuid_to_string u = uuid_to_string v \<longleftrightarrow> u = v"
  by (metis uuid_from_to_string sum.inject(2))

section \<open>Generations\<close>

text \<open>\<^verbatim>\<open>struct Generation\<close>: a 64-bit counter compared by value.\<close>

type_synonym generation = u64

section \<open>Properties\<close>

text \<open>
  The text form of an identifier reads back as the same identifier, so no two
  identifiers share a text form; and identifiers are ordered as their sixteen bytes.
\<close>

theorem uuid_text_roundtrip:
  "uuid_from_string (uuid_to_string u) = Inr u \<and>
   (uuid_to_string u = uuid_to_string v \<longleftrightarrow> u = v) \<and>
   (u < v \<longleftrightarrow> ord_class.lexordp (uuid_bytes u) (uuid_bytes v))"
  by (simp add: uuid_from_to_string less_uuid_bytes)

end
