(* ===== verification/Sha256.thy ===== *)
theory Sha256
  imports Prelude
begin

text \<open>
  \<^verbatim>\<open>include/compat/sha256.hpp\<close>: the self-contained SHA-256 that fingerprints profiles and
  decisions and checks snapshots, with 32-bit words that wrap.
\<close>

type_synonym digest = bytes

section \<open>The computation\<close>

definition sha_init :: "u32 list" where
  "sha_init = [0x6a09e667, 0xbb67ae85, 0x3c6ef372, 0xa54ff53a,
     0x510e527f, 0x9b05688c, 0x1f83d9ab, 0x5be0cd19]"

definition sha_K :: "u32 list" where
  "sha_K = concat
     [[0x428a2f98, 0x71374491, 0xb5c0fbcf, 0xe9b5dba5], [0x3956c25b, 0x59f111f1, 0x923f82a4, 0xab1c5ed5],
      [0xd807aa98, 0x12835b01, 0x243185be, 0x550c7dc3], [0x72be5d74, 0x80deb1fe, 0x9bdc06a7, 0xc19bf174],
      [0xe49b69c1, 0xefbe4786, 0x0fc19dc6, 0x240ca1cc], [0x2de92c6f, 0x4a7484aa, 0x5cb0a9dc, 0x76f988da],
      [0x983e5152, 0xa831c66d, 0xb00327c8, 0xbf597fc7], [0xc6e00bf3, 0xd5a79147, 0x06ca6351, 0x14292967],
      [0x27b70a85, 0x2e1b2138, 0x4d2c6dfc, 0x53380d13], [0x650a7354, 0x766a0abb, 0x81c2c92e, 0x92722c85],
      [0xa2bfe8a1, 0xa81a664b, 0xc24b8b70, 0xc76c51a3], [0xd192e819, 0xd6990624, 0xf40e3585, 0x106aa070],
      [0x19a4c116, 0x1e376c08, 0x2748774c, 0x34b0bcb5], [0x391c0cb3, 0x4ed8aa4a, 0x5b9cca4f, 0x682e6ff3],
      [0x748f82ee, 0x78a5636f, 0x84c87814, 0x8cc70208], [0x90befffa, 0xa4506ceb, 0xbef9a3f7, 0xc67178f2]]"

definition rotr :: "u32 \<Rightarrow> nat \<Rightarrow> u32" where
  "rotr x n = drop_bit n x OR push_bit (32 - n) x"

text \<open>The padding loop: zero bytes until 56 bytes of the last block are filled.\<close>

function pad_zeros :: "bytes \<Rightarrow> bytes" where
  "pad_zeros msg = (if length msg mod 64 \<noteq> 56 then pad_zeros (msg @ [0]) else msg)"
  by pat_completeness auto
termination
proof (relation "measure (\<lambda>msg. if length msg mod 64 \<le> 56 then 56 - length msg mod 64 else 120 - length msg mod 64)",
    goal_cases)
  case 1
  show ?case by simp
next
  case (2 msg)
  define r where "r = length msg mod 64"
  have "r < 64" and "r \<noteq> 56"
    using 2 by (simp_all add: r_def)
  moreover have "length (msg @ [0]) mod 64 = (if Suc r = 64 then 0 else Suc r)"
    by (simp add: r_def mod_Suc)
  ultimately show ?case
    by (auto simp: r_def [symmetric])
qed

declare pad_zeros.simps [simp del]

definition sha_pad :: "bytes \<Rightarrow> bytes" where
  "sha_pad data =
     (let bitlen = word_of_nat (length data) * 8 :: u64
      in pad_zeros (data @ [0x80]) @ map (\<lambda>i. ucast (drop_bit (i * 8) bitlen AND 0xFF)) (rev [0..<8]))"

definition sha_word :: "bytes \<Rightarrow> nat \<Rightarrow> u32" where
  "sha_word msg p = push_bit 24 (ucast (msg ! p)) OR push_bit 16 (ucast (msg ! (p + 1)))
     OR push_bit 8 (ucast (msg ! (p + 2))) OR ucast (msg ! (p + 3))"

text \<open>The message schedule; entry \<open>i\<close> is appended to the entries before it.\<close>

definition sha_extend :: "u32 list \<Rightarrow> nat \<Rightarrow> u32 list" where
  "sha_extend w i =
     (let s0 = rotr (w ! (i - 15)) 7 XOR rotr (w ! (i - 15)) 18 XOR drop_bit 3 (w ! (i - 15));
          s1 = rotr (w ! (i - 2)) 17 XOR rotr (w ! (i - 2)) 19 XOR drop_bit 10 (w ! (i - 2))
      in w @ [w ! (i - 16) + s0 + w ! (i - 7) + s1])"

definition sha_schedule :: "bytes \<Rightarrow> nat \<Rightarrow> u32 list" where
  "sha_schedule msg off =
     foldl sha_extend (map (\<lambda>i. sha_word msg (off + i * 4)) [0..<16]) [16..<64]"

record sha_regs =
  ra :: u32
  rb :: u32
  rc :: u32
  rd :: u32
  re :: u32
  rf :: u32
  rg :: u32
  rh :: u32

definition sha_round :: "sha_regs \<Rightarrow> u32 \<times> u32 \<Rightarrow> sha_regs" where
  "sha_round r kw =
     (let S1 = rotr (re r) 6 XOR rotr (re r) 11 XOR rotr (re r) 25;
          ch = (re r AND rf r) XOR (NOT (re r) AND rg r);
          t1 = rh r + S1 + ch + fst kw + snd kw;
          S0 = rotr (ra r) 2 XOR rotr (ra r) 13 XOR rotr (ra r) 22;
          maj = (ra r AND rb r) XOR (ra r AND rc r) XOR (rb r AND rc r);
          t2 = S0 + maj
      in \<lparr>ra = t1 + t2, rb = ra r, rc = rb r, rd = rc r,
          re = rd r + t1, rf = re r, rg = rf r, rh = rg r\<rparr>)"

definition sha_compress :: "u32 list \<Rightarrow> bytes \<Rightarrow> nat \<Rightarrow> u32 list" where
  "sha_compress h msg off =
     (let start = \<lparr>ra = h ! 0, rb = h ! 1, rc = h ! 2, rd = h ! 3,
                   re = h ! 4, rf = h ! 5, rg = h ! 6, rh = h ! 7\<rparr>;
          r = foldl sha_round start (zip sha_K (sha_schedule msg off))
      in [h ! 0 + ra r, h ! 1 + rb r, h ! 2 + rc r, h ! 3 + rd r,
          h ! 4 + re r, h ! 5 + rf r, h ! 6 + rg r, h ! 7 + rh r])"

function sha_blocks :: "bytes \<Rightarrow> nat \<Rightarrow> u32 list \<Rightarrow> u32 list" where
  "sha_blocks msg off h =
     (if off < length msg then sha_blocks msg (off + 64) (sha_compress h msg off) else h)"
  by pat_completeness auto
termination
  by (relation "measure (\<lambda>(msg, off, h). length msg - off)") auto

declare sha_blocks.simps [simp del]

definition sha_out :: "u32 \<Rightarrow> bytes" where
  "sha_out x = [ucast (drop_bit 24 x), ucast (drop_bit 16 x), ucast (drop_bit 8 x), ucast x]"

definition sha256 :: "bytes \<Rightarrow> digest" where
  "sha256 data = concat (map sha_out (sha_blocks (sha_pad data) 0 sha_init))"

definition hex_digits :: string where
  "hex_digits = ''0123456789abcdef''"

definition sha_hex :: "digest \<Rightarrow> string" where
  "sha_hex d = concat (map (\<lambda>c. [hex_digits ! unat (drop_bit 4 c), hex_digits ! unat (c AND 0x0F)]) d)"

section \<open>Shape of the computation\<close>

text \<open>The padded message is a whole number of 64-byte blocks, and padding adds at most 72 bytes.\<close>

lemma pad_zeros_shape:
  "\<exists>k. k < 64 \<and> pad_zeros msg = msg @ replicate k 0 \<and> (length msg + k) mod 64 = 56"
proof -
  define r where "r = length msg mod 64"
  define k where "k = (if r \<le> 56 then 56 - r else 120 - r)"
  have r: "r < 64"
    by (simp add: r_def)
  have "pad_zeros xs = xs @ replicate n 0"
    if "n < 64" and "(length xs + n) mod 64 = 56" and "\<And>m. m < n \<Longrightarrow> (length xs + m) mod 64 \<noteq> 56" for n xs
    using that
  proof (induction n arbitrary: xs)
    case 0
    then show ?case
      by (subst pad_zeros.simps) simp
  next
    case (Suc n)
    have "length xs mod 64 \<noteq> 56"
      using Suc.prems(3) [of 0] by simp
    then have "pad_zeros xs = pad_zeros (xs @ [0])"
      by (subst pad_zeros.simps) simp
    also have "\<dots> = (xs @ [0]) @ replicate n 0"
      using Suc.prems(1,2) Suc.prems(3) [of "Suc _"] by (intro Suc.IH) simp_all
    finally show ?case by simp
  qed
  note run = this
  have red: "(length msg + m) mod 64 = (r + m) mod 64" for m
    unfolding r_def by (simp only: mod_add_left_eq)
  have k: "k < 64" "r + k = 56 \<or> r + k = 120"
    using r by (auto simp: k_def)
  have "(r + m) mod 64 \<noteq> 56" if "m < k" for m
  proof (cases "r + m < 64")
    case True
    then show ?thesis
      using that by (simp add: k_def split: if_splits)
  next
    case False
    then have "(r + m) mod 64 = r + m - 64"
      using r k(1) that by (simp add: mod_if)
    then show ?thesis
      using False that by (simp add: k_def split: if_splits)
  qed
  then have "pad_zeros msg = msg @ replicate k 0"
    using k by (intro run) (auto simp only: red, auto)
  moreover have "(length msg + k) mod 64 = 56"
    using k(2) unfolding red by auto
  ultimately show ?thesis
    using k(1) by (intro exI [of _ k]) simp
qed

lemma sha_pad_shape:
  "\<exists>k. k < 64 \<and> length (sha_pad data) = length data + 1 + k + 8 \<and> length (sha_pad data) mod 64 = 0"
proof -
  obtain k where k: "k < 64" "pad_zeros (data @ [0x80]) = (data @ [0x80]) @ replicate k 0"
      "(length (data @ [0x80 :: u8]) + k) mod 64 = 56"
    using pad_zeros_shape by blast
  have len: "length (sha_pad data) = length data + 1 + k + 8"
    by (simp add: sha_pad_def Let_def k(2))
  have "(length data + 1 + k + 8) mod 64 = ((length data + 1 + k) mod 64 + 8) mod 64"
    by (simp only: mod_add_left_eq)
  also have "(length data + 1 + k) mod 64 = 56"
    using k(3) by (simp only: length_append list.size) simp
  finally have "(length data + 1 + k + 8) mod 64 = 0"
    by simp
  with len k(1) show ?thesis
    by (intro exI [of _ k]) simp
qed

lemma length_sha_compress [simp]: "length (sha_compress h msg off) = 8"
  by (simp add: sha_compress_def Let_def)

lemma length_sha_blocks: "length h = 8 \<Longrightarrow> length (sha_blocks msg off h) = 8"
proof (induction msg off h rule: sha_blocks.induct)
  case (1 msg off h)
  then show ?case
    by (subst sha_blocks.simps) simp
qed

lemma length_sha256 [simp, bytes_length]: "length (sha256 data) = 32"
proof -
  have "length (concat (map sha_out hs)) = 4 * length hs" for hs
    by (induction hs) (simp_all add: sha_out_def)
  then show ?thesis
    by (simp add: sha256_def length_sha_blocks sha_init_def)
qed

text \<open>The rotation is the library's rotation of 32-bit words.\<close>

lemma rotr_word_rotr:
  assumes "n < 32"
  shows "rotr x n = word_rotr n x"
proof (rule bit_word_eqI)
  fix k
  assume "k < LENGTH(32)"
  then have k: "k < 32" by simp
  show "bit (rotr x n) k \<longleftrightarrow> bit (word_rotr n x) k"
  proof (cases "k + n < 32")
    case True
    then have "\<not> 32 - n \<le> k" and "(k + n) mod 32 = k + n"
      using assms by auto
    then show ?thesis
      using k True by (simp add: rotr_def bit_or_iff bit_drop_bit_eq bit_push_bit_iff
          bit_word_rotr_iff add.commute)
  next
    case False
    then have "(k + n) mod 32 = k - (32 - n)" and "32 - n \<le> k"
      using assms k by (simp_all add: mod_if)
    moreover have "\<not> bit x (k + n)"
      using False by (auto dest: bit_imp_le_length)
    ultimately show ?thesis
      using k by (simp add: rotr_def bit_or_iff bit_drop_bit_eq bit_push_bit_iff
          bit_word_rotr_iff add.commute)
  qed
qed

text \<open>Every block gives a schedule of 64 words, so no round reads past the tables.\<close>

lemma length_sha_schedule [simp]: "length (sha_schedule msg off) = 64"
proof -
  have "length (foldl sha_extend w js) = length w + length js" for w js
    by (induction js arbitrary: w) (simp_all add: sha_extend_def Let_def)
  then show ?thesis
    by (simp add: sha_schedule_def del: foldl_Cons foldl.simps upt_Suc upt_rec_numeral)
qed

lemma length_sha_K [simp]: "length sha_K = 64"
  by (simp add: sha_K_def)

text \<open>Hex text determines the digest.\<close>

lemma hex_digits_nth_inject:
  assumes "i < 16" and "j < 16" and "hex_digits ! i = hex_digits ! j"
  shows "i = j"
proof -
  have "distinct hex_digits" and "length hex_digits = 16"
    by (simp_all add: hex_digits_def)
  then show ?thesis
    using assms by (simp add: nth_eq_iff_index_eq)
qed

lemma byte_hex_inject:
  fixes c c' :: u8
  assumes "hex_digits ! unat (drop_bit 4 c) = hex_digits ! unat (drop_bit 4 c')"
    and "hex_digits ! unat (c AND 0x0F) = hex_digits ! unat (c' AND 0x0F)"
  shows "c = c'"
proof -
  have hi: "unat (drop_bit 4 x) < 16" and lo: "unat (x AND 0x0F) < 16" for x :: u8
  proof -
    show "unat (drop_bit 4 x) < 16"
      using unsigned_less [of x, where ?'a = nat] by (simp add: drop_bit_eq_div unat_div_distrib)
    have "x AND 0x0F = take_bit 4 x"
      by (simp add: take_bit_eq_mask mask_eq_decr_exp)
    then show "unat (x AND 0x0F) < 16"
      by (simp add: take_bit_eq_mod unat_mod_distrib)
  qed
  have d: "drop_bit 4 c = drop_bit 4 c'" and a: "c AND 0x0F = c' AND 0x0F"
    using assms hex_digits_nth_inject hi lo by (metis word_unat_eq_iff)+
  have m: "x AND 0x0F = take_bit 4 x" for x :: u8
    by (simp add: take_bit_eq_mask mask_eq_decr_exp)
  show ?thesis
    using a d unfolding m by (metis bits_ident)
qed

lemma length_sha_hex [simp, bytes_length]: "length (sha_hex d) = 2 * length d"
  by (induction d) (simp_all add: sha_hex_def)

lemma sha_hex_inject: "sha_hex a = sha_hex b \<longleftrightarrow> a = b"
proof
  show "sha_hex a = sha_hex b \<Longrightarrow> a = b"
  proof (induction a arbitrary: b)
    case Nil
    then show ?case by (cases b) (simp_all add: sha_hex_def)
  next
    case (Cons c a)
    then obtain c' b' where b: "b = c' # b'"
      by (cases b) (simp_all add: sha_hex_def)
    have "sha_hex a = sha_hex b'" "c = c'"
      using Cons.prems by (auto simp: sha_hex_def b intro: byte_hex_inject)
    with Cons.IH show ?case by (simp add: b)
  qed
qed simp

end
