(* ===== verification/Double.thy ===== *)
theory Double
  imports Prelude
begin

text \<open>
  \<^verbatim>\<open>double\<close> as the code uses it: the IEEE 754 binary64 bit pattern (\<^verbatim>\<open>std::bit_cast\<close>), the
  classification \<^verbatim>\<open>std::isfinite\<close>, the comparisons and the conversion from 64-bit unsigned
  integers. Finite values are compared exactly, as integers scaled by \<open>2 ^ 1074\<close>.
\<close>

type_synonym double = u64

definition exponent :: "double \<Rightarrow> nat" where
  "exponent d = unat (drop_bit 52 d AND 0x7FF)"

definition mantissa :: "double \<Rightarrow> nat" where
  "mantissa d = unat (d AND 0xFFFFFFFFFFFFF)"

definition isfinite :: "double \<Rightarrow> bool" where
  "isfinite d \<longleftrightarrow> exponent d \<noteq> 0x7FF"

definition isnan :: "double \<Rightarrow> bool" where
  "isnan d \<longleftrightarrow> exponent d = 0x7FF \<and> mantissa d \<noteq> 0"

text \<open>
  The value of a bit pattern times \<open>2 ^ 1074\<close>; an infinity gets a value beyond every finite
  one.
\<close>

definition scaled :: "double \<Rightarrow> int" where
  "scaled d =
     (let m = (if exponent d = 0 then mantissa d else mantissa d + 2 ^ 52);
          v = int m * 2 ^ (if exponent d = 0 then 0 else exponent d - 1)
      in if bit d 63 then - v else v)"

definition double_eq :: "double \<Rightarrow> double \<Rightarrow> bool" where
  "double_eq a b \<longleftrightarrow> \<not> isnan a \<and> \<not> isnan b \<and> scaled a = scaled b"

text \<open>
  \<^verbatim>\<open>static_cast<double>\<close> of an unsigned integer, as a scaled value: exact below \<open>2 ^ 53\<close>, else
  rounded to nearest with ties to even.
\<close>

fun bit_len :: "nat \<Rightarrow> nat" where
  "bit_len n = (if n = 0 then 0 else Suc (bit_len (n div 2)))"

declare bit_len.simps [simp del]

definition round_nat :: "nat \<Rightarrow> nat" where
  "round_nat n =
     (if n < 2 ^ 53 then n
      else let k = bit_len n - 53; q = n div 2 ^ k; r = n mod 2 ^ k; half = 2 ^ (k - 1)
           in (if r > half \<or> r = half \<and> odd q then q + 1 else q) * 2 ^ k)"

definition scaled_of_u64 :: "u64 \<Rightarrow> int" where
  "scaled_of_u64 v = int (round_nat (unat v)) * 2 ^ 1074"

lemma double_eq_refl: "isfinite d \<Longrightarrow> double_eq d d"
  by (simp add: double_eq_def isfinite_def isnan_def)

lemma double_eq_sym: "double_eq a b \<longleftrightarrow> double_eq b a"
  by (auto simp: double_eq_def)

text \<open>Rounding is monotone enough for the comparisons: exact integers keep their order.\<close>

lemma scaled_of_u64_exact: "unat v < 2 ^ 53 \<Longrightarrow> scaled_of_u64 v = int (unat v) * 2 ^ 1074"
  by (simp add: scaled_of_u64_def round_nat_def)

end
