(* ===== verification/Canonical.thy ===== *)
theory Canonical
  imports Identity Sha256 Double
begin

text \<open>
  \<^verbatim>\<open>include/compat/canonical.hpp\<close> and the construction and encoding half of
  \<^verbatim>\<open>src/compat/canonical.cpp\<close>: the canonical value tree, its factories and accessors, the binary
  encoder and the fingerprint.
\<close>

section \<open>The value tree\<close>

text \<open>
  \<^verbatim>\<open>class Canon\<close> holds a kind and one field per kind, of which only the one of its kind is ever
  set; that is a datatype with one constructor per kind. \<^verbatim>\<open>CInt\<close> keeps the 64 bits of an
  \<^verbatim>\<open>std::int64_t\<close>, \<^verbatim>\<open>CFloat\<close> those of a \<^verbatim>\<open>double\<close>.
\<close>

datatype canon =
    CNull
  | CUint u64
  | CInt u64
  | CBool bool
  | CStr string
  | CBytes string
  | CUuid uuid
  | CFloat double
  | CRecord "(u32 \<times> canon) list"
  | CSeq "canon list"

type_synonym crecord = "(u32 \<times> canon) list"

datatype canon_kind =
    KNull | KUint | KInt | KBool | KStr | KBytes | KUuid | KFloat | KRecord | KSequence

fun kind :: "canon \<Rightarrow> canon_kind" where
  "kind CNull = KNull"
| "kind (CUint _) = KUint"
| "kind (CInt _) = KInt"
| "kind (CBool _) = KBool"
| "kind (CStr _) = KStr"
| "kind (CBytes _) = KBytes"
| "kind (CUuid _) = KUuid"
| "kind (CFloat _) = KFloat"
| "kind (CRecord _) = KRecord"
| "kind (CSeq _) = KSequence"

definition as_uint :: "canon \<Rightarrow> u64 res" where
  "as_uint c = (case c of CUint v \<Rightarrow> Inr v | _ \<Rightarrow> Inl (Canon_Error ''Canon::as_uint: not Uint''))"

definition as_int :: "canon \<Rightarrow> u64 res" where
  "as_int c = (case c of CInt v \<Rightarrow> Inr v | _ \<Rightarrow> Inl (Canon_Error ''Canon::as_int: not Int''))"

definition as_bool :: "canon \<Rightarrow> bool res" where
  "as_bool c = (case c of CBool v \<Rightarrow> Inr v | _ \<Rightarrow> Inl (Canon_Error ''Canon::as_bool: not Bool''))"

definition as_string :: "canon \<Rightarrow> string res" where
  "as_string c = (case c of CStr s \<Rightarrow> Inr s | CBytes s \<Rightarrow> Inr s
     | _ \<Rightarrow> Inl (Canon_Error ''Canon::as_string: not String/Bytes''))"

definition as_uuid :: "canon \<Rightarrow> uuid res" where
  "as_uuid c = (case c of CUuid v \<Rightarrow> Inr v | _ \<Rightarrow> Inl (Canon_Error ''Canon::as_uuid: not Uuid''))"

definition as_float :: "canon \<Rightarrow> double res" where
  "as_float c = (case c of CFloat v \<Rightarrow> Inr v | _ \<Rightarrow> Inl (Canon_Error ''Canon::as_float: not Float''))"

text \<open>\<^verbatim>\<open>as_record\<close> and \<^verbatim>\<open>as_seq\<close> check nothing: on another kind they give the empty container.\<close>

definition as_record :: "canon \<Rightarrow> crecord" where
  "as_record c = (case c of CRecord r \<Rightarrow> r | _ \<Rightarrow> [])"

definition as_seq :: "canon \<Rightarrow> canon list" where
  "as_seq c = (case c of CSeq q \<Rightarrow> q | _ \<Rightarrow> [])"

lemmas accessor_defs = as_uint_def as_int_def as_bool_def as_string_def as_uuid_def as_float_def

lemma as_record_simps [simp]:
  "as_record (CRecord r) = r" "as_seq (CSeq q) = q"
  by (simp_all add: as_record_def as_seq_def)

section \<open>Factories\<close>

definition tag_less :: "u32 \<times> 'a \<Rightarrow> u32 \<times> 'a \<Rightarrow> bool" where
  "tag_less a b \<longleftrightarrow> fst a < fst b"

interpretation tag_order: comparator tag_less
  by unfold_locales (auto simp: tag_less_def)

fun dup_tag :: "(u32 \<times> 'a) list \<Rightarrow> u32 option" where
  "dup_tag (a # b # r) = (if fst b = fst a then Some (fst b) else dup_tag (b # r))"
| "dup_tag r = None"

definition mk_float :: "double \<Rightarrow> canon res" where
  "mk_float v =
     (if \<not> isfinite v then Inl (Canon_Error ''Canon::mk_float: NaN/Inf not allowed in canonical encoding'')
      else Inr (CFloat v))"

definition mk_record :: "crecord \<Rightarrow> canon res" where
  "mk_record r =
     (let r' = sort_by tag_less r in
      case dup_tag r' of
        Some t \<Rightarrow> Inl (Canon_Error (''Canon::mk_record: duplicate tag '' @ show_nat (unat t)))
      | None \<Rightarrow> Inr (CRecord r'))"

text \<open>
  \<^verbatim>\<open>std::lower_bound\<close> on a sequence sorted by tag: the suffix that starts at the first tag not
  below the wanted one.
\<close>

definition lower_bound :: "(u32 \<times> 'a) list \<Rightarrow> u32 \<Rightarrow> (u32 \<times> 'a) list" where
  "lower_bound r tag = dropWhile (\<lambda>e. fst e < tag) r"

definition field :: "canon \<Rightarrow> u32 \<Rightarrow> canon option" where
  "field c tag =
     (case c of
        CRecord r \<Rightarrow> (case lower_bound r tag of
            [] \<Rightarrow> None
          | e # _ \<Rightarrow> if fst e = tag then Some (snd e) else None)
      | _ \<Rightarrow> None)"

section \<open>Encoder\<close>

definition w_u8 :: "u8 \<Rightarrow> bytes" where
  "w_u8 v = [v]"

definition w_u32be :: "u32 \<Rightarrow> bytes" where
  "w_u32be v = [ucast (drop_bit 24 v AND 0xFF), ucast (drop_bit 16 v AND 0xFF),
     ucast (drop_bit 8 v AND 0xFF), ucast (v AND 0xFF)]"

definition w_u64be :: "u64 \<Rightarrow> bytes" where
  "w_u64be v = map (\<lambda>i. ucast (drop_bit (i * 8) v AND 0xFF)) (rev [0..<8])"

definition str_bytes :: "string \<Rightarrow> bytes" where
  "str_bytes s = map (\<lambda>c. word_of_nat (of_char c)) s"

definition bytes_str :: "bytes \<Rightarrow> string" where
  "bytes_str bs = map (\<lambda>b. char_of (unat b)) bs"

definition len32 :: "'a list \<Rightarrow> u32" where
  "len32 xs = word_of_nat (length xs)"

lemma size_list_mset: "size_list f xs = sum_mset (image_mset f (mset xs)) + length xs"
  by (induction xs) simp_all

lemma size_list_sort_by [simp]: "size_list f (sort_by lt xs) = size_list f xs"
  by (simp add: size_list_mset)

text \<open>
  \<^verbatim>\<open>append_element\<close>, as the bytes it appends. A record is sorted once more and checked for
  duplicates before its body is written; lengths are truncated to 32 bits.
\<close>

function append_element :: "canon \<Rightarrow> bytes res"
  and append_entries :: "crecord \<Rightarrow> bytes res"
  and append_elements :: "canon list \<Rightarrow> bytes res" where
  "append_element CNull = Inr (w_u8 0 @ w_u32be 0)"
| "append_element (CUint v) = Inr (w_u8 1 @ w_u32be 8 @ w_u64be v)"
| "append_element (CInt v) = Inr (w_u8 2 @ w_u32be 8 @ w_u64be v)"
| "append_element (CBool b) = Inr (w_u8 3 @ w_u32be 1 @ [if b then 1 else 0])"
| "append_element (CStr s) = Inr (w_u8 4 @ w_u32be (len32 s) @ str_bytes s)"
| "append_element (CBytes s) = Inr (w_u8 5 @ w_u32be (len32 s) @ str_bytes s)"
| "append_element (CUuid u) = Inr (w_u8 6 @ w_u32be 16 @ uuid_bytes u)"
| "append_element (CFloat d) = Inr (w_u8 7 @ w_u32be 8 @ w_u64be d)"
| "append_element (CRecord r) =
     (let r' = sort_by tag_less r in
      case dup_tag r' of
        Some t \<Rightarrow> Inl (Canon_Error ''canonical_encode: duplicate record tag'')
      | None \<Rightarrow> bindE (append_entries r') (\<lambda>body. Inr (w_u8 8 @ w_u32be (len32 body) @ body)))"
| "append_element (CSeq q) =
     bindE (append_elements q) (\<lambda>body. Inr (w_u8 9 @ w_u32be (len32 body) @ body))"
| "append_entries [] = Inr []"
| "append_entries ((t, c) # r) =
     bindE (append_element c) (\<lambda>b. bindE (append_entries r) (\<lambda>bs. Inr (w_u32be t @ b @ bs)))"
| "append_elements [] = Inr []"
| "append_elements (c # q) =
     bindE (append_element c) (\<lambda>b. bindE (append_elements q) (\<lambda>bs. Inr (b @ bs)))"
  by pat_completeness auto
termination
  by (relation "measure (\<lambda>x. case x of Inl c \<Rightarrow> 2 * size c
      | Inr (Inl r) \<Rightarrow> 2 * size_list (size_prod (\<lambda>_. 0) size) r + 1
      | Inr (Inr q) \<Rightarrow> 2 * size_list size q + 1)") auto

definition k_magic :: bytes where
  "k_magic = [0x43, 0x52, 0x43, 0x46]"

definition k_version :: u8 where
  "k_version = 1"

definition canonical_encode :: "canon \<Rightarrow> bytes res" where
  "canonical_encode c = bindE (append_element c) (\<lambda>e. Inr (k_magic @ [k_version] @ e))"

definition canonical_fingerprint :: "canon \<Rightarrow> digest res" where
  "canonical_fingerprint c = bindE (canonical_encode c) (\<lambda>enc. Inr (sha256 enc))"

definition canonical_fingerprint_hex :: "canon \<Rightarrow> string res" where
  "canonical_fingerprint_hex c = bindE (canonical_fingerprint c) (\<lambda>d. Inr (sha_hex d))"

section \<open>The class invariant\<close>

text \<open>
  \<open>canon_ok\<close> is what the factories establish and the decoder checks: tags of a record strictly
  increase and floats are finite, at every depth. \<open>canon_fits\<close> says that every length fits the
  32 bits it is written in, which the encoder takes for granted.
\<close>

abbreviation tags_ok :: "(u32 \<times> 'a) list \<Rightarrow> bool" where
  "tags_ok r \<equiv> sorted_wrt (<) (map fst r)"

fun canon_ok :: "canon \<Rightarrow> bool" where
  "canon_ok (CFloat d) = isfinite d"
| "canon_ok (CRecord r) = (tags_ok r \<and> (\<forall>e \<in> set r. canon_ok (snd e)))"
| "canon_ok (CSeq q) = (\<forall>c \<in> set q. canon_ok c)"
| "canon_ok c = True"

text \<open>The reference encoding: kind, length, payload, without sorting or checking.\<close>

definition element :: "u8 \<Rightarrow> bytes \<Rightarrow> bytes" where
  "element k body = k # be_bytes 4 (len32 body) @ body"

fun enc :: "canon \<Rightarrow> bytes" where
  "enc CNull = element 0 []"
| "enc (CUint v) = element 1 (be_bytes 8 v)"
| "enc (CInt v) = element 2 (be_bytes 8 v)"
| "enc (CBool b) = element 3 [if b then 1 else 0]"
| "enc (CStr s) = element 4 (str_bytes s)"
| "enc (CBytes s) = element 5 (str_bytes s)"
| "enc (CUuid u) = element 6 (uuid_bytes u)"
| "enc (CFloat d) = element 7 (be_bytes 8 d)"
| "enc (CRecord r) = element 8 (concat (map (\<lambda>e. be_bytes 4 (fst e) @ enc (snd e)) r))"
| "enc (CSeq q) = element 9 (concat (map enc q))"

abbreviation enc_entries :: "crecord \<Rightarrow> bytes" where
  "enc_entries r \<equiv> concat (map (\<lambda>e. be_bytes 4 (fst e) @ enc (snd e)) r)"

abbreviation enc_elements :: "canon list \<Rightarrow> bytes" where
  "enc_elements q \<equiv> concat (map enc q)"

fun canon_fits :: "canon \<Rightarrow> bool" where
  "canon_fits (CStr s) = (length s < 2 ^ 32)"
| "canon_fits (CBytes s) = (length s < 2 ^ 32)"
| "canon_fits (CRecord r) = (length (enc_entries r) < 2 ^ 32 \<and> (\<forall>e \<in> set r. canon_fits (snd e)))"
| "canon_fits (CSeq q) = (length (enc_elements q) < 2 ^ 32 \<and> (\<forall>c \<in> set q. canon_fits c))"
| "canon_fits c = True"

section \<open>Basic facts\<close>

lemma low_byte: "(ucast (x AND 0xFF) :: u8) = ucast (x :: 'a::len word)"
proof -
  have "x AND 0xFF = take_bit 8 x"
    by (simp add: take_bit_eq_mask mask_eq_exp_minus_1)
  then show ?thesis
    by (auto intro!: bit_word_eqI simp: bit_ucast_iff bit_take_bit_iff)
qed

lemma w_u32be_be_bytes: "w_u32be v = be_bytes 4 v"
  by (simp add: w_u32be_def be_bytes_def low_byte upt_rec)

lemma w_u64be_be_bytes: "w_u64be v = be_bytes 8 v"
  by (simp add: w_u64be_def be_bytes_def low_byte upt_rec)

lemma length_str_bytes [simp, bytes_length]: "length (str_bytes s) = length s"
  by (simp add: str_bytes_def)

lemma length_bytes_str [simp, bytes_length]: "length (bytes_str bs) = length bs"
  by (simp add: bytes_str_def)

lemma bytes_str_str_bytes [simp]: "bytes_str (str_bytes s) = s"
  by (induction s) (simp_all add: bytes_str_def str_bytes_def unsigned_of_nat take_bit_eq_mod)

lemma str_bytes_bytes_str [simp]: "str_bytes (bytes_str bs) = bs"
proof (induction bs)
  case Nil
  show ?case by (simp add: bytes_str_def str_bytes_def)
next
  case (Cons b bs)
  have "unat b < 256"
    using unsigned_less [of b] by simp
  with Cons show ?case
    by (simp add: bytes_str_def str_bytes_def)
qed

lemma length_element [simp, bytes_length]: "length (element k body) = 5 + length body"
  by (simp add: element_def)

lemma sorted_tags_of_sorted:
  "sorted_wrt (\<lambda>a b. \<not> tag_less b a) r \<Longrightarrow> dup_tag r = None \<longleftrightarrow> tags_ok r"
proof (induction r rule: dup_tag.induct)
  case (1 a b r)
  then show ?case
    by (auto simp: tag_less_def not_less)
qed simp_all

lemma tags_ok_distinct: "tags_ok r \<Longrightarrow> distinct (map fst r)"
  by (simp add: strict_sorted_iff)

lemma distinct_tags_ok_sort: "distinct (map fst r) \<longleftrightarrow> tags_ok (sort_by tag_less r)"
proof -
  let ?s = "sort_by tag_less r"
  have "mset (map fst r) = mset (map fst ?s)"
    by (simp add: mset_map)
  then have "distinct (map fst r) \<longleftrightarrow> distinct (map fst ?s)"
    by (rule mset_eq_imp_distinct_iff)
  moreover have "sorted (map fst ?s)"
    using tag_order.sorted_sort_by [of r] by (simp add: sorted_wrt_map tag_less_def not_less)
  ultimately show ?thesis
    by (simp add: strict_sorted_iff)
qed

lemma sort_by_tags_ok:
  assumes "tags_ok r"
  shows "sort_by tag_less r = r"
proof (rule tag_order.sort_by_id)
  show "sorted_wrt (\<lambda>a b. \<not> tag_less b a) r"
    using assms by (auto simp: sorted_wrt_map tag_less_def elim: sorted_wrt_mono_rel [rotated])
next
  fix a b
  assume "a \<in> set r" "b \<in> set r" "a \<noteq> b"
  then have "fst a \<noteq> fst b"
    using tags_ok_distinct [OF assms] by (auto simp: distinct_map inj_on_def)
  then show "tag_less a b \<or> tag_less b a"
    by (auto simp: tag_less_def)
qed

lemma dup_tag_sort: "dup_tag (sort_by tag_less r) = None \<longleftrightarrow> distinct (map fst r)"
  by (simp add: sorted_tags_of_sorted tag_order.sorted_sort_by distinct_tags_ok_sort)

lemma dup_tag_tags_ok: "tags_ok r \<Longrightarrow> dup_tag r = None"
  using dup_tag_sort [of r] by (simp add: sort_by_tags_ok tags_ok_distinct)

lemma mk_record_eq_Inr:
  "mk_record r = Inr c \<longleftrightarrow> distinct (map fst r) \<and> c = CRecord (sort_by tag_less r)"
  by (auto simp: mk_record_def Let_def dup_tag_sort [symmetric] split: option.splits)

lemma mk_record_tags_ok: "tags_ok r \<Longrightarrow> mk_record r = Inr (CRecord r)"
  by (simp add: mk_record_eq_Inr tags_ok_distinct sort_by_tags_ok)

lemma canon_ok_mk_record:
  "mk_record r = Inr c \<Longrightarrow> (\<And>e. e \<in> set r \<Longrightarrow> canon_ok (snd e)) \<Longrightarrow> canon_ok c"
  by (auto simp: mk_record_eq_Inr distinct_tags_ok_sort)

lemma canon_ok_mk_float: "mk_float d = Inr c \<Longrightarrow> canon_ok c"
  by (auto simp: mk_float_def split: if_splits)

lemma field_map_of:
  assumes "tags_ok r"
  shows "field (CRecord r) tag = map_of r tag"
  using assms
proof (induction r)
  case Nil
  show ?case by (simp add: field_def lower_bound_def)
next
  case (Cons e r)
  have "map_of r tag = None" if "tag \<le> fst e"
    using Cons.prems that by (auto simp: map_of_eq_None_iff)
  then show ?case
    using Cons by (cases e) (auto simp: field_def lower_bound_def)
qed

lemma field_not_record: "kind c \<noteq> KRecord \<Longrightarrow> field c tag = None"
  by (cases c) (simp_all add: field_def)

lemma lower_bound_Cons_in: "lower_bound r tag = e # es \<Longrightarrow> e \<in> set r"
  unfolding lower_bound_def by (metis list.set_intros(1) set_dropWhileD)

lemma field_SomeD: "field c tag = Some v \<Longrightarrow> \<exists>r. c = CRecord r \<and> (tag, v) \<in> set r"
  by (auto simp: field_def split: canon.splits list.splits if_splits dest!: lower_bound_Cons_in)

lemma canon_ok_field: "canon_ok c \<Longrightarrow> field c tag = Some v \<Longrightarrow> canon_ok v"
  by (fastforce dest!: field_SomeD)

text \<open>On well-formed values the encoder is total and computes the reference encoding.\<close>

lemma append_element_enc:
  "canon_ok c \<Longrightarrow> append_element c = Inr (enc c)"
  "(\<forall>e \<in> set r. canon_ok (snd e)) \<Longrightarrow> append_entries r = Inr (enc_entries r)"
  "(\<forall>c \<in> set q. canon_ok c) \<Longrightarrow> append_elements q = Inr (enc_elements q)"
proof (induction c and r and q rule: append_element_append_entries_append_elements.induct)
  case (9 r)
  then show ?case
    by (simp add: sort_by_tags_ok dup_tag_tags_ok element_def w_u8_def w_u32be_be_bytes)
qed (simp_all add: element_def w_u8_def w_u32be_be_bytes w_u64be_be_bytes len32_def)

lemma canonical_encode_enc: "canon_ok c \<Longrightarrow> canonical_encode c = Inr (k_magic @ [k_version] @ enc c)"
  by (simp add: canonical_encode_def append_element_enc)

lemma canonical_fingerprint_hex_enc:
  "canon_ok c \<Longrightarrow> canonical_fingerprint_hex c = Inr (sha_hex (sha256 (k_magic @ [k_version] @ enc c)))"
  by (simp add: canonical_fingerprint_hex_def canonical_fingerprint_def canonical_encode_enc)

end
