(* ===== verification/Decode.thy ===== *)
theory Decode
  imports Canonical
begin

text \<open>
  The decoding half of \<^verbatim>\<open>src/compat/canonical.cpp\<close>: the bounded reader, the recursive
  \<^verbatim>\<open>parse_element\<close> and \<^verbatim>\<open>canonical_decode\<close>, with the two directions of the round trip.
\<close>

section \<open>The reader\<close>

text \<open>
  A \<^verbatim>\<open>Reader\<close> is the buffer and a position; each operation returns its value and the new
  position. \<^verbatim>\<open>std::size_t\<close> subtraction wraps, which \<open>size_sub\<close> spells out. Every access to
  the buffer that no check of the code protects is \<open>Out_Of_Bounds\<close> when it leaves the buffer.
\<close>

definition size_sub :: "nat \<Rightarrow> nat \<Rightarrow> nat" where
  "size_sub a b = (if b \<le> a then a - b else 2 ^ 64 + a - b)"

definition rd_u8 :: "bytes \<Rightarrow> nat \<Rightarrow> (u8 \<times> nat) res" where
  "rd_u8 data pos =
     (if pos \<ge> length data then Inl (Canon_Error ''decode: unexpected end (u8)'')
      else Inr (data ! pos, pos + 1))"

definition rd_u32be :: "bytes \<Rightarrow> nat \<Rightarrow> (u32 \<times> nat) res" where
  "rd_u32be data pos =
     (if size_sub (length data) pos < 4 then Inl (Canon_Error ''decode: unexpected end (u32)'')
      else if pos + 4 > length data then Inl Out_Of_Bounds
      else Inr (push_bit 24 (ucast (data ! pos)) OR push_bit 16 (ucast (data ! (pos + 1)))
          OR push_bit 8 (ucast (data ! (pos + 2))) OR ucast (data ! (pos + 3)), pos + 4))"

definition rd_u64be :: "bytes \<Rightarrow> nat \<Rightarrow> (u64 \<times> nat) res" where
  "rd_u64be data pos =
     (if size_sub (length data) pos < 8 then Inl (Canon_Error ''decode: unexpected end (u64)'')
      else if pos + 8 > length data then Inl Out_Of_Bounds
      else Inr (foldl (\<lambda>v i. push_bit 8 v OR ucast (data ! (pos + i))) 0 [0..<8], pos + 8))"

fun rd_bytes :: "nat \<Rightarrow> bytes \<Rightarrow> nat \<Rightarrow> (bytes \<times> nat) res" where
  "rd_bytes 0 data pos = Inr ([], pos)"
| "rd_bytes (Suc n) data pos =
     bindE (rd_u8 data pos) (\<lambda>(b, pos). bindE (rd_bytes n data pos) (\<lambda>(bs, pos). Inr (b # bs, pos)))"

text \<open>\<^verbatim>\<open>memcpy\<close> of \<open>n\<close> bytes out of the buffer, which nothing checks.\<close>

definition rd_memcpy :: "nat \<Rightarrow> bytes \<Rightarrow> nat \<Rightarrow> bytes res" where
  "rd_memcpy n data pos =
     (if pos + n > length data then Inl Out_Of_Bounds else Inr (take n (drop pos data)))"

section \<open>The parser\<close>

text \<open>
  The cases of \<^verbatim>\<open>parse_element\<close>'s switch that do not recurse: kinds 0 to 7 and the throw after
  the switch. \<open>pos\<close> is the position after the header, \<open>payload_end\<close> where the payload has to end.
\<close>

definition parse_leaf :: "u8 \<Rightarrow> u32 \<Rightarrow> bytes \<Rightarrow> nat \<Rightarrow> nat \<Rightarrow> (canon \<times> nat) res" where
  "parse_leaf kk len data pos payload_end =
     (if kk = 0 then
       (if len \<noteq> 0 then Inl (Canon_Error ''decode: Null length != 0'') else Inr (CNull, payload_end))
     else if kk = 1 then
       (if len \<noteq> 8 then Inl (Canon_Error ''decode: Uint length != 8'') else
        bindE (rd_u64be data pos) (\<lambda>(v, pos).
        if pos \<noteq> payload_end then Inl (Canon_Error ''decode: Uint trailing bytes'')
        else Inr (CUint v, pos)))
     else if kk = 2 then
       (if len \<noteq> 8 then Inl (Canon_Error ''decode: Int length != 8'') else
        bindE (rd_u64be data pos) (\<lambda>(v, pos).
        if pos \<noteq> payload_end then Inl (Canon_Error ''decode: Int trailing bytes'')
        else Inr (CInt v, pos)))
     else if kk = 3 then
       (if len \<noteq> 1 then Inl (Canon_Error ''decode: Bool length != 1'') else
        bindE (rd_u8 data pos) (\<lambda>(v, pos).
        if v \<noteq> 0 \<and> v \<noteq> 1 then Inl (Canon_Error ''decode: invalid bool value'')
        else if pos \<noteq> payload_end then Inl (Canon_Error ''decode: Bool trailing bytes'')
        else Inr (CBool (v = 1), pos)))
     else if kk = 4 \<or> kk = 5 then
       bindE (if len \<noteq> 0 then bindE (rd_memcpy (unat len) data pos) (\<lambda>s. Inr (bytes_str s, payload_end))
              else Inr ([], pos)) (\<lambda>(s, pos).
       if kk = 4 then Inr (CStr s, pos) else Inr (CBytes s, pos))
     else if kk = 6 then
       (if len \<noteq> 16 then Inl (Canon_Error ''decode: Uuid length != 16'') else
        bindE (rd_bytes 16 data pos) (\<lambda>(bs, pos).
        if pos \<noteq> payload_end then Inl (Canon_Error ''decode: Uuid trailing bytes'')
        else Inr (CUuid (uuid_of_bytes bs), pos)))
     else if kk = 7 then
       (if len \<noteq> 8 then Inl (Canon_Error ''decode: Float length != 8'') else
        bindE (rd_u64be data pos) (\<lambda>(v, pos).
        if pos \<noteq> payload_end then Inl (Canon_Error ''decode: Float trailing bytes'')
        else if \<not> isfinite v then Inl (Canon_Error ''decode: Float NaN/Inf not allowed'')
        else bindE (mk_float v) (\<lambda>c. Inr (c, pos))))
     else Inl (Canon_Error (''decode: unknown kind '' @ show_nat (unat kk))))"

function parse_element :: "bytes \<Rightarrow> nat \<Rightarrow> nat \<Rightarrow> (canon \<times> nat) res"
  and parse_entries :: "bytes \<Rightarrow> nat \<Rightarrow> nat \<Rightarrow> u64 \<Rightarrow> bool \<Rightarrow> (crecord \<times> nat) res"
  and parse_elements :: "bytes \<Rightarrow> nat \<Rightarrow> nat \<Rightarrow> (canon list \<times> nat) res" where
  "parse_element data pos0 end0 =
     bindE (rd_u8 data pos0) (\<lambda>(kk, pos1).
     bindE (rd_u32be data pos1) (\<lambda>(len, pos).
     if size_sub end0 pos < unat len
     then Inl (Canon_Error ''decode: child element length exceeds segment'') else
     let payload_end = pos + unat len in
     if kk = 8 then
       bindE (parse_entries data pos payload_end 0 True) (\<lambda>(r, pos).
       if pos \<noteq> payload_end then Inl (Canon_Error ''decode: record segment overrun'')
       else bindE (mk_record r) (\<lambda>c. Inr (c, pos)))
     else if kk = 9 then
       bindE (parse_elements data pos payload_end) (\<lambda>(q, pos).
       if pos \<noteq> payload_end then Inl (Canon_Error ''decode: sequence segment overrun'')
       else Inr (CSeq q, pos))
     else parse_leaf kk len data pos payload_end))"
| "parse_entries data pos0 payload_end last_tag first =
     (if pos0 < payload_end then
        bindE (rd_u32be data pos0) (\<lambda>(tag, pos1).
        if \<not> first \<and> ucast tag \<le> last_tag
        then Inl (Canon_Error ''decode: record tags not strictly increasing (duplicate/out-of-order)'')
        else bindE (parse_element data pos1 payload_end) (\<lambda>(c, pos).
        bindE (parse_entries data pos payload_end (ucast tag) False) (\<lambda>(r, pos).
        Inr ((tag, c) # r, pos))))
      else Inr ([], pos0))"
| "parse_elements data pos0 payload_end =
     (if pos0 < payload_end then
        bindE (parse_element data pos0 payload_end) (\<lambda>(c, pos).
        bindE (parse_elements data pos payload_end) (\<lambda>(q, pos).
        Inr (c # q, pos)))
      else Inr ([], pos0))"
  by pat_completeness auto

text \<open>Termination needs to know that an element consumes its five header bytes and stays inside.\<close>

lemma rd_u8_Inr: "rd_u8 data pos = Inr (b, pos') \<longleftrightarrow> pos < length data \<and> b = data ! pos \<and> pos' = pos + 1"
  by (auto simp: rd_u8_def)

lemma take_drop_nth: "pos + n \<le> length data \<Longrightarrow> take n (drop pos data) = map (\<lambda>i. data ! (pos + i)) [0..<n]"
  by (rule nth_equalityI) simp_all

lemma rd_u32be_Inr:
  "rd_u32be data pos = Inr (v, pos') \<longleftrightarrow>
     pos + 4 \<le> length data \<and> v = be_word (take 4 (drop pos data)) \<and> pos' = pos + 4"
proof -
  have "be_word [a, b, c, d] = push_bit 24 (ucast a) OR push_bit 16 (ucast b)
      OR push_bit 8 (ucast c) OR (ucast d :: u32)" for a b c d :: u8
    by (simp add: be_word_def push_bit_or or.assoc)
  then show ?thesis
    by (auto simp: rd_u32be_def size_sub_def take_drop_nth upt_rec numeral_2_eq_2 numeral_3_eq_3)
qed

lemma rd_u64be_Inr:
  "rd_u64be data pos = Inr (v, pos') \<longleftrightarrow>
     pos + 8 \<le> length data \<and> v = be_word (take 8 (drop pos data)) \<and> pos' = pos + 8"
  by (auto simp: rd_u64be_def size_sub_def take_drop_nth be_word_def foldl_map
      simp del: upt_rec_numeral)

lemma rd_bytes_Inr:
  "n > 0 \<Longrightarrow> rd_bytes n data pos = Inr (bs, pos') \<longleftrightarrow>
     pos + n \<le> length data \<and> bs = take n (drop pos data) \<and> pos' = pos + n"
proof (induction n arbitrary: pos bs)
  case 0
  then show ?case by simp
next
  case (Suc n)
  show ?case
  proof (cases "n = 0")
    case True
    then show ?thesis
      by (auto simp: bindE_eq_Inr rd_u8_Inr take_drop_nth)
  next
    case False
    have "drop pos data = data ! pos # drop (Suc pos) data" if "pos < length data"
      using that by (simp add: Cons_nth_drop_Suc)
    then show ?thesis
      using False Suc.IH by (auto simp: bindE_eq_Inr rd_u8_Inr)
  qed
qed

lemma rd_memcpy_Inr: "rd_memcpy n data pos = Inr bs \<longleftrightarrow> pos + n \<le> length data \<and> bs = take n (drop pos data)"
  by (auto simp: rd_memcpy_def)

lemmas rd_Inr = rd_u8_Inr rd_u32be_Inr rd_u64be_Inr rd_memcpy_Inr

lemma parse_leaf_pos:
  "parse_leaf kk len data pos (pos + unat len) = Inr (c, pos') \<Longrightarrow>
     pos' = pos + unat len \<and> (pos \<le> length data \<longrightarrow> pos' \<le> length data)"
  unfolding parse_leaf_def
  by (auto simp: bindE_eq_Inr rd_Inr rd_bytes_Inr mk_float_def split: if_splits)

text \<open>The header of an element at \<open>pos\<close>: one kind byte and a 32-bit length.\<close>

definition hd_len :: "bytes \<Rightarrow> nat \<Rightarrow> u32" where
  "hd_len data pos = be_word (take 4 (drop (pos + 1) data))"

lemma rd_header:
  assumes "pos + 5 \<le> length data"
  shows "rd_u8 data pos = Inr (data ! pos, pos + 1)"
    and "rd_u32be data (pos + 1) = Inr (hd_len data pos, pos + 5)"
  using assms by (simp_all add: rd_u8_Inr rd_u32be_Inr hd_len_def)

lemma bind_header:
  "bindE (rd_u8 data pos) (\<lambda>(kk, pos1). bindE (rd_u32be data pos1) (\<lambda>(len, p). F kk len p)) = Inr w \<longleftrightarrow>
     pos + 5 \<le> length data \<and> F (data ! pos) (hd_len data pos) (pos + 5) = Inr w"
  by (auto simp: bindE_eq_Inr rd_u8_Inr rd_u32be_Inr hd_len_def add.commute)

lemma parse_consumes:
  "parse_element_parse_entries_parse_elements_dom (Inl (data, pos, e)) \<Longrightarrow>
     parse_element data pos e = Inr (c, pos') \<Longrightarrow> pos + 5 \<le> pos' \<and> pos' \<le> length data"
  "parse_element_parse_entries_parse_elements_dom (Inr (Inl (data, pos, e, t, f))) \<Longrightarrow>
     parse_entries data pos e t f = Inr (r, pos') \<Longrightarrow>
     pos \<le> pos' \<and> (pos \<le> length data \<longrightarrow> pos' \<le> length data)"
  "parse_element_parse_entries_parse_elements_dom (Inr (Inr (data, pos, e))) \<Longrightarrow>
     parse_elements data pos e = Inr (q, pos') \<Longrightarrow>
     pos \<le> pos' \<and> (pos \<le> length data \<longrightarrow> pos' \<le> length data)"
proof (induction data pos e and data pos e t f and data pos e arbitrary: c pos' and r pos' and q pos'
    rule: parse_element_parse_entries_parse_elements.pinduct)
  case (1 data pos0 end0)
  note eq = "1.prems" [unfolded parse_element.psimps [OF "1.hyps"] bind_header]
  let ?len = "unat (hd_len data pos0)"
  have hd: "pos0 + 5 \<le> length data" and fit: "\<not> size_sub end0 (pos0 + 5) < ?len"
    using eq by (auto split: if_splits)
  note IH = "1.IH" [OF rd_header(1) [OF hd] refl rd_header(2) [OF hd] refl fit refl]
  consider "data ! pos0 = 8" | "data ! pos0 \<noteq> 8" "data ! pos0 = 9" | "data ! pos0 \<noteq> 8" "data ! pos0 \<noteq> 9"
    by blast
  then show ?case
  proof cases
    case 1
    then obtain r where "parse_entries data (pos0 + 5) (pos0 + 5 + ?len) 0 True = Inr (r, pos')"
      using eq fit by (auto simp: Let_def bindE_eq_Inr split: if_splits)
    then show ?thesis
      using IH(1) [OF 1] hd by fastforce
  next
    case 2
    then obtain q where "parse_elements data (pos0 + 5) (pos0 + 5 + ?len) = Inr (q, pos')"
      using eq fit by (auto simp: Let_def bindE_eq_Inr split: if_splits)
    then show ?thesis
      using IH(2) [OF 2] hd by fastforce
  next
    case 3
    then show ?thesis
      using eq fit hd by (auto simp: Let_def dest!: parse_leaf_pos)
  qed
next
  case (2 data pos0 e t f)
  from "2.prems" show ?case
  proof (cases "pos0 < e")
    case True
    with "2.prems" obtain tag c p r' where
      tag: "rd_u32be data pos0 = Inr (tag, pos0 + 4)" "pos0 + 4 \<le> length data"
        "\<not> (\<not> f \<and> ucast tag \<le> t)"
      and el: "parse_element data (pos0 + 4) e = Inr (c, p)"
      and rest: "parse_entries data p e (ucast tag) False = Inr (r', pos')"
      by (fastforce simp: parse_entries.psimps [OF "2.hyps"] bindE_eq_Inr rd_u32be_Inr split: if_splits)
    have "pos0 + 4 + 5 \<le> p \<and> p \<le> length data"
      by (rule "2.IH"(1) [OF True tag(1) refl tag(3) el])
    moreover have "p \<le> pos' \<and> (p \<le> length data \<longrightarrow> pos' \<le> length data)"
      by (rule "2.IH"(2) [OF True tag(1) refl tag(3) el refl rest])
    ultimately show ?thesis by linarith
  next
    case False
    with "2.prems" show ?thesis
      by (simp add: parse_entries.psimps [OF "2.hyps"])
  qed
next
  case (3 data pos0 e)
  from "3.prems" show ?case
  proof (cases "pos0 < e")
    case True
    with "3.prems" obtain c p q' where
      el: "parse_element data pos0 e = Inr (c, p)"
      and rest: "parse_elements data p e = Inr (q', pos')"
      by (fastforce simp: parse_elements.psimps [OF "3.hyps"] bindE_eq_Inr)
    have "pos0 + 5 \<le> p \<and> p \<le> length data"
      by (rule "3.IH"(1) [OF True el])
    moreover have "p \<le> pos' \<and> (p \<le> length data \<longrightarrow> pos' \<le> length data)"
      by (rule "3.IH"(2) [OF True el refl rest])
    ultimately show ?thesis by linarith
  next
    case False
    with "3.prems" show ?thesis
      by (simp add: parse_elements.psimps [OF "3.hyps"])
  qed
qed

lemma parse_total: "All parse_element_parse_entries_parse_elements_dom"
proof (relation "measure (\<lambda>x. case x of
      Inl (data, pos, e) \<Rightarrow> 2 * (length data - pos)
    | Inr (Inl (data, pos, e, t, f)) \<Rightarrow> 2 * (length data - pos)
    | Inr (Inr (data, pos, e)) \<Rightarrow> 2 * (length data - pos) + 1)", goal_cases)
  case 1
  show ?case by simp
qed (auto simp: rd_Inr dest!: parse_consumes)

termination parse_element
  by (rule parse_total)

declare parse_element.simps [simp del] parse_entries.simps [simp del] parse_elements.simps [simp del]

lemma parse_element_pos:
  "parse_element data pos e = Inr (c, pos') \<Longrightarrow> pos + 5 \<le> pos' \<and> pos' \<le> length data"
  by (rule parse_consumes(1) [OF parse_total [THEN spec]])

lemma parse_element_eq_Inr:
  "parse_element data pos e = Inr w \<longleftrightarrow>
     pos + 5 \<le> length data \<and> \<not> size_sub e (pos + 5) < unat (hd_len data pos) \<and>
     (let pe = pos + 5 + unat (hd_len data pos) in
      if data ! pos = 8 then
        \<exists>r c. parse_entries data (pos + 5) pe 0 True = Inr (r, pe) \<and> mk_record r = Inr c \<and> w = (c, pe)
      else if data ! pos = 9 then
        \<exists>q. parse_elements data (pos + 5) pe = Inr (q, pe) \<and> w = (CSeq q, pe)
      else parse_leaf (data ! pos) (hd_len data pos) data (pos + 5) pe = Inr w)"
  unfolding parse_element.simps [of data pos e] bind_header
  by (auto simp: Let_def bindE_eq_Inr)

definition canonical_decode :: "bytes \<Rightarrow> canon res" where
  "canonical_decode bs =
     (if length bs < 6 then Inl (Canon_Error ''decode: buffer too small'')
      else if take 4 bs \<noteq> k_magic then Inl (Canon_Error ''decode: bad magic'')
      else if bs ! 4 \<noteq> k_version
        then Inl (Canon_Error (''decode: unsupported version '' @ show_nat (unat (bs ! 4))))
      else bindE (parse_element bs 5 (length bs)) (\<lambda>(root, pos).
        if pos \<noteq> length bs then Inl (Canon_Error ''decode: trailing garbage'') else Inr root))"

section \<open>Decoding what was encoded\<close>

text \<open>\<open>parses c\<close>: wherever the encoding of \<open>c\<close> stands in a buffer, the parser reads it back.\<close>

definition parses :: "canon \<Rightarrow> bool" where
  "parses c \<longleftrightarrow> (\<forall>pre post e. length pre + length (enc c) \<le> e \<longrightarrow>
     parse_element (pre @ enc c @ post) (length pre) e = Inr (c, length pre + length (enc c)))"

lemma parsesD:
  "parses c \<Longrightarrow> length pre + length (enc c) \<le> e \<Longrightarrow>
     parse_element (pre @ enc c @ post) (length pre) e = Inr (c, length pre + length (enc c))"
  by (simp add: parses_def)

lemma be_word_u32 [simp]: "be_word (be_bytes 4 (v :: u32)) = v"
  by (rule be_word_be_bytes) simp

lemma be_word_u64 [simp]: "be_word (be_bytes 8 (v :: u64)) = v"
  by (rule be_word_be_bytes) simp

lemma enc_length_ge: "5 \<le> length (enc c)"
  by (cases c) simp_all

lemma ucast_u64_less: "(ucast (a :: u32) :: u64) < ucast b \<longleftrightarrow> a < b"
proof -
  have "unat (ucast x :: u64) = unat x" for x :: u32
  proof -
    have "unat x < 2 ^ LENGTH(32)"
      by (rule unsigned_less)
    then show ?thesis
      by (simp add: unsigned_ucast_eq take_bit_nat_eq_self)
  qed
  then show ?thesis
    by (simp add: word_less_nat_alt)
qed

lemma parse_entries_enc:
  assumes "\<forall>e \<in> set r. parses (snd e)" and "tags_ok r"
    and "f \<or> (\<forall>e \<in> set r. t < ucast (fst e))"
  shows "parse_entries (pre @ enc_entries r @ post) (length pre) (length pre + length (enc_entries r)) t f
      = Inr (r, length pre + length (enc_entries r))"
  using assms
proof (induction r arbitrary: pre t f)
  case Nil
  show ?case by (simp add: parse_entries.simps)
next
  case (Cons e r)
  obtain tag c where e: "e = (tag, c)" by fastforce
  let ?data = "pre @ enc_entries (e # r) @ post"
  let ?stop = "length pre + length (enc_entries (e # r))"
  let ?pre1 = "pre @ be_bytes 4 tag"
  let ?pre2 = "?pre1 @ enc c"
  have d1: "?data = ?pre1 @ enc c @ (enc_entries r @ post)"
    and d2: "?data = ?pre2 @ enc_entries r @ post"
    by (simp_all add: e)
  have "rd_u32be ?data (length pre) = Inr (tag, length pre + 4)"
    by (simp add: e rd_u32be_Inr)
  moreover have "f \<or> \<not> (ucast tag :: u64) \<le> t"
    using Cons.prems(3) by (auto simp: e not_le)
  moreover have "parse_element ?data (length pre + 4) ?stop = Inr (c, length pre + 4 + length (enc c))"
    using parsesD [of c ?pre1 ?stop "enc_entries r @ post"] Cons.prems(1) d1 by (simp add: e add.assoc)
  moreover have "parse_entries ?data (length pre + 4 + length (enc c)) ?stop (ucast tag) False = Inr (r, ?stop)"
  proof -
    have "\<forall>e \<in> set r. (ucast tag :: u64) < ucast (fst e)"
      using Cons.prems(2) by (auto simp: e ucast_u64_less)
    moreover have "tags_ok r"
      using Cons.prems(2) by simp
    ultimately show ?thesis
      using Cons.IH [where t = "ucast tag" and f = False and pre = ?pre2] Cons.prems(1) d2 by (simp add: e add.assoc)
  qed
  moreover have "length pre < ?stop"
    by (simp add: e)
  ultimately show ?case
    by (subst parse_entries.simps) (auto simp: e)
qed

lemma parse_elements_enc:
  assumes "\<forall>c \<in> set q. parses c"
  shows "parse_elements (pre @ enc_elements q @ post) (length pre) (length pre + length (enc_elements q))
      = Inr (q, length pre + length (enc_elements q))"
  using assms
proof (induction q arbitrary: pre)
  case Nil
  show ?case by (simp add: parse_elements.simps)
next
  case (Cons c q)
  let ?data = "pre @ enc_elements (c # q) @ post"
  let ?stop = "length pre + length (enc_elements (c # q))"
  have "parse_element ?data (length pre) ?stop = Inr (c, length pre + length (enc c))"
    using parsesD [of c pre ?stop "enc_elements q @ post"] Cons.prems by simp
  moreover have "parse_elements ?data (length pre + length (enc c)) ?stop = Inr (q, ?stop)"
    using Cons.IH [of "pre @ enc c"] Cons.prems by (simp add: add.assoc)
  moreover have "length pre < ?stop"
    using enc_length_ge [of c] by (cases "enc c") auto
  ultimately show ?case
    by (subst parse_elements.simps) simp
qed

lemma hd_element:
  fixes pre post :: bytes
  assumes "length body < 2 ^ 32"
  shows "unat (hd_len (pre @ element k body @ post) (length pre)) = length body"
    and "(pre @ element k body @ post) ! length pre = k"
proof -
  have "take 4 (drop (length pre + 1) (pre @ element k body @ post)) = be_bytes 4 (len32 body)"
    by (simp add: element_def)
  then show "unat (hd_len (pre @ element k body @ post) (length pre)) = length body"
    using assms by (simp add: hd_len_def len32_def unsigned_of_nat take_bit_nat_eq_self)
  show "(pre @ element k body @ post) ! length pre = k"
    by (simp add: element_def nth_append)
qed

lemma drop_element [simp]: "drop 5 (element k body) = body"
  by (simp add: element_def)

lemma parses_leaf:
  assumes "enc c = element k body" and "length body < 2 ^ 32" and "k \<noteq> 8" and "k \<noteq> 9"
    and leaf: "\<And>data pos len. unat len = length body \<Longrightarrow> len = 0 \<longleftrightarrow> body = [] \<Longrightarrow> pos + length body \<le> length data \<Longrightarrow>
      take (length body) (drop pos data) = body \<Longrightarrow>
      parse_leaf k len data pos (pos + length body) = Inr (c, pos + length body)"
  shows "parses c"
  unfolding parses_def
proof (intro allI impI)
  fix pre post :: bytes and e
  assume e: "length pre + length (enc c) \<le> e"
  let ?data = "pre @ element k body @ post"
  have "take (length body) (drop (length pre + 5) ?data) = body"
    by simp
  moreover have len: "unat (hd_len ?data (length pre)) = length body"
    by (rule hd_element(1) [OF assms(2)])
  moreover have "hd_len ?data (length pre) = 0 \<longleftrightarrow> body = []"
    using len by (metis unsigned_eq_0_iff length_0_conv)
  ultimately have "parse_leaf k (hd_len ?data (length pre)) ?data (length pre + 5) (length pre + 5 + length body)
      = Inr (c, length pre + 5 + length body)"
    by (intro leaf) simp_all
  then show "parse_element (pre @ enc c @ post) (length pre) e = Inr (c, length pre + length (enc c))"
    using e assms hd_element [OF assms(2), where pre = pre and k = k and post = post]
    by (simp add: parse_element_eq_Inr size_sub_def add.assoc)
qed

lemma unat_eq_word: "unat (w :: 'a::len word) = n \<Longrightarrow> w = word_of_nat n"
  by auto

lemma parse_enc: "canon_ok c \<Longrightarrow> canon_fits c \<Longrightarrow> parses c"
proof (induction c)
  case (CRecord r)
  then have sub: "\<forall>e \<in> set r. parses (snd e)"
    by (auto simp: snds.simps)
  show ?case
    unfolding parses_def
  proof (intro allI impI)
    fix pre post :: bytes and e
    assume e: "length pre + length (enc (CRecord r)) \<le> e"
    let ?body = "enc_entries r"
    let ?data = "pre @ element 8 ?body @ post"
    have fits: "length ?body < 2 ^ 32"
      using CRecord.prems by simp
    have "parse_entries ?data (length pre + 5) (length pre + 5 + length ?body) 0 True
        = Inr (r, length pre + 5 + length ?body)"
      using parse_entries_enc [OF sub, of True 0 "pre @ 8 # be_bytes 4 (len32 ?body)" post] CRecord.prems
      by (simp add: element_def add.assoc)
    then show "parse_element (pre @ enc (CRecord r) @ post) (length pre) e
        = Inr (CRecord r, length pre + length (enc (CRecord r)))"
      using e CRecord.prems hd_element [OF fits]
      by (simp add: parse_element_eq_Inr mk_record_tags_ok size_sub_def add.assoc)
  qed
next
  case (CSeq q)
  then have sub: "\<forall>c \<in> set q. parses c"
    by auto
  show ?case
    unfolding parses_def
  proof (intro allI impI)
    fix pre post :: bytes and e
    assume e: "length pre + length (enc (CSeq q)) \<le> e"
    let ?body = "enc_elements q"
    let ?data = "pre @ element 9 ?body @ post"
    have fits: "length ?body < 2 ^ 32"
      using CSeq.prems by simp
    have "parse_elements ?data (length pre + 5) (length pre + 5 + length ?body)
        = Inr (q, length pre + 5 + length ?body)"
      using parse_elements_enc [OF sub, of "pre @ 9 # be_bytes 4 (len32 ?body)" post]
      by (simp add: element_def add.assoc)
    then show "parse_element (pre @ enc (CSeq q) @ post) (length pre) e
        = Inr (CSeq q, length pre + length (enc (CSeq q)))"
      using e CSeq.prems hd_element [OF fits]
      by (simp add: parse_element_eq_Inr size_sub_def add.assoc)
  qed
next
  case CNull
  show ?case
    by (rule parses_leaf [of _ 0 "[]"]) (auto simp: parse_leaf_def dest!: unat_eq_word)
next
  case (CUint v)
  show ?case
    by (rule parses_leaf [of _ 1 "be_bytes 8 v"])
      (auto simp: parse_leaf_def bindE_eq_Inr rd_Inr dest!: unat_eq_word)
next
  case (CInt v)
  show ?case
    by (rule parses_leaf [of _ 2 "be_bytes 8 v"])
      (auto simp: parse_leaf_def bindE_eq_Inr rd_Inr dest!: unat_eq_word)
next
  case (CBool b)
  show ?case
    by (rule parses_leaf [of _ 3 "[if b then 1 else 0]"])
      (auto simp: parse_leaf_def bindE_eq_Inr rd_Inr take_drop_nth dest!: unat_eq_word split: if_splits)
next
  case (CStr s)
  then show ?case
    by (intro parses_leaf [of _ 4 "str_bytes s"])
      (auto simp: parse_leaf_def bindE_eq_Inr rd_Inr)
next
  case (CBytes s)
  then show ?case
    by (intro parses_leaf [of _ 5 "str_bytes s"])
      (auto simp: parse_leaf_def bindE_eq_Inr rd_Inr)
next
  case (CUuid u)
  show ?case
    by (rule parses_leaf [of _ 6 "uuid_bytes u"])
      (auto simp: parse_leaf_def bindE_eq_Inr rd_bytes_Inr dest!: unat_eq_word)
next
  case (CFloat d)
  then show ?case
    by (intro parses_leaf [of _ 7 "be_bytes 8 d"])
      (auto simp: parse_leaf_def bindE_eq_Inr rd_Inr mk_float_def dest!: unat_eq_word)
qed

lemma canonical_decode_encode_enc:
  assumes "canon_ok c" and "canon_fits c"
  shows "canonical_decode (k_magic @ [k_version] @ enc c) = Inr c"
proof -
  have pre: "length (k_magic @ [k_version]) = 5"
    by (simp add: k_magic_def)
  have "parse_element ((k_magic @ [k_version]) @ enc c @ []) 5 (5 + length (enc c))
      = Inr (c, 5 + length (enc c))"
    by (rule parsesD [OF parse_enc [OF assms], where pre = "k_magic @ [k_version]", unfolded pre]) simp
  moreover have "1 \<le> length (enc c)"
    using enc_length_ge [of c] by linarith
  moreover have "length (k_magic @ [k_version] @ enc c) = 5 + length (enc c)"
    by (simp add: k_magic_def)
  moreover have "take 4 (k_magic @ [k_version] @ enc c) = k_magic" "(k_magic @ [k_version] @ enc c) ! 4 = k_version"
    by (simp_all add: k_magic_def)
  moreover have "enc c \<noteq> []"
    using enc_length_ge [of c] by auto
  ultimately show ?thesis
    by (simp add: canonical_decode_def del: length_append append.simps take_append)
qed

section \<open>Encoding what was decoded\<close>

definition slice :: "'a list \<Rightarrow> nat \<Rightarrow> nat \<Rightarrow> 'a list" where
  "slice xs i j = take (j - i) (drop i xs)"

lemma length_slice [simp]: "j \<le> length xs \<Longrightarrow> length (slice xs i j) = j - i"
  by (simp add: slice_def)

lemma slice_append: "i \<le> j \<Longrightarrow> j \<le> k \<Longrightarrow> slice xs i j @ slice xs j k = slice xs i k"
  using take_add [where i = "j - i" and j = "k - j" and xs = "drop i xs"] by (simp add: slice_def)

lemma slice_self [simp]: "slice xs i i = []"
  by (simp add: slice_def)

lemma be_bytes_slice4:
  assumes "pos + 4 \<le> length data"
  shows "be_bytes 4 (be_word (slice data pos (pos + 4)) :: u32) = slice data pos (pos + 4)"
  using be_bytes_be_word [of "slice data pos (pos + 4)", where 'a = 32] assms by simp

lemma be_bytes_slice8:
  assumes "pos + 8 \<le> length data"
  shows "be_bytes 8 (be_word (slice data pos (pos + 8)) :: u64) = slice data pos (pos + 8)"
  using be_bytes_be_word [of "slice data pos (pos + 8)", where 'a = 64] assms by simp

text \<open>A buffer segment whose header announces exactly its payload is an element.\<close>

lemma element_slice:
  assumes "pos + 5 \<le> pe" and "pe \<le> length data" and "pe = pos + 5 + unat (hd_len data pos)"
  shows "element (data ! pos) (slice data (pos + 5) pe) = slice data pos pe"
proof -
  have len: "len32 (slice data (pos + 5) pe) = hd_len data pos"
    using assms by (simp add: len32_def)
  have "pos + 1 + 4 = pos + 5" by simp
  then have "be_bytes 4 (hd_len data pos) = slice data (pos + 1) (pos + 5)"
    using be_bytes_slice4 [of "pos + 1" data] assms(1,2) by (simp add: hd_len_def slice_def)
  moreover have "[data ! pos] = slice data pos (pos + 1)"
    using assms by (simp add: slice_def take_Suc_conv_app_nth take_Suc hd_drop_conv_nth)
  ultimately have "element (data ! pos) (slice data (pos + 5) pe) =
      slice data pos (pos + 1) @ slice data (pos + 1) (pos + 5) @ slice data (pos + 5) pe"
    by (simp add: element_def len)
  then show ?thesis
    using assms by (simp add: slice_append)
qed

text \<open>\<open>reads data pos pos' c\<close>: the segment of the buffer is the one encoding of \<open>c\<close>.\<close>

definition reads :: "bytes \<Rightarrow> nat \<Rightarrow> nat \<Rightarrow> canon \<Rightarrow> bool" where
  "reads data pos pos' c \<longleftrightarrow> enc c = slice data pos pos' \<and> canon_ok c \<and> canon_fits c"

lemma unat_less_u32: "unat (w :: u32) < 2 ^ 32"
  using unsigned_less [of w] by simp

lemma empty_str: "str_bytes [] = []"
  by (simp add: str_bytes_def)

lemma parse_leaf_reads:
  assumes "parse_leaf kk len data pos (pos + unat len) = Inr (c, pos')"
    and "pos \<le> length data"
  shows "enc c = element kk (slice data pos pos') \<and> canon_ok c \<and> canon_fits c"
proof -
  have p: "pos' = pos + unat len" "pos' \<le> length data"
    using parse_leaf_pos [OF assms(1)] assms(2) by simp_all
  consider "kk = 0" | "kk = 1" | "kk = 2" | "kk = 3" | "kk = 4" | "kk = 5" | "kk = 6" | "kk = 7"
    using assms(1) by (auto simp: parse_leaf_def split: if_splits)
  then show ?thesis
  proof cases
    case 4
    then have "pos < length data" "c = CBool (data ! pos = 1)" "pos' = pos + 1" "data ! pos = 0 \<or> data ! pos = 1"
      using assms(1) by (auto simp: parse_leaf_def bindE_eq_Inr rd_u8_Inr split: if_splits)
    with 4 show ?thesis
      by (auto simp: slice_def take_Suc hd_drop_conv_nth)
  next
    case 5
    then show ?thesis
      using assms p unat_less_u32 [of len]
      by (auto simp: parse_leaf_def bindE_eq_Inr rd_Inr slice_def empty_str split: if_splits)
  next
    case 6
    then show ?thesis
      using assms p unat_less_u32 [of len]
      by (auto simp: parse_leaf_def bindE_eq_Inr rd_Inr slice_def empty_str split: if_splits)
  next
    case 7
    then show ?thesis
      using assms by (auto simp: parse_leaf_def bindE_eq_Inr rd_bytes_Inr uuid_bytes_of_bytes slice_def
          split: if_splits)
  qed (use assms be_bytes_slice8 [of pos data] in
      \<open>auto simp: parse_leaf_def bindE_eq_Inr rd_Inr mk_float_def slice_def split: if_splits\<close>)
qed

lemma parse_reads:
  "parse_element data pos e = Inr (c, pos') \<Longrightarrow> reads data pos pos' c"
  "parse_entries data pos e t f = Inr (r, pos') \<Longrightarrow> pos \<le> length data \<Longrightarrow>
     enc_entries r = slice data pos pos' \<and> (\<forall>e \<in> set r. canon_ok (snd e) \<and> canon_fits (snd e)) \<and>
     tags_ok r \<and> (f \<or> (\<forall>e \<in> set r. t < ucast (fst e)))"
  "parse_elements data pos e = Inr (q, pos') \<Longrightarrow> pos \<le> length data \<Longrightarrow>
     enc_elements q = slice data pos pos' \<and> (\<forall>c \<in> set q. canon_ok c \<and> canon_fits c)"
proof (induction data pos e and data pos e t f and data pos e arbitrary: c pos' and r pos' and q pos'
    rule: parse_element_parse_entries_parse_elements.induct)
  case (1 data pos0 end0)
  let ?len = "unat (hd_len data pos0)"
  note pos = parse_element_pos [OF "1.prems"]
  note eq = "1.prems" [unfolded parse_element_eq_Inr]
  have hd: "pos0 + 5 \<le> length data" and fit: "\<not> size_sub end0 (pos0 + 5) < ?len"
    using eq by simp_all
  note IH = "1.IH" [OF rd_header(1) [OF hd] refl rd_header(2) [OF hd] refl fit refl]
  consider "data ! pos0 = 8" | "data ! pos0 \<noteq> 8" "data ! pos0 = 9" | "data ! pos0 \<noteq> 8" "data ! pos0 \<noteq> 9"
    by blast
  then show ?case
  proof cases
    case 1
    then obtain r where r: "parse_entries data (pos0 + 5) (pos0 + 5 + ?len) 0 True = Inr (r, pos')"
        and c: "mk_record r = Inr c" and pe: "pos' = pos0 + 5 + ?len"
      using eq by (auto simp: Let_def)
    have "enc_entries r = slice data (pos0 + 5) pos'" "tags_ok r"
        "\<forall>e \<in> set r. canon_ok (snd e) \<and> canon_fits (snd e)"
      using IH(1) [OF 1 r hd] by simp_all
    moreover have "c = CRecord r"
      using c \<open>tags_ok r\<close> by (simp add: mk_record_tags_ok)
    ultimately show ?thesis
      using element_slice [of pos0 pos' data] pos pe 1 unat_less_u32 [of "hd_len data pos0"]
      by (simp add: reads_def)
  next
    case 2
    then obtain q where q: "parse_elements data (pos0 + 5) (pos0 + 5 + ?len) = Inr (q, pos')"
        and c: "c = CSeq q" and pe: "pos' = pos0 + 5 + ?len"
      using eq by (auto simp: Let_def)
    have "enc_elements q = slice data (pos0 + 5) pos'" "\<forall>c \<in> set q. canon_ok c \<and> canon_fits c"
      using IH(2) [OF 2 q hd] by simp_all
    then show ?thesis
      using element_slice [of pos0 pos' data] pos pe 2 c unat_less_u32 [of "hd_len data pos0"]
      by (simp add: reads_def)
  next
    case 3
    then have leaf: "parse_leaf (data ! pos0) (hd_len data pos0) data (pos0 + 5) (pos0 + 5 + ?len) = Inr (c, pos')"
      using eq by (auto simp: Let_def)
    then have "pos' = pos0 + 5 + ?len"
      by (auto dest: parse_leaf_pos)
    then show ?thesis
      using element_slice [of pos0 pos' data] parse_leaf_reads [OF leaf hd] pos
      by (simp add: reads_def)
  qed
next
  case (2 data pos0 e t f)
  show ?case
  proof (cases "pos0 < e")
    case True
    with "2.prems"(1) obtain tag c p r' where
      tag: "rd_u32be data pos0 = Inr (tag, pos0 + 4)" "\<not> (\<not> f \<and> ucast tag \<le> t)"
      and el: "parse_element data (pos0 + 4) e = Inr (c, p)"
      and rest: "parse_entries data p e (ucast tag) False = Inr (r', pos')"
      and r: "r = (tag, c) # r'"
      by (fastforce simp: parse_entries.simps [of data pos0] bindE_eq_Inr rd_u32be_Inr split: if_splits)
    note pos = parse_element_pos [OF el]
    have "p \<le> pos'"
      by (rule parse_consumes(2) [OF parse_total [THEN spec] rest, THEN conjunct1])
    have a: "reads data (pos0 + 4) p c"
      by (rule "2.IH"(1) [OF True tag(1) refl tag(2) el])
    have b: "enc_entries r' = slice data p pos'" "\<forall>e \<in> set r'. canon_ok (snd e) \<and> canon_fits (snd e)"
        "tags_ok r'" "\<forall>e \<in> set r'. (ucast tag :: u64) < ucast (fst e)"
      using "2.IH"(2) [OF True tag(1) refl tag(2) el refl rest] pos by simp_all
    have "be_bytes 4 tag = slice data pos0 (pos0 + 4)"
      using be_bytes_slice4 [of pos0 data] tag(1) by (simp add: rd_u32be_Inr slice_def)
    then have "enc_entries r = slice data pos0 (pos0 + 4) @ slice data (pos0 + 4) p @ slice data p pos'"
      using a b by (simp add: r reads_def)
    also have "\<dots> = slice data pos0 pos'"
      using pos \<open>p \<le> pos'\<close> by (simp add: slice_append)
    finally have "enc_entries r = slice data pos0 pos'" .
    moreover have f: "f \<or> t < ucast tag"
      using tag(2) by (auto simp: not_le)
    have "f \<or> (\<forall>e \<in> set r. t < ucast (fst e))"
      using f b(4) by (auto simp: r intro: order.strict_trans [of t "ucast tag"])
    moreover have "tags_ok r"
      using b(3,4) by (simp add: r ucast_u64_less)
    ultimately show ?thesis
      using a b(2) by (auto simp: r reads_def)
  next
    case False
    with "2.prems" show ?thesis
      by (simp add: parse_entries.simps [of data pos0])
  qed
next
  case (3 data pos0 e)
  show ?case
  proof (cases "pos0 < e")
    case True
    with "3.prems"(1) obtain c p q' where
      el: "parse_element data pos0 e = Inr (c, p)"
      and rest: "parse_elements data p e = Inr (q', pos')" and q: "q = c # q'"
      by (fastforce simp: parse_elements.simps [of data pos0] bindE_eq_Inr)
    note pos = parse_element_pos [OF el]
    have "p \<le> pos'"
      by (rule parse_consumes(3) [OF parse_total [THEN spec] rest, THEN conjunct1])
    have "reads data pos0 p c"
      by (rule "3.IH"(1) [OF True el])
    moreover have "enc_elements q' = slice data p pos' \<and> (\<forall>c \<in> set q'. canon_ok c \<and> canon_fits c)"
      using pos by (intro "3.IH"(2) [OF True el refl rest]) simp
    ultimately show ?thesis
      using pos \<open>p \<le> pos'\<close> by (auto simp: q reads_def slice_append)
  next
    case False
    with "3.prems" show ?thesis
      by (simp add: parse_elements.simps [of data pos0])
  qed
qed

lemma canonical_decode_enc:
  assumes "canonical_decode bs = Inr c"
  shows "bs = k_magic @ [k_version] @ enc c" and "canon_ok c" and "canon_fits c"
proof -
  have hd: "6 \<le> length bs" "take 4 bs = k_magic" "bs ! 4 = k_version"
    and el: "parse_element bs 5 (length bs) = Inr (c, length bs)"
    using assms by (auto simp: canonical_decode_def bindE_eq_Inr split: if_splits)
  have r: "enc c = drop 5 bs" "canon_ok c" "canon_fits c"
    using parse_reads(1) [OF el] by (simp_all add: reads_def slice_def)
  have "take 5 bs = take 4 bs @ [bs ! 4]"
    using hd(1) by (simp add: take_Suc_conv_app_nth [of 4 bs, simplified])
  then show "bs = k_magic @ [k_version] @ enc c"
    using append_take_drop_id [of 5 bs] hd(2,3) r(1) by simp
  show "canon_ok c" "canon_fits c"
    by (fact r)+
qed

text \<open>The equations that evaluate the decoder on a concrete buffer.\<close>

lemmas decode_eval = canonical_decode_def k_magic_def k_version_def parse_element.simps
  parse_entries.simps parse_elements.simps parse_leaf_def rd_u8_def rd_u32be_def rd_u64be_def
  rd_memcpy_def size_sub_def

text \<open>A value that is short enough as a whole is short enough in every part.\<close>

lemma length_entry: "e \<in> set r \<Longrightarrow> length (enc (snd e)) \<le> length (enc_entries r)"
  by (induction r) auto

lemma length_element_of: "c \<in> set q \<Longrightarrow> length (enc c) \<le> length (enc_elements q)"
  by (induction q) auto

lemma canon_fits_small: "length (enc c) < 2 ^ 32 \<Longrightarrow> canon_fits c"
proof (induction c)
  case (CRecord r)
  have "canon_fits (snd e)" if "e \<in> set r" for e
    using CRecord.IH [of e "snd e"] CRecord.prems length_entry [OF that] that by (cases e) auto
  with CRecord.prems show ?case by simp
next
  case (CSeq q)
  have "canon_fits c" if "c \<in> set q" for c
    using CSeq.IH [OF that] CSeq.prems length_element_of [OF that] by auto
  with CSeq.prems show ?case by simp
qed auto

text \<open>A header of a string or of bytes that starts before the end of its segment and ends after it.\<close>

lemma crossing_header:
  assumes "pos < e" and "e < pos + 5" and "pos + 5 \<le> length data" and "data ! pos = 4 \<or> data ! pos = 5"
  shows "parse_element data pos e =
    (let n = unat (hd_len data pos); s = bytes_str (take n (drop (pos + 5) data)) in
     if length data < pos + 5 + n then Inl Out_Of_Bounds
     else Inr (if data ! pos = 4 then CStr s else CBytes s, pos + 5 + n))"
proof -
  have "unat (hd_len data pos) < 2 ^ 32"
    using unsigned_less [where 'a = nat, of "hd_len data pos"] by simp
  then have "\<not> size_sub e (pos + 5) < unat (hd_len data pos)"
    using assms(1,2) by (simp add: size_sub_def)
  then show ?thesis
    using rd_header [OF assms(3)] assms(3,4)
    by (subst parse_element.simps) (auto simp: parse_leaf_def rd_memcpy_def Let_def unat_eq_zero bytes_str_def)
qed

section \<open>Properties\<close>

text \<open>
  Property C1. Every value that the factories can build and whose lengths fit the 32 bits they are
  written in is encoded without error, and the decoder reads the bytes back as the same value.
\<close>

theorem canonical_roundtrip:
  assumes "canon_ok c" and "canon_fits c"
  shows "\<exists>bs. canonical_encode c = Inr bs \<and> canonical_decode bs = Inr c"
  using canonical_encode_enc [OF assms(1)] canonical_decode_encode_enc [OF assms] by blast

theorem canonical_roundtrip_witness:
  "\<exists>bs. canonical_encode (CRecord [(1, CUint 7), (4, CSeq [CStr ''sm_90'', CBool True])]) = Inr bs \<and>
     canonical_decode bs = Inr (CRecord [(1, CUint 7), (4, CSeq [CStr ''sm_90'', CBool True])])"
  by (rule canonical_roundtrip) simp_all

text \<open>
  Property C17. The encoding is canonical: whatever bytes the decoder accepts, the value it returns
  is well formed and encodes to exactly those bytes, so no value has two accepted encodings.
\<close>

theorem canonical_unique:
  assumes "canonical_decode bs = Inr c"
  shows "canonical_encode c = Inr bs \<and> canon_ok c \<and> canon_fits c"
  using canonical_decode_enc [OF assms] by (simp add: canonical_encode_enc)

theorem canonical_unique_witness:
  "canonical_encode (CUint 3) = Inr [0x43, 0x52, 0x43, 0x46, 1, 1, 0, 0, 0, 8, 0, 0, 0, 0, 0, 0, 0, 3]"
  by (rule canonical_unique [THEN conjunct1]) (simp add: decode_eval upt_rec)

text \<open>
  Property C27. The bound of a nested element does not hold for a header that starts inside its segment
  and ends past it: \<^verbatim>\<open>end - rd.pos\<close> is then a huge number, and every announced length passes. For each
  sequence whose segment holds only the first one to four of the five header bytes of a string or of
  bytes, and whatever follows: the payload is copied out of the buffer when the announced length
  is greater than the number of bytes left, and only after copying it is the overrun noticed otherwise.
\<close>

theorem decode_reads_out_of_bounds:
  assumes "1 \<le> r" and "r \<le> 4" and "k = 4 \<or> k = 5"
  shows "canonical_decode (k_magic @ [k_version] @ [9] @ be_bytes 4 (word_of_nat r :: u32) @
      [k] @ be_bytes 4 (n :: u32) @ tail) =
    Inl (if length tail < unat n then Out_Of_Bounds else Canon_Error ''decode: sequence segment overrun'')"
proof -
  define bs where "bs = k_magic @ [k_version] @ [9] @ be_bytes 4 (word_of_nat r :: u32) @ [k] @ be_bytes 4 (n :: u32) @ tail"
  let ?c = "if k = 4 then CStr (bytes_str (take (unat n) tail)) else CBytes (bytes_str (take (unat n) tail))"
  have len: "length bs = 15 + length tail" and start: "take 4 bs = k_magic" "bs ! 4 = k_version"
    by (simp_all add: bs_def k_magic_def)
  have at: "bs ! 5 = 9" "bs ! 10 = k" "hd_len bs 5 = word_of_nat r" "hd_len bs 10 = n" "drop 15 bs = tail"
    by (simp_all add: bs_def k_magic_def hd_len_def nth_append)
  have r: "unat (word_of_nat r :: u32) = r"
    using assms(2) by (simp add: unat_of_nat)
  have "parse_element bs 10 (10 + r) = (if length tail < unat n then Inl Out_Of_Bounds else Inr (?c, 15 + unat n))"
    using crossing_header [of 10 "10 + r" bs] assms len at by (simp add: Let_def)
  moreover have "parse_elements bs (15 + unat n) (10 + r) = Inr ([], 15 + unat n)"
    using assms(2) by (subst parse_elements.simps) simp
  ultimately have "parse_elements bs 10 (10 + r) =
      (if length tail < unat n then Inl Out_Of_Bounds else Inr ([?c], 15 + unat n))"
    using assms(1) by (subst parse_elements.simps) simp
  moreover have "\<not> size_sub (length bs) 10 < r"
    using assms(2) len by (simp add: size_sub_def)
  ultimately have "parse_element bs 5 (length bs) =
      Inl (if length tail < unat n then Out_Of_Bounds else Canon_Error ''decode: sequence segment overrun'')"
    using rd_header [of 5 bs] at len assms(2) r by (subst parse_element.simps) (simp add: Let_def)
  then show ?thesis
    using start len unfolding bs_def [symmetric] by (simp add: canonical_decode_def)
qed

theorem decode_reads_out_of_bounds_witness:
  "canonical_decode [0x43, 0x52, 0x43, 0x46, 1, 9, 0, 0, 0, 1, 4, 0, 0, 0, 32, 0x41] = Inl Out_Of_Bounds \<and>
   canonical_decode [0x43, 0x52, 0x43, 0x46, 1, 9, 0, 0, 0, 1, 4, 0, 0, 0, 1, 0x41] =
     Inl (Canon_Error ''decode: sequence segment overrun'')"
  using decode_reads_out_of_bounds [where r = 1 and k = 4 and n = 32 and tail = "[0x41]"]
    decode_reads_out_of_bounds [where r = 1 and k = 4 and n = 1 and tail = "[0x41]"]
  by (simp add: k_magic_def k_version_def be_bytes_def upt_rec)

end
