(* ===== verification/Enums.thy ===== *)
theory Enums
  imports Prelude
begin

text \<open>
  The \<^verbatim>\<open>enum class\<close> types of \<^verbatim>\<open>include/compat/outcome.hpp\<close>, \<^verbatim>\<open>profile.hpp\<close>, \<^verbatim>\<open>rule.hpp\<close> and
  \<^verbatim>\<open>decision.hpp\<close> with their names. Each has \<^verbatim>\<open>std::uint8_t\<close> below it, and the code casts integers
  it has read to the enum without a check, so a value that is no enumerator can occur: it is the
  \<open>_Raw\<close> constructor, and \<open>_ok\<close> says that a value is an enumerator.
\<close>

text \<open>
  What every enumeration promises to the code that stores it as an integer: \<open>cast\<close> after \<open>code\<close>
  gives the enumerator back, and distinct enumerators have distinct codes.
\<close>

locale u8_enum =
  fixes code :: "'e \<Rightarrow> u8" and cast :: "u8 \<Rightarrow> 'e" and ok :: "'e \<Rightarrow> bool"
  assumes cast_code: "ok e \<Longrightarrow> cast (code e) = e"
    and code_cast: "code (cast b) = b"
begin

lemma code_inject: "ok e \<Longrightarrow> ok e' \<Longrightarrow> code e = code e' \<longleftrightarrow> e = e'"
  by (metis cast_code)

text \<open>\<^verbatim>\<open>static_cast<std::uint64_t>\<close> of an enumerator and the unchecked cast back.\<close>

lemma cast_u64: "ok e \<Longrightarrow> cast (ucast (ucast (code e) :: u64)) = e"
proof -
  have "(ucast (ucast (code e) :: u64) :: u8) = code e"
    by (rule bit_word_eqI) (simp add: bit_ucast_iff)
  then show "ok e \<Longrightarrow> cast (ucast (ucast (code e) :: u64)) = e"
    by (simp add: cast_code)
qed

end

section \<open>\<^verbatim>\<open>Outcome\<close>\<close>

datatype outcome =
    Exact | Compatible | Compatible_With_Adaptation | Conditional | Incompatible | Unknown
  | Insufficient_Evidence | Outcome_Raw u8

fun outcome_code :: "outcome \<Rightarrow> u8" where
  "outcome_code Exact = 0"
| "outcome_code Compatible = 1"
| "outcome_code Compatible_With_Adaptation = 2"
| "outcome_code Conditional = 3"
| "outcome_code Incompatible = 4"
| "outcome_code Unknown = 5"
| "outcome_code Insufficient_Evidence = 6"
| "outcome_code (Outcome_Raw b) = b"

definition outcome_cast :: "u8 \<Rightarrow> outcome" where
  "outcome_cast b =
    (if b = 0 then Exact else if b = 1 then Compatible
     else if b = 2 then Compatible_With_Adaptation else if b = 3 then Conditional
     else if b = 4 then Incompatible else if b = 5 then Unknown
     else if b = 6 then Insufficient_Evidence
     else Outcome_Raw b)"

fun outcome_ok :: "outcome \<Rightarrow> bool" where
  "outcome_ok (Outcome_Raw _) = False"
| "outcome_ok _ = True"

interpretation Outcome_u8: u8_enum outcome_code outcome_cast outcome_ok
proof
  fix e
  show "outcome_ok e \<Longrightarrow> outcome_cast (outcome_code e) = e"
    by (cases e) (simp_all add: outcome_cast_def)
next
  fix b
  show "outcome_code (outcome_cast b) = b"
    by (simp add: outcome_cast_def)
qed

fun is_positive :: "outcome \<Rightarrow> bool" where
  "is_positive Exact = True"
| "is_positive Compatible = True"
| "is_positive Compatible_With_Adaptation = True"
| "is_positive Conditional = True"
| "is_positive _ = False"

fun outcome_name :: "outcome \<Rightarrow> string res" where
  "outcome_name Exact = Inr ''EXACT''"
| "outcome_name Compatible = Inr ''COMPATIBLE''"
| "outcome_name Compatible_With_Adaptation = Inr ''COMPATIBLE_WITH_ADAPTATION''"
| "outcome_name Conditional = Inr ''CONDITIONAL''"
| "outcome_name Incompatible = Inr ''INCOMPATIBLE''"
| "outcome_name Unknown = Inr ''UNKNOWN''"
| "outcome_name Insufficient_Evidence = Inr ''INSUFFICIENT_EVIDENCE''"
| "outcome_name (Outcome_Raw _) = Inl (Runtime_Error ''outcome_name: unknown outcome'')"

definition outcome_from_name :: "string \<Rightarrow> outcome res" where
  "outcome_from_name t =
    (if t = ''EXACT'' then Inr Exact
     else if t = ''COMPATIBLE'' then Inr Compatible
     else if t = ''COMPATIBLE_WITH_ADAPTATION'' then Inr Compatible_With_Adaptation
     else if t = ''CONDITIONAL'' then Inr Conditional
     else if t = ''INCOMPATIBLE'' then Inr Incompatible
     else if t = ''UNKNOWN'' then Inr Unknown
     else if t = ''INSUFFICIENT_EVIDENCE'' then Inr Insufficient_Evidence
     else Inl (Runtime_Error (''outcome_from_name: unknown outcome '' @ [CHR 0x27] @ t @ [CHR 0x27])))"

section \<open>\<^verbatim>\<open>ProfileKind\<close>\<close>

datatype profile_kind =
    PK_Model | PK_Tokenizer | PK_Tensor | PK_Kv | PK_Kernel | PK_Graph | PK_Adapter
  | PK_Backend | PK_Device | PK_Protocol | PK_Policy | PK_Capability_Set | PK_Raw u8

fun profile_kind_code :: "profile_kind \<Rightarrow> u8" where
  "profile_kind_code PK_Model = 0"
| "profile_kind_code PK_Tokenizer = 1"
| "profile_kind_code PK_Tensor = 2"
| "profile_kind_code PK_Kv = 3"
| "profile_kind_code PK_Kernel = 4"
| "profile_kind_code PK_Graph = 5"
| "profile_kind_code PK_Adapter = 6"
| "profile_kind_code PK_Backend = 7"
| "profile_kind_code PK_Device = 8"
| "profile_kind_code PK_Protocol = 9"
| "profile_kind_code PK_Policy = 10"
| "profile_kind_code PK_Capability_Set = 11"
| "profile_kind_code (PK_Raw b) = b"

definition profile_kind_cast :: "u8 \<Rightarrow> profile_kind" where
  "profile_kind_cast b =
    (if b = 0 then PK_Model else if b = 1 then PK_Tokenizer else if b = 2 then PK_Tensor
     else if b = 3 then PK_Kv else if b = 4 then PK_Kernel else if b = 5 then PK_Graph
     else if b = 6 then PK_Adapter else if b = 7 then PK_Backend
     else if b = 8 then PK_Device else if b = 9 then PK_Protocol
     else if b = 10 then PK_Policy else if b = 11 then PK_Capability_Set
     else PK_Raw b)"

fun profile_kind_ok :: "profile_kind \<Rightarrow> bool" where
  "profile_kind_ok (PK_Raw _) = False"
| "profile_kind_ok _ = True"

interpretation ProfileKind_u8: u8_enum profile_kind_code profile_kind_cast profile_kind_ok
proof
  fix e
  show "profile_kind_ok e \<Longrightarrow> profile_kind_cast (profile_kind_code e) = e"
    by (cases e) (simp_all add: profile_kind_cast_def)
next
  fix b
  show "profile_kind_code (profile_kind_cast b) = b"
    by (simp add: profile_kind_cast_def)
qed

fun profile_kind_name :: "profile_kind \<Rightarrow> string" where
  "profile_kind_name PK_Model = ''model''"
| "profile_kind_name PK_Tokenizer = ''tokenizer''"
| "profile_kind_name PK_Tensor = ''tensor''"
| "profile_kind_name PK_Kv = ''kv''"
| "profile_kind_name PK_Kernel = ''kernel''"
| "profile_kind_name PK_Graph = ''graph''"
| "profile_kind_name PK_Adapter = ''adapter''"
| "profile_kind_name PK_Backend = ''backend''"
| "profile_kind_name PK_Device = ''device''"
| "profile_kind_name PK_Protocol = ''protocol''"
| "profile_kind_name PK_Policy = ''policy''"
| "profile_kind_name PK_Capability_Set = ''capability_set''"
| "profile_kind_name (PK_Raw _) = ''?''"

section \<open>\<^verbatim>\<open>RuleKind\<close>\<close>

datatype rule_kind =
    RK_Equality | RK_Exact_Identity | RK_Set_Membership | RK_Numeric_Range | RK_Min_Capability
  | RK_Max_Capability | RK_Version_Relation | RK_Sem_Ver_Relation | RK_Arch_Family
  | RK_Feature_Requirement | RK_Conjunction | RK_Disjunction | RK_Explicit_Incompat
  | RK_Adaptation | RK_Conditional | RK_Dependency | RK_Policy_Override | RK_Raw u8

fun rule_kind_code :: "rule_kind \<Rightarrow> u8" where
  "rule_kind_code RK_Equality = 0"
| "rule_kind_code RK_Exact_Identity = 1"
| "rule_kind_code RK_Set_Membership = 2"
| "rule_kind_code RK_Numeric_Range = 3"
| "rule_kind_code RK_Min_Capability = 4"
| "rule_kind_code RK_Max_Capability = 5"
| "rule_kind_code RK_Version_Relation = 6"
| "rule_kind_code RK_Sem_Ver_Relation = 7"
| "rule_kind_code RK_Arch_Family = 8"
| "rule_kind_code RK_Feature_Requirement = 9"
| "rule_kind_code RK_Conjunction = 10"
| "rule_kind_code RK_Disjunction = 11"
| "rule_kind_code RK_Explicit_Incompat = 12"
| "rule_kind_code RK_Adaptation = 13"
| "rule_kind_code RK_Conditional = 14"
| "rule_kind_code RK_Dependency = 15"
| "rule_kind_code RK_Policy_Override = 16"
| "rule_kind_code (RK_Raw b) = b"

definition rule_kind_cast :: "u8 \<Rightarrow> rule_kind" where
  "rule_kind_cast b =
    (if b = 0 then RK_Equality else if b = 1 then RK_Exact_Identity
     else if b = 2 then RK_Set_Membership else if b = 3 then RK_Numeric_Range
     else if b = 4 then RK_Min_Capability else if b = 5 then RK_Max_Capability
     else if b = 6 then RK_Version_Relation else if b = 7 then RK_Sem_Ver_Relation
     else if b = 8 then RK_Arch_Family else if b = 9 then RK_Feature_Requirement
     else if b = 10 then RK_Conjunction else if b = 11 then RK_Disjunction
     else if b = 12 then RK_Explicit_Incompat else if b = 13 then RK_Adaptation
     else if b = 14 then RK_Conditional else if b = 15 then RK_Dependency
     else if b = 16 then RK_Policy_Override
     else RK_Raw b)"

fun rule_kind_ok :: "rule_kind \<Rightarrow> bool" where
  "rule_kind_ok (RK_Raw _) = False"
| "rule_kind_ok _ = True"

interpretation RuleKind_u8: u8_enum rule_kind_code rule_kind_cast rule_kind_ok
proof
  fix e
  show "rule_kind_ok e \<Longrightarrow> rule_kind_cast (rule_kind_code e) = e"
    by (cases e) (simp_all add: rule_kind_cast_def)
next
  fix b
  show "rule_kind_code (rule_kind_cast b) = b"
    by (simp add: rule_kind_cast_def)
qed

section \<open>\<^verbatim>\<open>PredOp\<close>\<close>

datatype pred_op =
    P_Eq | P_Ne | P_In_Set | P_Min | P_Max | P_Version_Lt | P_Version_Le | P_Version_Gt
  | P_Version_Ge | P_Arch_Family | P_Feature_Req | P_Truthy | P_Raw u8

fun pred_op_code :: "pred_op \<Rightarrow> u8" where
  "pred_op_code P_Eq = 0"
| "pred_op_code P_Ne = 1"
| "pred_op_code P_In_Set = 2"
| "pred_op_code P_Min = 3"
| "pred_op_code P_Max = 4"
| "pred_op_code P_Version_Lt = 5"
| "pred_op_code P_Version_Le = 6"
| "pred_op_code P_Version_Gt = 7"
| "pred_op_code P_Version_Ge = 8"
| "pred_op_code P_Arch_Family = 9"
| "pred_op_code P_Feature_Req = 10"
| "pred_op_code P_Truthy = 11"
| "pred_op_code (P_Raw b) = b"

definition pred_op_cast :: "u8 \<Rightarrow> pred_op" where
  "pred_op_cast b =
    (if b = 0 then P_Eq else if b = 1 then P_Ne else if b = 2 then P_In_Set
     else if b = 3 then P_Min else if b = 4 then P_Max else if b = 5 then P_Version_Lt
     else if b = 6 then P_Version_Le else if b = 7 then P_Version_Gt
     else if b = 8 then P_Version_Ge else if b = 9 then P_Arch_Family
     else if b = 10 then P_Feature_Req else if b = 11 then P_Truthy
     else P_Raw b)"

fun pred_op_ok :: "pred_op \<Rightarrow> bool" where
  "pred_op_ok (P_Raw _) = False"
| "pred_op_ok _ = True"

interpretation PredOp_u8: u8_enum pred_op_code pred_op_cast pred_op_ok
proof
  fix e
  show "pred_op_ok e \<Longrightarrow> pred_op_cast (pred_op_code e) = e"
    by (cases e) (simp_all add: pred_op_cast_def)
next
  fix b
  show "pred_op_code (pred_op_cast b) = b"
    by (simp add: pred_op_cast_def)
qed

fun pred_op_name :: "pred_op \<Rightarrow> string" where
  "pred_op_name P_Eq = ''eq''"
| "pred_op_name P_Ne = ''ne''"
| "pred_op_name P_In_Set = ''in_set''"
| "pred_op_name P_Min = ''min''"
| "pred_op_name P_Max = ''max''"
| "pred_op_name P_Version_Lt = ''version_lt''"
| "pred_op_name P_Version_Le = ''version_le''"
| "pred_op_name P_Version_Gt = ''version_gt''"
| "pred_op_name P_Version_Ge = ''version_ge''"
| "pred_op_name P_Arch_Family = ''arch_family''"
| "pred_op_name P_Feature_Req = ''feature_req''"
| "pred_op_name P_Truthy = ''truthy''"
| "pred_op_name (P_Raw _) = ''?''"

section \<open>\<^verbatim>\<open>EvidenceKind\<close>\<close>

datatype evidence_kind =
    EK_Measured | EK_Reported | EK_Derived | EK_Validated | EK_Reconstructed | EK_Unavailable
  | EK_Raw u8

fun evidence_kind_code :: "evidence_kind \<Rightarrow> u8" where
  "evidence_kind_code EK_Measured = 0"
| "evidence_kind_code EK_Reported = 1"
| "evidence_kind_code EK_Derived = 2"
| "evidence_kind_code EK_Validated = 3"
| "evidence_kind_code EK_Reconstructed = 4"
| "evidence_kind_code EK_Unavailable = 5"
| "evidence_kind_code (EK_Raw b) = b"

definition evidence_kind_cast :: "u8 \<Rightarrow> evidence_kind" where
  "evidence_kind_cast b =
    (if b = 0 then EK_Measured else if b = 1 then EK_Reported else if b = 2 then EK_Derived
     else if b = 3 then EK_Validated else if b = 4 then EK_Reconstructed
     else if b = 5 then EK_Unavailable
     else EK_Raw b)"

fun evidence_kind_ok :: "evidence_kind \<Rightarrow> bool" where
  "evidence_kind_ok (EK_Raw _) = False"
| "evidence_kind_ok _ = True"

interpretation EvidenceKind_u8: u8_enum evidence_kind_code evidence_kind_cast evidence_kind_ok
proof
  fix e
  show "evidence_kind_ok e \<Longrightarrow> evidence_kind_cast (evidence_kind_code e) = e"
    by (cases e) (simp_all add: evidence_kind_cast_def)
next
  fix b
  show "evidence_kind_code (evidence_kind_cast b) = b"
    by (simp add: evidence_kind_cast_def)
qed

fun evidence_kind_name :: "evidence_kind \<Rightarrow> string" where
  "evidence_kind_name EK_Measured = ''measured''"
| "evidence_kind_name EK_Reported = ''reported''"
| "evidence_kind_name EK_Derived = ''derived''"
| "evidence_kind_name EK_Validated = ''validated''"
| "evidence_kind_name EK_Reconstructed = ''reconstructed''"
| "evidence_kind_name EK_Unavailable = ''unavailable''"
| "evidence_kind_name (EK_Raw _) = ''?''"

section \<open>Properties\<close>

text \<open>
  Every outcome has a name of its own, and reading the name back gives the outcome.
  \<^verbatim>\<open>outcome_name\<close> fails exactly on a value that is no enumerator.
\<close>

theorem outcome_name_roundtrip:
  "if outcome_ok x then \<exists>n. outcome_name x = Inr n \<and> outcome_from_name n = Inr x
   else outcome_name x = Inl (Runtime_Error ''outcome_name: unknown outcome'')"
  by (cases x) (simp_all add: outcome_from_name_def)

end
