(* ===== verification/Codec.thy ===== *)
theory Codec
  imports Decode Enums
begin

text \<open>
  The idioms by which the program writes a C++ object into a canonical record and reads it back
  (\<^verbatim>\<open>to_canon\<close>, \<^verbatim>\<open>from_canon\<close>, \<^verbatim>\<open>enc_*\<close>, \<^verbatim>\<open>dec_*\<close>): a field is present or not, of the kind the
  reader wants or not, and a reader either throws or keeps the member's default. The locale
  \<open>record_codec\<close> is the contract of such a pair and holds what follows from it for every pair.
\<close>

section \<open>Writing\<close>

text \<open>\<^verbatim>\<open>if (x) Canon::put_uint(r, tag, *x)\<close>.\<close>

definition put_opt :: "u32 \<Rightarrow> ('a \<Rightarrow> canon) \<Rightarrow> 'a option \<Rightarrow> crecord" where
  "put_opt tag mk x = (case x of None \<Rightarrow> [] | Some v \<Rightarrow> [(tag, mk v)])"

lemma put_opt_simps [simp]: "put_opt tag mk None = []" "put_opt tag mk (Some v) = [(tag, mk v)]"
  by (simp_all add: put_opt_def)

section \<open>Reading\<close>

text \<open>\<^verbatim>\<open>if (!v || v->kind() != K) throw std::runtime_error(msg)\<close>.\<close>

definition need_uuid :: "string \<Rightarrow> canon \<Rightarrow> u32 \<Rightarrow> uuid res" where
  "need_uuid msg c tag = (case field c tag of Some (CUuid u) \<Rightarrow> Inr u | _ \<Rightarrow> Inl (Runtime_Error msg))"

definition need_str :: "string \<Rightarrow> canon \<Rightarrow> u32 \<Rightarrow> string res" where
  "need_str msg c tag = (case field c tag of Some (CStr s) \<Rightarrow> Inr s | _ \<Rightarrow> Inl (Runtime_Error msg))"

text \<open>\<^verbatim>\<open>if (v && v->kind() == K) x.member = ...\<close>; the first argument is the member's default.\<close>

definition uuid_or :: "uuid \<Rightarrow> canon \<Rightarrow> u32 \<Rightarrow> uuid" where
  "uuid_or d c tag = (case field c tag of Some (CUuid u) \<Rightarrow> u | _ \<Rightarrow> d)"

definition str_or :: "string \<Rightarrow> canon \<Rightarrow> u32 \<Rightarrow> string" where
  "str_or d c tag = (case field c tag of Some (CStr s) \<Rightarrow> s | _ \<Rightarrow> d)"

definition uint_or :: "u64 \<Rightarrow> canon \<Rightarrow> u32 \<Rightarrow> u64" where
  "uint_or d c tag = (case field c tag of Some (CUint v) \<Rightarrow> v | _ \<Rightarrow> d)"

definition bool_or :: "bool \<Rightarrow> canon \<Rightarrow> u32 \<Rightarrow> bool" where
  "bool_or d c tag = (case field c tag of Some (CBool v) \<Rightarrow> v | _ \<Rightarrow> d)"

definition record_or :: "crecord \<Rightarrow> canon \<Rightarrow> u32 \<Rightarrow> crecord" where
  "record_or d c tag = (case field c tag of Some (CRecord r) \<Rightarrow> r | _ \<Rightarrow> d)"

definition canon_or :: "canon \<Rightarrow> canon \<Rightarrow> u32 \<Rightarrow> canon" where
  "canon_or d c tag = (case field c tag of Some v \<Rightarrow> v | None \<Rightarrow> d)"

definition opt_uint :: "canon \<Rightarrow> u32 \<Rightarrow> u64 option" where
  "opt_uint c tag = (case field c tag of Some (CUint v) \<Rightarrow> Some v | _ \<Rightarrow> None)"

text \<open>The enum readers: \<^verbatim>\<open>if (v && v->kind() == CanonKind::Uint) x.member = static_cast<E>(v->as_uint())\<close>.\<close>

definition enum_or :: "(u8 \<Rightarrow> 'e) \<Rightarrow> 'e \<Rightarrow> canon \<Rightarrow> u32 \<Rightarrow> 'e" where
  "enum_or cast d c tag = (case field c tag of Some (CUint v) \<Rightarrow> cast (ucast v) | _ \<Rightarrow> d)"

definition opt_enum :: "(u8 \<Rightarrow> 'e) \<Rightarrow> canon \<Rightarrow> u32 \<Rightarrow> 'e option" where
  "opt_enum cast c tag = (case field c tag of Some (CUint v) \<Rightarrow> Some (cast (ucast v)) | _ \<Rightarrow> None)"

text \<open>Sequences: elements of another kind are skipped, a field that is no sequence is empty.\<close>

definition seq_at :: "canon \<Rightarrow> u32 \<Rightarrow> canon list" where
  "seq_at c tag = (case field c tag of Some (CSeq q) \<Rightarrow> q | _ \<Rightarrow> [])"

fun the_uuids :: "canon list \<Rightarrow> uuid list" where
  "the_uuids [] = []"
| "the_uuids (CUuid u # q) = u # the_uuids q"
| "the_uuids (_ # q) = the_uuids q"

fun the_strs :: "canon list \<Rightarrow> string list" where
  "the_strs [] = []"
| "the_strs (CStr s # q) = s # the_strs q"
| "the_strs (_ # q) = the_strs q"

fun the_ints :: "canon list \<Rightarrow> u64 list" where
  "the_ints [] = []"
| "the_ints (CInt v # q) = v # the_ints q"
| "the_ints (_ # q) = the_ints q"

fun the_bools :: "canon list \<Rightarrow> bool list" where
  "the_bools [] = []"
| "the_bools (CBool b # q) = b # the_bools q"
| "the_bools (_ # q) = the_bools q"

lemma the_lists [simp]:
  "the_uuids (map CUuid us) = us" "the_strs (map CStr ss) = ss"
  "the_ints (map CInt is) = is" "the_bools (map CBool bs) = bs"
  subgoal by (induction us) simp_all
  subgoal by (induction ss) simp_all
  subgoal by (induction "is") simp_all
  subgoal by (induction bs) simp_all
  done

section \<open>Reading back what was written\<close>

text \<open>A record literal is searched tag by tag.\<close>

lemma field_Nil [codec_simps]: "field (CRecord []) tag = None"
  by (simp add: field_def lower_bound_def)

lemma field_Cons [codec_simps]:
  "field (CRecord ((t, v) # r)) tag =
     (if t < tag then field (CRecord r) tag else if t = tag then Some v else None)"
  by (simp add: field_def lower_bound_def)

lemmas reader_defs [codec_simps] = need_uuid_def need_str_def uuid_or_def str_or_def uint_or_def bool_or_def
  record_or_def canon_or_def opt_uint_def enum_or_def opt_enum_def seq_at_def

abbreviation record_ok :: "crecord \<Rightarrow> bool" where
  "record_ok r \<equiv> canon_ok (CRecord r)"

lemma mk_record_literal [codec_simps]: "tags_ok r \<Longrightarrow> mk_record r = Inr (CRecord r)"
  by (rule mk_record_tags_ok)

section \<open>The contract of a writer and its reader\<close>

locale record_codec =
  fixes to_canon :: "'a \<Rightarrow> canon res"
    and from_canon :: "canon \<Rightarrow> 'a res"
    and ok :: "'a \<Rightarrow> bool"
  assumes written: "ok x \<Longrightarrow> \<exists>c. to_canon x = Inr c \<and> canon_ok c \<and> from_canon c = Inr x"
begin

lemma roundtrip: "ok x \<Longrightarrow> bindE (to_canon x) from_canon = Inr x"
  using written by fastforce

lemma to_canon_inject: "ok x \<Longrightarrow> ok y \<Longrightarrow> to_canon x = to_canon y \<Longrightarrow> x = y"
  using written by (metis sum.inject(2))

lemma to_canon_ok: "ok x \<Longrightarrow> to_canon x = Inr c \<Longrightarrow> canon_ok c \<and> from_canon c = Inr x"
  using written by (metis sum.inject(2))

lemma list_written:
  assumes "\<forall>x \<in> set xs. ok x"
  shows "\<exists>cs. mapE to_canon xs = Inr cs \<and> (\<forall>c \<in> set cs. canon_ok c) \<and> mapE from_canon cs = Inr xs"
  using assms
proof (induction xs)
  case (Cons x xs)
  then obtain cs where "mapE to_canon xs = Inr cs" "\<forall>c \<in> set cs. canon_ok c" "mapE from_canon cs = Inr xs"
    by auto
  moreover obtain c where "to_canon x = Inr c" "canon_ok c" "from_canon c = Inr x"
    using written Cons.prems by auto
  ultimately show ?case
    by simp
qed simp

text \<open>Through the bytes: what is written, encoded, decoded and read is what was there.\<close>

lemma bytes_roundtrip:
  assumes "ok x" and "to_canon x = Inr c" and "canon_fits c"
  shows "bindE (bindE (canonical_encode c) canonical_decode) from_canon = Inr x"
  using to_canon_ok [OF assms(1,2)] canonical_decode_encode_enc [of c] assms(3)
  by (simp add: canonical_encode_enc)

text \<open>Equal fingerprints mean equal objects or a collision of SHA-256.\<close>

lemma fingerprint_identity:
  assumes "ok x" and "ok y" and "to_canon x = Inr c" and "to_canon y = Inr c'"
    and "canon_fits c" and "canon_fits c'" and "canonical_fingerprint_hex c = canonical_fingerprint_hex c'"
  shows "x = y \<or> enc c \<noteq> enc c' \<and> sha256 (k_magic @ [k_version] @ enc c) = sha256 (k_magic @ [k_version] @ enc c')"
proof (cases "enc c = enc c'")
  case True
  have c: "canon_ok c" "from_canon c = Inr x" and c': "canon_ok c'" "from_canon c' = Inr y"
    using to_canon_ok assms(1-4) by blast+
  have "c = c'"
    using canonical_decode_encode_enc [OF c(1) assms(5)] canonical_decode_encode_enc [OF c'(1) assms(6)] True
    by simp
  with c c' show ?thesis by simp
next
  case False
  then show ?thesis
    using assms(7) to_canon_ok [OF assms(1,3)] to_canon_ok [OF assms(2,4)]
    by (simp add: canonical_fingerprint_hex_enc sha_hex_inject)
qed

end

end
