(* ===== verification/Frame.thy ===== *)
theory Frame
  imports Codec
begin

text \<open>
  The framing layer of \<^verbatim>\<open>include/compat/net.hpp\<close> and \<^verbatim>\<open>src/compat/net.cpp\<close>: message types, the CRC-32, the
  frame around an encoded payload, and reading one frame from a connection. A connection is the list
  of bytes that arrive before it is closed.
\<close>

section \<open>Messages\<close>

datatype msg_type =
    Register_Source | Register_Profile | Register_Rule | Register_Evidence | Query_Pair | Query_Requirement
  | Decision | Invalidate | Snapshot | Ack | Error | Shutdown | Msg_Raw u8

fun msg_type_code :: "msg_type \<Rightarrow> u8" where
  "msg_type_code Register_Source = 1"
| "msg_type_code Register_Profile = 2"
| "msg_type_code Register_Rule = 3"
| "msg_type_code Register_Evidence = 4"
| "msg_type_code Query_Pair = 5"
| "msg_type_code Query_Requirement = 6"
| "msg_type_code Decision = 7"
| "msg_type_code Invalidate = 8"
| "msg_type_code Snapshot = 9"
| "msg_type_code Ack = 10"
| "msg_type_code Error = 11"
| "msg_type_code Shutdown = 12"
| "msg_type_code (Msg_Raw b) = b"

definition msg_type_cast :: "u8 \<Rightarrow> msg_type" where
  "msg_type_cast b =
    (if b = 1 then Register_Source else if b = 2 then Register_Profile else if b = 3 then Register_Rule
     else if b = 4 then Register_Evidence else if b = 5 then Query_Pair else if b = 6 then Query_Requirement
     else if b = 7 then Decision else if b = 8 then Invalidate else if b = 9 then Snapshot
     else if b = 10 then Ack else if b = 11 then Error else if b = 12 then Shutdown else Msg_Raw b)"

fun msg_type_ok :: "msg_type \<Rightarrow> bool" where
  "msg_type_ok (Msg_Raw _) = False"
| "msg_type_ok _ = True"

interpretation MsgType_u8: u8_enum msg_type_code msg_type_cast msg_type_ok
proof
  fix e
  show "msg_type_ok e \<Longrightarrow> msg_type_cast (msg_type_code e) = e"
    by (cases e) (simp_all add: msg_type_cast_def)
next
  fix b
  show "msg_type_code (msg_type_cast b) = b"
    by (simp add: msg_type_cast_def)
qed

fun msg_type_name :: "msg_type \<Rightarrow> string" where
  "msg_type_name Register_Source = ''REGISTER_SOURCE''"
| "msg_type_name Register_Profile = ''REGISTER_PROFILE''"
| "msg_type_name Register_Rule = ''REGISTER_RULE''"
| "msg_type_name Register_Evidence = ''REGISTER_EVIDENCE''"
| "msg_type_name Query_Pair = ''QUERY_PAIR''"
| "msg_type_name Query_Requirement = ''QUERY_REQUIREMENT''"
| "msg_type_name Decision = ''DECISION''"
| "msg_type_name Invalidate = ''INVALIDATE''"
| "msg_type_name Snapshot = ''SNAPSHOT''"
| "msg_type_name Ack = ''ACK''"
| "msg_type_name Error = ''ERROR''"
| "msg_type_name Shutdown = ''SHUTDOWN''"
| "msg_type_name (Msg_Raw _) = ''?''"

record net_message =
  m_type :: msg_type
  m_payload :: canon

text \<open>\<^verbatim>\<open>field_uuid\<close> leaves its out parameter, here \<open>d\<close>, alone when the field is missing.\<close>

definition field_uuid :: "uuid \<Rightarrow> net_message \<Rightarrow> u32 \<Rightarrow> uuid" where
  "field_uuid d m tag = uuid_or d (m_payload m) tag"

definition field_str :: "net_message \<Rightarrow> u32 \<Rightarrow> string" where
  "field_str m tag = str_or [] (m_payload m) tag"

section \<open>CRC-32\<close>

definition crc_bit :: "u32 \<Rightarrow> u32" where
  "crc_bit c = (if c AND 1 \<noteq> 0 then drop_bit 1 c XOR 0xEDB88320 else drop_bit 1 c)"

definition crc_byte :: "u32 \<Rightarrow> u8 \<Rightarrow> u32" where
  "crc_byte c d = (crc_bit ^^ 8) (c XOR ucast d)"

definition crc32 :: "bytes \<Rightarrow> u32" where
  "crc32 data = foldl crc_byte 0xFFFFFFFF data XOR 0xFFFFFFFF"

section \<open>Frames\<close>

definition frame_magic :: u32 where
  "frame_magic = 0x43524E57"

definition frame_message :: "msg_type \<Rightarrow> canon \<Rightarrow> bytes res" where
  "frame_message t payload =
     bindE (canonical_encode payload) (\<lambda>pl. Inr
       (w_u32be frame_magic @ w_u8 1 @ w_u8 (msg_type_code t) @ w_u32be (len32 pl) @ pl @ w_u32be (crc32 pl)))"

definition buf_u8 :: "bytes \<Rightarrow> nat \<Rightarrow> (u8 \<times> nat) res" where
  "buf_u8 d p = (if p \<ge> length d then Inl (Runtime_Error ''unframe: short (u8)'') else Inr (d ! p, p + 1))"

definition buf_u32be :: "bytes \<Rightarrow> nat \<Rightarrow> (u32 \<times> nat) res" where
  "buf_u32be d p =
     (if length d - p < 4 then Inl (Runtime_Error ''unframe: short (u32)'')
      else Inr (push_bit 24 (ucast (d ! p)) OR push_bit 16 (ucast (d ! (p + 1)))
          OR push_bit 8 (ucast (d ! (p + 2))) OR ucast (d ! (p + 3)), p + 4))"

text \<open>The message and the number of bytes consumed.\<close>

definition unframe_message :: "bytes \<Rightarrow> (net_message \<times> nat) res" where
  "unframe_message bs =
     (if length bs < 10 then Inl (Runtime_Error ''unframe: header too short'') else
      bindE (buf_u32be bs 0) (\<lambda>(magic, p).
      if magic \<noteq> frame_magic then Inl (Runtime_Error ''unframe: bad magic'') else
      bindE (buf_u8 bs p) (\<lambda>(ver, p).
      if ver \<noteq> 1 then Inl (Runtime_Error ''unframe: bad version'') else
      bindE (buf_u8 bs p) (\<lambda>(type, p).
      bindE (buf_u32be bs p) (\<lambda>(len, p).
      let n = unat len in
      if n > length bs - 10 then Inl (Runtime_Error ''unframe: length exceeds buffer'')
      else if length bs - 10 - n < 4 then Inl (Runtime_Error ''unframe: missing checksum'')
      else let pl = take n (drop 10 bs) in
        bindE (buf_u32be bs (10 + n)) (\<lambda>(stored, _).
        if crc32 pl \<noteq> stored then Inl (Runtime_Error ''unframe: checksum mismatch'')
        else bindE (canonical_decode pl) (\<lambda>c.
          Inr (\<lparr>m_type = msg_type_cast type, m_payload = c\<rparr>, 10 + n + 4))))))))"

text \<open>
  \<^verbatim>\<open>recv_frame\<close> reads ten bytes, then as many as the length in them says, and unframes the whole. On
  success it returns the message and what has not been read yet. The text of the error is what
  \<^verbatim>\<open>err\<close> is set to: for an exception of \<^verbatim>\<open>unframe_message\<close> its \<^verbatim>\<open>what()\<close>.
\<close>

definition max_frame :: nat where
  "max_frame = 64 * 1024 * 1024"

definition recv_frame :: "bytes \<Rightarrow> (net_message \<times> bytes) res" where
  "recv_frame s =
     (if length s < 10 then Inl (Runtime_Error ''recv header failed'')
      else let len = be_nat (take 4 (drop 6 s)) in
        if len > max_frame then Inl (Runtime_Error ''frame too large'')
        else if length s < 10 + len + 4 then Inl (Runtime_Error ''recv body failed'')
        else bindE (unframe_message (take (10 + len + 4) s)) (\<lambda>(m, _).
          Inr (m, drop (10 + len + 4) s)))"

section \<open>The checksum\<close>

text \<open>One step can be undone: the top bit of the result tells whether the polynomial was added.\<close>

lemma crc_bit_top: "bit (crc_bit x) 31 \<longleftrightarrow> odd x"
proof -
  have "bit (0xEDB88320 :: u32) 31" and "\<not> bit (drop_bit 1 x) 31"
    by (simp, auto simp: bit_drop_bit_eq dest: bit_imp_le_length)
  moreover have "x AND 1 \<noteq> 0 \<longleftrightarrow> odd x"
    by (simp add: and_one_eq odd_iff_mod_2_eq_one)
  ultimately show ?thesis
    unfolding crc_bit_def by (cases "odd x") (simp_all only: bit_xor_iff simp_thms if_True if_False)
qed

lemma crc_bit_inject: "crc_bit c = crc_bit c' \<longleftrightarrow> c = c'"
proof
  assume eq: "crc_bit c = crc_bit c'"
  have par: "odd c = odd c'"
    using crc_bit_top [of c] crc_bit_top [of c'] eq by simp
  have "c mod 2 = c' mod 2"
    unfolding mod_2_eq_odd par ..
  have "drop_bit 1 c = crc_bit c XOR (if odd c then 0xEDB88320 else 0)" for c
    by (auto simp: crc_bit_def and_one_eq xor.assoc odd_iff_mod_2_eq_one even_iff_mod_2_eq_zero)
  then have "c div 2 = c' div 2"
    using eq par by (simp add: drop_bit_eq_div)
  with \<open>c mod 2 = c' mod 2\<close> show "c = c'"
    by (metis div_mult_mod_eq)
qed simp

lemma crc_bits_inject: "(crc_bit ^^ n) c = (crc_bit ^^ n) c' \<longleftrightarrow> c = c'"
  by (induction n) (simp_all add: crc_bit_inject)

lemma xor_cancel: "a XOR b = a' XOR b \<longleftrightarrow> a = a'" for a b :: "'a::len word"
proof
  assume "a XOR b = a' XOR b"
  then have "(a XOR b) XOR b = (a' XOR b) XOR b"
    by (rule arg_cong)
  then show "a = a'"
    by (simp only: xor.assoc xor_self_eq xor.right_neutral)
qed simp

lemma crc_state_inject: "foldl crc_byte c data = foldl crc_byte c' data \<longleftrightarrow> c = c'"
proof (induction data arbitrary: c c')
  case (Cons d data)
  have "crc_byte c d = crc_byte c' d \<longleftrightarrow> c = c'"
    by (simp add: crc_byte_def crc_bits_inject xor_cancel)
  with Cons show ?case
    by simp
qed simp

text \<open>
  Up to four bytes enter the state together: the register is shifted once per bit, so bytes that are
  still to come can be added to it ahead of time.
\<close>

lemma crc_bit_shift:
  assumes "\<forall>k \<ge> 31. \<not> bit y k"
  shows "crc_bit (x XOR push_bit 1 y) = crc_bit x XOR y"
proof -
  have "drop_bit 1 (x XOR push_bit 1 y) = drop_bit 1 x XOR y"
  proof (rule bit_word_eqI)
    fix k assume "k < LENGTH(32)"
    then have "bit (push_bit 1 y) (1 + k) = bit y k"
      using assms unfolding bit_push_bit_iff by (cases "k = 31") auto
    then show "bit (drop_bit 1 (x XOR push_bit 1 y)) k = bit (drop_bit 1 x XOR y) k"
      by (simp only: bit_drop_bit_eq bit_xor_iff comp_apply)
  qed
  moreover have "odd (x XOR push_bit 1 y) = odd x"
    by (simp add: even_xor_iff)
  ultimately show ?thesis
    by (simp add: crc_bit_def and_one_eq mod_2_eq_odd xor.assoc xor.commute [of y])
qed

lemma crc_bits_shift:
  "\<forall>k \<ge> 32 - n. \<not> bit y k \<Longrightarrow> n \<le> 32 \<Longrightarrow> (crc_bit ^^ n) (x XOR push_bit n y) = (crc_bit ^^ n) x XOR y"
proof (induction n arbitrary: x)
  case (Suc n)
  have "\<forall>k \<ge> 31. \<not> bit (push_bit n y) k"
    using Suc.prems by (auto simp: bit_push_bit_iff)
  then have "crc_bit (x XOR push_bit (Suc n) y) = crc_bit x XOR push_bit n y"
    using crc_bit_shift [of "push_bit n y" x] by (simp add: push_bit_push_bit)
  moreover have "\<forall>k \<ge> 32 - n. \<not> bit y k"
    using Suc.prems by auto
  ultimately show ?case
    using Suc.IH [of "crc_bit x"] Suc.prems(2) by (simp add: funpow_Suc_right del: funpow.simps)
qed simp

lemma crc_window:
  "length ds \<le> 4 \<Longrightarrow> foldl crc_byte c ds = (crc_bit ^^ (8 * length ds)) (c XOR be_word (rev ds))"
proof (induction ds rule: rev_induct)
  case (snoc d ds)
  let ?n = "8 * length ds"
  have small: "\<forall>k \<ge> 32 - ?n. \<not> bit (ucast d :: u32) k"
    using snoc.prems by (auto simp: bit_ucast_iff dest: bit_imp_le_length)
  have word: "be_word (rev (ds @ [d])) = be_word (rev ds) XOR push_bit ?n (ucast d :: u32)"
  proof (rule bit_word_eqI)
    fix k assume k: "k < LENGTH(32)"
    show "bit (be_word (rev (ds @ [d])) :: u32) k = bit (be_word (rev ds) XOR push_bit ?n (ucast d) :: u32) k"
    proof (cases "k < ?n")
      case True
      then have "k div 8 < length ds" by simp
      with True k show ?thesis
        by (simp add: bit_be_word bit_xor_iff bit_push_bit_iff nth_append)
    next
      case False
      define j where "j = k - ?n"
      have j: "k = ?n + j"
        using False by (simp add: j_def)
      have "bit (be_word (rev (ds @ [d])) :: u32) k \<longleftrightarrow> j < 8 \<and> bit d j"
        using k unfolding bit_be_word j by (auto simp: nth_append)
      moreover have "bit (push_bit ?n (ucast d :: u32)) k \<longleftrightarrow> j < 8 \<and> bit d j"
        using k unfolding bit_push_bit_iff j by (auto simp: bit_ucast_iff dest: bit_imp_le_length)
      moreover have "\<not> bit (be_word (rev ds) :: u32) k"
        using False by (simp add: bit_be_word)
      ultimately show ?thesis
        by (simp only: bit_xor_iff simp_thms)
    qed
  qed
  have "foldl crc_byte c (ds @ [d]) = (crc_bit ^^ 8) ((crc_bit ^^ ?n) (c XOR be_word (rev ds)) XOR ucast d)"
    using snoc by (simp add: crc_byte_def [of "(crc_bit ^^ ?n) (c XOR be_word (rev ds))"])
  also have "\<dots> = (crc_bit ^^ 8) ((crc_bit ^^ ?n) ((c XOR be_word (rev ds)) XOR push_bit ?n (ucast d)))"
    using snoc.prems by (subst crc_bits_shift [OF small]) simp_all
  also have "\<dots> = (crc_bit ^^ (8 * length (ds @ [d]))) (c XOR be_word (rev (ds @ [d])))"
    unfolding word by (simp add: funpow_add xor.assoc)
  finally show ?case .
qed simp

lemma be_word_inject:
  assumes "length bs = length bs'" and "8 * length bs \<le> LENGTH('a::len)" and "be_word bs = (be_word bs' :: 'a word)"
  shows "bs = bs'"
proof -
  have "rev bs = rev bs'"
  proof (rule nth_equalityI)
    fix i assume i: "i < length (rev bs)"
    show "rev bs ! i = rev bs' ! i"
    proof (rule bit_word_eqI)
      fix k assume "k < LENGTH(8)"
      then have "(8 * i + k) div 8 = i" "(8 * i + k) mod 8 = k" "8 * i + k < 8 * length bs"
        using i by simp_all
      then show "bit (rev bs ! i) k = bit (rev bs' ! i) k"
        using assms bit_be_word [of bs "8 * i + k", where 'a = 'a] bit_be_word [of bs' "8 * i + k", where 'a = 'a]
        by simp
    qed
  qed (simp add: assms(1))
  then show ?thesis by simp
qed

section \<open>Reading what was framed\<close>

lemma buf_u32be_word:
  assumes "p + 4 \<le> length d"
  shows "buf_u32be d p = Inr (be_word (take 4 (drop p d)), p + 4)"
proof -
  have "take 4 (drop p d) = [d ! p, d ! (p + 1), d ! (p + 2), d ! (p + 3)]"
    using assms by (simp add: take_drop_nth upt_rec numeral_3_eq_3)
  moreover have "be_word [a, b, c, e] = push_bit 24 (ucast a) OR push_bit 16 (ucast b)
      OR push_bit 8 (ucast c) OR (ucast e :: u32)" for a b c e :: u8
    by (simp add: be_word_def push_bit_or or.assoc)
  ultimately show ?thesis
    using assms by (simp add: buf_u32be_def)
qed

lemma be_nat_len32: "be_nat (be_bytes 4 w) = unat (w :: u32)"
  using be_nat_be_word [of "be_bytes 4 w", where 'a = 32] by simp

text \<open>A frame of payload \<open>pl\<close> with checksum \<open>crc\<close>, and what unframing makes of any such bytes.\<close>

definition frame_bytes :: "u8 \<Rightarrow> bytes \<Rightarrow> u32 \<Rightarrow> bytes" where
  "frame_bytes t pl crc = be_bytes 4 frame_magic @ [1, t] @ be_bytes 4 (len32 pl) @ pl @ be_bytes 4 crc"

lemma length_frame_bytes [simp, bytes_length]: "length (frame_bytes t pl crc) = 14 + length pl"
  by (simp add: frame_bytes_def)

lemma frame_message_bytes:
  assumes "canon_ok c"
  shows "frame_message t c =
    Inr (frame_bytes (msg_type_code t) (k_magic @ [k_version] @ enc c) (crc32 (k_magic @ [k_version] @ enc c)))"
  using assms by (simp add: frame_message_def canonical_encode_enc frame_bytes_def w_u8_def w_u32be_be_bytes)

lemma unframe_frame_bytes:
  assumes "length pl < 2 ^ 32"
  shows "unframe_message (frame_bytes t pl crc @ rest) =
    (if crc32 pl \<noteq> crc then Inl (Runtime_Error ''unframe: checksum mismatch'')
     else bindE (canonical_decode pl) (\<lambda>c. Inr (\<lparr>m_type = msg_type_cast t, m_payload = c\<rparr>, 14 + length pl)))"
proof -
  define f where "f = frame_bytes t pl crc @ rest"
  have f_bytes: "f = be_bytes 4 frame_magic @ 1 # t # be_bytes 4 (len32 pl) @ pl @ be_bytes 4 crc @ rest"
    by (simp add: f_def frame_bytes_def)
  have n: "unat (len32 pl) = length pl"
    using assms by (simp add: len32_def unat_of_nat take_bit_eq_mod)
  have len: "length f = 14 + length pl + length rest"
    by (simp add: f_def)
  have magic: "buf_u32be f 0 = Inr (frame_magic, 4)"
    by (subst buf_u32be_word) (simp_all add: f_bytes)
  have l: "buf_u32be f 6 = Inr (len32 pl, 10)"
    by (subst buf_u32be_word) (simp_all add: f_bytes)
  have payload: "drop 10 f = pl @ be_bytes 4 crc @ rest"
    by (simp add: f_bytes)
  then have "drop (length pl) (drop 10 f) = be_bytes 4 crc @ rest"
    by simp
  then have "drop (10 + length pl) f = be_bytes 4 crc @ rest"
    by (simp only: drop_drop add.commute)
  then have stored: "buf_u32be f (10 + length pl) = Inr (crc, 14 + length pl)"
    using len by (subst buf_u32be_word) simp_all
  have bytes: "buf_u8 f 4 = Inr (1, 5)" "buf_u8 f 5 = Inr (t, 6)"
    by (simp_all add: buf_u8_def f_bytes nth_append)
  show ?thesis
    unfolding unframe_message_def f_def [symmetric] using len n
    by (simp add: magic bytes l stored payload Let_def)
qed

lemma recv_frame_bytes:
  assumes "length pl \<le> max_frame"
  shows "recv_frame (frame_bytes t pl crc @ rest) =
    bindE (unframe_message (frame_bytes t pl crc)) (\<lambda>(m, _). Inr (m, rest))"
proof -
  let ?f = "frame_bytes t pl crc @ rest"
  have small: "length pl < 2 ^ 32"
    using assms by (simp add: max_frame_def)
  have "take 4 (drop 6 ?f) = be_bytes 4 (len32 pl)"
    by (simp add: frame_bytes_def)
  then have len: "be_nat (take 4 (drop 6 ?f)) = length pl"
    using small by (simp add: be_nat_len32 len32_def unat_of_nat take_bit_eq_mod)
  have "length ?f = 14 + length pl + length rest"
    by simp
  then show ?thesis
    unfolding recv_frame_def len using assms by (simp add: Let_def)
qed

section \<open>Properties\<close>

text \<open>
  Framing round trip: a framed message is read back with its type and payload whatever
  bytes follow it on the connection, and exactly its bytes are consumed; \<^verbatim>\<open>recv_frame\<close> does so for every
  encoded payload of at most 64 MiB.
\<close>

theorem frame_roundtrip:
  assumes "canon_ok c" and "canon_fits c" and "msg_type_ok t" and "length (k_magic @ [k_version] @ enc c) < 2 ^ 32"
  shows "\<exists>f. frame_message t c = Inr f \<and>
    unframe_message (f @ rest) = Inr (\<lparr>m_type = t, m_payload = c\<rparr>, length f) \<and>
    (length f \<le> max_frame + 14 \<longrightarrow> recv_frame (f @ rest) = Inr (\<lparr>m_type = t, m_payload = c\<rparr>, rest))"
proof -
  let ?pl = "k_magic @ [k_version] @ enc c"
  let ?f = "frame_bytes (msg_type_code t) ?pl (crc32 ?pl)"
  have u: "unframe_message (?f @ rest) = Inr (\<lparr>m_type = t, m_payload = c\<rparr>, length ?f)" for rest
    using unframe_frame_bytes [OF assms(4), of "msg_type_code t" "crc32 ?pl" rest]
      canonical_decode_encode_enc [OF assms(1,2)] MsgType_u8.cast_code [OF assms(3)] by simp
  have "recv_frame (?f @ rest) = Inr (\<lparr>m_type = t, m_payload = c\<rparr>, rest)" if "length ?f \<le> max_frame + 14"
    using recv_frame_bytes [of ?pl "msg_type_code t" "crc32 ?pl" rest] that u [of "[]"] by simp
  with frame_message_bytes [OF assms(1), of t] u show ?thesis
    by blast
qed

theorem frame_roundtrip_witness:
  "\<exists>f. frame_message Ack (CRecord []) = Inr f \<and>
     unframe_message (f @ [7]) = Inr (\<lparr>m_type = Ack, m_payload = CRecord []\<rparr>, length f)"
  using frame_roundtrip [of "CRecord []" Ack "[7]"] by (auto simp: k_magic_def bytes_length)

text \<open>
  Property C24. The checksum detects every error that is confined to four consecutive bytes of the
  payload, wherever they are and whatever it does to them: unframing reports a mismatch instead of
  decoding other content.
\<close>

theorem burst_detected:
  assumes "length m = length m'" and "length m \<le> 4" and "m \<noteq> m'" and "length (p @ m @ s) < 2 ^ 32"
  shows "unframe_message (frame_bytes t (p @ m' @ s) (crc32 (p @ m @ s)) @ rest) =
    Inl (Runtime_Error ''unframe: checksum mismatch'')"
proof -
  let ?c = "foldl crc_byte 0xFFFFFFFF p"
  have "foldl crc_byte ?c m \<noteq> foldl crc_byte ?c m'"
  proof
    assume "foldl crc_byte ?c m = foldl crc_byte ?c m'"
    then have "be_word (rev m) XOR ?c = be_word (rev m') XOR ?c"
      using assms(1,2) by (simp add: crc_window crc_bits_inject xor.commute)
    then have "rev m = rev m'"
      using assms(1,2) unfolding xor_cancel by (intro be_word_inject [where 'a = 32]) simp_all
    with assms(3) show False by simp
  qed
  then have "crc32 (p @ m' @ s) \<noteq> crc32 (p @ m @ s)"
    by (simp add: crc32_def xor_cancel crc_state_inject)
  then show ?thesis
    using unframe_frame_bytes [of "p @ m' @ s"] assms(1,4) by simp
qed

theorem burst_detected_witness:
  "unframe_message (frame_bytes 10 [1, 9, 9, 4] (crc32 [1, 2, 3, 4])) =
     Inl (Runtime_Error ''unframe: checksum mismatch'')"
  using burst_detected [of "[2, 3]" "[9, 9]" "[1]" "[4]" 10 "[]"] by simp

end
