(* ===== verification/Rule.thy ===== *)
theory Rule
  imports Decode Enums
begin

text \<open>
  \<^verbatim>\<open>include/compat/rule.hpp\<close> and \<^verbatim>\<open>src/compat/rule.cpp\<close>: how a dotted field name is resolved in a
  profile payload, versions and their order, equality of canonical values, the predicates of a
  constraint, and the edit of a payload that counterfactual evaluation uses.
\<close>

section \<open>Resolving fields\<close>

text \<open>The chain of name comparisons of \<^verbatim>\<open>tag_for\<close>, one table per profile kind.\<close>

fun field_tags :: "profile_kind \<Rightarrow> (string \<times> u32) list" where
  "field_tags PK_Model =
    [(''model_id'', 1), (''revision_id'', 2), (''architecture'', 3), (''family'', 4),
     (''quantization'', 5), (''tokenizer_id'', 6), (''vocabulary_id'', 7),
     (''parameter_count'', 8), (''dtype'', 10), (''execution_req'', 11)]"
| "field_tags PK_Tokenizer =
    [(''tokenizer_id'', 1), (''vocabulary_id'', 2), (''vocab_size'', 3),
     (''normalization'', 5), (''chat_template'', 6)]"
| "field_tags PK_Tensor =
    [(''schema_id'', 1), (''rank'', 2), (''dtype'', 5), (''layout'', 6),
     (''alignment'', 8), (''endianness'', 9), (''semantic_role'', 10)]"
| "field_tags PK_Kv =
    [(''kv_format_id'', 1), (''model_revision'', 2), (''layer_count'', 3),
     (''head_count'', 4), (''head_dim'', 5), (''dtype'', 6), (''layout'', 7),
     (''positional'', 9), (''seq_context'', 10)]"
| "field_tags PK_Kernel =
    [(''kernel_artifact_id'', 1), (''operation'', 2), (''architecture'', 3),
     (''compute_capability'', 4), (''abi'', 5), (''runtime'', 6), (''compiler'', 7),
     (''compiler_version'', 8), (''dtype'', 9), (''layout'', 10), (''shape_spec'', 11),
     (''quantization'', 13), (''interface'', 14), (''generation'', 15)]"
| "field_tags PK_Graph =
    [(''graph_artifact_id'', 1), (''topology'', 2), (''runtime'', 4), (''backend'', 5),
     (''architecture'', 6), (''abi'', 7), (''dtype'', 8), (''layout'', 9),
     (''memory_binding'', 12)]"
| "field_tags PK_Adapter =
    [(''adapter_id'', 1), (''base_model_revision'', 2), (''kind'', 3), (''dtype'', 6),
     (''composition'', 7), (''generation'', 9)]"
| "field_tags PK_Backend =
    [(''backend_id'', 1), (''runtime'', 2), (''compiler'', 3), (''compiler_version'', 4),
     (''abi'', 5), (''codegen_target'', 6), (''protocol_version'', 8),
     (''interface_version'', 9)]"
| "field_tags PK_Device =
    [(''device_id'', 1), (''vendor'', 2), (''architecture'', 3),
     (''compute_capability'', 4), (''memory_model'', 5), (''total_memory'', 6),
     (''runtime_min'', 10), (''driver_min'', 11)]"
| "field_tags PK_Protocol =
    [(''protocol_id'', 1), (''family'', 2), (''major'', 3), (''minor'', 4),
     (''message_schema_generation'', 5)]"
| "field_tags PK_Policy =
    [(''policy_id'', 1), (''generation'', 2), (''strictness'', 3), (''fallback'', 5)]"
| "field_tags _ = []"

definition tag_for :: "profile_kind \<Rightarrow> string \<Rightarrow> u32 option" where
  "tag_for k name = map_of (field_tags k) name"

definition capability_tags :: "(string \<times> u32) list" where
  "capability_tags =
    [(''compute_capability'', 1), (''max_shared_memory'', 2), (''graph_support'', 3),
     (''supported_dtype_classes'', 4), (''kernel_target_arch'', 5), (''protocol_features'', 6),
     (''memory_feature_support'', 7), (''max_threads_per_block'', 8), (''max_blocks_per_sm'', 9),
     (''regs_per_thread'', 10)]"

definition resolve_capability_subfield :: "canon \<Rightarrow> string \<Rightarrow> canon option" where
  "resolve_capability_subfield rec name =
     (case map_of capability_tags name of None \<Rightarrow> None | Some t \<Rightarrow> field rec t)"

text \<open>\<^verbatim>\<open>find('.')\<close> and the two \<^verbatim>\<open>substr\<close> around it; without a dot the tail is empty.\<close>

definition dot_head :: "string \<Rightarrow> string" where
  "dot_head s = takeWhile (\<lambda>c. c \<noteq> CHR ''.'') s"

definition dot_tail :: "string \<Rightarrow> string" where
  "dot_tail s = tl (dropWhile (\<lambda>c. c \<noteq> CHR ''.'') s)"

definition resolve_profile_field :: "profile_kind \<Rightarrow> canon \<Rightarrow> string \<Rightarrow> canon option" where
  "resolve_profile_field kd profile dotted =
     (if dotted = [] then None
      else case tag_for kd (dot_head dotted) of
        None \<Rightarrow> None
      | Some tag \<Rightarrow> (case field profile tag of
          None \<Rightarrow> None
        | Some v \<Rightarrow>
            if dot_tail dotted = [] then Some v
            else if kind v \<noteq> KRecord then None
            else resolve_capability_subfield v (dot_tail dotted)))"

section \<open>Versions\<close>

text \<open>
  \<^verbatim>\<open>std::from_chars\<close> on an unsigned target reads the longest prefix of digits; without a digit, or
  when the number does not fit, it leaves the target as it was. \<open>parse_num s out\<close> is the flag the
  function returns and the new content of its reference parameter.
\<close>

definition is_digit :: "char \<Rightarrow> bool" where
  "is_digit c \<longleftrightarrow> 48 \<le> (of_char c :: nat) \<and> (of_char c :: nat) \<le> 57"

definition parse_num :: "string \<Rightarrow> u64 \<Rightarrow> bool \<times> u64" where
  "parse_num s out =
     (if s = [] then (False, out)
      else let ds = takeWhile is_digit s; n = digits_value ds in
        if ds = [] \<or> n \<ge> 2 ^ 64 then (False, out) else (ds = s, word_of_nat n))"

type_synonym ver = "u64 \<times> u64"

definition parse_ver :: "string \<Rightarrow> ver" where
  "parse_ver s =
     (if s = [] then (0, 0)
      else let t = filter (\<lambda>c. is_digit c \<or> c = CHR ''.'') s in
        if CHR ''.'' \<notin> set t then (snd (parse_num t 0), 0)
        else (snd (parse_num (dot_head t) 0), snd (parse_num (dot_tail t) 0)))"

definition ver_of :: "canon \<Rightarrow> ver res" where
  "ver_of c = (case c of CUint v \<Rightarrow> Inr (v, 0) | _ \<Rightarrow> bindE (as_string c) (\<lambda>s. Inr (parse_ver s)))"

definition cmp_ver :: "canon \<Rightarrow> canon \<Rightarrow> int res" where
  "cmp_ver a b =
     bindE (ver_of a) (\<lambda>av. bindE (ver_of b) (\<lambda>bv.
       if fst av \<noteq> fst bv then Inr (if fst av < fst bv then -1 else 1)
       else if snd av \<noteq> snd bv then Inr (if snd av < snd bv then -1 else 1)
       else Inr 0))"

section \<open>Equality of canonical values\<close>

definition fingerprint_equal :: "canon \<Rightarrow> canon \<Rightarrow> bool res" where
  "fingerprint_equal a b =
     bindE (canonical_fingerprint a) (\<lambda>fa. bindE (canonical_fingerprint b) (\<lambda>fb. Inr (fa = fb)))"

definition canon_equal :: "canon \<Rightarrow> canon \<Rightarrow> bool res" where
  "canon_equal a b =
     (if kind a \<noteq> kind b then Inr False
      else case a of
        CNull \<Rightarrow> Inr True
      | CUint x \<Rightarrow> bindE (as_uint b) (\<lambda>y. Inr (x = y))
      | CInt x \<Rightarrow> bindE (as_int b) (\<lambda>y. Inr (x = y))
      | CBool x \<Rightarrow> bindE (as_bool b) (\<lambda>y. Inr (x = y))
      | CStr x \<Rightarrow> bindE (as_string b) (\<lambda>y. Inr (x = y))
      | CBytes x \<Rightarrow> bindE (as_string b) (\<lambda>y. Inr (x = y))
      | CUuid x \<Rightarrow> bindE (as_uuid b) (\<lambda>y. Inr (x = y))
      | CFloat x \<Rightarrow> bindE (as_float b) (\<lambda>y. Inr (double_eq x y))
      | CRecord _ \<Rightarrow> fingerprint_equal a b
      | CSeq _ \<Rightarrow> fingerprint_equal a b)"

section \<open>Constraints\<close>

record constraint =
  c_op :: pred_op
  c_field :: string
  c_right_field :: string
  c_expected :: canon
  c_expected2 :: canon
  c_set :: "canon list"
  c_note :: string

text \<open>
  The operand of a numeric bound: the \<^verbatim>\<open>double\<close> the code compares, as a value scaled by
  \<open>2 ^ 1074\<close>, or \<open>None\<close> for a NaN. The conditional expression \<^verbatim>\<open>c ? as_uint() : as_int()\<close> has the
  common type of its branches, \<^verbatim>\<open>std::uint64_t\<close>, so the 64 bits of a signed value are read as
  unsigned before the conversion.
\<close>

definition num_operand :: "canon \<Rightarrow> int option res" where
  "num_operand c =
     (case c of
        CFloat d \<Rightarrow> Inr (if isnan d then None else Some (scaled d))
      | CUint v \<Rightarrow> Inr (Some (scaled_of_u64 v))
      | _ \<Rightarrow> bindE (as_int c) (\<lambda>v. Inr (Some (scaled_of_u64 v))))"

definition num_le :: "int option \<Rightarrow> int option \<Rightarrow> bool" where
  "num_le a b = (case (a, b) of (Some x, Some y) \<Rightarrow> x \<le> y | _ \<Rightarrow> False)"

fun in_set :: "canon \<Rightarrow> canon list \<Rightarrow> bool res" where
  "in_set v [] = Inr False"
| "in_set v (s # ss) = bindE (canon_equal v s) (\<lambda>eq. if eq then Inr True else in_set v ss)"

definition in_family :: "string \<Rightarrow> canon \<Rightarrow> bool" where
  "in_family val s =
     (case s of CStr fam \<Rightarrow> val = fam \<or> length val > length fam \<and> take (length fam) val = fam
      | _ \<Rightarrow> False)"

definition feature_value :: "canon \<Rightarrow> bool" where
  "feature_value v = (case v of CBool b \<Rightarrow> b | CUint n \<Rightarrow> n \<noteq> 0 | _ \<Rightarrow> False)"

text \<open>
  The result of \<^verbatim>\<open>Constraint::evaluate\<close> with its two out-parameters, which every caller passes in
  empty: \<open>(ok, why_ok, why_not)\<close>.
\<close>

type_synonym verdict = "bool \<times> string \<times> string"

definition holds :: "string \<Rightarrow> verdict" where
  "holds why = (True, why, [])"

definition fails :: "string \<Rightarrow> verdict" where
  "fails why = (False, [], why)"

definition unknown_field :: "string \<Rightarrow> string \<Rightarrow> string" where
  "unknown_field f side = ''field '' @ [CHR 0x27] @ f @ [CHR 0x27] @ '' unknown on '' @ side"

text \<open>The branches of the switch. \<open>lv\<close> and \<open>rv\<close> are the resolved fields, if they resolve.\<close>

definition eval_equality ::
  "constraint \<Rightarrow> canon option \<Rightarrow> canon option \<Rightarrow> (bool \<Rightarrow> verdict) \<Rightarrow> (bool \<Rightarrow> verdict) \<Rightarrow> verdict res" where
  "eval_equality c lv rv two one =
     (case lv of
        None \<Rightarrow> Inr (fails (unknown_field (c_field c) ''left''))
      | Some l \<Rightarrow>
          if c_right_field c \<noteq> [] then
            (case rv of
               None \<Rightarrow> Inr (fails (unknown_field (c_right_field c) ''right''))
             | Some r \<Rightarrow> bindE (canon_equal l r) (\<lambda>eq. Inr (two eq)))
          else bindE (canon_equal l (c_expected c)) (\<lambda>eq. Inr (one eq)))"

definition eval_in_set :: "constraint \<Rightarrow> canon option \<Rightarrow> verdict res" where
  "eval_in_set c lv =
     (case lv of
        None \<Rightarrow> Inr (fails (unknown_field (c_field c) ''left''))
      | Some l \<Rightarrow> bindE (in_set l (c_set c)) (\<lambda>b.
          Inr (if b then holds ''value in allowed set'' else fails ''value not in allowed set'')))"

definition eval_bound ::
  "constraint \<Rightarrow> canon option \<Rightarrow> (int option \<Rightarrow> int option \<Rightarrow> bool) \<Rightarrow> string \<Rightarrow> string \<Rightarrow> verdict res" where
  "eval_bound c lv ok yes no =
     (case lv of
        None \<Rightarrow> Inr (fails (unknown_field (c_field c) ''left''))
      | Some l \<Rightarrow> bindE (num_operand l) (\<lambda>a. bindE (num_operand (c_expected c)) (\<lambda>b.
          Inr (if ok a b then holds yes else fails no))))"

definition eval_version :: "constraint \<Rightarrow> canon option \<Rightarrow> canon option \<Rightarrow> (int \<Rightarrow> bool) \<Rightarrow> verdict res" where
  "eval_version c lv rv ok =
     (case lv of
        None \<Rightarrow> Inr (fails (unknown_field (c_field c) ''left''))
      | Some l \<Rightarrow>
          if c_right_field c \<noteq> [] \<and> rv = None
          then Inr (fails (unknown_field (c_right_field c) ''right''))
          else bindE (cmp_ver l (if c_right_field c = [] then c_expected c else the rv)) (\<lambda>k.
            Inr (if ok k then holds ''version relation holds'' else fails ''version relation fails'')))"

definition eval_arch_family :: "constraint \<Rightarrow> canon option \<Rightarrow> verdict" where
  "eval_arch_family c lv =
     (case lv of
        None \<Rightarrow> fails (unknown_field (c_field c) ''left'')
      | Some l \<Rightarrow> (case l of
          CStr val \<Rightarrow>
            if list_ex (in_family val) (c_set c) then holds ''architecture in family''
            else fails ''architecture not in family''
        | _ \<Rightarrow> fails ''architecture not a string''))"

definition eval_feature :: "constraint \<Rightarrow> canon option \<Rightarrow> verdict" where
  "eval_feature c lv =
     (case lv of
        None \<Rightarrow> fails (''feature '' @ [CHR 0x27] @ c_field c @ [CHR 0x27] @ '' unknown/not observed'')
      | Some l \<Rightarrow> if feature_value l then holds ''feature present'' else fails ''feature absent/unsupported'')"

definition evaluate :: "constraint \<Rightarrow> canon \<Rightarrow> canon \<Rightarrow> profile_kind \<Rightarrow> profile_kind \<Rightarrow> verdict res" where
  "evaluate c left right lk rk =
    (let lv = resolve_profile_field lk left (c_field c);
         rv = (if c_right_field c \<noteq> [] then resolve_profile_field rk right (c_right_field c) else None)
     in case c_op c of
       P_Eq \<Rightarrow> eval_equality c lv rv
         (\<lambda>eq. if eq then holds ''field values equal'' else fails ''field values differ'')
         (\<lambda>eq. if eq then holds ''field equals expected'' else fails ''field differs from expected'')
     | P_Ne \<Rightarrow> eval_equality c lv rv
         (\<lambda>eq. if eq then fails ''field values equal'' else holds ''field values differ'')
         (\<lambda>eq. if eq then fails ''field equals expected'' else holds ''field differs from expected'')
     | P_In_Set \<Rightarrow> eval_in_set c lv
     | P_Min \<Rightarrow> eval_bound c lv (\<lambda>a b. num_le b a) ''meets minimum'' ''below minimum''
     | P_Max \<Rightarrow> eval_bound c lv (\<lambda>a b. num_le a b) ''within maximum'' ''exceeds maximum''
     | P_Version_Lt \<Rightarrow> eval_version c lv rv (\<lambda>k. k < 0)
     | P_Version_Le \<Rightarrow> eval_version c lv rv (\<lambda>k. k \<le> 0)
     | P_Version_Gt \<Rightarrow> eval_version c lv rv (\<lambda>k. k > 0)
     | P_Version_Ge \<Rightarrow> eval_version c lv rv (\<lambda>k. k \<ge> 0)
     | P_Arch_Family \<Rightarrow> Inr (eval_arch_family c lv)
     | P_Feature_Req \<Rightarrow> Inr (eval_feature c lv)
     | P_Truthy \<Rightarrow> Inr (eval_feature c lv)
     | P_Raw _ \<Rightarrow> Inr (fails ''unknown predicate''))"

section \<open>Editing a payload\<close>

definition apply_profile_field_edit :: "profile_kind \<Rightarrow> canon \<Rightarrow> string \<Rightarrow> canon \<Rightarrow> canon res" where
  "apply_profile_field_edit kd payload dotted value =
     (case tag_for kd (dot_head dotted) of
        None \<Rightarrow> Inl (Runtime_Error (''apply_profile_field_edit: unknown field '' @
          [CHR 0x27] @ dotted @ [CHR 0x27]))
      | Some tag \<Rightarrow>
          if kind payload \<noteq> KRecord
          then Inl (Runtime_Error ''apply_profile_field_edit: payload not a record'')
          else let rec = as_record payload;
                   found = list_ex (\<lambda>e. fst e = tag) rec;
                   rec = map (\<lambda>e. if fst e = tag then (tag, value) else e) rec
               in mk_record (if found then rec else rec @ [(tag, value)]))"

section \<open>Facts about resolution and comparison\<close>

lemma verdict_simps [simp]:
  "fst (holds w) = True" "fst (fails w) = False"
  "holds w = (True, y, n) \<longleftrightarrow> y = w \<and> n = []" "fails w = (False, y, n) \<longleftrightarrow> y = [] \<and> n = w"
  "holds w \<noteq> (False, y, n)" "fails w \<noteq> (True, y, n)"
  by (auto simp: holds_def fails_def)

lemma unknown_field_not_Nil [simp]: "unknown_field f s \<noteq> []"
  by (simp add: unknown_field_def)

lemma resolve_profile_field_canon_ok:
  "canon_ok p \<Longrightarrow> resolve_profile_field kd p f = Some v \<Longrightarrow> canon_ok v"
  by (auto simp: resolve_profile_field_def resolve_capability_subfield_def
      split: if_splits option.splits dest: canon_ok_field)

lemma fingerprint_equal_enc:
  assumes "canon_ok a" and "canon_ok b"
  shows "fingerprint_equal a b =
    Inr (sha256 (k_magic @ [k_version] @ enc a) = sha256 (k_magic @ [k_version] @ enc b))"
  using assms by (simp add: fingerprint_equal_def canonical_fingerprint_def canonical_encode_enc)

lemma canon_equal_total:
  assumes "canon_ok a" and "canon_ok b"
  shows "\<not> isl (canon_equal a b)"
  using fingerprint_equal_enc [OF assms]
  by (cases a; cases b) (simp_all add: canon_equal_def accessor_defs)

lemma in_set_total:
  assumes "canon_ok v" and "\<forall>s \<in> set ss. canon_ok s"
  shows "\<not> isl (in_set v ss)"
  using assms(2)
proof (induction ss)
  case (Cons s ss)
  then show ?case
    using canon_equal_total [OF assms(1), of s] by (cases "canon_equal v s") auto
qed simp

lemma ver_of_eq_Inr:
  "ver_of c = Inr v \<longleftrightarrow> (case c of CUint n \<Rightarrow> v = (n, 0) | CStr s \<Rightarrow> v = parse_ver s
     | CBytes s \<Rightarrow> v = parse_ver s | _ \<Rightarrow> False)"
  by (auto simp: ver_of_def as_string_def split: canon.splits)

lemma ver_of_eq_Inl: "ver_of c = Inl e \<Longrightarrow> e = Canon_Error ''Canon::as_string: not String/Bytes''"
  by (auto simp: ver_of_def as_string_def split: canon.splits)

text \<open>The three-way comparison of two versions.\<close>

definition compare_ver :: "ver \<Rightarrow> ver \<Rightarrow> int" where
  "compare_ver a b =
     (if fst a < fst b \<or> fst a = fst b \<and> snd a < snd b then -1 else if a = b then 0 else 1)"

lemma cmp_ver_compare:
  "cmp_ver a b = bindE (ver_of a) (\<lambda>va. bindE (ver_of b) (\<lambda>vb. Inr (compare_ver va vb)))"
proof -
  have "(if fst x \<noteq> fst y then Inr (if fst x < fst y then - 1 else 1)
      else if snd x \<noteq> snd y then Inr (if snd x < snd y then - 1 else 1) else Inr 0) = (Inr (compare_ver x y) :: int res)"
    for x y :: ver
    by (cases x; cases y) (simp add: compare_ver_def)
  then show ?thesis
    by (simp add: cmp_ver_def)
qed

lemma cmp_ver_eq_Inr:
  "cmp_ver a b = Inr k \<longleftrightarrow> (\<exists>va vb. ver_of a = Inr va \<and> ver_of b = Inr vb \<and> k = compare_ver va vb)"
  by (cases "ver_of a"; cases "ver_of b") (simp_all add: cmp_ver_compare eq_commute)

lemma num_operand_eq_Inl: "num_operand c = Inl e \<Longrightarrow> e = Canon_Error ''Canon::as_int: not Int''"
  by (auto simp: num_operand_def as_int_def split: canon.splits)

lemma evaluate_unknown_left:
  "resolve_profile_field lk left (c_field c) = None \<Longrightarrow> \<exists>why. evaluate c left right lk rk = Inr (False, [], why)"
  by (cases "c_op c") (simp_all add: evaluate_def eval_equality_def eval_in_set_def eval_bound_def
      eval_version_def eval_arch_family_def eval_feature_def fails_def)

section \<open>Decimal digits and versions\<close>

lemma show_nat_digits: "c \<in> set (show_nat n) \<Longrightarrow> is_digit c"
proof (induction n rule: show_nat.induct)
  case (1 n)
  have digit: "is_digit (digit_char d)" if "d < 10" for d
    using that by (simp add: is_digit_def digit_char_def)
  show ?case
  proof (cases "n < 10")
    case True
    then have "c = digit_char n"
      using "1.prems" by (simp add: show_nat.simps [of n])
    then show ?thesis
      using digit True by simp
  next
    case False
    then have "c \<in> set (show_nat (n div 10)) \<or> c = digit_char (n mod 10)"
      using "1.prems" by (auto simp add: show_nat.simps [of n])
    then show ?thesis
      using "1.IH" False digit [of "n mod 10"] by auto
  qed
qed

lemma show_nat_not_Nil [simp]: "show_nat n \<noteq> []"
  by (simp add: show_nat.simps [of n])

lemma not_digit_dot [simp]: "\<not> is_digit CHR ''.''"
  by (simp add: is_digit_def)

lemma takeWhile_digits: "(\<And>c. c \<in> set s \<Longrightarrow> is_digit c) \<Longrightarrow> takeWhile is_digit s = s"
  by (simp add: takeWhile_eq_all_conv)

lemma parse_num_show_nat: "n < 2 ^ 64 \<Longrightarrow> parse_num (show_nat n) out = (True, word_of_nat n)"
  by (simp add: parse_num_def Let_def takeWhile_digits show_nat_digits digits_value_show_nat)

lemma dot_split:
  assumes "CHR ''.'' \<notin> set s"
  shows "dot_head (s @ CHR ''.'' # t) = s" and "dot_tail (s @ CHR ''.'' # t) = t" and "dot_head s = s"
    and "dot_tail s = []"
proof -
  have all: "\<And>c. c \<in> set s \<Longrightarrow> c \<noteq> CHR ''.''"
    using assms by auto
  then show "dot_head (s @ CHR ''.'' # t) = s" "dot_tail (s @ CHR ''.'' # t) = t"
    by (simp_all add: dot_head_def dot_tail_def)
  have "dropWhile (\<lambda>c. c \<noteq> CHR ''.'') s = []"
    using all by (simp add: dropWhile_eq_Nil_conv)
  then show "dot_tail s = []"
    by (simp only: dot_tail_def list.sel)
  show "dot_head s = s"
    using all by (auto simp: dot_head_def takeWhile_eq_all_conv)
qed

lemma show_nat_no_dot: "CHR ''.'' \<notin> set (show_nat n)"
  using show_nat_digits by fastforce

lemma parse_ver_show_nat:
  assumes "M < 2 ^ 64" and "m < 2 ^ 64"
  shows "parse_ver (show_nat M @ ''.'' @ show_nat m) = (word_of_nat M, word_of_nat m)"
proof -
  let ?v = "show_nat M @ ''.'' @ show_nat m"
  have "filter (\<lambda>c. is_digit c \<or> c = CHR ''.'') ?v = ?v"
    by (simp add: show_nat_digits)
  moreover have "CHR ''.'' \<in> set ?v" "?v \<noteq> []"
    by simp_all
  ultimately show ?thesis
    using assms dot_split(1,2) [OF show_nat_no_dot, of M "show_nat m"]
    by (simp add: parse_ver_def Let_def parse_num_show_nat del: filter_append)
qed

section \<open>Facts about edits\<close>

lemma map_of_replace:
  "map_of (map (\<lambda>e. if fst e = t then (t, v) else e) r) u =
    (if u = t \<and> map_of r t \<noteq> None then Some v else map_of r u)"
  by (induction r) auto

lemma field_mk_record:
  assumes "mk_record r = Inr c"
  shows "field c t = map_of r t"
proof -
  have d: "distinct (map fst r)" "c = CRecord (sort_by tag_less r)"
    using assms by (simp_all add: mk_record_eq_Inr)
  then have "field c t = map_of (sort_by tag_less r) t"
    by (simp add: field_map_of distinct_tags_ok_sort)
  also have "map_of (sort_by tag_less r) = map_of r"
    using d(1) tags_ok_distinct [of "sort_by tag_less r"]
    by (intro umap_mset_eq) (simp_all add: distinct_tags_ok_sort)
  finally show ?thesis .
qed

lemma apply_profile_field_edit_field:
  assumes "canon_ok payload" and "apply_profile_field_edit kd payload f v = Inr p"
  shows "\<exists>tag. tag_for kd (dot_head f) = Some tag \<and>
    (\<forall>t. field p t = (if t = tag then Some v else field payload t))"
proof -
  obtain tag r where tag: "tag_for kd (dot_head f) = Some tag" and r: "payload = CRecord r"
    and p: "mk_record (if list_ex (\<lambda>e. fst e = tag) r
        then map (\<lambda>e. if fst e = tag then (tag, v) else e) r
        else map (\<lambda>e. if fst e = tag then (tag, v) else e) r @ [(tag, v)]) = Inr p"
    using assms(2) by (cases payload) (auto simp: apply_profile_field_edit_def Let_def split: option.splits)
  have old: "field payload t = map_of r t" for t
    using assms(1) by (simp add: r field_map_of)
  have ex: "list_ex (\<lambda>e. fst e = tag) r \<longleftrightarrow> map_of r tag \<noteq> None"
    by (induction r) auto
  have "field p t = (if t = tag then Some v else map_of r t)" for t
    unfolding field_mk_record [OF p]
    by (auto simp: ex map_of_replace map_add_def split: option.splits)
  then show ?thesis
    using tag old by auto
qed

lemma apply_profile_field_edit_canon_ok:
  assumes "canon_ok payload" and "canon_ok v" and "apply_profile_field_edit kd payload f v = Inr p"
  shows "canon_ok p"
proof -
  have "\<forall>e \<in> set (as_record payload). canon_ok (snd e)"
    using assms(1) by (cases payload) (auto simp: as_record_def)
  then show ?thesis
    using assms(2,3)
    by (auto simp: apply_profile_field_edit_def Let_def split: option.splits if_splits
        elim!: canon_ok_mk_record)
qed

section \<open>Facts about verdicts\<close>

text \<open>
  A verdict is consistent when exactly the reason that goes with it is set; an exception has none.
\<close>

definition verdict_ok :: "verdict res \<Rightarrow> bool" where
  "verdict_ok m \<longleftrightarrow>
     (case m of Inr (ok, why_ok, why_not) \<Rightarrow>
        if ok then why_ok \<noteq> [] \<and> why_not = [] else why_ok = [] \<and> why_not \<noteq> []
      | Inl _ \<Rightarrow> True)"

lemma verdict_ok_simps [simp]:
  "verdict_ok (Inl e)" "verdict_ok (Inr (holds w)) \<longleftrightarrow> w \<noteq> []" "verdict_ok (Inr (fails w)) \<longleftrightarrow> w \<noteq> []"
  by (simp_all add: verdict_ok_def holds_def fails_def)

lemma verdict_ok_if: "verdict_ok (Inr x) \<Longrightarrow> verdict_ok (Inr y) \<Longrightarrow> verdict_ok (Inr (if b then x else y))"
  by simp

lemma verdict_ok_bindE: "(\<And>x. verdict_ok (f x)) \<Longrightarrow> verdict_ok (bindE m f)"
  by (cases m) simp_all

lemma verdict_ok_branches:
  "(\<And>b. verdict_ok (Inr (two b))) \<Longrightarrow> (\<And>b. verdict_ok (Inr (one b))) \<Longrightarrow>
     verdict_ok (eval_equality c lv rv two one)"
  "verdict_ok (eval_in_set c lv)"
  "yes \<noteq> [] \<Longrightarrow> no \<noteq> [] \<Longrightarrow> verdict_ok (eval_bound c lv le yes no)"
  "verdict_ok (eval_version c lv rv rel)"
  "verdict_ok (Inr (eval_arch_family c lv))"
  "verdict_ok (Inr (eval_feature c lv))"
  by (auto simp: eval_equality_def eval_in_set_def eval_bound_def eval_version_def eval_arch_family_def
      eval_feature_def intro!: verdict_ok_bindE split: option.splits canon.splits)

lemma evaluate_consistent: "verdict_ok (evaluate c left right lk rk)"
  by (cases "c_op c") (simp_all add: evaluate_def verdict_ok_branches)

text \<open>
  The conversion to \<^verbatim>\<open>double\<close> of the largest unsigned integer rounds up to \<open>2 ^ 64\<close>.
\<close>

lemma scaled_of_max: "scaled_of_u64 (- 1) = 18446744073709551616 * 2 ^ 1074"
proof -
  have "unat (- 1 :: u64) = 18446744073709551615"
    by (simp add: unsigned_minus_1_eq_mask mask_eq_exp_minus_1)
  moreover have "bit_len 18446744073709551615 = 64"
    by (simp add: bit_len.simps)
  ultimately have "round_nat (unat (- 1 :: u64)) = 18446744073709551616"
    by (simp add: round_nat_def Let_def)
  then show ?thesis
    by (simp add: scaled_of_u64_def del: power_numeral)
qed

section \<open>Properties\<close>

text \<open>
  A constraint's verdict is consistent: when it holds only the positive reason is
  set, when it does not only the negative one; and a constraint on a field the left profile does not
  have never holds and never throws, whatever its operator.
\<close>

theorem evaluate_verdict:
  "verdict_ok (evaluate c left right lk rk) \<and>
   (if resolve_profile_field lk left (c_field c) = None
    then \<exists>why. evaluate c left right lk rk = Inr (False, [], why) else True)"
  by (simp add: evaluate_consistent evaluate_unknown_left)

text \<open>
  On well-formed values, the only constraints that can throw are numeric bounds on a
  value that is no number and version relations on a value that is neither an integer nor text; every
  other operator always gives a verdict.
\<close>

theorem evaluate_throws:
  assumes "canon_ok left" and "canon_ok right" and "canon_ok (c_expected c)" and "\<forall>s \<in> set (c_set c). canon_ok s"
    and "evaluate c left right lk rk = Inl e"
  shows "c_op c \<in> {P_Min, P_Max} \<and> e = Canon_Error ''Canon::as_int: not Int'' \<or>
    c_op c \<in> {P_Version_Lt, P_Version_Le, P_Version_Gt, P_Version_Ge} \<and>
      e = Canon_Error ''Canon::as_string: not String/Bytes''"
proof -
  have eq: "canon_equal l x \<noteq> Inl e" if "canon_ok l" "canon_ok x" for l x
    using canon_equal_total [OF that] by auto
  have in_set: "in_set l (c_set c) \<noteq> Inl e" if "canon_ok l" for l
    using in_set_total [OF that assms(4)] by auto
  have cmp: "cmp_ver a b = Inl e \<Longrightarrow> e = Canon_Error ''Canon::as_string: not String/Bytes''" for a b
    by (auto simp: cmp_ver_compare bindE_eq_Inl dest: ver_of_eq_Inl)
  note ok = resolve_profile_field_canon_ok [OF assms(1)] resolve_profile_field_canon_ok [OF assms(2)]
  show ?thesis
    using assms(3,5)
    by (cases "c_op c")
      (auto simp: evaluate_def Let_def eval_equality_def eval_in_set_def eval_bound_def eval_version_def
        bindE_eq_Inl eq in_set ok dest: cmp num_operand_eq_Inl split: option.splits if_splits)
qed

text \<open>The equations that evaluate a constraint on concrete profiles.\<close>

lemmas resolve_eval = resolve_profile_field_def tag_for_def dot_head_def dot_tail_def field_def
  lower_bound_def resolve_capability_subfield_def capability_tags_def

definition version_constraint :: "constraint" where
  "version_constraint = \<lparr>c_op = P_Version_Ge, c_field = ''compiler_version'', c_right_field = [],
     c_expected = CBool True, c_expected2 = CNull, c_set = [], c_note = []\<rparr>"

theorem evaluate_throws_witness:
  "evaluate version_constraint (CRecord [(4, CStr ''12.0'')]) CNull PK_Backend PK_Backend =
     Inl (Canon_Error ''Canon::as_string: not String/Bytes'') \<and>
   c_op version_constraint \<in> {P_Version_Lt, P_Version_Le, P_Version_Gt, P_Version_Ge}"
proof -
  have ev: "evaluate version_constraint (CRecord [(4, CStr ''12.0'')]) CNull PK_Backend PK_Backend =
      Inl (Canon_Error ''Canon::as_string: not String/Bytes'')"
    by (simp add: evaluate_def version_constraint_def resolve_eval eval_version_def cmp_ver_def
        ver_of_def as_string_def)
  have "c_op version_constraint \<in> {P_Version_Lt, P_Version_Le, P_Version_Gt, P_Version_Ge}"
    using evaluate_throws [OF _ _ _ _ ev] by (auto simp: version_constraint_def)
  with ev show ?thesis
    by blast
qed

text \<open>
  On a field both sides know, \<^verbatim>\<open>Ne\<close> is the negation of \<^verbatim>\<open>Eq\<close>; on an unknown field
  neither holds.
\<close>

theorem evaluate_ne_eq:
  assumes "evaluate (c\<lparr>c_op := P_Eq\<rparr>) left right lk rk = Inr (b, y, n)"
  shows "case evaluate (c\<lparr>c_op := P_Ne\<rparr>) left right lk rk of
      Inr (b', _, _) \<Rightarrow> b' = (\<not> b \<and> resolve_profile_field lk left (c_field c) \<noteq> None \<and>
        (c_right_field c = [] \<or> resolve_profile_field rk right (c_right_field c) \<noteq> None))
    | Inl _ \<Rightarrow> False"
  using assms
  by (auto simp: evaluate_def eval_equality_def bindE_eq_Inr holds_def fails_def
      split: option.splits if_splits)

theorem evaluate_ne_eq_witness:
  "case evaluate (version_constraint\<lparr>c_op := P_Ne\<rparr>) (CRecord [(4, CStr ''12.0'')]) CNull
      PK_Backend PK_Backend of Inr (b', _, _) \<Rightarrow> b' | Inl _ \<Rightarrow> False"
proof -
  have ev: "evaluate (version_constraint\<lparr>c_op := P_Eq\<rparr>) (CRecord [(4, CStr ''12.0'')]) CNull
      PK_Backend PK_Backend = Inr (False, [], ''field differs from expected'')"
    by (simp add: evaluate_def version_constraint_def resolve_eval eval_equality_def canon_equal_def)
  have "resolve_profile_field PK_Backend (CRecord [(4, CStr ''12.0'')]) ''compiler_version'' =
      Some (CStr ''12.0'')"
    by (simp add: resolve_eval)
  then show ?thesis
    using evaluate_ne_eq [OF ev] by (auto simp: version_constraint_def split: sum.splits)
qed

text \<open>
  Property C28. A version written as two decimal numbers is read back exactly, and on such versions
  \<^verbatim>\<open>cmp_ver\<close> is the numeric lexicographic order, so \<^verbatim>\<open>"9.10"\<close> is above \<^verbatim>\<open>"9.9"\<close>.
\<close>

theorem cmp_ver_numeric:
  assumes "M < 2 ^ 64" and "m < 2 ^ 64" and "M' < 2 ^ 64" and "m' < 2 ^ 64"
  shows "cmp_ver (CStr (show_nat M @ ''.'' @ show_nat m)) (CStr (show_nat M' @ ''.'' @ show_nat m')) =
    Inr (if M < M' \<or> M = M' \<and> m < m' then -1 else if M = M' \<and> m = m' then 0 else 1)"
proof -
  have w: "(word_of_nat i :: u64) < word_of_nat j \<longleftrightarrow> i < j" "(word_of_nat i :: u64) = word_of_nat j \<longleftrightarrow> i = j"
    if "i < 2 ^ 64" "j < 2 ^ 64" for i j
    using that by (simp_all add: word_less_nat_alt word_unat_eq_iff unsigned_of_nat take_bit_nat_eq_self)
  show ?thesis
    using assms parse_ver_show_nat [OF assms(1,2)] parse_ver_show_nat [OF assms(3,4)]
    by (simp add: cmp_ver_compare ver_of_def as_string_def compare_ver_def w)
qed

theorem cmp_ver_numeric_witness:
  "cmp_ver (CStr (show_nat 9 @ ''.'' @ show_nat 10)) (CStr (show_nat 9 @ ''.'' @ show_nat 9)) = Inr 1"
  using cmp_ver_numeric [of 9 10 9 9] by simp

text \<open>
  The version relation is transitive and antisymmetric wherever it is defined: the
  comparison of \<open>b\<close> with \<open>a\<close> is the negated one, and \<open>\<le>\<close> composes.
\<close>

theorem cmp_ver_order:
  assumes "cmp_ver a b = Inr i" and "cmp_ver b c = Inr j"
  shows "cmp_ver b a = Inr (- i) \<and> (if i \<le> 0 \<and> j \<le> 0 then \<exists>k \<le> 0. cmp_ver a c = Inr k else True)"
proof -
  obtain va vb vc where v: "ver_of a = Inr va" "ver_of b = Inr vb" "ver_of c = Inr vc"
    and k: "i = compare_ver va vb" "j = compare_ver vb vc"
    using assms by (auto simp: cmp_ver_eq_Inr)
  have "compare_ver vb va = - compare_ver va vb"
    by (auto simp: compare_ver_def prod_eq_iff)
  moreover have "compare_ver va vc \<le> 0" if "compare_ver va vb \<le> 0" "compare_ver vb vc \<le> 0"
    using that by (auto simp: compare_ver_def split: if_splits)
  ultimately show ?thesis
    using v k by (auto simp: cmp_ver_compare)
qed

theorem cmp_ver_order_witness:
  "cmp_ver (CStr ''7.1'') (CUint 7) = Inr 1"
proof -
  have "cmp_ver (CUint 7) (CStr ''7.1'') = Inr (-1)" "cmp_ver (CStr ''7.1'') (CUint 8) = Inr (-1)"
    by (simp_all add: cmp_ver_def ver_of_def as_string_def parse_ver_def parse_num_def is_digit_def
        dot_head_def dot_tail_def digits_value_def)
  from cmp_ver_order [OF this] show ?thesis
    by simp
qed

text \<open>
  \<^verbatim>\<open>parse_ver\<close> drops everything that is no digit or dot and stops at the second dot: a
  release candidate counts as a later minor version than the release, and patch levels are ignored.
\<close>

theorem parse_ver_ignores:
  "cmp_ver (CStr ''12.0-rc1'') (CStr ''12.0'') = Inr 1 \<and> cmp_ver (CStr ''1.2.3'') (CStr ''1.2.9'') = Inr 0"
  by (simp add: cmp_ver_def ver_of_def as_string_def parse_ver_def parse_num_def is_digit_def
      dot_head_def dot_tail_def digits_value_def)

text \<open>
  A numeric minimum takes a negative signed value for a huge unsigned one: \<open>-1\<close> meets
  the minimum \<open>5\<close>.
\<close>

theorem negative_meets_minimum:
  "\<exists>c. c_op c = P_Min \<and> c_expected c = CUint 5 \<and>
    evaluate c (CRecord [(2, CInt (- 1))]) CNull PK_Tensor PK_Tensor = Inr (holds ''meets minimum'')"
proof -
  let ?c = "\<lparr>c_op = P_Min, c_field = ''rank'', c_right_field = [], c_expected = CUint 5,
    c_expected2 = CNull, c_set = [], c_note = []\<rparr>"
  have "scaled_of_u64 5 \<le> scaled_of_u64 (- 1)"
    unfolding scaled_of_max unfolding scaled_of_u64_def
    by (intro mult_right_mono) (simp_all add: round_nat_def)
  then have "evaluate ?c (CRecord [(2, CInt (- 1))]) CNull PK_Tensor PK_Tensor = Inr (holds ''meets minimum'')"
    by (simp add: evaluate_def resolve_eval eval_bound_def num_operand_def as_int_def num_le_def)
  then show ?thesis
    by (intro exI [of _ ?c]) simp
qed

text \<open>
  Two canonical values that the program calls equal are equal, up to the representation
  of floating-point zero, unless their encodings are a collision of SHA-256.
\<close>

theorem canon_equal_sound:
  assumes "canon_ok a" and "canon_ok b" and "canon_fits a" and "canon_fits b"
    and "canon_equal a b = Inr True"
    and no_collision: "sha256 (k_magic @ [k_version] @ enc a) = sha256 (k_magic @ [k_version] @ enc b) \<Longrightarrow>
      enc a = enc b"
  shows "a = b \<or> (\<exists>x y. a = CFloat x \<and> b = CFloat y \<and> double_eq x y)"
proof -
  have eq: "a = b" if "fingerprint_equal a b = Inr True"
  proof -
    have "enc a = enc b"
      using that no_collision by (simp add: fingerprint_equal_enc [OF assms(1,2)])
    then show "a = b"
      using canonical_decode_encode_enc [OF assms(1,3)] canonical_decode_encode_enc [OF assms(2,4)] by simp
  qed
  show ?thesis
    using assms(5) eq
    by (cases a; cases b) (simp_all add: canon_equal_def accessor_defs)
qed

theorem canon_equal_sound_witness:
  "CUint 3 = CUint 3 \<or> (\<exists>x y. CUint 3 = CFloat x \<and> CUint 3 = CFloat y \<and> double_eq x y)"
  by (rule canon_equal_sound) (simp_all add: canon_equal_def as_uint_def)

text \<open>
  Editing a payload gives a well-formed payload in which the edited field has the new
  value and every other field is what it was; a dotted name replaces the whole top-level field.
\<close>

theorem edit_field:
  assumes "canon_ok payload" and "canon_ok v" and "apply_profile_field_edit kd payload f v = Inr p"
  shows "canon_ok p \<and> (\<exists>tag. tag_for kd (dot_head f) = Some tag \<and>
    (\<forall>t. field p t = (if t = tag then Some v else field payload t)))"
  using apply_profile_field_edit_canon_ok [OF assms] apply_profile_field_edit_field [OF assms(1,3)] by simp

theorem edit_field_witness:
  "canon_ok (CRecord [(1, CUint 4), (2, CUint 9)])"
  by (rule edit_field [where payload = "CRecord [(1, CUint 4)]" and v = "CUint 9" and kd = PK_Tensor
        and f = "''rank''", THEN conjunct1])
    (simp_all add: apply_profile_field_edit_def tag_for_def dot_head_def mk_record_tags_ok)

end
