(* ===== verification/Decision.thy ===== *)
theory Decision
  imports Rule
begin

text \<open>
  \<^verbatim>\<open>include/compat/decision.hpp\<close>, the records of \<^verbatim>\<open>include/compat/registry.hpp\<close> and
  \<^verbatim>\<open>include/compat/rule.hpp\<close> that a decision is computed from, and the decision digest and texts of
  \<^verbatim>\<open>src/compat/registry.cpp\<close>.
\<close>

type_synonym i32 = "32 word"

section \<open>Records\<close>

record evidence_record =
  ev_id :: uuid
  ev_subject :: uuid
  ev_field :: string
  ev_value :: canon
  ev_provenance :: string
  ev_source :: string
  ev_source_generation :: u64
  ev_observed_timestamp :: string
  ev_kind :: evidence_kind
  ev_validated :: bool
  ev_digest_hex :: string

record constraint_item =
  ci_dimension :: string
  ci_left :: string
  ci_right :: string
  ci_satisfied :: bool
  ci_note :: string

record decision =
  d_decision_id :: uuid
  d_left :: uuid
  d_right :: uuid
  d_outcome :: outcome
  d_rule_id :: uuid
  d_rule_generation :: u64
  d_policy_id :: uuid
  d_policy_generation :: u64
  d_evidence :: "uuid list"
  d_satisfied :: "constraint_item list"
  d_failed :: "constraint_item list"
  d_adaptations :: "string list"
  d_missing_evidence :: "string list"
  d_provenance :: "string list"
  d_registry_generation :: u64
  d_counterfactual :: bool
  d_explanation :: string
  d_digest :: digest

text \<open>A value-initialised \<^verbatim>\<open>CompatibilityDecision\<close>.\<close>

definition empty_decision :: decision where
  "empty_decision = \<lparr>d_decision_id = zero_uuid, d_left = zero_uuid, d_right = zero_uuid,
     d_outcome = Unknown, d_rule_id = zero_uuid, d_rule_generation = 0, d_policy_id = zero_uuid,
     d_policy_generation = 0, d_evidence = [], d_satisfied = [], d_failed = [], d_adaptations = [],
     d_missing_evidence = [], d_provenance = [], d_registry_generation = 0,
     d_counterfactual = False, d_explanation = [], d_digest = replicate 32 0\<rparr>"

record rule =
  r_rule_id :: uuid
  r_generation :: u64
  r_domain :: string
  r_scope :: string
  r_priority :: i32
  r_active :: bool
  r_kind :: rule_kind
  r_left_kind :: "profile_kind option"
  r_right_kind :: "profile_kind option"
  r_required :: "constraint list"
  r_any_of :: "constraint list"
  r_incompatible_with :: "constraint list"
  r_conditions :: "constraint list"
  r_adaptations :: "string list"
  r_outcome :: outcome
  r_provenance :: string

record profile_record =
  p_kind :: profile_kind
  p_id :: uuid
  p_generation :: u64
  p_payload :: canon
  p_deps :: "uuid list"
  p_active :: bool
  p_superseded :: bool
  p_provenance :: string
  p_fingerprint :: string

record rule_record =
  rr_rule :: rule
  rr_active :: bool
  rr_superseded :: bool

record invalidation =
  iv_target :: uuid
  iv_generation :: u64
  iv_reason :: string
  iv_fingerprint_before :: string

section \<open>Fingerprints and digests\<close>

definition evidence_fingerprint :: "evidence_record \<Rightarrow> string res" where
  "evidence_fingerprint e =
     bindE (mk_record (as_record (ev_value e))) (\<lambda>v.
     bindE (mk_record
       [(1, CUuid (ev_id e)), (2, CUuid (ev_subject e)), (3, CStr (ev_field e)), (4, v),
        (5, CStr (ev_provenance e)), (6, CStr (ev_source e)), (7, CUint (ev_source_generation e))])
       canonical_fingerprint_hex)"

definition item_record :: "constraint_item \<Rightarrow> canon res" where
  "item_record c = mk_record
     [(1, CStr (ci_dimension c)), (2, CStr (ci_left c)), (3, CStr (ci_right c)),
      (4, CBool (ci_satisfied c)), (5, CStr (ci_note c))]"

definition compute_digest :: "decision \<Rightarrow> digest res" where
  "compute_digest d =
     bindE (mapE item_record (d_satisfied d)) (\<lambda>sat.
     bindE (mapE item_record (d_failed d)) (\<lambda>fail.
     bindE (mk_record
       [(1, CUuid (d_left d)), (2, CUuid (d_right d)),
        (3, CUint (ucast (outcome_code (d_outcome d)))),
        (4, CUuid (d_rule_id d)), (5, CUint (d_rule_generation d)),
        (6, CUuid (d_policy_id d)), (7, CUint (d_policy_generation d)),
        (8, CUint (d_registry_generation d)), (9, CBool (d_counterfactual d)),
        (10, CSeq sat), (11, CSeq fail), (12, CSeq (map CStr (d_adaptations d))),
        (13, CSeq (map CStr (d_missing_evidence d)))])
       canonical_fingerprint))"

definition digest_to_uuid :: "digest \<Rightarrow> uuid" where
  "digest_to_uuid d = uuid_of_bytes (take 16 d)"

definition digest_hash :: "digest \<Rightarrow> u64" where
  "digest_hash d = foldl (\<lambda>h b. (h XOR ucast b) * 1099511628211) 14695981039346656037 d"

section \<open>Explanation\<close>

definition newline :: string where
  "newline = [CHR 0x0A]"

definition lines :: "string \<Rightarrow> ('a \<Rightarrow> string) \<Rightarrow> 'a list \<Rightarrow> string" where
  "lines header line xs =
     (if xs = [] then [] else header @ newline @ concat (map (\<lambda>x. line x @ newline) xs))"

definition explain_text :: "decision \<Rightarrow> string res" where
  "explain_text d =
     bindE (outcome_name (d_outcome d)) (\<lambda>name. Inr (
       ''Compatibility decision '' @ uuid_to_string (d_decision_id d) @ newline @
       ''  left:  '' @ uuid_to_string (d_left d) @ newline @
       ''  right: '' @ uuid_to_string (d_right d) @ newline @
       ''  outcome: '' @ name @ newline @
       (if \<not> is_zero (d_rule_id d)
        then ''  rule: '' @ uuid_to_string (d_rule_id d) @ '' (generation '' @
          show_nat (unat (d_rule_generation d)) @ '')'' @ newline else []) @
       (if \<not> is_zero (d_policy_id d)
        then ''  policy: '' @ uuid_to_string (d_policy_id d) @ newline else []) @
       ''  registry generation: '' @ show_nat (unat (d_registry_generation d)) @ newline @
       lines ''  satisfied constraints:''
         (\<lambda>c. ''    + '' @ ci_dimension c @ '' ['' @ ci_left c @ '' == '' @ ci_right c @ ''] : '' @ ci_note c)
         (d_satisfied d) @
       lines ''  failed constraints:'' (\<lambda>c. ''    - '' @ ci_dimension c @ '' : '' @ ci_note c) (d_failed d) @
       lines ''  required adaptations:'' (\<lambda>a. ''    * '' @ a) (d_adaptations d) @
       lines ''  missing evidence:'' (\<lambda>m. ''    ? '' @ m) (d_missing_evidence d) @
       (if d_counterfactual d
        then ''  NOTE: derived counterfactual; not authoritative'' @ newline else []) @
       ''  digest: '' @ sha_hex (d_digest d)))"

section \<open>The digest is total and covers the semantic fields\<close>

definition item_canon :: "constraint_item \<Rightarrow> canon" where
  "item_canon c = CRecord
     [(1, CStr (ci_dimension c)), (2, CStr (ci_left c)), (3, CStr (ci_right c)),
      (4, CBool (ci_satisfied c)), (5, CStr (ci_note c))]"

definition decision_canon :: "decision \<Rightarrow> canon" where
  "decision_canon d = CRecord
     [(1, CUuid (d_left d)), (2, CUuid (d_right d)),
      (3, CUint (ucast (outcome_code (d_outcome d)))),
      (4, CUuid (d_rule_id d)), (5, CUint (d_rule_generation d)),
      (6, CUuid (d_policy_id d)), (7, CUint (d_policy_generation d)),
      (8, CUint (d_registry_generation d)), (9, CBool (d_counterfactual d)),
      (10, CSeq (map item_canon (d_satisfied d))), (11, CSeq (map item_canon (d_failed d))),
      (12, CSeq (map CStr (d_adaptations d))), (13, CSeq (map CStr (d_missing_evidence d)))]"

lemma item_record_canon: "item_record c = Inr (item_canon c)"
  by (simp add: item_record_def item_canon_def mk_record_tags_ok)

lemma mapE_item_record: "mapE item_record cs = Inr (map item_canon cs)"
  by (rule mapE_Inr) (rule item_record_canon)

lemma canon_ok_item [simp]: "canon_ok (item_canon c)"
  by (simp add: item_canon_def)

lemma canon_ok_decision [simp]: "canon_ok (decision_canon d)"
  by (simp add: decision_canon_def)

lemma compute_digest_canon: "compute_digest d = Inr (sha256 (k_magic @ [k_version] @ enc (decision_canon d)))"
proof -
  have "compute_digest d = canonical_fingerprint (decision_canon d)"
    by (simp add: compute_digest_def mapE_item_record mk_record_tags_ok decision_canon_def)
  then show ?thesis
    by (simp add: canonical_fingerprint_def canonical_encode_enc)
qed

lemma item_canon_inject [simp]: "item_canon c = item_canon c' \<longleftrightarrow> c = c'"
  by (auto simp: item_canon_def intro: constraint_item.equality)

lemma map_inject: "(\<And>x y. f x = f y \<longleftrightarrow> x = y) \<Longrightarrow> map f xs = map f ys \<longleftrightarrow> xs = ys"
  by (metis inj_map_eq_map injI)

lemma decision_canon_inject:
  assumes "outcome_ok (d_outcome d)" and "outcome_ok (d_outcome d')"
  shows "decision_canon d = decision_canon d' \<longleftrightarrow>
    d_left d = d_left d' \<and> d_right d = d_right d' \<and> d_outcome d = d_outcome d' \<and>
    d_rule_id d = d_rule_id d' \<and> d_rule_generation d = d_rule_generation d' \<and>
    d_policy_id d = d_policy_id d' \<and> d_policy_generation d = d_policy_generation d' \<and>
    d_registry_generation d = d_registry_generation d' \<and> d_counterfactual d = d_counterfactual d' \<and>
    d_satisfied d = d_satisfied d' \<and> d_failed d = d_failed d' \<and> d_adaptations d = d_adaptations d' \<and>
    d_missing_evidence d = d_missing_evidence d'"
proof -
  have "(ucast (outcome_code (d_outcome d)) :: u64) = ucast (outcome_code (d_outcome d')) \<longleftrightarrow> d_outcome d = d_outcome d'"
    using Outcome_u8.cast_u64 [OF assms(1)] Outcome_u8.cast_u64 [OF assms(2)] by metis
  then show ?thesis
    by (simp add: decision_canon_def map_inject)
qed

text \<open>Different messages with the same hash.\<close>

definition sha_collision :: "bytes \<Rightarrow> bytes \<Rightarrow> bool" where
  "sha_collision m m' \<longleftrightarrow> m \<noteq> m' \<and> sha256 m = sha256 m'"

lemma explain_text_total: "outcome_ok (d_outcome d) \<Longrightarrow> \<exists>t. explain_text d = Inr t"
  by (cases "d_outcome d") (simp_all add: explain_text_def)

section \<open>Properties\<close>

text \<open>
  Property C25. The decision digest covers exactly the semantic members: two decisions have the same
  digest when they agree on the pair, the outcome, the rule and its generation, the policy and its
  generation, the generation of the registry, the counterfactual mark, the satisfied and failed
  constraints, the adaptations and the missing evidence; and only then, unless their canonical
  encodings are a collision of SHA-256. Decision id, evidence, provenance and explanation have no part in it.
\<close>

theorem digest_covers_decision:
  assumes "canon_fits (decision_canon d)" and "canon_fits (decision_canon d')"
    and "outcome_ok (d_outcome d)" and "outcome_ok (d_outcome d')"
  shows "compute_digest d = compute_digest d' \<longleftrightarrow>
    (d_left d = d_left d' \<and> d_right d = d_right d' \<and> d_outcome d = d_outcome d' \<and>
     d_rule_id d = d_rule_id d' \<and> d_rule_generation d = d_rule_generation d' \<and>
     d_policy_id d = d_policy_id d' \<and> d_policy_generation d = d_policy_generation d' \<and>
     d_registry_generation d = d_registry_generation d' \<and> d_counterfactual d = d_counterfactual d' \<and>
     d_satisfied d = d_satisfied d' \<and> d_failed d = d_failed d' \<and> d_adaptations d = d_adaptations d' \<and>
     d_missing_evidence d = d_missing_evidence d') \<or>
    sha_collision (k_magic @ [k_version] @ enc (decision_canon d)) (k_magic @ [k_version] @ enc (decision_canon d'))"
proof -
  let ?b = "k_magic @ [k_version] @ enc (decision_canon d)" and ?b' = "k_magic @ [k_version] @ enc (decision_canon d')"
  have "compute_digest d = compute_digest d' \<longleftrightarrow> ?b = ?b' \<or> sha_collision ?b ?b'"
    by (auto simp: compute_digest_canon sha_collision_def)
  moreover have "?b = ?b' \<longleftrightarrow> decision_canon d = decision_canon d'"
    using canonical_decode_encode_enc [OF canon_ok_decision assms(1)]
      canonical_decode_encode_enc [OF canon_ok_decision assms(2)] by (metis Inr_inject)
  ultimately show ?thesis
    unfolding decision_canon_inject [OF assms(3,4)] by simp
qed

text \<open>Two decisions that differ in the generation of the policy alone.\<close>

theorem digest_covers_decision_witness:
  "compute_digest empty_decision = compute_digest (empty_decision\<lparr>d_policy_generation := 1\<rparr>) \<longleftrightarrow>
   sha_collision (k_magic @ [k_version] @ enc (decision_canon empty_decision))
     (k_magic @ [k_version] @ enc (decision_canon (empty_decision\<lparr>d_policy_generation := 1\<rparr>)))"
proof -
  let ?d = "empty_decision\<lparr>d_policy_generation := 1\<rparr>"
  have "canon_fits (decision_canon empty_decision)" "canon_fits (decision_canon ?d)"
    by (simp_all add: decision_canon_def empty_decision_def)
  from digest_covers_decision [OF this] show ?thesis
    by (auto simp: empty_decision_def)
qed

end
