(* ===== verification/Dep_Graph.thy ===== *)
theory Dep_Graph
  imports Identity
begin

text \<open>
  The dependency graph of \<^verbatim>\<open>CompatibilityRegistry\<close> (\<^verbatim>\<open>src/compat/registry.cpp\<close>): the two adjacency
  maps \<^verbatim>\<open>deps_\<close> and \<^verbatim>\<open>reverse_\<close>, adding and removing the edges of a node, and the three-colour
  depth-first search for cycles.
\<close>

section \<open>Adjacency maps\<close>

type_synonym 'a graph = "('a, 'a list) umap"

record 'a dep_graph =
  deps :: "'a graph"
  reverse :: "'a graph"

definition push :: "'a \<Rightarrow> 'b \<Rightarrow> ('a, 'b list) umap \<Rightarrow> ('a, 'b list) umap" where
  "push k x m = AList.update k ((case map_of m k of None \<Rightarrow> [] | Some v \<Rightarrow> v) @ [x]) m"

text \<open>Erase \<open>n\<close> from the dependents of \<open>d\<close>, and the entry of \<open>d\<close> when none is left.\<close>

definition unlink :: "'a \<Rightarrow> 'a \<Rightarrow> 'a graph \<Rightarrow> 'a graph" where
  "unlink n d back =
     (case map_of back d of
        None \<Rightarrow> back
      | Some v \<Rightarrow>
          let v' = removeAll n v
          in if v' = [] then AList.delete d back else AList.update d v' back)"

definition drop_edges :: "'a \<Rightarrow> 'a dep_graph \<Rightarrow> 'a graph" where
  "drop_edges n G =
     (case map_of (deps G) n of None \<Rightarrow> reverse G | Some ds \<Rightarrow> fold (unlink n) ds (reverse G))"

fun add_edges :: "'a \<Rightarrow> 'a list \<Rightarrow> 'a dep_graph \<Rightarrow> 'a dep_graph" where
  "add_edges n [] G = G"
| "add_edges n (d # ds) G =
     add_edges n ds
       (if d = n then G else G\<lparr>deps := push n d (deps G), reverse := push d n (reverse G)\<rparr>)"

definition add_dependency :: "'a \<Rightarrow> 'a list \<Rightarrow> 'a dep_graph \<Rightarrow> 'a dep_graph" where
  "add_dependency n ds G =
     add_edges n ds
       (if map_of (deps G) n \<noteq> None
        then G\<lparr>deps := AList.update n [] (deps G), reverse := drop_edges n G\<rparr> else G)"

definition remove_dependency :: "'a \<Rightarrow> 'a dep_graph \<Rightarrow> 'a dep_graph" where
  "remove_dependency n G =
     (if map_of (deps G) n \<noteq> None
      then G\<lparr>deps := AList.delete n (deps G), reverse := drop_edges n G\<rparr> else G)"

definition adjacent :: "('a, 'b list) umap \<Rightarrow> 'a \<Rightarrow> 'b list" where
  "adjacent m k = (case map_of m k of None \<Rightarrow> [] | Some v \<Rightarrow> v)"

definition dependencies_of :: "'a dep_graph \<Rightarrow> 'a \<Rightarrow> 'a list" where
  "dependencies_of G n = adjacent (deps G) n"

definition dependents_of :: "'a::linorder dep_graph \<Rightarrow> 'a \<Rightarrow> 'a list" where
  "dependents_of G n =
     (case map_of (reverse G) n of None \<Rightarrow> [] | Some v \<Rightarrow> remdups_adj (sort v))"

section \<open>Cycle detection\<close>

text \<open>
  The colours of the search: absent or 0 is unvisited, 1 is on the stack, 2 is done. The colour
  map is returned with the verdict, as the code passes it by reference.
\<close>

type_synonym 'a colors = "('a, int) umap"

definition unvisited :: "'a colors \<Rightarrow> 'a \<Rightarrow> bool" where
  "unvisited color n \<longleftrightarrow> map_of color n = None \<or> map_of color n = Some 0"

function dfs_cycle :: "'a graph \<Rightarrow> 'a \<Rightarrow> 'a colors \<Rightarrow> bool \<times> 'a colors"
  and dfs_succs :: "'a graph \<Rightarrow> 'a list \<Rightarrow> 'a colors \<Rightarrow> bool \<times> 'a colors" where
  "dfs_cycle g n color =
     (case dfs_succs g (adjacent g n) (AList.update n 1 color) of
        (True, color) \<Rightarrow> (True, color)
      | (False, color) \<Rightarrow> (False, AList.update n 2 color))"
| "dfs_succs g [] color = (False, color)"
| "dfs_succs g (x # xs) color =
     (if map_of color x = Some 1 then (True, color)
      else if unvisited color x then
        (case dfs_cycle g x color of
           (True, color) \<Rightarrow> (True, color)
         | (False, color) \<Rightarrow> dfs_succs g xs color)
      else dfs_succs g xs color)"
  by pat_completeness auto

text \<open>
  Termination: the search only enters unvisited nodes, and visiting a node never makes another one
  unvisited again.
\<close>

definition white :: "'a graph \<Rightarrow> 'a set \<Rightarrow> 'a colors \<Rightarrow> nat" where
  "white g A color = card {x \<in> A \<union> \<Union> (set ` snd ` set g). unvisited color x}"

lemma dfs_keeps_visited:
  "dfs_cycle_dfs_succs_dom (Inl (g, n, color)) \<Longrightarrow>
     unvisited (snd (dfs_cycle g n color)) x \<Longrightarrow> unvisited color x"
  "dfs_cycle_dfs_succs_dom (Inr (g, xs, color)) \<Longrightarrow>
     unvisited (snd (dfs_succs g xs color)) x \<Longrightarrow> unvisited color x"
proof (induction rule: dfs_cycle_dfs_succs.pinduct)
  case (1 g n color)
  then show ?case
    by (auto simp: dfs_cycle.psimps unvisited_def split: prod.splits bool.splits if_splits)
next
  case (2 g color)
  then show ?case by (simp add: dfs_succs.psimps)
next
  case (3 g y ys color)
  then show ?case
    by (auto simp: dfs_succs.psimps split: prod.splits bool.splits if_splits)
qed

lemma finite_nodes: "finite (\<Union> (set ` snd ` set g))"
  by simp

lemma white_mono:
  assumes "A \<subseteq> B \<union> \<Union> (set ` snd ` set g)" and "finite B"
    and "\<And>x. unvisited c x \<Longrightarrow> unvisited c' x"
  shows "white g A c \<le> white g B c'"
  unfolding white_def using assms by (intro card_mono) auto

lemma white_less:
  assumes "A \<subseteq> B \<union> \<Union> (set ` snd ` set g)" and "finite B"
    and "\<And>x. unvisited c x \<Longrightarrow> unvisited c' x" and "y \<in> B" and "unvisited c' y" and "\<not> unvisited c y"
  shows "white g A c < white g B c'"
  unfolding white_def using assms by (intro psubset_card_mono) auto

lemma adjacent_nodes: "set (adjacent g n) \<subseteq> \<Union> (set ` snd ` set g)"
proof (cases "map_of g n")
  case (Some ns)
  then have "ns \<in> snd ` set g"
    using map_of_SomeD by force
  then show ?thesis
    by (auto simp: adjacent_def Some)
qed (simp add: adjacent_def)

termination dfs_cycle
proof (relation "measures
    [\<lambda>p. case p of Inl (g, n, color) \<Rightarrow> 2 * white g {n} (AList.update n 1 color) + 1
       | Inr (g, xs, color) \<Rightarrow> 2 * white g (set xs) color,
     \<lambda>p. case p of Inl _ \<Rightarrow> 0 | Inr (g, xs, color) \<Rightarrow> length xs]", goal_cases)
  case 1
  show ?case by simp
next
  case (2 g n color)
  have "white g (set (adjacent g n)) (AList.update n 1 color) \<le> white g {n} (AList.update n 1 color)"
    using adjacent_nodes [of g n] by (intro white_mono) auto
  then show ?case by simp
next
  case (3 g x xs color)
  have "white g {x} (AList.update x 1 color) < white g (set (x # xs)) color"
    using 3 by (intro white_less [where y = x]) (auto simp: unvisited_def split: if_splits)
  then show ?case by simp
next
  case (4 g x xs color b color')
  then have "snd (dfs_cycle g x color) = color'"
    by (metis snd_conv)
  with 4 have "white g (set xs) color' \<le> white g (set (x # xs)) color"
    using dfs_keeps_visited(1) [of g x color] by (intro white_mono) auto
  then show ?case by auto
next
  case (5 g x xs color)
  have "white g (set xs) color \<le> white g (set (x # xs)) color"
    by (intro white_mono) auto
  then show ?case by auto
qed

declare dfs_cycle.simps [simp del]

text \<open>The loops over all nodes, in the map's iteration order.\<close>

fun cycle_from :: "'a graph \<Rightarrow> 'a list \<Rightarrow> 'a colors \<Rightarrow> bool" where
  "cycle_from g [] color = False"
| "cycle_from g (n # ns) color =
     (if unvisited color n then
       (case dfs_cycle g n color of (True, _) \<Rightarrow> True | (False, color) \<Rightarrow> cycle_from g ns color)
      else cycle_from g ns color)"

definition has_cycle :: "'a dep_graph \<Rightarrow> bool" where
  "has_cycle G = cycle_from (deps G) (keys (deps G)) []"

text \<open>The prospective graph that \<^verbatim>\<open>create_cycle\<close> builds: the new edges, then \<^verbatim>\<open>sort\<close> and \<^verbatim>\<open>unique\<close>.\<close>

definition with_edges :: "'a::linorder \<Rightarrow> 'a list \<Rightarrow> 'a graph \<Rightarrow> 'a graph" where
  "with_edges from to g =
     (let g' = fold (\<lambda>d g. if d \<noteq> from then push from d g else g) to g
      in AList.update from (remdups_adj (sort (adjacent g' from))) g')"

definition create_cycle :: "'a::linorder \<Rightarrow> 'a list \<Rightarrow> 'a dep_graph \<Rightarrow> bool" where
  "create_cycle from to G =
     (let g = with_edges from to (deps G) in cycle_from g (keys g) [])"

section \<open>The search finds exactly the cycles\<close>

definition edges :: "'a graph \<Rightarrow> ('a \<times> 'a) set" where
  "edges g = {(x, y). y \<in> set (adjacent g x)}"

lemma in_edges [simp]: "(x, y) \<in> edges g \<longleftrightarrow> y \<in> set (adjacent g x)"
  by (simp add: edges_def)

text \<open>Done nodes are closed under edges and on no cycle; colours are 0, 1 or 2.\<close>

definition colors_ok :: "'a graph \<Rightarrow> 'a colors \<Rightarrow> bool" where
  "colors_ok g c \<longleftrightarrow>
     (\<forall>x k. map_of c x = Some k \<longrightarrow> k \<in> {0, 1, 2}) \<and>
     (\<forall>x y. map_of c x = Some 2 \<longrightarrow> (x, y) \<in> edges g \<longrightarrow> map_of c y = Some 2) \<and>
     (\<forall>x. map_of c x = Some 2 \<longrightarrow> (x, x) \<notin> (edges g)\<^sup>+)"

lemma colors_ok_gray: "colors_ok g c \<Longrightarrow> unvisited c n \<Longrightarrow> colors_ok g (AList.update n 1 c)"
  unfolding colors_ok_def unvisited_def by auto

lemma done_closed:
  assumes "colors_ok g c" and "map_of c x = Some 2" and "(x, y) \<in> (edges g)\<^sup>*"
  shows "map_of c y = Some 2"
  using assms(3,2)
proof (induction rule: rtrancl_induct)
  case (step y z)
  then show ?case
    using assms(1) unfolding colors_ok_def by blast
qed

lemma colors_ok_done:
  assumes "colors_ok g c" and "map_of c n = Some 1" and "\<forall>y \<in> set (adjacent g n). map_of c y = Some 2"
  shows "colors_ok g (AList.update n 2 c)"
proof -
  have "(n, n) \<notin> (edges g)\<^sup>+"
  proof
    assume "(n, n) \<in> (edges g)\<^sup>+"
    then obtain y where "(n, y) \<in> edges g" "(y, n) \<in> (edges g)\<^sup>*"
      by (meson tranclD)
    then have "map_of c n = Some 2"
      using assms(1,3) done_closed [of g c y n] by simp
    with assms(2) show False by simp
  qed
  with assms show ?thesis
    unfolding colors_ok_def by auto
qed

lemma dfs_no_cycle:
  "dfs_cycle g n c = (False, c') \<Longrightarrow> colors_ok g c \<Longrightarrow> unvisited c n \<Longrightarrow>
     colors_ok g c' \<and> map_of c' n = Some 2 \<and>
     (\<forall>x. map_of c' x = Some 1 \<longleftrightarrow> map_of c x = Some 1) \<and> (\<forall>x. map_of c x = Some 2 \<longrightarrow> map_of c' x = Some 2)"
  "dfs_succs g xs c = (False, c') \<Longrightarrow> colors_ok g c \<Longrightarrow>
     colors_ok g c' \<and> (\<forall>x \<in> set xs. map_of c' x = Some 2) \<and>
     (\<forall>x. map_of c' x = Some 1 \<longleftrightarrow> map_of c x = Some 1) \<and> (\<forall>x. map_of c x = Some 2 \<longrightarrow> map_of c' x = Some 2)"
proof (induction g n c and g xs c arbitrary: c' and c' rule: dfs_cycle_dfs_succs.induct)
  case (1 g n color)
  obtain d where d: "dfs_succs g (adjacent g n) (AList.update n 1 color) = (False, d)"
    and c': "c' = AList.update n 2 d"
    using "1.prems"(1) by (auto simp: dfs_cycle.simps split: prod.splits bool.splits)
  have IH: "colors_ok g d" "\<forall>x \<in> set (adjacent g n). map_of d x = Some 2"
    "\<forall>x. map_of d x = Some 1 \<longleftrightarrow> map_of (AList.update n 1 color) x = Some 1"
    "\<forall>x. map_of (AList.update n 1 color) x = Some 2 \<longrightarrow> map_of d x = Some 2"
    using "1.IH" [OF d colors_ok_gray [OF "1.prems"(2,3)]] by simp_all
  then have "colors_ok g c'"
    unfolding c' by (intro colors_ok_done) auto
  with IH(3,4) "1.prems"(3) show ?case
    by (auto simp: c' unvisited_def split: if_splits)
next
  case (2 g color)
  then show ?case by simp
next
  case (3 g x xs color)
  have neq: "map_of color x \<noteq> Some 1"
    using "3.prems"(1) by auto
  show ?case
  proof (cases "unvisited color x")
    case True
    then obtain d where d: "dfs_cycle g x color = (False, d)" and rest: "dfs_succs g xs d = (False, c')"
      using "3.prems"(1) neq by (auto split: prod.splits bool.splits)
    note IH1 = "3.IH"(1) [OF neq True d "3.prems"(2) True]
    note IH2 = "3.IH"(2) [OF neq True d [symmetric] refl rest]
    show ?thesis
      using IH1 IH2 by auto
  next
    case False
    then have "map_of color x = Some 2"
      using neq "3.prems"(2) unfolding colors_ok_def unvisited_def by (cases "map_of color x") auto
    moreover have "dfs_succs g xs color = (False, c')"
      using "3.prems"(1) neq False by simp
    ultimately show ?thesis
      using "3.IH"(3) [OF neq False _ "3.prems"(2)] by auto
  qed
qed

text \<open>Every node on the stack leads to the current one, so an edge to the stack closes a cycle.\<close>

lemma dfs_found:
  "dfs_cycle g n c = (True, c') \<Longrightarrow> colors_ok g c \<Longrightarrow> unvisited c n \<Longrightarrow>
     \<forall>x. map_of c x = Some 1 \<longrightarrow> (x, n) \<in> (edges g)\<^sup>* \<Longrightarrow> \<exists>x. (x, x) \<in> (edges g)\<^sup>+"
  "dfs_succs g xs c = (True, c') \<Longrightarrow> colors_ok g c \<Longrightarrow> \<forall>y \<in> set xs. (n, y) \<in> edges g \<Longrightarrow>
     \<forall>x. map_of c x = Some 1 \<longrightarrow> (x, n) \<in> (edges g)\<^sup>* \<Longrightarrow> \<exists>x. (x, x) \<in> (edges g)\<^sup>+"
proof (induction g n c and g xs c arbitrary: c' and c' n rule: dfs_cycle_dfs_succs.induct)
  case (1 g n color)
  obtain d where d: "dfs_succs g (adjacent g n) (AList.update n 1 color) = (True, d)"
    using "1.prems"(1) by (auto simp: dfs_cycle.simps split: prod.splits bool.splits)
  show ?case
    using "1.prems"(4) by (intro "1.IH" [OF d colors_ok_gray [OF "1.prems"(2,3)], where n = n]) auto
next
  case (2 g color)
  then show ?case by simp
next
  case (3 g x xs color)
  have edge: "(n, x) \<in> edges g"
    using "3.prems"(3) by simp
  show ?case
  proof (cases "map_of color x = Some 1")
    case True
    then have "(x, x) \<in> (edges g)\<^sup>+"
      using "3.prems"(4) edge by (meson rtrancl_into_trancl1)
    then show ?thesis by blast
  next
    case not_gray: False
    have gray: "\<forall>y. map_of color y = Some 1 \<longrightarrow> (y, x) \<in> (edges g)\<^sup>*"
      using "3.prems"(4) edge by (meson rtrancl.rtrancl_into_rtrancl)
    show ?thesis
    proof (cases "unvisited color x")
      case True
      show ?thesis
      proof (cases "dfs_cycle g x color")
        case (Pair b d)
        show ?thesis
        proof (cases b)
          case True
          then show ?thesis
            using "3.IH"(1) [OF not_gray \<open>unvisited color x\<close> _ "3.prems"(2) _ gray] Pair
              \<open>unvisited color x\<close> by simp
        next
          case False
          then have sub: "dfs_cycle g x color = (False, d)"
            using Pair by simp
          note keep = dfs_no_cycle(1) [OF sub "3.prems"(2) True]
          have rest: "dfs_succs g xs d = (True, c')"
            using "3.prems"(1) not_gray True sub by simp
          show ?thesis
            using "3.prems"(3,4) keep
            by (intro "3.IH"(2) [OF not_gray True sub [symmetric] refl rest, where n = n]) auto
        qed
      qed
    next
      case False
      then show ?thesis
        using "3.IH"(3) [OF not_gray False _ "3.prems"(2), where n = n] "3.prems" not_gray by simp
    qed
  qed
qed

lemma cycle_from_found:
  assumes "cycle_from g ns c" and "colors_ok g c" and "\<forall>x. map_of c x \<noteq> Some 1"
  shows "\<exists>x. (x, x) \<in> (edges g)\<^sup>+"
  using assms
proof (induction ns arbitrary: c)
  case (Cons n ns)
  show ?case
  proof (cases "unvisited c n")
    case True
    obtain b d where d: "dfs_cycle g n c = (b, d)"
      by (cases "dfs_cycle g n c")
    show ?thesis
    proof (cases b)
      case True
      then show ?thesis
        using dfs_found(1) [of g n c d] d Cons.prems \<open>unvisited c n\<close> by simp
    next
      case False
      then have "dfs_cycle g n c = (False, d)" "cycle_from g ns d"
        using d Cons.prems(1) True by simp_all
      then show ?thesis
        using dfs_no_cycle(1) [of g n c d] Cons.prems(2,3) True by (intro Cons.IH [of d]) auto
    qed
  next
    case False
    then show ?thesis
      using Cons by simp
  qed
qed simp

lemma cycle_from_none:
  assumes "\<not> cycle_from g ns c" and "colors_ok g c" and "\<forall>x. map_of c x \<noteq> Some 1"
  shows "\<exists>d. colors_ok g d \<and> (\<forall>x. map_of d x \<noteq> Some 1) \<and> (\<forall>x \<in> set ns. map_of d x = Some 2) \<and>
    (\<forall>x. map_of c x = Some 2 \<longrightarrow> map_of d x = Some 2)"
  using assms
proof (induction ns arbitrary: c)
  case (Cons n ns)
  have "\<exists>c'. colors_ok g c' \<and> (\<forall>x. map_of c' x \<noteq> Some 1) \<and> map_of c' n = Some 2 \<and>
      (\<forall>x. map_of c x = Some 2 \<longrightarrow> map_of c' x = Some 2) \<and> \<not> cycle_from g ns c'"
  proof (cases "unvisited c n")
    case True
    then obtain c' where "dfs_cycle g n c = (False, c')" "\<not> cycle_from g ns c'"
      using Cons.prems(1) by (auto split: prod.splits bool.splits)
    then show ?thesis
      using dfs_no_cycle(1) [of g n c c'] Cons.prems(2,3) True by auto
  next
    case False
    moreover have "map_of c n = Some 2"
      using False Cons.prems(2,3) unfolding colors_ok_def unvisited_def by (cases "map_of c n") auto
    ultimately show ?thesis
      using Cons.prems by auto
  qed
  then obtain c' where c': "colors_ok g c'" "\<forall>x. map_of c' x \<noteq> Some 1" "map_of c' n = Some 2"
    "\<forall>x. map_of c x = Some 2 \<longrightarrow> map_of c' x = Some 2" "\<not> cycle_from g ns c'"
    by blast
  show ?case
    using Cons.IH [OF c'(5,1,2)] c'(3,4) by auto
next
  case Nil
  then show ?case
    by (intro exI [of _ c]) simp
qed

lemma cycle_from_iff: "cycle_from g (keys g) [] \<longleftrightarrow> (\<exists>x. (x, x) \<in> (edges g)\<^sup>+)"
proof
  assume "cycle_from g (keys g) []"
  then show "\<exists>x. (x, x) \<in> (edges g)\<^sup>+"
    by (rule cycle_from_found) (simp_all add: colors_ok_def)
next
  assume "\<exists>x. (x, x) \<in> (edges g)\<^sup>+"
  then obtain x where x: "(x, x) \<in> (edges g)\<^sup>+" by blast
  then obtain y where "(x, y) \<in> edges g"
    by (meson tranclD)
  then have key: "x \<in> set (keys g)"
    by (auto simp: adjacent_def split: option.splits) (metis domI dom_map_of_conv_image_fst)
  show "cycle_from g (keys g) []"
  proof (rule ccontr)
    assume "\<not> cycle_from g (keys g) []"
    then obtain d where "colors_ok g d" "\<forall>x \<in> set (keys g). map_of d x = Some 2"
      using cycle_from_none [of g "keys g" "[]"] by (auto simp: colors_ok_def)
    with x key show False
      unfolding colors_ok_def by blast
  qed
qed

lemma has_cycle_edges: "has_cycle G \<longleftrightarrow> (\<exists>x. (x, x) \<in> (edges (deps G))\<^sup>+)"
  by (simp add: has_cycle_def cycle_from_iff)

section \<open>What the operations do to the edges\<close>

lemma adjacent_push [simp]: "adjacent (push k x m) j = adjacent m j @ (if j = k then [x] else [])"
  by (simp add: adjacent_def push_def split: option.splits)

lemma adjacent_update [simp]: "adjacent (AList.update k v m) j = (if j = k then v else adjacent m j)"
  by (simp add: adjacent_def)

lemma adjacent_delete [simp]: "adjacent (AList.delete k m) j = (if j = k then [] else adjacent m j)"
  by (simp add: adjacent_def)

lemma adjacent_unlink: "adjacent (unlink n d m) e = (if e = d then removeAll n (adjacent m e) else adjacent m e)"
  by (auto simp: unlink_def Let_def adjacent_def split: option.splits)

lemma adjacent_fold_unlink:
  "adjacent (fold (unlink n) ds m) e = (if e \<in> set ds then removeAll n (adjacent m e) else adjacent m e)"
proof (induction ds arbitrary: m)
  case (Cons d ds)
  show ?case
    by (auto simp: Cons.IH adjacent_unlink removeAll_filter_not_eq)
qed simp

lemma adjacent_drop_edges:
  "adjacent (drop_edges n G) e =
    (if e \<in> set (adjacent (deps G) n) then removeAll n (adjacent (reverse G) e) else adjacent (reverse G) e)"
proof (cases "map_of (deps G) n")
  case None
  then have "adjacent (deps G) n = []"
    by (simp add: adjacent_def)
  then show ?thesis
    by (simp add: drop_edges_def None)
next
  case (Some ds)
  then have "adjacent (deps G) n = ds"
    by (simp add: adjacent_def)
  then show ?thesis
    by (simp add: drop_edges_def Some adjacent_fold_unlink)
qed

lemma adjacent_add_edges:
  "adjacent (deps (add_edges n ds G)) x = adjacent (deps G) x @ (if x = n then filter (\<lambda>d. d \<noteq> n) ds else [])"
  "adjacent (reverse (add_edges n ds G)) y =
     adjacent (reverse G) y @ map (\<lambda>_. n) (filter (\<lambda>d. d = y \<and> d \<noteq> n) ds)"
  by (induction ds arbitrary: G) auto

lemma adjacent_add_dependency:
  "adjacent (deps (add_dependency n ds G)) x =
    (if x = n then filter (\<lambda>d. d \<noteq> n) ds else adjacent (deps G) x)"
  "adjacent (reverse (add_dependency n ds G)) y =
    (if y \<in> set (adjacent (deps G) n) then removeAll n (adjacent (reverse G) y) else adjacent (reverse G) y)
      @ map (\<lambda>_. n) (filter (\<lambda>d. d = y \<and> d \<noteq> n) ds)"
proof -
  have none: "adjacent (deps G) n = []" if "map_of (deps G) n = None"
    using that by (simp add: adjacent_def)
  show "adjacent (deps (add_dependency n ds G)) x =
      (if x = n then filter (\<lambda>d. d \<noteq> n) ds else adjacent (deps G) x)"
    using none by (auto simp: add_dependency_def adjacent_add_edges)
  show "adjacent (reverse (add_dependency n ds G)) y =
    (if y \<in> set (adjacent (deps G) n) then removeAll n (adjacent (reverse G) y) else adjacent (reverse G) y)
      @ map (\<lambda>_. n) (filter (\<lambda>d. d = y \<and> d \<noteq> n) ds)"
    using none by (auto simp: add_dependency_def adjacent_add_edges adjacent_drop_edges)
qed

lemma adjacent_remove_dependency:
  "adjacent (deps (remove_dependency n G)) x = (if x = n then [] else adjacent (deps G) x)"
  "adjacent (reverse (remove_dependency n G)) y =
    (if y \<in> set (adjacent (deps G) n) then removeAll n (adjacent (reverse G) y) else adjacent (reverse G) y)"
  by (cases "map_of (deps G) n"; simp add: remove_dependency_def adjacent_drop_edges;
      simp add: adjacent_def)+

lemma edges_add_dependency:
  "edges (deps (add_dependency n ds G)) =
    {(x, y) \<in> edges (deps G). x \<noteq> n} \<union> {(n, d) | d. d \<in> set ds \<and> d \<noteq> n}"
  by (auto simp: adjacent_add_dependency edges_def split: if_splits)

lemma edges_remove_dependency:
  "edges (deps (remove_dependency n G)) = {(x, y) \<in> edges (deps G). x \<noteq> n}"
  by (auto simp: adjacent_remove_dependency edges_def split: if_splits)

lemma edges_with_edges:
  "edges (with_edges from to g) = edges g \<union> {(from, d) | d. d \<in> set to \<and> d \<noteq> from}"
proof -
  have "adjacent (fold (\<lambda>d g. if d \<noteq> from then push from d g else g) to g) x =
      adjacent g x @ (if x = from then filter (\<lambda>d. d \<noteq> from) to else [])" for x
    by (induction to arbitrary: g) auto
  then show ?thesis
    by (auto simp: with_edges_def Let_def edges_def split: if_splits)
qed

lemma create_cycle_edges:
  "create_cycle from to G \<longleftrightarrow>
    (\<exists>x. (x, x) \<in> (edges (deps G) \<union> {(from, d) | d. d \<in> set to \<and> d \<noteq> from})\<^sup>+)"
  by (simp add: create_cycle_def Let_def cycle_from_iff edges_with_edges)

lemma acyclic_subset_edges:
  "\<not> (\<exists>x. (x, x) \<in> A\<^sup>+) \<Longrightarrow> B \<subseteq> A \<Longrightarrow> \<not> (\<exists>x. (x, x) \<in> B\<^sup>+)"
  by (meson subset_iff trancl_mono)

lemma has_cycle_add_dependency:
  assumes "\<not> create_cycle n ds G"
  shows "\<not> has_cycle (add_dependency n ds G)"
  using assms unfolding has_cycle_edges create_cycle_edges edges_add_dependency
  by (rule acyclic_subset_edges) auto

lemma has_cycle_remove_dependency: "\<not> has_cycle G \<Longrightarrow> \<not> has_cycle (remove_dependency n G)"
  unfolding has_cycle_edges edges_remove_dependency by (rule acyclic_subset_edges) auto

section \<open>The two maps mirror each other\<close>

definition no_empty :: "('a, 'b list) umap \<Rightarrow> bool" where
  "no_empty m \<longleftrightarrow> (\<forall>y. map_of m y \<noteq> Some [])"

definition graph_ok :: "'a dep_graph \<Rightarrow> bool" where
  "graph_ok G \<longleftrightarrow> umap_ok (deps G) \<and> umap_ok (reverse G) \<and>
     (\<forall>x y. y \<in> set (adjacent (deps G) x) \<longleftrightarrow> x \<in> set (adjacent (reverse G) y)) \<and>
     (\<forall>x. x \<notin> set (adjacent (deps G) x)) \<and> no_empty (reverse G)"

lemma umap_ok_push [simp]: "umap_ok m \<Longrightarrow> umap_ok (push k x m)"
  by (simp add: push_def distinct_update)

lemma umap_ok_unlink [simp]: "umap_ok m \<Longrightarrow> umap_ok (unlink n d m)"
  by (simp add: unlink_def Let_def distinct_update distinct_delete split: option.splits)

lemma umap_ok_fold_unlink [simp]: "umap_ok m \<Longrightarrow> umap_ok (fold (unlink n) ds m)"
  by (induction ds arbitrary: m) simp_all

lemma umap_ok_drop_edges [simp]: "umap_ok (reverse G) \<Longrightarrow> umap_ok (drop_edges n G)"
  by (simp add: drop_edges_def split: option.splits)

lemma umap_ok_add_edges:
  "umap_ok (deps G) \<Longrightarrow> umap_ok (deps (add_edges n ds G))"
  "umap_ok (reverse G) \<Longrightarrow> umap_ok (reverse (add_edges n ds G))"
  by (induction ds arbitrary: G) simp_all

lemma no_empty_unlink: "no_empty m \<Longrightarrow> no_empty (unlink n d m)"
  by (auto simp: no_empty_def unlink_def Let_def split: option.splits if_splits)

lemma no_empty_drop_edges:
  assumes "no_empty (reverse G)"
  shows "no_empty (drop_edges n G)"
proof -
  have "no_empty m \<Longrightarrow> no_empty (fold (unlink n) ds m)" for ds and m :: "'a graph"
    by (induction ds arbitrary: m) (simp_all add: no_empty_unlink)
  then show ?thesis
    using assms by (simp add: drop_edges_def split: option.splits)
qed

lemma no_empty_push: "no_empty m \<Longrightarrow> no_empty (push k x m)"
  by (auto simp: no_empty_def push_def)

lemma no_empty_add_edges: "no_empty (reverse G) \<Longrightarrow> no_empty (reverse (add_edges n ds G))"
  by (induction ds arbitrary: G) (simp_all add: no_empty_push)

lemma distinct_remdups_adj_sorted:
  "sorted (xs :: 'a::linorder list) \<Longrightarrow> distinct (remdups_adj xs)"
  by (induction xs rule: remdups_adj.induct) (auto simp: order.antisym)

lemma graph_ok_add_dependency:
  assumes "graph_ok G"
  shows "graph_ok (add_dependency n ds G)"
proof -
  let ?G = "add_dependency n ds G"
  have "umap_ok (deps ?G)" "umap_ok (reverse ?G)" "no_empty (reverse ?G)"
    using assms unfolding graph_ok_def add_dependency_def
    by (auto intro!: umap_ok_add_edges no_empty_add_edges simp: distinct_update no_empty_drop_edges)
  moreover have "\<forall>x y. y \<in> set (adjacent (deps ?G) x) \<longleftrightarrow> x \<in> set (adjacent (reverse ?G) y)"
    using assms unfolding graph_ok_def by (auto simp: adjacent_add_dependency)
  moreover have "\<forall>x. x \<notin> set (adjacent (deps ?G) x)"
    using assms unfolding graph_ok_def by (auto simp: adjacent_add_dependency)
  ultimately show ?thesis
    unfolding graph_ok_def by blast
qed

lemma graph_ok_remove_dependency:
  assumes "graph_ok G"
  shows "graph_ok (remove_dependency n G)"
proof -
  let ?G = "remove_dependency n G"
  have "umap_ok (deps ?G)" "umap_ok (reverse ?G)" "no_empty (reverse ?G)"
    using assms unfolding graph_ok_def remove_dependency_def
    by (auto simp: distinct_delete no_empty_drop_edges)
  moreover have "\<forall>x y. y \<in> set (adjacent (deps ?G) x) \<longleftrightarrow> x \<in> set (adjacent (reverse ?G) y)"
    using assms unfolding graph_ok_def by (auto simp: adjacent_remove_dependency)
  moreover have "\<forall>x. x \<notin> set (adjacent (deps ?G) x)"
    using assms unfolding graph_ok_def by (auto simp: adjacent_remove_dependency)
  ultimately show ?thesis
    unfolding graph_ok_def by blast
qed

section \<open>Properties\<close>

text \<open>
  Property C8. The depth-first search is exact: \<^verbatim>\<open>has_cycle\<close> answers true precisely when the
  recorded dependencies contain a cycle, and \<^verbatim>\<open>create_cycle\<close> precisely when they would contain one
  with the proposed edges added. Both always return.
\<close>

theorem cycle_detection_exact:
  "(has_cycle G \<longleftrightarrow> (\<exists>x. (x, x) \<in> (edges (deps G))\<^sup>+)) \<and>
   (create_cycle n ds G \<longleftrightarrow>
     (\<exists>x. (x, x) \<in> (edges (deps G) \<union> {(n, d) | d. d \<in> set ds \<and> d \<noteq> n})\<^sup>+))"
  by (simp add: has_cycle_edges create_cycle_edges)

text \<open>
  Property C26. Replacing the dependencies of a node keeps the two adjacency maps mirror images of
  each other, leaves every other node's dependencies alone, and cannot close a cycle that
  \<^verbatim>\<open>create_cycle\<close> did not report.
\<close>

theorem add_dependency_correct:
  assumes "graph_ok G"
  shows "graph_ok (add_dependency n ds G) \<and>
    dependencies_of (add_dependency n ds G) x = (if x = n then filter (\<lambda>d. d \<noteq> n) ds else dependencies_of G x) \<and>
    (\<not> create_cycle n ds G \<longrightarrow> \<not> has_cycle (add_dependency n ds G))"
  using graph_ok_add_dependency [OF assms] has_cycle_add_dependency [of n ds G]
  by (simp add: dependencies_of_def adjacent_add_dependency)

theorem add_dependency_correct_witness:
  "dependencies_of (add_dependency (1::nat) [2, 1, 3] \<lparr>deps = [(1, [4])], reverse = [(4, [1])]\<rparr>) 1 = [2, 3]"
proof -
  have "graph_ok \<lparr>deps = [(1::nat, [4])], reverse = [(4, [1])]\<rparr>"
    by (auto simp: graph_ok_def no_empty_def adjacent_def)
  from add_dependency_correct [OF this, of 1 "[2, 1, 3]" 1] show ?thesis
    by simp
qed

text \<open>
  \<^verbatim>\<open>dependents_of\<close> lists, in ascending order and once each, exactly the nodes that
  depend on its argument.
\<close>

theorem dependents_of_exact:
  assumes "graph_ok G"
  shows "set (dependents_of G d) = {n. d \<in> set (dependencies_of G n)} \<and>
    sorted (dependents_of G d) \<and> distinct (dependents_of G d)"
proof -
  have *: "dependents_of G d = remdups_adj (sort (adjacent (reverse G) d))"
    by (simp add: dependents_of_def adjacent_def split: option.splits)
  show ?thesis
    using assms unfolding * graph_ok_def dependencies_of_def
    by (auto simp: sorted_remdups_adj distinct_remdups_adj_sorted)
qed

theorem dependents_of_exact_witness:
  "set (dependents_of \<lparr>deps = [(1::nat, [4]), (2, [4])], reverse = [(4, [2, 1])]\<rparr> 4) = {1, 2}"
proof -
  have "graph_ok \<lparr>deps = [(1::nat, [4]), (2, [4])], reverse = [(4, [2, 1])]\<rparr>"
    by (auto simp: graph_ok_def no_empty_def adjacent_def)
  from dependents_of_exact [OF this, of 4] show ?thesis
    by (auto simp: dependencies_of_def adjacent_def split: if_splits)
qed

text \<open>
  A self dependency is dropped without an error: neither the adjacency nor the
  cycle check ever sees it.
\<close>

theorem self_dependency_ignored:
  "create_cycle n (n # ds) G = create_cycle n ds G \<and>
   add_dependency n (n # ds) G = add_dependency n ds G"
  by (simp add: create_cycle_def with_edges_def add_dependency_def)

end
