(* ===== verification/Registry.thy ===== *)
theory Registry
  imports Decision Dep_Graph "HOL-Library.Sublist"
begin

text \<open>
  The state of \<^verbatim>\<open>CompatibilityRegistry\<close> and its mutating operations and queries
  (\<^verbatim>\<open>include/compat/registry.hpp\<close>, \<^verbatim>\<open>src/compat/registry.cpp\<close>): profiles with their generations,
  rules, evidence, policy, invalidation and its propagation. The mutex makes every operation one
  atomic step. An operation that throws also returns the state it leaves behind.
\<close>

section \<open>State\<close>

record registry =
  profiles :: "(uuid, profile_record list) umap"
  rules :: "(uuid, rule_record) umap"
  evidence :: "(uuid, evidence_record) umap"
  decisions :: "(digest, decision) umap"
  invalidations :: "invalidation list"
  graph :: "uuid dep_graph"
  registry_gen :: u64
  policy_id :: uuid
  rule_gen :: u64
  evidence_gen :: u64
  capability_gen :: u64

definition empty_registry :: registry where
  "empty_registry = \<lparr>profiles = [], rules = [], evidence = [], decisions = [], invalidations = [],
     graph = \<lparr>deps = [], reverse = []\<rparr>, registry_gen = 0, policy_id = zero_uuid, rule_gen = 0,
     evidence_gen = 0, capability_gen = 0\<rparr>"

abbreviation bump :: "registry \<Rightarrow> registry" where
  "bump R \<equiv> R\<lparr>registry_gen := registry_gen R + 1\<rparr>"

section \<open>Profiles\<close>

text \<open>A history is a \<^verbatim>\<open>std::deque\<close>, oldest generation first; \<^verbatim>\<open>back()\<close> is \<open>last\<close>.\<close>

definition supersede_active :: "profile_record \<Rightarrow> profile_record" where
  "supersede_active p = (if p_active p then p\<lparr>p_active := False, p_superseded := True\<rparr> else p)"

definition deactivate :: "profile_record \<Rightarrow> profile_record" where
  "deactivate p = p\<lparr>p_active := False, p_superseded := True\<rparr>"

definition same_registration :: "profile_record \<Rightarrow> profile_record \<Rightarrow> bool" where
  "same_registration latest p \<longleftrightarrow>
     p_active latest \<and> p_fingerprint latest = p_fingerprint p \<and> p_deps latest = p_deps p \<and>
     p_kind latest = p_kind p"

definition register_profile :: "profile_record \<Rightarrow> registry \<Rightarrow> uuid res \<times> registry" where
  "register_profile p R =
     (case canonical_fingerprint_hex (p_payload p) of
        Inl e \<Rightarrow> (Inl e, R)
      | Inr fp \<Rightarrow>
          let p = p\<lparr>p_fingerprint := fp\<rparr>; found = map_of (profiles R) (p_id p) in
          if (case found of Some hist \<Rightarrow> same_registration (last hist) p | None \<Rightarrow> False)
          then (Inr (p_id p), R)
          else
            let R1 = (case found of
                    Some hist \<Rightarrow> R\<lparr>profiles := AList.update (p_id p) (map supersede_active hist) (profiles R)\<rparr>
                  | None \<Rightarrow> R);
                gen = (case found of Some hist \<Rightarrow> p_generation (last hist) + 1 | None \<Rightarrow> 1);
                p = p\<lparr>p_generation := gen\<rparr>
            in if create_cycle (p_id p) (p_deps p) (graph R1)
               then (Inl (Runtime_Error (''register_profile: dependency cycle rejected for '' @
                      uuid_to_string (p_id p))), R1)
               else (Inr (p_id p), bump (R1\<lparr>profiles := push (p_id p) p (profiles R1),
                      graph := add_dependency (p_id p) (p_deps p) (graph R1)\<rparr>)))"

text \<open>
  The other overload draws a fresh random id (\<open>u\<close>, \<^verbatim>\<open>Uuid::genseed\<close>) and registers the record
  it fills in.
\<close>

definition new_profile :: "uuid \<Rightarrow> profile_kind \<Rightarrow> canon \<Rightarrow> uuid list \<Rightarrow> string \<Rightarrow> profile_record" where
  "new_profile u kd payload ds prov =
     \<lparr>p_kind = kd, p_id = u, p_generation = 0, p_payload = payload, p_deps = ds, p_active = True,
      p_superseded = False, p_provenance = prov, p_fingerprint = []\<rparr>"

definition register_new_profile ::
  "uuid \<Rightarrow> profile_kind \<Rightarrow> canon \<Rightarrow> uuid list \<Rightarrow> string \<Rightarrow> registry \<Rightarrow> uuid res \<times> registry" where
  "register_new_profile u kd payload ds prov R =
     (case canonical_fingerprint_hex payload of
        Inl e \<Rightarrow> (Inl e, R)
      | Inr fp \<Rightarrow> register_profile ((new_profile u kd payload ds prov)\<lparr>p_fingerprint := fp\<rparr>) R)"

definition supersede_profile ::
  "profile_kind \<Rightarrow> uuid \<Rightarrow> canon \<Rightarrow> uuid list \<Rightarrow> string \<Rightarrow> registry \<Rightarrow> uuid res \<times> registry" where
  "supersede_profile kd u payload ds prov R =
     (case map_of (profiles R) u of
        None \<Rightarrow> (Inl (Runtime_Error (''supersede_profile: unknown profile '' @ uuid_to_string u)), R)
      | Some hist \<Rightarrow>
          (case canonical_fingerprint_hex payload of
             Inl e \<Rightarrow> (Inl e, R)
           | Inr fp \<Rightarrow>
               let p = (new_profile u kd payload ds prov)\<lparr>p_fingerprint := fp\<rparr>; latest = last hist in
               if p_active latest \<and> p_fingerprint latest = fp \<and> p_deps latest = ds then (Inr u, R)
               else
                 let p = p\<lparr>p_generation := p_generation latest + 1\<rparr>;
                     hist = map supersede_active hist;
                     R1 = R\<lparr>profiles := AList.update u hist (profiles R),
                            graph := remove_dependency u (graph R)\<rparr>
                 in if create_cycle u ds (graph R1)
                    then (Inl (Runtime_Error (''supersede_profile: dependency cycle rejected for '' @
                           uuid_to_string u)), R1)
                    else (Inr u, bump (R1\<lparr>profiles := AList.update u (hist @ [p]) (profiles R1),
                           graph := add_dependency u ds (graph R1)\<rparr>))))"

definition invalidate_profile :: "uuid \<Rightarrow> string \<Rightarrow> registry \<Rightarrow> bool \<times> registry" where
  "invalidate_profile u why R =
     (case map_of (profiles R) u of
        None \<Rightarrow> (False, R)
      | Some hist \<Rightarrow>
          (True, bump (R\<lparr>invalidations := invalidations R @
               [\<lparr>iv_target = u, iv_generation = p_generation (last hist), iv_reason = why,
                 iv_fingerprint_before = p_fingerprint (last hist)\<rparr>],
             profiles := AList.update u (map deactivate hist) (profiles R)\<rparr>)))"

definition newest_active :: "profile_record list \<Rightarrow> profile_record option" where
  "newest_active hist = find p_active (rev hist)"

definition find_profile :: "uuid \<Rightarrow> bool \<Rightarrow> registry \<Rightarrow> profile_record option" where
  "find_profile u include_history R =
     (case map_of (profiles R) u of
        None \<Rightarrow> None
      | Some hist \<Rightarrow>
          if \<not> include_history
          then (if p_active (last hist) then Some (last hist) else newest_active hist)
          else Some (last hist))"

definition history_of :: "uuid \<Rightarrow> registry \<Rightarrow> profile_record list" where
  "history_of u R = adjacent (profiles R) u"

definition id_less :: "profile_record \<Rightarrow> profile_record \<Rightarrow> bool" where
  "id_less a b \<longleftrightarrow> p_id a < p_id b"

interpretation id_order: comparator id_less
  by unfold_locales (auto simp: id_less_def)

definition query_by_kind :: "profile_kind \<Rightarrow> registry \<Rightarrow> profile_record list" where
  "query_by_kind kd R =
     sort_by id_less
       (filter (\<lambda>p. \<not> p_kind p \<noteq> kd) (List.map_filter (\<lambda>(u, hist). newest_active hist) (profiles R)))"

section \<open>Rules, evidence and policy\<close>

definition register_rule :: "rule \<Rightarrow> registry \<Rightarrow> uuid \<times> registry" where
  "register_rule r R =
     (let found = map_of (rules R) (r_rule_id r);
          (gen, counter) =
            (if r_generation r = 0 then
              (case found of
                 Some rr \<Rightarrow> if rr_active rr then (r_generation (rr_rule rr) + 1, rule_gen R)
                   else (rule_gen R + 1, rule_gen R + 1)
               | None \<Rightarrow> (rule_gen R + 1, rule_gen R + 1))
             else (r_generation r, rule_gen R));
          rr = \<lparr>rr_rule = r\<lparr>r_generation := gen\<rparr>, rr_active = True, rr_superseded = False\<rparr>
      in (r_rule_id r, bump (R\<lparr>rule_gen := counter, rules := AList.update (r_rule_id r) rr (rules R)\<rparr>)))"

definition supersede_rule :: "uuid \<Rightarrow> rule \<Rightarrow> registry \<Rightarrow> bool \<times> registry" where
  "supersede_rule u r R =
     (case map_of (rules R) u of
        None \<Rightarrow> (False, R)
      | Some old \<Rightarrow>
          let r = r\<lparr>r_rule_id := u, r_generation := r_generation (rr_rule old) + 1\<rparr>;
              rr = \<lparr>rr_rule = r, rr_active = True, rr_superseded = False\<rparr>
          in (True, bump (R\<lparr>rules := AList.update u rr (rules R)\<rparr>)))"

definition disable_rule :: "uuid \<Rightarrow> registry \<Rightarrow> bool \<times> registry" where
  "disable_rule u R =
     (case map_of (rules R) u of
        None \<Rightarrow> (False, R)
      | Some rr \<Rightarrow>
          (True, bump (R\<lparr>rules := AList.update u (rr\<lparr>rr_active := False, rr_superseded := True\<rparr>) (rules R)\<rparr>)))"

definition active_rules :: "registry \<Rightarrow> rule list" where
  "active_rules R = List.map_filter (\<lambda>(u, rr). if rr_active rr then Some (rr_rule rr) else None) (rules R)"

definition register_evidence :: "evidence_record \<Rightarrow> registry \<Rightarrow> registry" where
  "register_evidence ev R =
     bump (R\<lparr>evidence := AList.update (ev_id ev) ev (evidence R), evidence_gen := evidence_gen R + 1\<rparr>)"

definition find_evidence :: "uuid \<Rightarrow> registry \<Rightarrow> evidence_record option" where
  "find_evidence u R = map_of (evidence R) u"

definition set_policy :: "uuid \<Rightarrow> registry \<Rightarrow> registry" where
  "set_policy u R = bump (R\<lparr>policy_id := u\<rparr>)"

section \<open>Propagating an invalidation\<close>

definition invalidate_node :: "uuid \<Rightarrow> registry \<Rightarrow> registry" where
  "invalidate_node cur R =
     (case map_of (profiles R) cur of
        None \<Rightarrow> R
      | Some hist \<Rightarrow>
          R\<lparr>profiles := AList.update cur (map deactivate hist) (profiles R),
            invalidations := invalidations R @
              [\<lparr>iv_target = cur,
                iv_generation = (if hist = [] then 0 else p_generation (last hist)),
                iv_reason = ''propagated invalidation from dependency'',
                iv_fingerprint_before = (if hist = [] then [] else p_fingerprint (last hist))\<rparr>]\<rparr>)"

text \<open>The unseen dependents of a node go on the stack; its top is the head of the list.\<close>

fun push_unseen :: "uuid list \<Rightarrow> uuid list \<Rightarrow> uuid list \<Rightarrow> uuid list \<times> uuid list" where
  "push_unseen [] seen stack = (seen, stack)"
| "push_unseen (n # ns) seen stack =
     (if n \<notin> set seen then push_unseen ns (seen @ [n]) (n # stack) else push_unseen ns seen stack)"

definition all_dependents :: "registry \<Rightarrow> uuid set" where
  "all_dependents R = \<Union> (set ` snd ` set (reverse (graph R)))"

lemma push_unseen_measure:
  assumes "push_unseen ns seen stack = (seen', stack')" and "set ns \<subseteq> U" and "finite U"
  shows "card (U - set seen') + length stack' = card (U - set seen) + length stack"
  using assms
proof (induction ns arbitrary: seen stack)
  case (Cons n ns)
  show ?case
  proof (cases "n \<in> set seen")
    case False
    then have "n \<in> U - set seen" and rest: "U - set (seen @ [n]) = (U - set seen) - {n}"
      using Cons.prems(2) by auto
    then have "Suc (card (U - set (seen @ [n]))) = card (U - set seen)"
      unfolding rest using Cons.prems(3) by (intro card_Suc_Diff1) simp_all
    moreover have "card (U - set seen') + length stack' = card (U - set (seen @ [n])) + length (n # stack)"
      using Cons.prems False by (intro Cons.IH) simp_all
    ultimately show ?thesis by simp
  next
    case True
    then show ?thesis
      using Cons.prems by (intro Cons.IH) simp_all
  qed
qed simp

lemma invalidate_node_graph [simp]: "graph (invalidate_node u R) = graph R"
  by (simp add: invalidate_node_def split: option.splits)

function propagate_loop :: "uuid list \<Rightarrow> uuid list \<Rightarrow> registry \<Rightarrow> registry" where
  "propagate_loop [] seen R = R"
| "propagate_loop (cur # stack) seen R =
     (let R = invalidate_node cur R;
          (seen, stack) = push_unseen (adjacent (reverse (graph R)) cur) seen stack
      in propagate_loop stack seen R)"
  by pat_completeness auto
termination
proof (relation "measure (\<lambda>(stack, seen, R). card (all_dependents R - set seen) + length stack)", goal_cases)
  case 1
  show ?case by simp
next
  case (2 cur stack seen R R' p seen' stack')
  have "set (adjacent (reverse (graph R)) cur) \<subseteq> all_dependents R"
    unfolding all_dependents_def by (rule adjacent_nodes)
  then show ?case
    using 2 push_unseen_measure [of "adjacent (reverse (graph R)) cur" seen stack seen' stack' "all_dependents R"]
    by (simp add: all_dependents_def)
qed

definition propagate_invalidation :: "uuid \<Rightarrow> registry \<Rightarrow> registry" where
  "propagate_invalidation u R = bump (propagate_loop [u] [] R)"

section \<open>Statistics\<close>

record registry_stats =
  n_profiles :: nat
  n_rules :: nat
  n_evidence :: nat
  n_decisions :: nat
  n_invalidations :: nat
  n_dependencies :: nat

definition stats :: "registry \<Rightarrow> registry_stats" where
  "stats R = \<lparr>n_profiles = length (profiles R), n_rules = length (rules R),
     n_evidence = length (evidence R), n_decisions = length (decisions R),
     n_invalidations = length (invalidations R), n_dependencies = length (deps (graph R))\<rparr>"

section \<open>Well-formed registries\<close>

text \<open>
  A history is never empty, belongs to its key, is numbered consecutively from 1, records the
  fingerprint of each payload, and at most its last generation is active.
\<close>

definition history_ok :: "uuid \<Rightarrow> profile_record list \<Rightarrow> bool" where
  "history_ok u hist \<longleftrightarrow> hist \<noteq> [] \<and>
     (\<forall>p \<in> set hist. p_id p = u \<and> canon_ok (p_payload p) \<and>
        canonical_fingerprint_hex (p_payload p) = Inr (p_fingerprint p)) \<and>
     (\<forall>p \<in> set (butlast hist). \<not> p_active p) \<and>
     map p_generation hist = map word_of_nat [1..<Suc (length hist)]"

definition profiles_ok :: "(uuid, profile_record list) umap \<Rightarrow> bool" where
  "profiles_ok m \<longleftrightarrow> umap_ok m \<and> (\<forall>u hist. map_of m u = Some hist \<longrightarrow> history_ok u hist)"

text \<open>A store holds each value under the key the value carries.\<close>

definition keyed :: "('v \<Rightarrow> 'k) \<Rightarrow> ('k, 'v) umap \<Rightarrow> bool" where
  "keyed key m \<longleftrightarrow> umap_ok m \<and> (\<forall>k v. map_of m k = Some v \<longrightarrow> key v = k)"

lemma keyed_update: "keyed key m \<Longrightarrow> key v = k \<Longrightarrow> keyed key (AList.update k v m)"
  unfolding keyed_def map_of_update by (auto simp: distinct_update simp del: map_of_eq_Some_iff)

lemma keyedD: "keyed key m \<Longrightarrow> map_of m k = Some v \<Longrightarrow> key v = k"
  by (simp add: keyed_def)

lemma keyed_Nil [simp]: "keyed key []"
  by (simp add: keyed_def)

definition stores_ok :: "registry \<Rightarrow> bool" where
  "stores_ok R \<longleftrightarrow> keyed (\<lambda>rr. r_rule_id (rr_rule rr)) (rules R) \<and> keyed ev_id (evidence R) \<and>
     keyed d_digest (decisions R)"

definition registry_ok :: "registry \<Rightarrow> bool" where
  "registry_ok R \<longleftrightarrow> profiles_ok (profiles R) \<and> stores_ok R \<and> graph_ok (graph R) \<and> \<not> has_cycle (graph R)"

named_theorems flag_simps \<open>what the flag-changing maps leave alone\<close>

lemma supersede_active_simps [simp, flag_simps]:
  "p_kind (supersede_active p) = p_kind p" "p_id (supersede_active p) = p_id p"
  "p_generation (supersede_active p) = p_generation p" "p_payload (supersede_active p) = p_payload p"
  "p_deps (supersede_active p) = p_deps p" "p_fingerprint (supersede_active p) = p_fingerprint p"
  "p_provenance (supersede_active p) = p_provenance p" "\<not> p_active (supersede_active p)"
  by (simp_all add: supersede_active_def)

lemma deactivate_simps [simp, flag_simps]:
  "p_kind (deactivate p) = p_kind p" "p_id (deactivate p) = p_id p"
  "p_generation (deactivate p) = p_generation p" "p_payload (deactivate p) = p_payload p"
  "p_deps (deactivate p) = p_deps p" "p_fingerprint (deactivate p) = p_fingerprint p"
  "p_provenance (deactivate p) = p_provenance p" "\<not> p_active (deactivate p)"
  by (simp_all add: deactivate_def)

lemma history_ok_flags:
  "history_ok u hist \<Longrightarrow> history_ok u (map supersede_active hist)"
  "history_ok u hist \<Longrightarrow> history_ok u (map deactivate hist)"
  by (auto simp: history_ok_def comp_def map_butlast [symmetric])

lemma history_ok_singleton:
  "p_id p = u \<Longrightarrow> canon_ok (p_payload p) \<Longrightarrow> canonical_fingerprint_hex (p_payload p) = Inr (p_fingerprint p) \<Longrightarrow>
     p_generation p = 1 \<Longrightarrow> history_ok u [p]"
  by (simp add: history_ok_def)

lemma history_ok_last_generation:
  assumes "history_ok u hist"
  shows "p_generation (last hist) = word_of_nat (length hist)"
proof -
  have ne: "hist \<noteq> []" and gens: "map p_generation hist = map word_of_nat [1..<Suc (length hist)]"
    using assms by (simp_all add: history_ok_def)
  have "p_generation (last hist) = last (map p_generation hist)"
    using ne by (simp add: last_map)
  also have "\<dots> = word_of_nat (length hist)"
    using ne unfolding gens by (cases hist) (simp_all add: last_map)
  finally show ?thesis .
qed

lemma history_ok_append:
  assumes "history_ok u hist" and "p_id p = u" and "canon_ok (p_payload p)"
    and "canonical_fingerprint_hex (p_payload p) = Inr (p_fingerprint p)"
    and "p_generation p = p_generation (last hist) + 1"
  shows "history_ok u (map supersede_active hist @ [p])"
  using assms history_ok_last_generation [OF assms(1)]
  by (auto simp: history_ok_def comp_def add.commute)

lemma profiles_ok_update:
  "profiles_ok m \<Longrightarrow> history_ok u hist \<Longrightarrow> profiles_ok (AList.update u hist m)"
  by (auto simp: profiles_ok_def distinct_update)

lemma newest_active_ok:
  assumes "history_ok u hist"
  shows "newest_active hist = (if p_active (last hist) then Some (last hist) else None)"
proof -
  have ne: "hist \<noteq> []" and old: "\<forall>p \<in> set (butlast hist). \<not> p_active p"
    using assms by (simp_all add: history_ok_def)
  have r: "rev hist = last hist # rev (butlast hist)"
    using ne by (metis append_butlast_last_id rev_eq_Cons_iff rev_rev_ident)
  have "find p_active (rev (butlast hist)) = None"
    using old by (simp add: find_None_iff)
  then show ?thesis
    unfolding newest_active_def r by simp
qed

lemma find_profile_newest:
  assumes "profiles_ok (profiles R)"
  shows "find_profile u False R = Option.bind (map_of (profiles R) u) newest_active"
proof (cases "map_of (profiles R) u")
  case (Some hist)
  then have "history_ok u hist"
    using assms by (simp add: profiles_ok_def)
  from newest_active_ok [OF this] show ?thesis
    by (simp add: find_profile_def Some)
qed (simp add: find_profile_def)

section \<open>Every operation keeps the registry well formed\<close>

lemma stores_ok_update [simp]:
  "stores_ok (R\<lparr>profiles := x\<rparr>) = stores_ok R" "stores_ok (R\<lparr>graph := g\<rparr>) = stores_ok R"
  "stores_ok (R\<lparr>registry_gen := n\<rparr>) = stores_ok R" "stores_ok (R\<lparr>invalidations := i\<rparr>) = stores_ok R"
  by (simp_all add: stores_ok_def)

lemma profiles_okD: "profiles_ok m \<Longrightarrow> map_of m u = Some hist \<Longrightarrow> history_ok u hist"
  by (simp add: profiles_ok_def)

lemma push_history:
  "map_of m u = Some hist \<Longrightarrow> push u p m = AList.update u (hist @ [p]) m"
  "map_of m u = None \<Longrightarrow> push u p m = AList.update u [p] m"
  by (simp_all add: push_def)

lemma register_profile_ok:
  assumes "registry_ok R" and "canon_ok (p_payload p)"
  shows "registry_ok (snd (register_profile p R))"
proof (cases "canonical_fingerprint_hex (p_payload p)")
  case (Inl e)
  then show ?thesis
    using assms by (simp add: register_profile_def)
next
  case (Inr fp)
  note ok = assms(1) [unfolded registry_ok_def]
  show ?thesis
  proof (cases "map_of (profiles R) (p_id p)")
    case None
    then show ?thesis
      using ok assms(2) Inr
      by (auto simp: register_profile_def Let_def registry_ok_def push_history
          intro!: profiles_ok_update history_ok_singleton graph_ok_add_dependency has_cycle_add_dependency)
  next
    case (Some hist)
    have h: "history_ok (p_id p) hist"
      using ok Some by (blast intro: profiles_okD)
    have upd: "profiles_ok (AList.update (p_id p) (map supersede_active hist) (profiles R))"
      using ok h by (blast intro: profiles_ok_update history_ok_flags)
    show ?thesis
      using ok assms(2) Inr Some upd h
      by (auto simp: register_profile_def Let_def registry_ok_def push_history(1) [where hist = "map supersede_active hist"]
          intro!: profiles_ok_update history_ok_append graph_ok_add_dependency has_cycle_add_dependency)
  qed
qed

lemma register_new_profile_ok:
  "registry_ok R \<Longrightarrow> canon_ok payload \<Longrightarrow> registry_ok (snd (register_new_profile u kd payload ds prov R))"
  by (cases "canonical_fingerprint_hex payload")
    (simp_all add: register_new_profile_def register_profile_ok new_profile_def)

lemma supersede_profile_ok:
  assumes "registry_ok R" and "canon_ok payload"
  shows "registry_ok (snd (supersede_profile kd u payload ds prov R))"
proof (cases "map_of (profiles R) u")
  case None
  then show ?thesis
    using assms by (simp add: supersede_profile_def)
next
  case (Some hist)
  note ok = assms(1) [unfolded registry_ok_def]
  have h: "history_ok u hist"
    using ok Some by (blast intro: profiles_okD)
  have upd: "profiles_ok (AList.update u (map supersede_active hist) (profiles R))"
    using ok h by (blast intro: profiles_ok_update history_ok_flags)
  have g: "graph_ok (remove_dependency u (graph R))" "\<not> has_cycle (remove_dependency u (graph R))"
    using ok by (simp_all add: graph_ok_remove_dependency has_cycle_remove_dependency)
  show ?thesis
  proof (cases "canonical_fingerprint_hex payload")
    case (Inl e)
    then show ?thesis
      using assms Some by (simp add: supersede_profile_def)
  next
    case (Inr fp)
    then show ?thesis
      using ok assms(2) Some upd h g
      by (auto simp: supersede_profile_def Let_def registry_ok_def new_profile_def
          intro!: profiles_ok_update history_ok_append graph_ok_add_dependency has_cycle_add_dependency)
  qed
qed

lemma invalidate_profile_ok:
  assumes "registry_ok R"
  shows "registry_ok (snd (invalidate_profile u why R))"
  using assms unfolding registry_ok_def invalidate_profile_def
  by (auto intro!: profiles_ok_update history_ok_flags dest: profiles_okD split: option.splits)

lemma invalidate_node_ok:
  assumes "registry_ok R"
  shows "registry_ok (invalidate_node u R)"
  using assms unfolding registry_ok_def invalidate_node_def
  by (auto intro!: profiles_ok_update history_ok_flags dest: profiles_okD split: option.splits)

lemma propagate_loop_ok: "registry_ok R \<Longrightarrow> registry_ok (propagate_loop stack seen R)"
proof (induction stack seen R rule: propagate_loop.induct)
  case (2 cur stack seen R)
  then show ?case
    by (auto simp: Let_def invalidate_node_ok split: prod.splits)
qed simp

lemma registry_ok_bump [simp]: "registry_ok (bump R) = registry_ok R"
  by (simp add: registry_ok_def)

lemma propagate_invalidation_ok: "registry_ok R \<Longrightarrow> registry_ok (propagate_invalidation u R)"
  by (simp add: propagate_invalidation_def propagate_loop_ok del: propagate_loop.simps)

lemma register_rule_ok: "registry_ok R \<Longrightarrow> registry_ok (snd (register_rule r R))"
  by (auto simp: registry_ok_def stores_ok_def register_rule_def Let_def keyed_update split: prod.splits)

lemma supersede_rule_ok: "registry_ok R \<Longrightarrow> registry_ok (snd (supersede_rule u r R))"
  by (auto simp: registry_ok_def stores_ok_def supersede_rule_def Let_def keyed_update split: option.splits)

lemma disable_rule_ok: "registry_ok R \<Longrightarrow> registry_ok (snd (disable_rule u R))"
  by (auto simp: registry_ok_def stores_ok_def disable_rule_def keyed_update
      intro!: keyed_update dest: keyedD split: option.splits)

lemma register_evidence_ok: "registry_ok R \<Longrightarrow> registry_ok (register_evidence ev R)"
  by (simp add: registry_ok_def stores_ok_def register_evidence_def keyed_update)

lemma set_policy_ok: "registry_ok R \<Longrightarrow> registry_ok (set_policy u R)"
  by (simp add: registry_ok_def stores_ok_def set_policy_def)

lemma empty_registry_ok: "registry_ok empty_registry"
  by (simp add: registry_ok_def stores_ok_def profiles_ok_def graph_ok_def no_empty_def adjacent_def
      empty_registry_def has_cycle_def)

section \<open>Histories only grow\<close>

text \<open>What a generation records, without its two status flags.\<close>

definition content :: "profile_record \<Rightarrow> profile_record" where
  "content p = p\<lparr>p_active := False, p_superseded := False\<rparr>"

definition extends_history :: "registry \<Rightarrow> registry \<Rightarrow> bool" where
  "extends_history R R' \<longleftrightarrow> (\<forall>u. prefix (map content (history_of u R)) (map content (history_of u R')))"

lemma content_flags [simp]: "content (supersede_active p) = content p" "content (deactivate p) = content p"
  by (simp_all add: content_def supersede_active_def deactivate_def)

lemma content_flags_comp [simp]:
  "content \<circ> supersede_active = content" "content \<circ> deactivate = content"
  by (simp_all add: fun_eq_iff)

lemma extends_history_refl [simp]: "profiles R' = profiles R \<Longrightarrow> extends_history R R'"
  by (simp add: extends_history_def history_of_def)

lemma extends_history_trans: "extends_history R R' \<Longrightarrow> extends_history R' R'' \<Longrightarrow> extends_history R R''"
  unfolding extends_history_def by (blast intro: prefix_order.trans)

lemma extends_history_update:
  assumes "profiles R' = AList.update u hist' (profiles R)"
    and "prefix (map content (adjacent (profiles R) u)) (map content hist')"
  shows "extends_history R R'"
  using assms by (auto simp: extends_history_def history_of_def)

lemma adjacent_Some: "map_of m u = Some v \<Longrightarrow> adjacent m u = v"
  by (simp add: adjacent_def)

lemma adjacent_None: "map_of m u = None \<Longrightarrow> adjacent m u = []"
  by (simp add: adjacent_def)

lemma register_profile_history: "extends_history R (snd (register_profile p R))"
proof (cases "canonical_fingerprint_hex (p_payload p)")
  case (Inr fp)
  then show ?thesis
    by (cases "map_of (profiles R) (p_id p)")
      (auto simp: register_profile_def Let_def push_def adjacent_Some adjacent_None
        intro: extends_history_update)
qed (simp add: register_profile_def)

lemma register_new_profile_history: "extends_history R (snd (register_new_profile u kd payload ds prov R))"
  by (cases "canonical_fingerprint_hex payload") (simp_all add: register_new_profile_def register_profile_history)

lemma supersede_profile_history: "extends_history R (snd (supersede_profile kd u payload ds prov R))"
proof (cases "map_of (profiles R) u")
  case (Some hist)
  then show ?thesis
    by (cases "canonical_fingerprint_hex payload")
      (auto simp: supersede_profile_def Let_def adjacent_Some intro: extends_history_update)
qed (simp add: supersede_profile_def)

lemma invalidate_profile_history: "extends_history R (snd (invalidate_profile u why R))"
  by (cases "map_of (profiles R) u")
    (auto simp: invalidate_profile_def adjacent_Some intro: extends_history_update)

lemma invalidate_node_history: "extends_history R (invalidate_node u R)"
  by (cases "map_of (profiles R) u")
    (auto simp: invalidate_node_def adjacent_Some intro: extends_history_update)

lemma propagate_loop_history: "extends_history R (propagate_loop stack seen R)"
proof (induction stack seen R rule: propagate_loop.induct)
  case (2 cur stack seen R)
  then show ?case
    using invalidate_node_history [of R cur]
    by (auto simp: Let_def split: prod.splits intro: extends_history_trans)
qed simp

lemma propagate_invalidation_history: "extends_history R (propagate_invalidation u R)"
  using propagate_loop_history [of R "[u]" "[]"]
  by (simp add: propagate_invalidation_def extends_history_def history_of_def del: propagate_loop.simps)

section \<open>What propagation reaches\<close>

lemma push_unseen_sets:
  assumes "push_unseen ns seen stack = (seen', stack')"
  shows "set seen' = set seen \<union> set ns" and "set stack' = set stack \<union> (set ns - set seen)"
  using assms by (induction ns arbitrary: seen stack) (auto split: if_splits)

definition kill :: "profile_record list option \<Rightarrow> profile_record list option" where
  "kill h = map_option (map deactivate) h"

lemma kill_idem [simp]: "kill (kill h) = kill h"
  by (cases h) (simp_all add: kill_def deactivate_def)

lemma profiles_invalidate_node:
  "map_of (profiles (invalidate_node u R)) x =
    (if x = u then kill (map_of (profiles R) x) else map_of (profiles R) x)"
  by (simp add: invalidate_node_def kill_def split: option.splits)

text \<open>
  The loop deactivates a set of nodes that is closed under dependents and contains no node that is
  not reachable; \<open>V\<close> stands for the nodes already popped.
\<close>

lemma propagate_loop_reaches:
  assumes "edges (reverse (graph R)) `` V \<subseteq> set seen" and "set seen \<subseteq> V \<union> set stack"
    and "\<forall>x \<in> V. kill (map_of (profiles R) x) = map_of (profiles R) x"
  shows "\<exists>W. V \<union> set stack \<subseteq> W \<and> edges (reverse (graph R)) `` W \<subseteq> W \<and>
    W \<subseteq> V \<union> (edges (reverse (graph R)))\<^sup>* `` set stack \<and>
    (\<forall>x. map_of (profiles (propagate_loop stack seen R)) x =
      (if x \<in> W then kill (map_of (profiles R) x) else map_of (profiles R) x))"
  using assms
proof (induction stack seen R arbitrary: V rule: propagate_loop.induct)
  case (1 seen R)
  have "edges (reverse (graph R)) `` V \<subseteq> V"
    using "1.prems"(1,2) by auto
  with "1.prems"(3) show ?case
    by (intro exI [of _ V]) auto
next
  case (2 cur stack seen R)
  let ?E = "edges (reverse (graph R))"
  let ?R = "invalidate_node cur R"
  obtain seen' stack' where push: "push_unseen (adjacent (reverse (graph R)) cur) seen stack = (seen', stack')"
    by (cases "push_unseen (adjacent (reverse (graph R)) cur) seen stack")
  have step: "propagate_loop (cur # stack) seen R = propagate_loop stack' seen' ?R"
    by (simp add: Let_def push)
  have succ: "?E `` {cur} = set (adjacent (reverse (graph R)) cur)"
    by (auto simp: edges_def)
  note sets = push_unseen_sets [OF push, folded succ]
  have killed: "\<forall>x \<in> insert cur V. kill (map_of (profiles ?R) x) = map_of (profiles ?R) x"
    using "2.prems"(3) by (simp add: profiles_invalidate_node)
  have closed: "?E `` insert cur V \<subseteq> set seen'" "set seen' \<subseteq> insert cur V \<union> set stack'"
    using "2.prems"(1,2) sets by auto
  obtain W where W: "insert cur V \<union> set stack' \<subseteq> W" "?E `` W \<subseteq> W" "W \<subseteq> insert cur V \<union> ?E\<^sup>* `` set stack'"
    and res: "\<forall>x. map_of (profiles (propagate_loop stack' seen' ?R)) x =
      (if x \<in> W then kill (map_of (profiles ?R) x) else map_of (profiles ?R) x)"
    using "2.IH" [of ?R "(seen', stack')" seen' stack' "insert cur V", OF refl _ refl]
      closed killed by (auto simp: push)
  have "?E\<^sup>* `` set stack' \<subseteq> ?E\<^sup>* `` set (cur # stack)"
  proof
    fix x
    assume "x \<in> ?E\<^sup>* `` set stack'"
    then obtain y where "y \<in> set stack \<or> (cur, y) \<in> ?E" "(y, x) \<in> ?E\<^sup>*"
      using sets(2) by blast
    then show "x \<in> ?E\<^sup>* `` set (cur # stack)"
      by (metis Image_iff converse_rtrancl_into_rtrancl list.set_intros(1,2))
  qed
  moreover have "cur \<in> ?E\<^sup>* `` set (cur # stack)"
    by (metis Image_iff list.set_intros(1) rtrancl.rtrancl_refl)
  ultimately have "W \<subseteq> V \<union> ?E\<^sup>* `` set (cur # stack)"
    using W(3) by blast
  moreover have "V \<union> set (cur # stack) \<subseteq> W"
    using W(1) sets(2) by auto
  moreover have "map_of (profiles (propagate_loop (cur # stack) seen R)) x =
      (if x \<in> W then kill (map_of (profiles R) x) else map_of (profiles R) x)" for x
    using res W(1) unfolding step by (simp add: profiles_invalidate_node)
  ultimately show ?case
    using W(2) by blast
qed

lemma propagate_invalidation_profiles:
  "map_of (profiles (propagate_invalidation u R)) x =
    (if (u, x) \<in> (edges (reverse (graph R)))\<^sup>* then kill (map_of (profiles R) x)
     else map_of (profiles R) x)"
proof -
  let ?E = "edges (reverse (graph R))"
  obtain W where W: "{u} \<subseteq> W" "?E `` W \<subseteq> W" "W \<subseteq> ?E\<^sup>* `` {u}"
    and res: "\<forall>x. map_of (profiles (propagate_loop [u] [] R)) x =
      (if x \<in> W then kill (map_of (profiles R) x) else map_of (profiles R) x)"
    using propagate_loop_reaches [of R "{}" "[]" "[u]"] by auto
  have "?E\<^sup>* `` {u} \<subseteq> W"
    using W(1,2) by (metis Image_closed_trancl Image_mono order_refl)
  with W(3) have "W = ?E\<^sup>* `` {u}" by blast
  then show ?thesis
    using res by (simp add: propagate_invalidation_def Image_iff del: propagate_loop.simps)
qed

lemma edges_reverse: "graph_ok G \<Longrightarrow> edges (reverse G) = (edges (deps G))\<inverse>"
  by (auto simp: graph_ok_def edges_def)

lemma newest_active_inactive: "\<forall>p \<in> set h. \<not> p_active p \<Longrightarrow> newest_active h = None"
  by (simp add: newest_active_def find_None_iff)

lemma find_profile_inactive:
  assumes "registry_ok R" and "map_of (profiles R) u = Some h" and "\<forall>p \<in> set h. \<not> p_active p"
  shows "find_profile u False R = None"
  using assms by (simp add: registry_ok_def find_profile_newest newest_active_inactive)

lemma find_profile_append:
  assumes "map_of (profiles R) u = Some (h @ [p])" and "p_active p"
  shows "find_profile u False R = Some p"
  using assms by (simp add: find_profile_def)

text \<open>The three ways a registration of a well-formed payload can end.\<close>

lemma register_profile_cases:
  assumes "registry_ok R" and "canon_ok (p_payload p)"
  obtains (same) hist where "map_of (profiles R) (p_id p) = Some hist" "p_active (last hist)"
      "canonical_fingerprint_hex (p_payload p) = Inr (p_fingerprint (last hist))"
      "p_deps (last hist) = p_deps p" "p_kind (last hist) = p_kind p"
      "register_profile p R = (Inr (p_id p), R)"
    | (rejected) e where "create_cycle (p_id p) (p_deps p) (graph R)"
      "register_profile p R = (Inl (Runtime_Error e),
        R\<lparr>profiles := (case map_of (profiles R) (p_id p) of None \<Rightarrow> profiles R
          | Some hist \<Rightarrow> AList.update (p_id p) (map supersede_active hist) (profiles R))\<rparr>)"
    | (added) fp q R' where "canonical_fingerprint_hex (p_payload p) = Inr fp"
      "q = p\<lparr>p_fingerprint := fp, p_generation := word_of_nat (length (history_of (p_id p) R)) + 1\<rparr>"
      "\<not> create_cycle (p_id p) (p_deps p) (graph R)" "register_profile p R = (Inr (p_id p), R')"
      "R' = bump (R\<lparr>profiles := AList.update (p_id p)
          (map supersede_active (history_of (p_id p) R) @ [q]) (profiles R),
        graph := add_dependency (p_id p) (p_deps p) (graph R)\<rparr>)"
proof -
  obtain fp where fp: "canonical_fingerprint_hex (p_payload p) = Inr fp"
    using canonical_fingerprint_hex_enc [OF assms(2)] by blast
  show thesis
  proof (cases "map_of (profiles R) (p_id p)")
    case None
    then show thesis
      using fp rejected added [OF fp refl]
      by (cases "create_cycle (p_id p) (p_deps p) (graph R)")
        (simp_all add: register_profile_def Let_def history_of_def adjacent_None push_def)
  next
    case (Some hist)
    have gen: "p_generation (last hist) = word_of_nat (length hist)"
      using assms(1) Some history_ok_last_generation profiles_okD unfolding registry_ok_def by blast
    show thesis
    proof (cases "same_registration (last hist) (p\<lparr>p_fingerprint := fp\<rparr>)")
      case True
      then show thesis
        using fp Some same [OF Some] by (simp add: register_profile_def Let_def same_registration_def)
    next
      case False
      then show thesis
        using fp Some gen rejected added [OF fp refl]
        by (cases "create_cycle (p_id p) (p_deps p) (graph R)")
          (simp_all add: register_profile_def Let_def history_of_def adjacent_Some push_def)
    qed
  qed
qed

lemma find_profile_unchanged:
  "map_of (profiles R') u = map_of (profiles R) u \<Longrightarrow> find_profile u h R' = find_profile u h R"
  by (simp add: find_profile_def)

section \<open>Example states\<close>

definition model_payload :: canon where
  "model_payload = CRecord [(3, CStr ''llama'')]"

definition example_profile :: "uuid \<Rightarrow> uuid list \<Rightarrow> profile_record" where
  "example_profile u ds = (new_profile u PK_Model model_payload ds [])\<lparr>p_generation := 1,
     p_fingerprint := sha_hex (sha256 (k_magic @ [k_version] @ enc model_payload))\<rparr>"

text \<open>Profile 2 depends on profile 1.\<close>

definition example_registry :: registry where
  "example_registry = empty_registry\<lparr>
     profiles := [(Uuid 1, [example_profile (Uuid 1) []]), (Uuid 2, [example_profile (Uuid 2) [Uuid 1]])],
     graph := \<lparr>deps = [(Uuid 2, [Uuid 1])], reverse = [(Uuid 1, [Uuid 2])]\<rparr>, registry_gen := 2\<rparr>"

lemma model_payload_ok [simp]: "canon_ok model_payload"
  by (simp add: model_payload_def)

lemma example_profile_simps [simp]:
  "p_id (example_profile u ds) = u" "p_active (example_profile u ds)" "p_deps (example_profile u ds) = ds"
  "p_generation (example_profile u ds) = 1" "p_payload (example_profile u ds) = model_payload"
  "p_kind (example_profile u ds) = PK_Model"
  by (simp_all add: example_profile_def new_profile_def)

lemma example_history_ok: "history_ok u [example_profile u ds]"
  by (rule history_ok_singleton) (simp_all add: canonical_fingerprint_hex_enc,
      simp add: example_profile_def new_profile_def)

lemma example_edges: "edges [(Uuid 2, [Uuid 1])] = {(Uuid 2, Uuid 1)}"
  by (auto simp: edges_def adjacent_def split: if_splits)

lemma example_registry_ok: "registry_ok example_registry"
proof -
  have "\<not> has_cycle (graph example_registry)"
  proof
    assume "has_cycle (graph example_registry)"
    then obtain x where "(x, x) \<in> {(Uuid 2, Uuid 1)}\<^sup>+"
      by (auto simp: has_cycle_edges example_registry_def example_edges)
    then obtain y z where "(x, y) \<in> {(Uuid 2, Uuid 1)}" "(z, x) \<in> {(Uuid 2, Uuid 1)}"
      by (metis tranclD tranclD2)
    then show False by simp
  qed
  moreover have "graph_ok (graph example_registry)"
    by (auto simp: graph_ok_def example_registry_def no_empty_def adjacent_def split: if_splits)
  moreover have "profiles_ok (profiles example_registry)"
    by (auto simp: profiles_ok_def example_registry_def example_history_ok split: if_splits)
  ultimately show ?thesis
    by (simp add: registry_ok_def stores_ok_def example_registry_def empty_registry_def)
qed

lemma example_create_cycle: "create_cycle (Uuid 1) [Uuid 2] (graph example_registry)"
proof -
  have "(Uuid 1, Uuid 2) \<in> edges (deps (graph example_registry)) \<union> {(Uuid 1, d) | d. d \<in> set [Uuid 2] \<and> d \<noteq> Uuid 1}"
    and "(Uuid 2, Uuid 1) \<in> edges (deps (graph example_registry)) \<union> {(Uuid 1, d) | d. d \<in> set [Uuid 2] \<and> d \<noteq> Uuid 1}"
    by (simp_all add: example_registry_def adjacent_def)
  then show ?thesis
    unfolding create_cycle_edges by (meson r_into_trancl trancl_trans)
qed

section \<open>Properties\<close>

text \<open>
  A successful registration of an active profile makes it, with its content fingerprint,
  the current one of its identity; the identity's history is kept and at most grows by one
  generation, numbered one above the last; every other identity is untouched; and the registry
  generation moves exactly when something was added.
\<close>

theorem register_profile_effect:
  assumes "registry_ok R" and "canon_ok (p_payload p)" and "p_active p"
    and "register_profile p R = (Inr u, R')"
  shows "u = p_id p \<and>
    (\<exists>q. find_profile u False R' = Some q \<and> p_deps q = p_deps p \<and> p_kind q = p_kind p \<and>
       canonical_fingerprint_hex (p_payload p) = Inr (p_fingerprint q) \<and>
       (R' = R \<or> p_payload q = p_payload p \<and> registry_gen R' = registry_gen R + 1 \<and>
          history_of u R' = map supersede_active (history_of u R) @ [q] \<and>
          p_generation q = word_of_nat (length (history_of u R)) + 1)) \<and>
    (\<forall>v. v \<noteq> u \<longrightarrow> history_of v R' = history_of v R)"
  using assms(1,2)
proof (cases rule: register_profile_cases)
  case (same hist)
  then have "u = p_id p" "R' = R" "find_profile u False R = Some (last hist)"
    using assms(4) by (simp_all add: find_profile_def)
  with same show ?thesis
    by (intro conjI exI [of _ "last hist"]) simp_all
next
  case (rejected e)
  then show ?thesis
    using assms(4) by simp
next
  case (added fp q R'')
  then have R': "u = p_id p" "R' = R''"
    using assms(4) by simp_all
  have "find_profile u False R' = Some q"
    by (rule find_profile_append [where h = "map supersede_active (history_of u R)"])
      (use added R' assms(3) in simp_all)
  with added R' show ?thesis
    by (intro conjI exI [of _ q]) (simp_all add: history_of_def)
qed

theorem register_profile_effect_witness:
  "\<exists>q. find_profile (Uuid 1) False (snd (register_profile (example_profile (Uuid 1) []) empty_registry)) = Some q"
proof -
  let ?p = "example_profile (Uuid 1) []"
  have "\<not> create_cycle (Uuid 1) [] (graph empty_registry)"
    by (simp add: create_cycle_edges empty_registry_def edges_def adjacent_def)
  then have "register_profile ?p empty_registry = (Inr (Uuid 1), snd (register_profile ?p empty_registry))"
    by (simp add: register_profile_def canonical_fingerprint_hex_enc Let_def empty_registry_def)
  from register_profile_effect [OF empty_registry_ok _ _ this] show ?thesis
    by auto
qed

text \<open>
  Property C21. A registration or supersession that is rejected for a dependency cycle does not leave
  the registry as it was: the identity loses its active generation, a rejected supersession also
  drops its dependencies, and the registry generation does not move.
\<close>

theorem rejected_update_loses_profile:
  assumes "registry_ok R" and "canon_ok payload" and "map_of (profiles R) u = Some hist"
    and "register_profile (new_profile u kd payload ds prov) R = (Inl e, R1)"
    and "supersede_profile kd u payload ds prov R = (Inl e', R2)"
  shows "find_profile u False R1 = None \<and> find_profile u False R2 = None \<and>
    dependencies_of (graph R1) u = dependencies_of (graph R) u \<and> dependencies_of (graph R2) u = [] \<and>
    registry_gen R1 = registry_gen R \<and> registry_gen R2 = registry_gen R"
proof -
  let ?p = "new_profile u kd payload ds prov"
  have p: "p_payload ?p = payload" "p_id ?p = u"
    by (simp_all add: new_profile_def)
  have R1: "R1 = R\<lparr>profiles := AList.update u (map supersede_active hist) (profiles R)\<rparr>"
    using register_profile_cases [of R ?p] assms(1-4) p by (auto split: option.splits)
  obtain fp where fp: "canonical_fingerprint_hex payload = Inr fp"
    using canonical_fingerprint_hex_enc [OF assms(2)] by blast
  have R2: "R2 = R\<lparr>profiles := AList.update u (map supersede_active hist) (profiles R),
      graph := remove_dependency u (graph R)\<rparr>"
    using assms(3,5) fp by (auto simp: supersede_profile_def Let_def split: if_splits)
  have "registry_ok R1" "registry_ok R2"
    using register_profile_ok [OF assms(1), of ?p] supersede_profile_ok [OF assms(1,2), of kd u ds prov]
      assms(2,4,5) p by simp_all
  then have "find_profile u False R1 = None" "find_profile u False R2 = None"
    by (auto intro!: find_profile_inactive [where h = "map supersede_active hist"] simp: R1 R2)
  then show ?thesis
    by (simp add: R1 R2 dependencies_of_def adjacent_remove_dependency)
qed

theorem rejected_update_loses_profile_witness:
  "find_profile (Uuid 1) False example_registry \<noteq> None \<and>
   find_profile (Uuid 1) False
     (snd (register_profile (new_profile (Uuid 1) PK_Model model_payload [Uuid 2] []) example_registry)) = None"
proof -
  let ?R = example_registry and ?p = "new_profile (Uuid 1) PK_Model model_payload [Uuid 2] []"
  have h: "map_of (profiles ?R) (Uuid 1) = Some [example_profile (Uuid 1) []]"
    by (simp add: example_registry_def)
  have keep: "remove_dependency (Uuid 1) (graph ?R) = graph ?R"
    by (simp add: remove_dependency_def example_registry_def)
  have reg: "\<exists>e. fst (register_profile ?p ?R) = Inl e"
    using h example_create_cycle
    by (simp add: register_profile_def canonical_fingerprint_hex_enc Let_def same_registration_def
        new_profile_def)
  have sup: "\<exists>e. fst (supersede_profile PK_Model (Uuid 1) model_payload [Uuid 2] [] ?R) = Inl e"
    using h example_create_cycle keep
    by (simp add: supersede_profile_def canonical_fingerprint_hex_enc Let_def)
  from reg sup obtain e e' where "register_profile ?p ?R = (Inl e, snd (register_profile ?p ?R))"
      "supersede_profile PK_Model (Uuid 1) model_payload [Uuid 2] [] ?R =
        (Inl e', snd (supersede_profile PK_Model (Uuid 1) model_payload [Uuid 2] [] ?R))"
    by (metis prod.collapse)
  from rejected_update_loses_profile [OF example_registry_ok model_payload_ok h this] show ?thesis
    by (simp add: find_profile_def h)
qed

text \<open>
  Property C13. Propagating an invalidation takes out the given identity and exactly those that depend
  on it, directly or through others, whatever the order of the work list; all other identities, the
  dependency graph, rules and evidence stay as they are. The loop always ends.
\<close>

theorem propagate_invalidation_exact:
  assumes "registry_ok R"
  shows "find_profile x False (propagate_invalidation u R) =
      (if (x, u) \<in> (edges (deps (graph R)))\<^sup>* then None else find_profile x False R) \<and>
    dependencies_of (graph (propagate_invalidation u R)) x = dependencies_of (graph R) x"
proof -
  let ?R = "propagate_invalidation u R"
  have loop: "graph (propagate_loop stack seen S) = graph S" for stack seen S
    by (induction stack seen S rule: propagate_loop.induct) (simp_all add: Let_def split: prod.splits)
  have reach: "(u, x) \<in> (edges (reverse (graph R)))\<^sup>* \<longleftrightarrow> (x, u) \<in> (edges (deps (graph R)))\<^sup>*"
    using assms by (simp add: registry_ok_def edges_reverse rtrancl_converse)
  note res = propagate_invalidation_profiles [of u R x, unfolded reach]
  have "find_profile x False ?R = None" if "(x, u) \<in> (edges (deps (graph R)))\<^sup>*"
  proof (cases "map_of (profiles R) x")
    case None
    then show ?thesis
      using res that by (simp add: find_profile_def kill_def)
  next
    case (Some h)
    then show ?thesis
      using res that propagate_invalidation_ok [OF assms, of u]
      by (intro find_profile_inactive [where h = "map deactivate h"]) (auto simp: kill_def)
  qed
  moreover have "find_profile x False ?R = find_profile x False R"
    if "(x, u) \<notin> (edges (deps (graph R)))\<^sup>*"
    using res that by (intro find_profile_unchanged) simp
  ultimately show ?thesis
    by (simp add: propagate_invalidation_def loop del: propagate_loop.simps)
qed

theorem propagate_invalidation_exact_witness:
  "find_profile (Uuid 2) False example_registry \<noteq> None \<and>
   find_profile (Uuid 2) False (propagate_invalidation (Uuid 1) example_registry) = None"
proof -
  have "(Uuid 2, Uuid 1) \<in> edges (deps (graph example_registry))"
    by (simp add: example_registry_def adjacent_def)
  then have "(Uuid 2, Uuid 1) \<in> (edges (deps (graph example_registry)))\<^sup>*"
    by blast
  then have "find_profile (Uuid 2) False (propagate_invalidation (Uuid 1) example_registry) = None"
    using propagate_invalidation_exact [OF example_registry_ok, of "Uuid 2" "Uuid 1"] by simp
  then show ?thesis
    by (simp add: find_profile_def example_registry_def)
qed

text \<open>
  Invalidating a known identity leaves it without an active generation but keeps its
  history, and appends one record with the fingerprint that was current; on an unknown one it returns
  false and changes nothing.
\<close>

theorem invalidate_profile_effect:
  assumes "registry_ok R" and "invalidate_profile u why R = (b, R')"
  shows "if map_of (profiles R) u = None then \<not> b \<and> R' = R
    else b \<and> find_profile u False R' = None \<and> find_profile u True R' = map_option deactivate (find_profile u True R) \<and>
      extends_history R R' \<and> registry_gen R' = registry_gen R + 1 \<and>
      map iv_fingerprint_before (invalidations R') =
        map iv_fingerprint_before (invalidations R) @ [p_fingerprint (last (history_of u R))]"
proof (cases "map_of (profiles R) u")
  case None
  then show ?thesis
    using assms(2) by (simp add: invalidate_profile_def)
next
  case (Some h)
  have ne: "h \<noteq> []"
    using assms(1) Some profiles_okD unfolding registry_ok_def history_ok_def by blast
  have R': "map_of (profiles R') u = Some (map deactivate h)"
    using assms(2) Some by (auto simp: invalidate_profile_def)
  have "registry_ok R'" "extends_history R R'"
    using invalidate_profile_ok [OF assms(1), of u why] invalidate_profile_history [of R u why] assms(2) by simp_all
  moreover have "find_profile u False R' = None"
    using calculation(1) R' by (intro find_profile_inactive [where h = "map deactivate h"]) auto
  ultimately show ?thesis
    using assms(2) Some R' ne
    by (auto simp: invalidate_profile_def find_profile_def last_map history_of_def adjacent_Some)
qed

theorem invalidate_profile_effect_witness:
  "find_profile (Uuid 1) False (snd (invalidate_profile (Uuid 1) ''recalled'' example_registry)) = None"
  using invalidate_profile_effect [OF example_registry_ok surjective_pairing, of "Uuid 1" "''recalled''"]
  by (auto simp: example_registry_def split: if_splits)

text \<open>
  Evidence is replaced whatever its source generation: a record with the id of a stored one takes its
  place even when it comes from an older generation of the same source.
\<close>

theorem stale_evidence_accepted:
  assumes "find_evidence (ev_id ev) R = Some old" and "ev_source old = ev_source ev"
    and "ev_source_generation ev < ev_source_generation old"
  shows "find_evidence (ev_id ev) (register_evidence ev R) = Some ev \<and> ev \<noteq> old"
  using assms by (auto simp: find_evidence_def register_evidence_def map_of_update simp del: map_of_eq_Some_iff)

text \<open>
  Superseding a rule, or re-registering an active one without a generation, numbers it
  one above its predecessor. A disabled rule that is registered again is numbered from the registry's
  counter instead, so its generation can fall: here from 7 to 1.
\<close>

theorem rule_generation:
  assumes "map_of (rules R) (r_rule_id r) = Some old"
  shows "(\<exists>rr. map_of (rules (snd (supersede_rule (r_rule_id r) r R))) (r_rule_id r) = Some rr \<and>
      r_generation (rr_rule rr) = r_generation (rr_rule old) + 1 \<and> rr_active rr) \<and>
    (r_generation r = 0 \<longrightarrow> (\<exists>rr. map_of (rules (snd (register_rule r R))) (r_rule_id r) = Some rr \<and>
      r_generation (rr_rule rr) = (if rr_active old then r_generation (rr_rule old) + 1 else rule_gen R + 1)))"
  using assms by (simp add: supersede_rule_def register_rule_def Let_def)

definition example_rule :: "u64 \<Rightarrow> rule" where
  "example_rule g = \<lparr>r_rule_id = Uuid 9, r_generation = g, r_domain = [], r_scope = ''pair'',
     r_priority = 0, r_active = True, r_kind = RK_Equality, r_left_kind = None, r_right_kind = None,
     r_required = [], r_any_of = [], r_incompatible_with = [], r_conditions = [],
     r_adaptations = [], r_outcome = Compatible, r_provenance = []\<rparr>"

theorem rule_generation_witness:
  "\<exists>R rr. map_of (rules R) (Uuid 9) = Some \<lparr>rr_rule = example_rule 7, rr_active = False, rr_superseded = True\<rparr> \<and>
     map_of (rules (snd (register_rule (example_rule 0) R))) (Uuid 9) = Some rr \<and> r_generation (rr_rule rr) = 1"
proof -
  let ?R = "snd (disable_rule (Uuid 9) (snd (register_rule (example_rule 7) empty_registry)))"
  have id: "r_rule_id (example_rule 0) = Uuid 9" "r_generation (example_rule 0) = 0"
    by (simp_all add: example_rule_def)
  have old: "map_of (rules ?R) (r_rule_id (example_rule 0)) =
      Some \<lparr>rr_rule = example_rule 7, rr_active = False, rr_superseded = True\<rparr>"
    by (simp add: disable_rule_def register_rule_def empty_registry_def example_rule_def Let_def)
  have "rule_gen ?R = 0"
    by (simp add: disable_rule_def register_rule_def empty_registry_def example_rule_def Let_def)
  with rule_generation [OF old] old id show ?thesis
    by auto
qed

end
