(* ===== verification/Evaluate.thy ===== *)
theory Evaluate
  imports Registry
begin

text \<open>
  Rule evaluation and the decisions of \<^verbatim>\<open>CompatibilityRegistry\<close> (\<^verbatim>\<open>src/compat/registry.cpp\<close>):
  \<^verbatim>\<open>eval_rule\<close>, the evaluator \<^verbatim>\<open>evaluate_locked\<close> with the cache of its decisions, counterfactual
  evaluation and the compatibility matrix.
\<close>

section \<open>One rule\<close>

record rule_eval =
  e_definite :: bool
  e_incompat :: bool
  e_missing :: bool
  e_outcome :: outcome
  e_satisfied :: "constraint_item list"
  e_failed :: "constraint_item list"
  e_adaptations :: "string list"
  e_missing_evidence :: "string list"
  e_rule :: rule

definition start_eval :: "rule \<Rightarrow> rule_eval" where
  "start_eval r = \<lparr>e_definite = False, e_incompat = False, e_missing = False, e_outcome = Unknown,
     e_satisfied = [], e_failed = [], e_adaptations = [], e_missing_evidence = [], e_rule = r\<rparr>"

definition constraint_known :: "constraint \<Rightarrow> profile_record \<Rightarrow> profile_record \<Rightarrow> bool" where
  "constraint_known c l r \<longleftrightarrow>
     resolve_profile_field (p_kind l) (p_payload l) (c_field c) \<noteq> None \<and>
     (c_right_field c = [] \<or> resolve_profile_field (p_kind r) (p_payload r) (c_right_field c) \<noteq> None)"

definition check :: "constraint \<Rightarrow> profile_record \<Rightarrow> profile_record \<Rightarrow> verdict res" where
  "check c l r = evaluate c (p_payload l) (p_payload r) (p_kind l) (p_kind r)"

definition item :: "constraint \<Rightarrow> string \<Rightarrow> string \<Rightarrow> bool \<Rightarrow> string \<Rightarrow> constraint_item" where
  "item c y n sat note = \<lparr>ci_dimension = c_field c, ci_left = y, ci_right = n, ci_satisfied = sat, ci_note = note\<rparr>"

definition missing :: "constraint \<Rightarrow> rule_eval \<Rightarrow> rule_eval" where
  "missing c e = e\<lparr>e_missing := True, e_missing_evidence := e_missing_evidence e @ [c_field c]\<rparr>"

definition satisfied :: "constraint \<Rightarrow> string \<Rightarrow> string \<Rightarrow> rule_eval \<Rightarrow> rule_eval" where
  "satisfied c y n e = e\<lparr>e_satisfied := e_satisfied e @ [item c y n True y]\<rparr>"

definition failed :: "constraint \<Rightarrow> string \<Rightarrow> string \<Rightarrow> string \<Rightarrow> rule_eval \<Rightarrow> rule_eval" where
  "failed c y n note e = e\<lparr>e_failed := e_failed e @ [item c y n False note]\<rparr>"

text \<open>
  The four loops of \<^verbatim>\<open>eval_rule\<close>. The flag each returns is the local variable of the code: whether an
  incompatibility matched, \<^verbatim>\<open>all\<close>, \<^verbatim>\<open>any\<close> with \<^verbatim>\<open>any_missing\<close>, and \<^verbatim>\<open>cond\<close>.
\<close>

fun incompatible_loop ::
  "profile_record \<Rightarrow> profile_record \<Rightarrow> constraint list \<Rightarrow> rule_eval \<Rightarrow> (bool \<times> rule_eval) res" where
  "incompatible_loop l r [] e = Inr (False, e)"
| "incompatible_loop l r (c # cs) e =
     (if \<not> constraint_known c l r then incompatible_loop l r cs (missing c e)
      else bindE (check c l r) (\<lambda>(ok, y, n).
        if ok then Inr (True, failed c y n n (e\<lparr>e_definite := True, e_incompat := True, e_outcome := Incompatible\<rparr>))
        else incompatible_loop l r cs (satisfied c y n e)))"

fun required_loop ::
  "profile_record \<Rightarrow> profile_record \<Rightarrow> constraint list \<Rightarrow> rule_eval \<Rightarrow> bool \<Rightarrow> (bool \<times> rule_eval) res" where
  "required_loop l r [] e all = Inr (all, e)"
| "required_loop l r (c # cs) e all =
     (if \<not> constraint_known c l r
      then required_loop l r cs (failed c [] [] ''missing evidence'' (missing c e)) False
      else bindE (check c l r) (\<lambda>(ok, y, n).
        if ok then required_loop l r cs (satisfied c y n e) all
        else required_loop l r cs (failed c y n n e) False))"

fun any_of_loop ::
  "profile_record \<Rightarrow> profile_record \<Rightarrow> constraint list \<Rightarrow> rule_eval \<Rightarrow> bool \<Rightarrow> (bool \<times> bool \<times> rule_eval) res" where
  "any_of_loop l r [] e any_missing = Inr (False, any_missing, e)"
| "any_of_loop l r (c # cs) e any_missing =
     (if \<not> constraint_known c l r then any_of_loop l r cs e True
      else bindE (check c l r) (\<lambda>(ok, y, n).
        if ok then Inr (True, any_missing, satisfied c y n e)
        else any_of_loop l r cs (failed c y n n e) any_missing))"

fun conditions_loop ::
  "profile_record \<Rightarrow> profile_record \<Rightarrow> constraint list \<Rightarrow> rule_eval \<Rightarrow> bool \<Rightarrow> (bool \<times> rule_eval) res" where
  "conditions_loop l r [] e cond = Inr (cond, e)"
| "conditions_loop l r (c # cs) e cond =
     (if \<not> constraint_known c l r then conditions_loop l r cs (missing c e) False
      else bindE (check c l r) (\<lambda>(ok, y, n).
        if \<not> ok then conditions_loop l r cs (failed c y n n e) False
        else conditions_loop l r cs e cond))"

definition kind_result :: "rule \<Rightarrow> profile_record \<Rightarrow> profile_record \<Rightarrow> rule_eval \<Rightarrow> rule_eval res" where
  "kind_result rl l r e =
     (case r_kind rl of
        RK_Conditional \<Rightarrow>
          bindE (conditions_loop l r (r_conditions rl) e True) (\<lambda>(cond, e).
            Inr (e\<lparr>e_definite := True, e_outcome := (if cond then r_outcome rl else Conditional),
                   e_adaptations := r_adaptations rl\<rparr>))
      | RK_Adaptation \<Rightarrow>
          Inr (e\<lparr>e_definite := True, e_outcome := Compatible_With_Adaptation, e_adaptations := r_adaptations rl\<rparr>)
      | RK_Explicit_Incompat \<Rightarrow>
          Inr (e\<lparr>e_definite := True, e_outcome := Incompatible, e_adaptations := r_adaptations rl\<rparr>)
      | _ \<Rightarrow> Inr (e\<lparr>e_definite := True, e_outcome := r_outcome rl, e_adaptations := r_adaptations rl\<rparr>))"

definition any_of_result :: "rule \<Rightarrow> profile_record \<Rightarrow> profile_record \<Rightarrow> rule_eval \<Rightarrow> rule_eval res" where
  "any_of_result rl l r e =
     (if r_any_of rl \<noteq> [] then
        bindE (any_of_loop l r (r_any_of rl) e False) (\<lambda>(any, any_missing, e).
          if \<not> any then
            Inr (if any_missing
                 then e\<lparr>e_missing := True, e_definite := True, e_outcome := Insufficient_Evidence\<rparr>
                 else e\<lparr>e_definite := False, e_outcome := Unknown\<rparr>)
          else kind_result rl l r e)
      else kind_result rl l r e)"

definition eval_rule :: "rule \<Rightarrow> profile_record \<Rightarrow> profile_record \<Rightarrow> rule_eval res" where
  "eval_rule rl l r =
     bindE (incompatible_loop l r (r_incompatible_with rl) (start_eval rl)) (\<lambda>(matched, e).
     if matched then Inr e
     else bindE (required_loop l r (r_required rl) e True) (\<lambda>(all, e).
       if \<not> all then
         Inr (if e_missing e then e\<lparr>e_definite := True, e_outcome := Insufficient_Evidence\<rparr>
              else e\<lparr>e_definite := False, e_outcome := Unknown\<rparr>)
       else any_of_result rl l r e))"

section \<open>Candidates\<close>

text \<open>Higher priority first, then the smaller id.\<close>

definition rule_less :: "rule \<Rightarrow> rule \<Rightarrow> bool" where
  "rule_less a b \<longleftrightarrow>
     (if r_priority a \<noteq> r_priority b then sint (r_priority b) < sint (r_priority a)
      else r_rule_id a < r_rule_id b)"

interpretation rule_order: comparator rule_less
proof
  fix x y z :: rule
  show "\<not> rule_less x x"
    by (simp add: rule_less_def)
  show "rule_less x y \<Longrightarrow> rule_less y z \<Longrightarrow> rule_less x z"
    by (auto simp: rule_less_def split: if_splits)
  show "\<not> rule_less x y \<Longrightarrow> \<not> rule_less y z \<Longrightarrow> \<not> rule_less x z"
    by (auto simp: rule_less_def not_less split: if_splits) (metis order.antisym signed_word_eqI order.trans)+
qed

definition kind_matches :: "profile_kind option \<Rightarrow> profile_kind \<Rightarrow> bool" where
  "kind_matches want k \<longleftrightarrow> (case want of None \<Rightarrow> True | Some w \<Rightarrow> w = k)"

definition applicable :: "(string \<Rightarrow> bool) \<Rightarrow> profile_record \<Rightarrow> profile_record \<Rightarrow> rule_record \<Rightarrow> bool" where
  "applicable scope_ok l r rr \<longleftrightarrow>
     rr_active rr \<and> scope_ok (r_scope (rr_rule rr)) \<and>
     kind_matches (r_left_kind (rr_rule rr)) (p_kind l) \<and>
     kind_matches (r_right_kind (rr_rule rr)) (p_kind r)"

definition candidates :: "(string \<Rightarrow> bool) \<Rightarrow> profile_record \<Rightarrow> profile_record \<Rightarrow> registry \<Rightarrow> rule list" where
  "candidates scope_ok l r R =
     sort_by rule_less (map rr_rule (filter (applicable scope_ok l r) (map snd (rules R))))"

definition counts :: "rule_eval \<Rightarrow> bool" where
  "counts e \<longleftrightarrow> e_definite e \<and> e_outcome e \<noteq> Unknown"

section \<open>Decisions\<close>

definition current :: "uuid \<Rightarrow> registry \<Rightarrow> profile_record option" where
  "current u R = Option.bind (map_of (profiles R) u) newest_active"

definition with_digest :: "decision \<Rightarrow> decision res" where
  "with_digest d = bindE (compute_digest d) (\<lambda>dig. Inr (d\<lparr>d_digest := dig\<rparr>))"

definition take_eval :: "rule_eval \<Rightarrow> decision \<Rightarrow> decision" where
  "take_eval best d = d\<lparr>d_outcome := e_outcome best, d_rule_id := r_rule_id (e_rule best),
     d_rule_generation := r_generation (e_rule best), d_satisfied := e_satisfied best,
     d_failed := e_failed best, d_adaptations := e_adaptations best,
     d_missing_evidence := e_missing_evidence best\<rparr>"

abbreviation note_provenance :: "string \<Rightarrow> decision \<Rightarrow> decision" where
  "note_provenance s d \<equiv> d\<lparr>d_provenance := d_provenance d @ [s]\<rparr>"

fun conflict_loop :: "rule_eval \<Rightarrow> rule_eval list \<Rightarrow> decision \<Rightarrow> decision res" where
  "conflict_loop best [] d = Inr d"
| "conflict_loop best (other # es) d =
     (if e_outcome other \<noteq> e_outcome best then
        bindE (outcome_name (e_outcome other)) (\<lambda>name.
          conflict_loop best es (note_provenance
            (''conflict: rule '' @ uuid_to_string (r_rule_id (e_rule other)) @ '' yielded '' @ name @
             ''; deterministic policy chose highest priority'') d))
      else conflict_loop best es d)"

definition decide :: "rule list \<Rightarrow> rule_eval list \<Rightarrow> decision \<Rightarrow> decision res" where
  "decide cand evals d =
     (case filter counts evals of
        best # others \<Rightarrow>
          conflict_loop best others (note_provenance
            (''rule '' @ uuid_to_string (r_rule_id (e_rule best)) @ '' (priority '' @
             show_int (sint (r_priority (e_rule best))) @ '')'') (take_eval best d))
      | [] \<Rightarrow>
          let d = (case cand of
                [] \<Rightarrow> d
              | a # _ \<Rightarrow> note_provenance
                  (''authoritative rule '' @ uuid_to_string (r_rule_id a) @ '' (generation '' @
                   show_nat (unat (r_generation a)) @ '')'')
                  (d\<lparr>d_rule_id := r_rule_id a, d_rule_generation := r_generation a\<rparr>))
          in Inr (if list_ex e_missing evals
               then note_provenance ''one or more rules needed evidence that is not present''
                 (d\<lparr>d_outcome := Insufficient_Evidence\<rparr>)
               else note_provenance ''no rule establishes compatibility; profiles differ''
                 (d\<lparr>d_outcome := Unknown\<rparr>)))"

definition decision_identity :: "decision \<Rightarrow> string \<Rightarrow> bool \<Rightarrow> registry \<Rightarrow> uuid res" where
  "decision_identity d scope requirement R =
     bindE (bindE (mk_record
       [(1, CUuid (d_left d)), (2, CUuid (d_right d)), (3, CUint (registry_gen R)), (4, CStr scope),
        (5, CBool requirement), (6, CUuid (policy_id R))]) canonical_fingerprint)
       (\<lambda>fp. Inr (digest_to_uuid fp))"

definition evaluate_locked :: "uuid \<Rightarrow> uuid \<Rightarrow> bool \<Rightarrow> registry \<Rightarrow> decision res" where
  "evaluate_locked left right requirement R =
     (let d = empty_decision\<lparr>d_left := left, d_right := right, d_policy_id := policy_id R,
            d_registry_generation := registry_gen R, d_provenance := [''deterministic rule resolution'']\<rparr>
      in case (current left R, current right R) of
        (Some l, Some r) \<Rightarrow>
          let d = d\<lparr>d_left := p_id l, d_right := p_id r\<rparr> in
          if p_fingerprint l = p_fingerprint r then
            with_digest (note_provenance ''identical canonical identity (exact)''
              (d\<lparr>d_outcome := Exact, d_satisfied := [\<lparr>ci_dimension = ''canonical_fingerprint'',
                  ci_left = p_fingerprint l, ci_right = p_fingerprint r, ci_satisfied = True,
                  ci_note = ''identical''\<rparr>]\<rparr>))
          else
            let scope = (if requirement then ''requirement'' else ''pair'');
                cand = candidates (\<lambda>s. s = scope) l r R
            in bindE (mapE (\<lambda>rl. eval_rule rl l r) cand) (\<lambda>evals.
               bindE (decide cand evals d) (\<lambda>d.
               bindE (decision_identity d scope requirement R) (\<lambda>did.
               bindE (with_digest (d\<lparr>d_decision_id := did\<rparr>)) (\<lambda>d.
               bindE (explain_text d) (\<lambda>text. Inr (d\<lparr>d_explanation := text\<rparr>))))))
      | _ \<Rightarrow> with_digest (d\<lparr>d_outcome := Unknown, d_explanation :=
          ''pair cannot be evaluated: one or both profiles are absent or invalidated''\<rparr>))"

definition remember :: "decision \<Rightarrow> registry \<Rightarrow> registry" where
  "remember d R = R\<lparr>decisions := AList.update (d_digest d) d (decisions R)\<rparr>"

definition evaluate_pair :: "uuid \<Rightarrow> uuid \<Rightarrow> registry \<Rightarrow> decision res \<times> registry" where
  "evaluate_pair left right R =
     (case evaluate_locked left right False R of
        Inl e \<Rightarrow> (Inl e, R)
      | Inr d \<Rightarrow> (Inr d, remember d R))"

definition evaluate_requirement :: "uuid \<Rightarrow> uuid \<Rightarrow> registry \<Rightarrow> decision res \<times> registry" where
  "evaluate_requirement candidate req R =
     (case evaluate_locked candidate req True R of
        Inl e \<Rightarrow> (Inl e, R)
      | Inr d \<Rightarrow> (Inr d, remember d R))"

definition find_decision :: "uuid \<Rightarrow> registry \<Rightarrow> decision option" where
  "find_decision u R = find (\<lambda>d. d_decision_id d = u) (map snd (decisions R))"

definition replay_decision :: "uuid \<Rightarrow> registry \<Rightarrow> decision option" where
  "replay_decision u R = find (\<lambda>d. d_decision_id d = u) (map snd (decisions R))"

section \<open>Counterfactual evaluation\<close>

record edit =
  ed_field :: string
  ed_value :: canon

definition edit_payload :: "edit \<Rightarrow> profile_record \<Rightarrow> profile_record res" where
  "edit_payload ed p =
     (if resolve_profile_field (p_kind p) (p_payload p) (ed_field ed) \<noteq> None then
        bindE (apply_profile_field_edit (p_kind p) (p_payload p) (ed_field ed) (ed_value ed)) (\<lambda>payload.
        bindE (canonical_fingerprint_hex payload) (\<lambda>fp.
          Inr (p\<lparr>p_payload := payload, p_fingerprint := fp\<rparr>)))
      else Inr p)"

text \<open>
  An edit goes to the right profile when the field resolves in the \<^emph>\<open>original\<close> right payload
  (\<open>r0\<close>), else to the left one; \<open>(l, r)\<close> are the edited copies.
\<close>

fun edits_loop :: "profile_record \<Rightarrow> edit list \<Rightarrow> profile_record \<times> profile_record \<Rightarrow>
    (profile_record \<times> profile_record) res" where
  "edits_loop r0 [] (l, r) = Inr (l, r)"
| "edits_loop r0 (ed # eds) (l, r) =
     (if resolve_profile_field (p_kind r0) (p_payload r0) (ed_field ed) \<noteq> None
      then bindE (edit_payload ed r) (\<lambda>r. edits_loop r0 eds (l, r))
      else bindE (edit_payload ed l) (\<lambda>l. edits_loop r0 eds (l, r)))"

definition counterfactual_pair :: "uuid \<Rightarrow> uuid \<Rightarrow> edit list \<Rightarrow> registry \<Rightarrow> decision res" where
  "counterfactual_pair left right eds R =
     (let d = empty_decision\<lparr>d_left := left, d_right := right, d_registry_generation := registry_gen R,
            d_policy_id := policy_id R\<rparr>
      in case (current left R, current right R) of
        (Some l, Some r) \<Rightarrow>
          bindE (edits_loop r eds (l, r)) (\<lambda>(l, r).
          let d = d\<lparr>d_counterfactual := True, d_outcome := Unknown\<rparr>;
              cand = candidates (\<lambda>s. s = ''pair'' \<or> s = ''counterfactual'') l r R
          in bindE (mapE (\<lambda>rl. eval_rule rl l r) cand) (\<lambda>evals.
             let d = (case filter counts evals of
                   best # _ \<Rightarrow> take_eval best d
                 | [] \<Rightarrow> d\<lparr>d_outcome := (if list_ex e_missing evals then Insufficient_Evidence else Unknown)\<rparr>);
                 d = note_provenance ''counterfactual (derived) -- never authoritative'' d
             in bindE (with_digest d) (\<lambda>d.
                bindE (explain_text d) (\<lambda>text. Inr (d\<lparr>d_explanation := text\<rparr>)))))
      | _ \<Rightarrow> with_digest (note_provenance ''counterfactual: profile absent''
          (d\<lparr>d_outcome := Unknown, d_counterfactual := True\<rparr>)))"

section \<open>Matrix\<close>

record cell =
  cell_left :: uuid
  cell_right :: uuid
  cell_outcome :: outcome
  cell_reason :: string

record matrix_result =
  cells :: "cell list"
  n_exact :: nat
  n_compatible :: nat
  n_compatible_with_adaptation :: nat
  n_conditional :: nat
  n_incompatible :: nat
  n_unknown :: nat
  n_insufficient_evidence :: nat
  reason_counts :: "(string, nat) umap"

definition empty_matrix :: matrix_result where
  "empty_matrix = \<lparr>cells = [], n_exact = 0, n_compatible = 0, n_compatible_with_adaptation = 0,
     n_conditional = 0, n_incompatible = 0, n_unknown = 0, n_insufficient_evidence = 0, reason_counts = []\<rparr>"

fun count_outcome :: "outcome \<Rightarrow> matrix_result \<Rightarrow> matrix_result" where
  "count_outcome Exact m = m\<lparr>n_exact := n_exact m + 1\<rparr>"
| "count_outcome Compatible m = m\<lparr>n_compatible := n_compatible m + 1\<rparr>"
| "count_outcome Compatible_With_Adaptation m =
     m\<lparr>n_compatible_with_adaptation := n_compatible_with_adaptation m + 1\<rparr>"
| "count_outcome Conditional m = m\<lparr>n_conditional := n_conditional m + 1\<rparr>"
| "count_outcome Incompatible m = m\<lparr>n_incompatible := n_incompatible m + 1\<rparr>"
| "count_outcome Unknown m = m\<lparr>n_unknown := n_unknown m + 1\<rparr>"
| "count_outcome Insufficient_Evidence m = m\<lparr>n_insufficient_evidence := n_insufficient_evidence m + 1\<rparr>"
| "count_outcome (Outcome_Raw _) m = m"

definition count_reason :: "string \<Rightarrow> matrix_result \<Rightarrow> matrix_result" where
  "count_reason s m = m\<lparr>reason_counts :=
     AList.update s ((case map_of (reason_counts m) s of None \<Rightarrow> 0 | Some n \<Rightarrow> n) + 1) (reason_counts m)\<rparr>"

fun matrix_loop :: "registry \<Rightarrow> (uuid \<times> uuid) list \<Rightarrow> matrix_result \<Rightarrow> matrix_result res" where
  "matrix_loop R [] m = Inr m"
| "matrix_loop R ((lft, rgt) # ps) m =
     bindE (evaluate_locked lft rgt False R) (\<lambda>d.
     bindE (outcome_name (d_outcome d)) (\<lambda>name.
       matrix_loop R ps (count_reason name (count_outcome (d_outcome d)
         (m\<lparr>cells := cells m @
           [\<lparr>cell_left = lft, cell_right = rgt, cell_outcome = d_outcome d, cell_reason = name\<rparr>]\<rparr>)))))"

definition matrix :: "uuid list \<Rightarrow> uuid list \<Rightarrow> registry \<Rightarrow> matrix_result res" where
  "matrix lefts rights R = matrix_loop R (List.product lefts rights) empty_matrix"

section \<open>The evaluator depends only on the contents of the stores\<close>

lemma keyed_mset:
  assumes "keyed key m" and "keyed key m'" and "map_of m = map_of m'"
  shows "mset m = mset m'"
proof -
  have "distinct m" "distinct m'"
    using assms(1,2) by (auto simp: keyed_def distinct_map)
  moreover have "set m = set m'"
    using assms by (auto simp: keyed_def) (metis map_of_eq_Some_iff)+
  ultimately show ?thesis
    by (simp add: set_eq_iff_mset_eq_distinct)
qed

lemma list_all2_partner:
  "list_all2 P xs ys \<Longrightarrow>
    (\<forall>x \<in> set xs. \<exists>y \<in> set ys. P x y) \<and> (\<forall>y \<in> set ys. \<exists>x \<in> set xs. P x y)"
  by (induction rule: list_all2_induct) auto

lemma set_candidates: "set (candidates ok l r R) = rr_rule ` {rr \<in> snd ` set (rules R). applicable ok l r rr}"
  by (auto simp: candidates_def)

lemma rule_less_explicit:
  "rule_less a b \<longleftrightarrow> sint (r_priority b) < sint (r_priority a) \<or>
    r_priority b = r_priority a \<and> r_rule_id a < r_rule_id b"
  by (auto simp: rule_less_def)

lemma candidates_separated:
  assumes "keyed (\<lambda>rr. r_rule_id (rr_rule rr)) (rules R)"
    and "a \<in> set (candidates ok l r R)" and "b \<in> set (candidates ok l r R)" and "a \<noteq> b"
  shows "rule_less a b \<or> rule_less b a"
proof -
  have "r_rule_id a \<noteq> r_rule_id b"
  proof
    assume id: "r_rule_id a = r_rule_id b"
    obtain ra rb ka kb where "(ka, ra) \<in> set (rules R)" "(kb, rb) \<in> set (rules R)" "a = rr_rule ra" "b = rr_rule rb"
      using assms(2,3) by (auto simp: set_candidates)
    moreover from this have "ka = kb" "ra = rb"
      using assms(1) id by (metis (no_types, lifting) keyed_def map_of_eq_Some_iff option.inject)+
    ultimately show False
      using assms(4) by simp
  qed
  then show ?thesis
    unfolding rule_less_def by (metis linorder_neqE signed_word_eqI)
qed

lemma candidates_unique:
  assumes "keyed (\<lambda>rr. r_rule_id (rr_rule rr)) (rules R)" and "keyed (\<lambda>rr. r_rule_id (rr_rule rr)) (rules R')"
    and "map_of (rules R) = map_of (rules R')"
  shows "candidates ok l r R = candidates ok l r R'"
proof -
  have "mset (map rr_rule (filter (applicable ok l r) (map snd (rules R)))) =
      mset (map rr_rule (filter (applicable ok l r) (map snd (rules R'))))"
    using keyed_mset [OF assms] by (simp add: filter_map)
  moreover have "rule_less a b \<or> rule_less b a"
    if "a \<in> set (map rr_rule (filter (applicable ok l r) (map snd (rules R))))"
      "b \<in> set (map rr_rule (filter (applicable ok l r) (map snd (rules R))))" "a \<noteq> b" for a b
    using candidates_separated [OF assms(1), of a ok l r b] that unfolding candidates_def by simp
  ultimately show ?thesis
    unfolding candidates_def by (intro rule_order.sort_by_unique)
qed

lemma evaluate_locked_cong:
  assumes "map_of (profiles R) = map_of (profiles R')" and "map_of (rules R) = map_of (rules R')"
    and "keyed (\<lambda>rr. r_rule_id (rr_rule rr)) (rules R)" and "keyed (\<lambda>rr. r_rule_id (rr_rule rr)) (rules R')"
    and "policy_id R = policy_id R'" and "registry_gen R = registry_gen R'"
  shows "evaluate_locked left right requirement R = evaluate_locked left right requirement R'"
proof -
  have "candidates ok l r R = candidates ok l r R'" for ok l r
    using assms by (intro candidates_unique)
  moreover have "current u R = current u R'" for u
    using assms(1) by (simp add: current_def)
  moreover have "decision_identity d scope requirement R = decision_identity d scope requirement R'" for d scope
    using assms(5,6) by (simp add: decision_identity_def)
  ultimately show ?thesis
    unfolding evaluate_locked_def by (simp only: assms(5,6))
qed

section \<open>What a positive result rests on\<close>

definition met :: "constraint \<Rightarrow> profile_record \<Rightarrow> profile_record \<Rightarrow> bool" where
  "met c l r \<longleftrightarrow> constraint_known c l r \<and> (\<exists>y n. check c l r = Inr (True, y, n))"

text \<open>The clauses of a rule that have to hold before it may support a pair.\<close>

definition supports :: "rule \<Rightarrow> profile_record \<Rightarrow> profile_record \<Rightarrow> bool" where
  "supports rl l r \<longleftrightarrow>
     (\<forall>c \<in> set (r_required rl). met c l r) \<and>
     (r_any_of rl \<noteq> [] \<longrightarrow> (\<exists>c \<in> set (r_any_of rl). met c l r)) \<and>
     (\<forall>c \<in> set (r_incompatible_with rl). \<not> met c l r)"

lemma missing_simps [simp]:
  "e_definite (missing c e) = e_definite e" "e_outcome (missing c e) = e_outcome e" "e_rule (missing c e) = e_rule e"
  "e_definite (satisfied c y n e) = e_definite e" "e_outcome (satisfied c y n e) = e_outcome e"
  "e_rule (satisfied c y n e) = e_rule e"
  "e_definite (failed c y n w e) = e_definite e" "e_outcome (failed c y n w e) = e_outcome e"
  "e_rule (failed c y n w e) = e_rule e"
  by (simp_all add: missing_def satisfied_def failed_def)

lemma incompatible_loop_result:
  assumes "incompatible_loop l r cs e = Inr (matched, e')"
  shows "e_rule e' = e_rule e \<and> (matched \<longleftrightarrow> (\<exists>c \<in> set cs. met c l r)) \<and>
    (if matched then e_definite e' \<and> e_outcome e' = Incompatible else e_outcome e' = e_outcome e)"
  using assms
proof (induction cs arbitrary: e)
  case (Cons c cs)
  show ?case
  proof (cases "constraint_known c l r")
    case True
    then obtain ok y n where c: "check c l r = Inr (ok, y, n)"
      using Cons.prems by (cases "check c l r") auto
    then have "met c l r \<longleftrightarrow> ok"
      using True by (simp add: met_def)
    then show ?thesis
      using Cons.prems True c by (cases ok) (auto dest!: Cons.IH split: if_splits)
  next
    case False
    then show ?thesis
      using Cons.prems by (auto simp: met_def dest!: Cons.IH split: if_splits)
  qed
qed simp

lemma required_loop_result:
  assumes "required_loop l r cs e all = Inr (all', e')"
  shows "e_rule e' = e_rule e \<and> e_outcome e' = e_outcome e \<and> (all' \<longleftrightarrow> all \<and> (\<forall>c \<in> set cs. met c l r))"
  using assms
proof (induction cs arbitrary: e all)
  case (Cons c cs)
  show ?case
  proof (cases "constraint_known c l r")
    case True
    then obtain ok y n where c: "check c l r = Inr (ok, y, n)"
      using Cons.prems by (cases "check c l r") auto
    then have "met c l r \<longleftrightarrow> ok"
      using True by (simp add: met_def)
    then show ?thesis
      using Cons.prems True c by (cases ok) (auto dest!: Cons.IH split: if_splits)
  next
    case False
    then show ?thesis
      using Cons.prems by (auto simp: met_def dest!: Cons.IH split: if_splits)
  qed
qed simp

lemma any_of_loop_result:
  assumes "any_of_loop l r cs e m = Inr (any, m', e')"
  shows "e_rule e' = e_rule e \<and> (any \<longleftrightarrow> (\<exists>c \<in> set cs. met c l r))"
  using assms
proof (induction cs arbitrary: e m)
  case (Cons c cs)
  show ?case
  proof (cases "constraint_known c l r")
    case True
    then obtain ok y n where c: "check c l r = Inr (ok, y, n)"
      using Cons.prems by (cases "check c l r") auto
    then have "met c l r \<longleftrightarrow> ok"
      using True by (simp add: met_def)
    then show ?thesis
      using Cons.prems True c by (cases ok) (auto dest!: Cons.IH split: if_splits)
  next
    case False
    then show ?thesis
      using Cons.prems by (auto simp: met_def dest!: Cons.IH split: if_splits)
  qed
qed simp

lemma conditions_loop_result:
  assumes "conditions_loop l r cs e cond = Inr (cond', e')"
  shows "e_rule e' = e_rule e \<and> (cond' \<longleftrightarrow> cond \<and> (\<forall>c \<in> set cs. met c l r))"
  using assms
proof (induction cs arbitrary: e cond)
  case (Cons c cs)
  show ?case
  proof (cases "constraint_known c l r")
    case True
    then obtain ok y n where c: "check c l r = Inr (ok, y, n)"
      using Cons.prems by (cases "check c l r") auto
    then have "met c l r \<longleftrightarrow> ok"
      using True by (simp add: met_def)
    then show ?thesis
      using Cons.prems True c by (cases ok) (auto dest!: Cons.IH split: if_splits)
  next
    case False
    then show ?thesis
      using Cons.prems by (auto simp: met_def dest!: Cons.IH split: if_splits)
  qed
qed simp

lemma kind_result_rule:
  assumes "kind_result rl l r e = Inr e'"
  shows "e_rule e' = e_rule e \<and> e_definite e'"
  using assms
  by (auto simp: kind_result_def bindE_eq_Inr dest: conditions_loop_result split: rule_kind.splits)

lemma eval_rule_result:
  assumes "eval_rule rl l r = Inr e"
  shows "e_rule e = rl \<and> (is_positive (e_outcome e) \<longrightarrow> supports rl l r)"
proof -
  obtain matched e1 where inc: "incompatible_loop l r (r_incompatible_with rl) (start_eval rl) = Inr (matched, e1)"
    using assms by (auto simp: eval_rule_def bindE_eq_Inr)
  note i = incompatible_loop_result [OF inc]
  have start: "e_rule (start_eval rl) = rl" "e_outcome (start_eval rl) = Unknown"
    by (simp_all add: start_eval_def)
  show ?thesis
  proof (cases matched)
    case True
    then have "e = e1"
      using assms inc by (simp add: eval_rule_def)
    with i start True show ?thesis by simp
  next
    case False
    then obtain all e2 where req: "required_loop l r (r_required rl) e1 True = Inr (all, e2)"
      using assms inc by (auto simp: eval_rule_def bindE_eq_Inr)
    note q = required_loop_result [OF req]
    show ?thesis
    proof (cases all)
      case False
      then have "e_rule e = e_rule e2" "e_outcome e = Insufficient_Evidence \<or> e_outcome e = Unknown"
        using assms inc req \<open>\<not> matched\<close> by (auto simp: eval_rule_def split: if_splits)
      with i q start show ?thesis by auto
    next
      case True
      then have any: "any_of_result rl l r e2 = Inr e"
        using assms inc req \<open>\<not> matched\<close> by (simp add: eval_rule_def)
      show ?thesis
        using any i q start True \<open>\<not> matched\<close>
        by (auto simp: any_of_result_def bindE_eq_Inr supports_def dest!: any_of_loop_result kind_result_rule
            split: if_splits)
    qed
  qed
qed

section \<open>The shape of a decision\<close>

lemma conflict_loop_result:
  "conflict_loop best es d = Inr d' \<Longrightarrow> \<exists>prov. d' = d\<lparr>d_provenance := prov\<rparr>"
proof (induction es arbitrary: d)
  case Nil
  then show ?case
    by (intro exI [of _ "d_provenance d"]) simp
next
  case (Cons e es)
  then show ?case
    by (fastforce simp: bindE_eq_Inr split: if_splits)
qed

lemma decide_result:
  assumes "decide cand evals d = Inr d'"
  shows "case filter counts evals of
      best # _ \<Rightarrow> d_outcome d' = e_outcome best \<and> d_rule_id d' = r_rule_id (e_rule best) \<and>
        d_rule_generation d' = r_generation (e_rule best) \<and> d_satisfied d' = e_satisfied best \<and>
        d_failed d' = e_failed best \<and> d_missing_evidence d' = e_missing_evidence best
    | [] \<Rightarrow> d_outcome d' = (if list_ex e_missing evals then Insufficient_Evidence else Unknown)"
  using assms
  by (auto simp: decide_def take_eval_def Let_def dest!: conflict_loop_result split: list.splits)

lemma explain_text_explanation [simp]: "explain_text (d\<lparr>d_explanation := t\<rparr>) = explain_text d"
  by (simp add: explain_text_def)

lemma compute_digest_total: "\<exists>dig. compute_digest d = Inr dig"
  by (simp add: compute_digest_canon)

text \<open>The evaluation of two profiles in full.\<close>

lemma evaluate_locked_decision:
  assumes "current left R = Some l" and "current right R = Some r" and "p_fingerprint l \<noteq> p_fingerprint r"
    and "evaluate_locked left right requirement R = Inr d"
  obtains evals base made did dig expl where
    "mapE (\<lambda>rl. eval_rule rl l r)
       (candidates (\<lambda>s. s = (if requirement then ''requirement'' else ''pair'')) l r R) = Inr evals"
    and "decide (candidates (\<lambda>s. s = (if requirement then ''requirement'' else ''pair'')) l r R) evals base = Inr made"
    and "base = empty_decision\<lparr>d_left := p_id l, d_right := p_id r, d_policy_id := policy_id R,
      d_registry_generation := registry_gen R, d_provenance := [''deterministic rule resolution'']\<rparr>"
    and "d = made\<lparr>d_decision_id := did, d_digest := dig, d_explanation := expl\<rparr>"
    and "explain_text d = Inr expl" and "length dig = 32"
proof -
  let ?scope = "if requirement then ''requirement'' else ''pair''"
  let ?cand = "candidates (\<lambda>s. s = ?scope) l r R"
  let ?d = "empty_decision\<lparr>d_left := p_id l, d_right := p_id r, d_policy_id := policy_id R,
      d_registry_generation := registry_gen R, d_provenance := [''deterministic rule resolution'']\<rparr>"
  let ?rest = "\<lambda>d. bindE (decision_identity d ?scope requirement R) (\<lambda>did.
      bindE (with_digest (d\<lparr>d_decision_id := did\<rparr>)) (\<lambda>d.
      bindE (explain_text d) (\<lambda>text. Inr (d\<lparr>d_explanation := text\<rparr>))))"
  have all: "bindE (mapE (\<lambda>rl. eval_rule rl l r) ?cand) (\<lambda>evals. bindE (decide ?cand evals ?d) ?rest) = Inr d"
    using assms by (simp add: evaluate_locked_def Let_def empty_decision_def)
  then obtain evals made where e: "mapE (\<lambda>rl. eval_rule rl l r) ?cand = Inr evals"
      "decide ?cand evals ?d = Inr made" and rest: "?rest made = Inr d"
    unfolding bindE_eq_Inr by blast
  obtain did where "bindE (with_digest (made\<lparr>d_decision_id := did\<rparr>)) (\<lambda>d.
      bindE (explain_text d) (\<lambda>text. Inr (d\<lparr>d_explanation := text\<rparr>))) = Inr d"
    using rest unfolding bindE_eq_Inr by blast
  then obtain d2 where d2: "with_digest (made\<lparr>d_decision_id := did\<rparr>) = Inr d2"
      and "bindE (explain_text d2) (\<lambda>text. Inr (d2\<lparr>d_explanation := text\<rparr>)) = Inr d"
    unfolding bindE_eq_Inr by blast
  then obtain expl where expl: "explain_text d2 = Inr expl" "d = d2\<lparr>d_explanation := expl\<rparr>"
    unfolding bindE_eq_Inr by blast
  obtain dig where dig: "d2 = made\<lparr>d_decision_id := did, d_digest := dig\<rparr>" "length dig = 32"
    using d2 by (auto simp: with_digest_def compute_digest_canon)
  show thesis
    by (rule that [where evals = evals and base = ?d and made = made and did = did and dig = dig and expl = expl])
      (use e expl dig in simp_all)
qed

lemma evaluate_locked_decide:
  assumes "current left R = Some l" and "current right R = Some r" and "p_fingerprint l \<noteq> p_fingerprint r"
    and "evaluate_locked left right requirement R = Inr d"
  obtains evals d0 d1 where
    "mapE (\<lambda>rl. eval_rule rl l r)
       (candidates (\<lambda>s. s = (if requirement then ''requirement'' else ''pair'')) l r R) = Inr evals"
    and "decide (candidates (\<lambda>s. s = (if requirement then ''requirement'' else ''pair'')) l r R) evals d0 = Inr d1"
    and "d_outcome d = d_outcome d1" and "d_rule_id d = d_rule_id d1"
proof (rule evaluate_locked_decision [OF assms])
  fix evals base made did dig expl
  assume *: "mapE (\<lambda>rl. eval_rule rl l r)
       (candidates (\<lambda>s. s = (if requirement then ''requirement'' else ''pair'')) l r R) = Inr evals"
    "decide (candidates (\<lambda>s. s = (if requirement then ''requirement'' else ''pair'')) l r R) evals base = Inr made"
    and d: "d = made\<lparr>d_decision_id := did, d_digest := dig, d_explanation := expl\<rparr>"
  show thesis
    by (rule that [OF *]) (simp_all add: d)
qed

lemma first_filtered:
  assumes "list_all2 (\<lambda>x y. f x = Inr y) xs ys" and "filter P ys = b # bs"
  obtains ps a qs where "xs = ps @ a # qs" "f a = Inr b" "P b" "\<forall>x \<in> set ps. \<forall>y. f x = Inr y \<longrightarrow> \<not> P y"
proof -
  have "\<exists>ps a qs. xs = ps @ a # qs \<and> f a = Inr b \<and> P b \<and> (\<forall>x \<in> set ps. \<forall>y. f x = Inr y \<longrightarrow> \<not> P y)"
    using assms
  proof (induction rule: list_all2_induct)
    case (Cons x xs y ys)
    show ?case
    proof (cases "P y")
      case True
      then show ?thesis
        using Cons by (intro exI [of _ "[]"]) auto
    next
      case False
      then obtain ps a qs where "xs = ps @ a # qs" "f a = Inr b" "P b" "\<forall>x \<in> set ps. \<forall>y. f x = Inr y \<longrightarrow> \<not> P y"
        using Cons by auto
      then show ?thesis
        using Cons.hyps(1) False by (intro exI [of _ "x # ps"]) auto
    qed
  qed simp
  then show thesis
    using that by blast
qed

abbreviation scope_of :: "bool \<Rightarrow> string \<Rightarrow> bool" where
  "scope_of requirement \<equiv> \<lambda>s. s = (if requirement then ''requirement'' else ''pair'')"

lemma evaluate_locked_choice:
  assumes "current left R = Some l" and "current right R = Some r" and "p_fingerprint l \<noteq> p_fingerprint r"
    and "evaluate_locked left right requirement R = Inr d"
  obtains (rule) ps rl qs e where "candidates (scope_of requirement) l r R = ps @ rl # qs"
      "eval_rule rl l r = Inr e" "counts e" "d_outcome d = e_outcome e" "d_rule_id d = r_rule_id rl"
      "\<forall>x \<in> set ps. \<forall>y. eval_rule x l r = Inr y \<longrightarrow> \<not> counts y"
  | (none) "\<forall>x \<in> set (candidates (scope_of requirement) l r R). \<exists>y. eval_rule x l r = Inr y \<and> \<not> counts y"
      "d_outcome d = (if \<exists>x \<in> set (candidates (scope_of requirement) l r R). \<exists>y. eval_rule x l r = Inr y \<and> e_missing y
        then Insufficient_Evidence else Unknown)"
proof -
  obtain evals d0 d1 where e: "mapE (\<lambda>rl. eval_rule rl l r) (candidates (scope_of requirement) l r R) = Inr evals"
      and d1: "decide (candidates (scope_of requirement) l r R) evals d0 = Inr d1"
      and d: "d_outcome d = d_outcome d1" "d_rule_id d = d_rule_id d1"
    using assms by (rule evaluate_locked_decide)
  note all = e [unfolded mapE_eq_Inr]
  note res = decide_result [OF d1]
  show thesis
  proof (cases "filter counts evals")
    case (Cons best others)
    obtain ps rl qs where sp: "candidates (scope_of requirement) l r R = ps @ rl # qs"
        "eval_rule rl l r = Inr best" "counts best"
        "\<forall>x \<in> set ps. \<forall>y. eval_rule x l r = Inr y \<longrightarrow> \<not> counts y"
      by (rule first_filtered [OF all Cons])
    show thesis
      by (rule rule [OF sp(1-3) _ _ sp(4)]) (use res Cons d eval_rule_result [OF sp(2)] in simp_all)
  next
    case Nil
    have no: "\<not> counts y" if "y \<in> set evals" for y
      using Nil that by (simp add: filter_empty_conv)
    have miss: "list_ex e_missing evals \<longleftrightarrow>
        (\<exists>x \<in> set (candidates (scope_of requirement) l r R). \<exists>y. eval_rule x l r = Inr y \<and> e_missing y)"
      (is "_ \<longleftrightarrow> (\<exists>x \<in> ?C. \<exists>y. ?m x y)")
    proof
      assume "list_ex e_missing evals"
      then obtain y where "y \<in> set evals" "e_missing y"
        by (auto simp: list_ex_iff)
      with list_all2_partner [OF all] show "\<exists>x \<in> ?C. \<exists>y. ?m x y" by blast
    next
      assume "\<exists>x \<in> ?C. \<exists>y. ?m x y"
      then obtain x y where xy: "x \<in> ?C" "eval_rule x l r = Inr y" "e_missing y" by blast
      then obtain y' where "y' \<in> set evals" "eval_rule x l r = Inr y'"
        using list_all2_partner [OF all] by blast
      with xy show "list_ex e_missing evals"
        by (auto simp: list_ex_iff)
    qed
    show thesis
      by (rule none) (use list_all2_partner [OF all] no in blast, use res Nil d miss in simp)
  qed
qed

lemma evaluate_locked_absent:
  "current left R = None \<or> current right R = None \<Longrightarrow> evaluate_locked left right requirement R = Inr d \<Longrightarrow>
    d_outcome d = Unknown"
  by (cases "current left R"; cases "current right R")
    (auto simp: evaluate_locked_def Let_def with_digest_def bindE_eq_Inr)

lemma evaluate_locked_decisions [simp]:
  "evaluate_locked left right requirement (R\<lparr>decisions := x\<rparr>) = evaluate_locked left right requirement R"
proof -
  have "current u (R\<lparr>decisions := x\<rparr>) = current u R" and "candidates ok l r (R\<lparr>decisions := x\<rparr>) = candidates ok l r R"
    and "decision_identity d s q (R\<lparr>decisions := x\<rparr>) = decision_identity d s q R" for u ok l r d s q
    by (simp_all add: current_def candidates_def decision_identity_def)
  moreover have "policy_id (R\<lparr>decisions := x\<rparr>) = policy_id R" "registry_gen (R\<lparr>decisions := x\<rparr>) = registry_gen R"
    by simp_all
  ultimately show ?thesis
    unfolding evaluate_locked_def by (simp only:)
qed

lemma compute_digest_fields [simp]:
  "compute_digest (d\<lparr>d_digest := x\<rparr>) = compute_digest d"
  "compute_digest (d\<lparr>d_explanation := t\<rparr>) = compute_digest d"
  by (simp_all add: compute_digest_canon decision_canon_def)

lemma with_digest_digest: "with_digest d = Inr d' \<Longrightarrow> compute_digest d' = Inr (d_digest d')"
  by (auto simp: with_digest_def bindE_eq_Inr)

lemma explained_digest:
  "bindE (with_digest d0) (\<lambda>d. bindE (explain_text d) (\<lambda>t. Inr (d\<lparr>d_explanation := t\<rparr>))) = Inr d \<Longrightarrow>
    compute_digest d = Inr (d_digest d)"
  by (auto simp: bindE_eq_Inr dest!: with_digest_digest)

lemma evaluate_locked_digest:
  "evaluate_locked left right requirement R = Inr d \<Longrightarrow> compute_digest d = Inr (d_digest d)"
  unfolding evaluate_locked_def Let_def
  by (auto split: option.splits if_splits simp: bindE_eq_Inr [of "mapE _ _"] bindE_eq_Inr [of "decide _ _ _"]
      bindE_eq_Inr [of "decision_identity _ _ _ _"] dest!: with_digest_digest explained_digest)

lemma current_ok:
  assumes "registry_ok R" and "current u R = Some p"
  shows "canon_ok (p_payload p) \<and> canonical_fingerprint_hex (p_payload p) = Inr (p_fingerprint p)"
proof -
  obtain h where h: "map_of (profiles R) u = Some h" "newest_active h = Some p"
    using assms(2) by (auto simp: current_def bind_eq_Some_conv simp del: map_of_eq_Some_iff)
  have "history_ok u h"
    using assms(1) h(1) profiles_okD unfolding registry_ok_def by blast
  moreover have "p \<in> set h"
    using h(2) by (auto simp: newest_active_def find_Some_iff) (metis length_rev nth_mem set_rev)
  ultimately show ?thesis
    by (simp add: history_ok_def)
qed

lemma counterfactual_fields:
  assumes "counterfactual_pair left right eds R = Inr d"
  shows "compute_digest d = Inr (d_digest d)" "d_counterfactual d" "d_decision_id d = zero_uuid"
proof -
  have fin: "compute_digest d = Inr (d_digest d) \<and> d_counterfactual d = d_counterfactual d0 \<and>
      d_decision_id d = d_decision_id d0"
    if "bindE (with_digest d0) (\<lambda>d. bindE (explain_text d) (\<lambda>t. Inr (d\<lparr>d_explanation := t\<rparr>))) = Inr d" for d0
    using explained_digest [OF that] that by (auto simp: bindE_eq_Inr with_digest_def)
  have fin': "compute_digest d = Inr (d_digest d) \<and> d_counterfactual d = d_counterfactual d0 \<and>
      d_decision_id d = d_decision_id d0" if "with_digest d0 = Inr d" for d0
    using with_digest_digest [OF that] that by (auto simp: bindE_eq_Inr with_digest_def)
  have "compute_digest d = Inr (d_digest d) \<and> d_counterfactual d \<and> d_decision_id d = zero_uuid"
  proof (cases "current left R = None \<or> current right R = None")
    case True
    then show ?thesis
      using assms by (auto simp: counterfactual_pair_def Let_def empty_decision_def dest!: fin' split: option.splits)
  next
    case False
    then obtain l r where "current left R = Some l" "current right R = Some r" by auto
    then obtain l' r' evals where "edits_loop r eds (l, r) = Inr (l', r')"
        "mapE (\<lambda>rl. eval_rule rl l' r') (candidates (\<lambda>s. s = ''pair'' \<or> s = ''counterfactual'') l' r' R) = Inr evals"
      using assms by (auto simp: counterfactual_pair_def Let_def bindE_eq_Inr)
    then show ?thesis
      using assms \<open>current left R = Some l\<close> \<open>current right R = Some r\<close>
      by (cases "filter counts evals")
        (auto simp: counterfactual_pair_def Let_def empty_decision_def take_eval_def dest!: fin)
  qed
  then show "compute_digest d = Inr (d_digest d)" "d_counterfactual d" "d_decision_id d = zero_uuid"
    by simp_all
qed

lemma decide_not_counterfactual: "decide cand evals d = Inr d' \<Longrightarrow> d_counterfactual d' = d_counterfactual d"
  by (auto simp: decide_def take_eval_def Let_def dest!: conflict_loop_result split: list.splits if_splits)

lemma evaluate_locked_not_counterfactual:
  assumes "evaluate_locked left right requirement R = Inr d"
  shows "\<not> d_counterfactual d"
  using assms unfolding evaluate_locked_def Let_def
  by (auto simp: bindE_eq_Inr with_digest_def empty_decision_def dest!: decide_not_counterfactual
      split: option.splits if_splits)

text \<open>The counter of the matrix for an outcome, and the count of a reason.\<close>

definition tally :: "outcome \<Rightarrow> matrix_result \<Rightarrow> nat" where
  "tally o' m = (case o' of Exact \<Rightarrow> n_exact m | Compatible \<Rightarrow> n_compatible m
     | Compatible_With_Adaptation \<Rightarrow> n_compatible_with_adaptation m | Conditional \<Rightarrow> n_conditional m
     | Incompatible \<Rightarrow> n_incompatible m | Unknown \<Rightarrow> n_unknown m
     | Insufficient_Evidence \<Rightarrow> n_insufficient_evidence m | Outcome_Raw _ \<Rightarrow> 0)"

definition reason_count :: "string \<Rightarrow> matrix_result \<Rightarrow> nat" where
  "reason_count s m = (case map_of (reason_counts m) s of None \<Rightarrow> 0 | Some n \<Rightarrow> n)"

definition all_outcomes :: "outcome list" where
  "all_outcomes = [Exact, Compatible, Compatible_With_Adaptation, Conditional, Incompatible, Unknown,
     Insufficient_Evidence]"

definition matrix_ok :: "registry \<Rightarrow> (uuid \<times> uuid) list \<Rightarrow> matrix_result \<Rightarrow> bool" where
  "matrix_ok R ps m \<longleftrightarrow>
     map (\<lambda>c. (cell_left c, cell_right c)) (cells m) = ps \<and>
     (\<forall>c \<in> set (cells m). \<exists>d. evaluate_locked (cell_left c) (cell_right c) False R = Inr d \<and>
        cell_outcome c = d_outcome d \<and> outcome_name (d_outcome d) = Inr (cell_reason c)) \<and>
     (\<forall>o' \<in> set all_outcomes. tally o' m = length (filter (\<lambda>c. cell_outcome c = o') (cells m))) \<and>
     (\<forall>s. reason_count s m = length (filter (\<lambda>c. cell_reason c = s) (cells m)))"

lemma tally_count: "o' \<in> set all_outcomes \<Longrightarrow> tally o' (count_outcome x m) = tally o' m + (if x = o' then 1 else 0)"
  by (cases x) (auto simp: all_outcomes_def tally_def)

lemma count_fields [simp]:
  "cells (count_outcome x m) = cells m" "reason_counts (count_outcome x m) = reason_counts m"
  "cells (count_reason s m) = cells m" "tally o' (count_reason s m) = tally o' m"
  "tally o' (m\<lparr>cells := cs\<rparr>) = tally o' m" "reason_count s (count_outcome x m) = reason_count s m"
  "reason_count s (m\<lparr>cells := cs\<rparr>) = reason_count s m"
  by (cases x; simp add: count_reason_def tally_def reason_count_def split: outcome.splits)+

lemma reason_count_reason: "reason_count s (count_reason t m) = reason_count s m + (if s = t then 1 else 0)"
  by (simp add: reason_count_def count_reason_def map_of_update)

lemma matrix_loop_ok:
  "matrix_ok R done m \<Longrightarrow> matrix_loop R ps m = Inr m' \<Longrightarrow> matrix_ok R (done @ ps) m'"
proof (induction R ps m arbitrary: "done" rule: matrix_loop.induct)
  case (2 R lft rgt ps m)
  obtain d name where d: "evaluate_locked lft rgt False R = Inr d" "outcome_name (d_outcome d) = Inr name"
    using 2(3) by (auto simp: bindE_eq_Inr)
  let ?m = "count_reason name (count_outcome (d_outcome d) (m\<lparr>cells := cells m @
      [\<lparr>cell_left = lft, cell_right = rgt, cell_outcome = d_outcome d, cell_reason = name\<rparr>]\<rparr>))"
  have "matrix_ok R (done @ [(lft, rgt)]) ?m"
    using 2(2) d unfolding matrix_ok_def by (auto simp: tally_count reason_count_reason)
  from 2(1) [OF d this] show ?case
    using 2(3) d by simp
qed simp

lemma empty_matrix_ok: "matrix_ok R [] empty_matrix"
  by (auto simp: matrix_ok_def empty_matrix_def tally_def reason_count_def all_outcomes_def)

lemma tally_sum:
  assumes "matrix_ok R ps m"
  shows "sum_list (map (\<lambda>o'. tally o' m) all_outcomes) = length (cells m)"
proof -
  have cover: "cell_outcome c \<in> set all_outcomes" if "c \<in> set (cells m)" for c
    using assms that by (cases "cell_outcome c") (auto simp: matrix_ok_def all_outcomes_def)
  have dist: "distinct all_outcomes"
    by (simp add: all_outcomes_def)
  have "sum_list (map (\<lambda>o'. length (filter (\<lambda>c. cell_outcome c = o') cs)) all_outcomes) = length cs"
    if "\<forall>c \<in> set cs. cell_outcome c \<in> set all_outcomes" for cs :: "cell list"
    using that
  proof (induction cs)
    case (Cons c cs)
    then show ?case
      by (auto simp: all_outcomes_def)
  qed (simp add: all_outcomes_def)
  from this [of "cells m"] cover
  have "sum_list (map (\<lambda>o'. length (filter (\<lambda>c. cell_outcome c = o') (cells m))) all_outcomes) = length (cells m)"
    by blast
  moreover have "map (\<lambda>o'. tally o' m) all_outcomes =
      map (\<lambda>o'. length (filter (\<lambda>c. cell_outcome c = o') (cells m))) all_outcomes"
    using assms by (intro map_cong) (simp_all add: matrix_ok_def)
  ultimately show ?thesis
    by (simp only:)
qed

lemma if_eq_cases: "x = (if P then a else b) \<Longrightarrow> (x = a \<Longrightarrow> Q) \<Longrightarrow> (x = b \<Longrightarrow> Q) \<Longrightarrow> Q"
  by (simp split: if_splits)

section \<open>An example pair\<close>

text \<open>Two models with different fingerprints and two rules that find them compatible.\<close>

definition pair_rules :: "(uuid, rule_record) umap" where
  "pair_rules =
     [(Uuid 9, \<lparr>rr_rule = example_rule 1, rr_active = True, rr_superseded = False\<rparr>),
      (Uuid 8, \<lparr>rr_rule = (example_rule 1)\<lparr>r_rule_id := Uuid 8\<rparr>, rr_active = True, rr_superseded = False\<rparr>)]"

definition pair_left :: profile_record where
  "pair_left = (example_profile (Uuid 1) [])\<lparr>p_fingerprint := ''a''\<rparr>"

definition pair_right :: profile_record where
  "pair_right = (example_profile (Uuid 2) [])\<lparr>p_fingerprint := ''b''\<rparr>"

definition pair_registry :: "(uuid, rule_record) umap \<Rightarrow> registry" where
  "pair_registry rs = empty_registry\<lparr>
     profiles := [(Uuid 1, [pair_left]), (Uuid 2, [pair_right])], rules := rs\<rparr>"

lemma pair_registry_simps:
  "rules (pair_registry rs) = rs" "p_kind pair_left = PK_Model" "p_kind pair_right = PK_Model"
  "p_fingerprint pair_left = ''a''" "p_fingerprint pair_right = ''b''"
  "current (Uuid 1) (pair_registry rs) = Some pair_left" "current (Uuid 2) (pair_registry rs) = Some pair_right"
  by (simp_all add: pair_registry_def pair_left_def pair_right_def current_def newest_active_def)

lemmas pair_current = pair_registry_simps(6,7)

lemma pair_fingerprints: "p_fingerprint pair_left \<noteq> p_fingerprint pair_right"
  by (simp add: pair_registry_simps)

lemma pair_stores_ok: "stores_ok (pair_registry pair_rules)"
  by (simp add: stores_ok_def keyed_def pair_registry_def pair_rules_def example_rule_def empty_registry_def)

lemma pair_stores_ok_rev: "stores_ok (pair_registry (rev pair_rules))"
  by (simp add: stores_ok_def keyed_def pair_registry_def pair_rules_def example_rule_def empty_registry_def)

lemma pair_evaluates:
  "\<exists>d. evaluate_locked (Uuid 1) (Uuid 2) False (pair_registry pair_rules) = Inr d \<and> d_outcome d = Compatible"
proof -
  have "candidates (scope_of False) pair_left pair_right (pair_registry pair_rules) =
      [(example_rule 1)\<lparr>r_rule_id := Uuid 8\<rparr>, example_rule 1]"
    by (simp add: candidates_def applicable_def kind_matches_def pair_registry_simps pair_rules_def
        rule_less_def example_rule_def less_uuid_def)
  then show ?thesis
    by (simp add: evaluate_locked_def pair_current pair_fingerprints eval_rule_def example_rule_def
        any_of_result_def kind_result_def start_eval_def decide_def counts_def take_eval_def Let_def
        decision_identity_def mk_record_tags_ok canonical_fingerprint_def canonical_encode_enc
        with_digest_def compute_digest_canon explain_text_def)
qed

section \<open>Properties\<close>

text \<open>
  Property C14. A positive answer is never made up: when evaluation of a pair (or a candidate and its
  requirement) says exact, compatible, adaptable or conditional, both profiles are active and either
  their fingerprints agree, or there is an active rule of the right scope and kinds whose id the
  decision carries, all of whose required constraints are met by known fields, one of whose
  alternatives is met, and none of whose incompatibilities is.
\<close>

theorem positive_outcome_supported:
  assumes "evaluate_locked left right requirement R = Inr d" and "is_positive (d_outcome d)"
  shows "\<exists>l r. current left R = Some l \<and> current right R = Some r \<and>
    (p_fingerprint l = p_fingerprint r \<or>
     (\<exists>rr \<in> snd ` set (rules R). applicable (scope_of requirement) l r rr \<and>
        d_rule_id d = r_rule_id (rr_rule rr) \<and> supports (rr_rule rr) l r))"
proof (cases "current left R = None \<or> current right R = None")
  case True
  then have "d_outcome d = Unknown"
    using assms(1) by (rule evaluate_locked_absent)
  with assms(2) show ?thesis by simp
next
  case False
  then obtain l r where lr: "current left R = Some l" "current right R = Some r"
    by auto
  show ?thesis
  proof (cases "p_fingerprint l = p_fingerprint r")
    case True
    with lr show ?thesis by blast
  next
    case False
    show ?thesis
      using lr False assms(1)
    proof (cases rule: evaluate_locked_choice)
      case (rule ps rl qs e)
      then have "rl \<in> set (candidates (scope_of requirement) l r R)"
        by simp
      then obtain rr where "rr \<in> snd ` set (rules R)" "applicable (scope_of requirement) l r rr" "rl = rr_rule rr"
        unfolding set_candidates by blast
      moreover have "supports rl l r"
        using rule(4) assms(2) eval_rule_result [OF rule(2)] by simp
      ultimately show ?thesis
        using lr rule(5) by blast
    next
      case none
      with assms(2) show ?thesis by (simp split: if_splits)
    qed
  qed
qed

theorem positive_outcome_supported_witness:
  "\<exists>d. evaluate_locked (Uuid 1) (Uuid 2) False (pair_registry pair_rules) = Inr d \<and>
     (\<exists>rr \<in> snd ` set pair_rules. d_rule_id d = r_rule_id (rr_rule rr))"
proof -
  obtain d where d: "evaluate_locked (Uuid 1) (Uuid 2) False (pair_registry pair_rules) = Inr d" "d_outcome d = Compatible"
    using pair_evaluates by blast
  then show ?thesis
    using positive_outcome_supported [OF d(1)] by (auto simp: pair_registry_simps)
qed

text \<open>
  Property C15. Which rule decides: among the applicable rules that reach a definite result, the one
  with the highest priority, and among those the one with the smallest id, gives the outcome; when no
  rule is definite, the outcome is Insufficient_Evidence if some rule lacked a field and Unknown
  otherwise.
\<close>

theorem highest_priority_decides:
  assumes "stores_ok R" and "current left R = Some l" and "current right R = Some r"
    and "p_fingerprint l \<noteq> p_fingerprint r" and "evaluate_locked left right requirement R = Inr d"
  defines "cand \<equiv> rr_rule ` {rr \<in> snd ` set (rules R). applicable (scope_of requirement) l r rr}"
  shows "(\<exists>rl \<in> cand. \<exists>e. eval_rule rl l r = Inr e \<and> counts e \<and> d_outcome d = e_outcome e \<and>
      d_rule_id d = r_rule_id rl \<and>
      (\<forall>rl' \<in> cand. \<forall>e'. eval_rule rl' l r = Inr e' \<and> counts e' \<longrightarrow> rl' = rl \<or>
        sint (r_priority rl') < sint (r_priority rl) \<or>
        r_priority rl' = r_priority rl \<and> r_rule_id rl < r_rule_id rl')) \<or>
    ((\<forall>rl \<in> cand. \<exists>e. eval_rule rl l r = Inr e \<and> \<not> counts e) \<and>
     d_outcome d = (if \<exists>rl \<in> cand. \<exists>e. eval_rule rl l r = Inr e \<and> e_missing e
       then Insufficient_Evidence else Unknown))"
  using assms(2-5)
proof (cases rule: evaluate_locked_choice)
  case (rule ps rl qs e)
  let ?cs = "candidates (scope_of requirement) l r R"
  let ?first = "\<lambda>rl rl'. sint (r_priority rl') < sint (r_priority rl) \<or> r_priority rl' = r_priority rl \<and> r_rule_id rl < r_rule_id rl'"
  have keyed: "keyed (\<lambda>rr. r_rule_id (rr_rule rr)) (rules R)"
    using assms(1) by (simp add: stores_ok_def)
  have sorted: "sorted_wrt (\<lambda>a b. \<not> rule_less b a) ?cs"
    unfolding candidates_def by (rule rule_order.sorted_sort_by)
  have least: "rl' = rl \<or> ?first rl rl'" if "rl' \<in> set ?cs" "eval_rule rl' l r = Inr e'" "counts e'" for rl' e'
  proof -
    have "rl' \<in> set (rl # qs)"
      using that rule(1,6) by auto
    then have "rl' = rl \<or> \<not> rule_less rl' rl"
      using sorted rule(1) by (auto simp: sorted_wrt_append)
    then show ?thesis
      using candidates_separated [OF keyed that(1), of rl] rule(1) by (auto simp: rule_less_explicit)
  qed
  have "rl \<in> set ?cs"
    using rule(1) by simp
  then have "\<exists>rl \<in> set ?cs. \<exists>e. eval_rule rl l r = Inr e \<and> counts e \<and> d_outcome d = e_outcome e \<and>
      d_rule_id d = r_rule_id rl \<and>
      (\<forall>rl' \<in> set ?cs. \<forall>e'. eval_rule rl' l r = Inr e' \<and> counts e' \<longrightarrow> rl' = rl \<or> ?first rl rl')"
    using rule(2-5) least by blast
  then show ?thesis
    unfolding cand_def set_candidates by (rule disjI1)
next
  case none
  then show ?thesis
    unfolding cand_def set_candidates by (intro disjI2 conjI)
qed

theorem highest_priority_decides_witness:
  "\<exists>d. evaluate_locked (Uuid 1) (Uuid 2) False (pair_registry pair_rules) = Inr d \<and> d_rule_id d \<in> {Uuid 8, Uuid 9}"
proof -
  obtain d where d: "evaluate_locked (Uuid 1) (Uuid 2) False (pair_registry pair_rules) = Inr d" "d_outcome d = Compatible"
    using pair_evaluates by blast
  let ?cand = "rr_rule ` {rr \<in> snd ` set (rules (pair_registry pair_rules)). applicable (scope_of False) pair_left pair_right rr}"
  consider rl where "rl \<in> ?cand" "d_rule_id d = r_rule_id rl"
    | "d_outcome d = Insufficient_Evidence" | "d_outcome d = Unknown"
    using highest_priority_decides [OF pair_stores_ok pair_current(1,2) pair_fingerprints d(1)]
    by (elim disjE bexE exE conjE) (erule that(1), assumption, erule if_eq_cases, erule that(2), erule that(3))
  then obtain rl where "rl \<in> ?cand" "d_rule_id d = r_rule_id rl"
    using d(2) by cases simp_all
  then have "rl \<in> rr_rule ` (snd ` set pair_rules)" "d_rule_id d = r_rule_id rl"
    unfolding pair_registry_simps by blast+
  with d show ?thesis
    by (auto simp: pair_rules_def example_rule_def)
qed

text \<open>
  Property C23. Replay: evaluating a pair only adds the decision to the cache, under a digest that is
  the digest of its contents, and evaluating the same pair again in the new state gives the same
  decision and changes nothing more.
\<close>

theorem evaluate_pair_replay:
  assumes "evaluate_pair left right R = (Inr d, R')"
  shows "compute_digest d = Inr (d_digest d) \<and> map_of (decisions R') (d_digest d) = Some d \<and>
    (\<forall>k. k \<noteq> d_digest d \<longrightarrow> map_of (decisions R') k = map_of (decisions R) k) \<and>
    R' = R\<lparr>decisions := decisions R'\<rparr> \<and> evaluate_pair left right R' = (Inr d, R')"
proof -
  have d: "evaluate_locked left right False R = Inr d" and R': "R' = remember d R"
    using assms by (auto simp: evaluate_pair_def split: sum.splits)
  have "evaluate_locked left right False R' = evaluate_locked left right False R"
    by (simp add: R' remember_def)
  moreover have "remember d R' = R'"
    by (simp add: R' remember_def AList.update_triv)
  ultimately show ?thesis
    using d evaluate_locked_digest [OF d] by (simp add: evaluate_pair_def R' remember_def map_of_update)
qed

theorem evaluate_pair_replay_witness:
  "\<exists>d R'. evaluate_pair (Uuid 1) (Uuid 2) (pair_registry pair_rules) = (Inr d, R') \<and>
     evaluate_pair (Uuid 1) (Uuid 2) R' = (Inr d, R')"
proof -
  obtain d where "evaluate_locked (Uuid 1) (Uuid 2) False (pair_registry pair_rules) = Inr d"
    using pair_evaluates by blast
  then have "evaluate_pair (Uuid 1) (Uuid 2) (pair_registry pair_rules) = (Inr d, remember d (pair_registry pair_rules))"
    by (simp add: evaluate_pair_def)
  with evaluate_pair_replay [OF this] show ?thesis
    by blast
qed

text \<open>
  Decisions do not depend on the iteration order of the hash maps: two registries with
  the same contents, policy and generation give the same decision for every pair and requirement.
\<close>

theorem evaluate_order_independent:
  assumes "stores_ok R" and "stores_ok R'"
    and "map_of (profiles R) = map_of (profiles R')" and "map_of (rules R) = map_of (rules R')"
    and "policy_id R = policy_id R'" and "registry_gen R = registry_gen R'"
  shows "fst (evaluate_pair left right R) = fst (evaluate_pair left right R') \<and>
    fst (evaluate_requirement left right R) = fst (evaluate_requirement left right R')"
proof -
  have "evaluate_locked left right requirement R = evaluate_locked left right requirement R'" for requirement
    using assms unfolding stores_ok_def by (intro evaluate_locked_cong) simp_all
  then show ?thesis
    by (simp add: evaluate_pair_def evaluate_requirement_def split: sum.splits)
qed

theorem evaluate_order_independent_witness:
  "pair_rules \<noteq> rev pair_rules \<and>
   fst (evaluate_pair (Uuid 1) (Uuid 2) (pair_registry pair_rules)) =
   fst (evaluate_pair (Uuid 1) (Uuid 2) (pair_registry (rev pair_rules)))"
proof -
  have "map_of (rev pair_rules) = map_of pair_rules"
    by (simp add: pair_rules_def fun_upd_twist)
  then show ?thesis
    using evaluate_order_independent [OF pair_stores_ok pair_stores_ok_rev, of "Uuid 1" "Uuid 2"]
    by (simp add: pair_registry_def pair_rules_def)
qed

text \<open>
  Exact means identical: when both fingerprints agree the answer is Exact and, unless
  the two encodings are a collision of SHA-256, the payloads are equal. Such a decision has the zero
  id and no explanation, and the pair and the requirement evaluation give one and the same record.
\<close>

theorem exact_means_identical:
  assumes "registry_ok R" and "current left R = Some l" and "current right R = Some r"
    and "p_fingerprint l = p_fingerprint r"
    and "canon_fits (p_payload l)" and "canon_fits (p_payload r)"
    and no_collision: "sha256 (k_magic @ [k_version] @ enc (p_payload l)) =
      sha256 (k_magic @ [k_version] @ enc (p_payload r)) \<Longrightarrow> enc (p_payload l) = enc (p_payload r)"
  shows "p_payload l = p_payload r \<and> (\<exists>d. d_outcome d = Exact \<and> d_decision_id d = zero_uuid \<and>
    d_explanation d = [] \<and> evaluate_locked left right False R = Inr d \<and>
    evaluate_locked left right True R = Inr d)"
proof
  have ok: "canon_ok (p_payload p) \<and> canonical_fingerprint_hex (p_payload p) = Inr (p_fingerprint p)"
    if "current u R = Some p" for u p
    using current_ok [OF assms(1) that] .
  have "sha_hex (sha256 (k_magic @ [k_version] @ enc (p_payload l))) =
      sha_hex (sha256 (k_magic @ [k_version] @ enc (p_payload r)))"
    using ok [OF assms(2)] ok [OF assms(3)] assms(4) by (auto simp: canonical_fingerprint_hex_enc)
  then have "enc (p_payload l) = enc (p_payload r)"
    using no_collision by (simp add: sha_hex_inject)
  then show "p_payload l = p_payload r"
    using canonical_decode_encode_enc [OF _ assms(5)] canonical_decode_encode_enc [OF _ assms(6)]
      ok [OF assms(2)] ok [OF assms(3)] by simp
next
  show "\<exists>d. d_outcome d = Exact \<and> d_decision_id d = zero_uuid \<and> d_explanation d = [] \<and>
      evaluate_locked left right False R = Inr d \<and> evaluate_locked left right True R = Inr d"
    using assms(2-4) by (simp add: evaluate_locked_def Let_def with_digest_def compute_digest_canon empty_decision_def)
qed

theorem exact_means_identical_witness:
  "\<exists>d. d_outcome d = Exact \<and> d_decision_id d = zero_uuid \<and>
     evaluate_locked (Uuid 1) (Uuid 2) True example_registry = Inr d"
proof -
  have cur: "current (Uuid 1) example_registry = Some (example_profile (Uuid 1) [])"
    "current (Uuid 2) example_registry = Some (example_profile (Uuid 2) [Uuid 1])"
    by (simp_all add: current_def example_registry_def newest_active_def)
  have "p_fingerprint (example_profile (Uuid 1) []) = p_fingerprint (example_profile (Uuid 2) [Uuid 1])"
    by (simp add: example_profile_def)
  from exact_means_identical [OF example_registry_ok cur this] show ?thesis
    by (auto simp: model_payload_def)
qed

text \<open>
  Property C29. A counterfactual answer is marked as derived and carries no decision id, while the
  authoritative evaluator never produces a marked decision; so a counterfactual and an authoritative
  decision with the same digest are a collision of SHA-256.
\<close>

theorem counterfactual_never_authoritative:
  assumes "counterfactual_pair left right eds R = Inr d"
    and "evaluate_locked left' right' requirement R' = Inr d'"
    and "canon_fits (decision_canon d)" and "canon_fits (decision_canon d')"
  shows "d_counterfactual d \<and> d_decision_id d = zero_uuid \<and> \<not> d_counterfactual d' \<and>
    (d_digest d \<noteq> d_digest d' \<or>
     enc (decision_canon d) \<noteq> enc (decision_canon d') \<and>
     sha256 (k_magic @ [k_version] @ enc (decision_canon d)) = sha256 (k_magic @ [k_version] @ enc (decision_canon d')))"
proof -
  note c = counterfactual_fields [OF assms(1)]
  note e = evaluate_locked_digest [OF assms(2)] evaluate_locked_not_counterfactual [OF assms(2)]
  have "decision_canon d \<noteq> decision_canon d'"
    using c e by (simp add: decision_canon_def)
  then have "enc (decision_canon d) \<noteq> enc (decision_canon d')"
    using canonical_decode_encode_enc [OF canon_ok_decision assms(3)]
      canonical_decode_encode_enc [OF canon_ok_decision assms(4)] by auto
  with c e show ?thesis by (simp add: compute_digest_canon)
qed

theorem counterfactual_never_authoritative_witness:
  "\<exists>d d'. counterfactual_pair (Uuid 1) (Uuid 2) [] empty_registry = Inr d \<and>
     evaluate_locked (Uuid 1) (Uuid 2) False empty_registry = Inr d' \<and>
     d_counterfactual d \<and> \<not> d_counterfactual d'"
proof -
  have none: "current u empty_registry = None" for u
    by (simp add: current_def empty_registry_def)
  obtain d d' where d: "counterfactual_pair (Uuid 1) (Uuid 2) [] empty_registry = Inr d"
      "evaluate_locked (Uuid 1) (Uuid 2) False empty_registry = Inr d'"
    by (simp add: counterfactual_pair_def evaluate_locked_def none with_digest_def compute_digest_canon Let_def)
  have fits: "canon_fits (decision_canon d)" "canon_fits (decision_canon d')"
    using d by (auto simp: counterfactual_pair_def evaluate_locked_def none with_digest_def compute_digest_canon
        Let_def decision_canon_def empty_decision_def)
  show ?thesis
    using counterfactual_never_authoritative [OF d fits] d by blast
qed

text \<open>
  The counterfactual evaluator does not look at the identity of the two profiles: with
  no edits and no rules it answers Unknown for a pair whose evaluation is Exact.
\<close>

theorem counterfactual_ignores_identity:
  assumes "current left R = Some l" and "current right R = Some r" and "p_fingerprint l = p_fingerprint r"
    and "rules R = []"
  shows "(\<exists>d. fst (evaluate_pair left right R) = Inr d \<and> d_outcome d = Exact) \<and>
    (\<exists>d. counterfactual_pair left right [] R = Inr d \<and> d_outcome d = Unknown)"
  using assms
  by (simp add: evaluate_pair_def evaluate_locked_def counterfactual_pair_def candidates_def with_digest_def
      compute_digest_canon explain_text_def Let_def)

theorem counterfactual_ignores_identity_witness:
  "\<exists>d. counterfactual_pair (Uuid 1) (Uuid 2) [] example_registry = Inr d \<and> d_outcome d = Unknown"
proof -
  have "current (Uuid 1) example_registry = Some (example_profile (Uuid 1) [])"
    "current (Uuid 2) example_registry = Some (example_profile (Uuid 2) [Uuid 1])"
    by (simp_all add: current_def example_registry_def newest_active_def)
  moreover have "p_fingerprint (example_profile (Uuid 1) []) = p_fingerprint (example_profile (Uuid 2) [Uuid 1])"
    "rules example_registry = []"
    by (simp_all add: example_profile_def example_registry_def empty_registry_def)
  ultimately show ?thesis
    by (rule counterfactual_ignores_identity [THEN conjunct2])
qed

text \<open>
  The matrix has one cell for every pair of the product in row order, each with the
  outcome the evaluator gives for that pair, and its seven counters are the numbers of cells with each
  outcome, so they add up to the number of cells; every reason is counted as often as it occurs.
\<close>

theorem matrix_counts_cells:
  assumes "matrix lefts rights R = Inr m"
  shows "map (\<lambda>c. (cell_left c, cell_right c)) (cells m) = List.product lefts rights \<and>
    (\<forall>c \<in> set (cells m). \<exists>d. evaluate_locked (cell_left c) (cell_right c) False R = Inr d \<and>
       cell_outcome c = d_outcome d \<and> outcome_name (d_outcome d) = Inr (cell_reason c)) \<and>
    (\<forall>o' \<in> set all_outcomes. tally o' m = length (filter (\<lambda>c. cell_outcome c = o') (cells m))) \<and>
    sum_list (map (\<lambda>o'. tally o' m) all_outcomes) = length lefts * length rights \<and>
    (\<forall>s. reason_count s m = length (filter (\<lambda>c. cell_reason c = s) (cells m)))"
proof -
  have "matrix_ok R (List.product lefts rights) m"
    using matrix_loop_ok [OF _ assms [unfolded matrix_def], of "[]"] by (simp add: empty_matrix_ok)
  moreover from this have "length (cells m) = length lefts * length rights"
    by (metis length_map length_product matrix_ok_def)
  ultimately show ?thesis
    using tally_sum [of R _ m] unfolding matrix_ok_def by auto
qed

theorem matrix_counts_cells_witness:
  "\<exists>m. matrix [Uuid 1] [Uuid 2, Uuid 3] empty_registry = Inr m \<and>
     map (\<lambda>c. (cell_left c, cell_right c)) (cells m) = [(Uuid 1, Uuid 2), (Uuid 1, Uuid 3)]"
proof -
  have none: "current u empty_registry = None" for u
    by (simp add: current_def empty_registry_def)
  obtain m where m: "matrix [Uuid 1] [Uuid 2, Uuid 3] empty_registry = Inr m"
    by (simp add: matrix_def evaluate_locked_def none with_digest_def compute_digest_canon Let_def)
  with matrix_counts_cells [OF m] show ?thesis
    by simp
qed

end
