(* ===== verification/Persist.thy ===== *)
theory Persist
  imports Codec Evaluate
begin

text \<open>
  Snapshot and recovery of \<^verbatim>\<open>CompatibilityRegistry\<close> (\<^verbatim>\<open>src/compat/registry.cpp\<close>): the canonical record
  of every stored object and its reader, and the container around the canonical document with its
  magic, version and SHA-256 checksum. \<^verbatim>\<open>save\<close> and \<^verbatim>\<open>load\<close> write and read these bytes to a file.
\<close>

section \<open>Writers\<close>

definition enc_constraint :: "constraint \<Rightarrow> canon res" where
  "enc_constraint c = mk_record
     [(1, CUint (ucast (pred_op_code (c_op c)))), (2, CStr (c_field c)), (3, CStr (c_right_field c)),
      (4, c_expected c), (5, c_expected2 c), (6, CSeq (c_set c)), (7, CStr (c_note c))]"

definition enc_constraint_item :: "constraint_item \<Rightarrow> canon res" where
  "enc_constraint_item c = mk_record
     [(1, CStr (ci_dimension c)), (2, CStr (ci_left c)), (3, CStr (ci_right c)),
      (4, CBool (ci_satisfied c)), (5, CStr (ci_note c))]"

definition enc_profile :: "profile_record \<Rightarrow> canon res" where
  "enc_profile p =
     bindE (mk_record (as_record (p_payload p))) (\<lambda>payload. mk_record
     [(1, CUuid (p_id p)), (2, CUint (ucast (profile_kind_code (p_kind p)))), (3, CUint (p_generation p)),
      (4, payload), (5, CSeq (map CUuid (p_deps p))), (6, CBool (p_active p)), (7, CBool (p_superseded p)),
      (8, CStr (p_provenance p)), (9, CStr (p_fingerprint p))])"

text \<open>\<^verbatim>\<open>put_int\<close> of an \<^verbatim>\<open>int\<close> extends its sign to 64 bits.\<close>

definition enc_rule :: "rule \<Rightarrow> bool \<Rightarrow> canon res" where
  "enc_rule r active =
     bindE (mapE enc_constraint (r_required r)) (\<lambda>required.
     bindE (mapE enc_constraint (r_any_of r)) (\<lambda>any_of.
     bindE (mapE enc_constraint (r_incompatible_with r)) (\<lambda>incompatible.
     bindE (mapE enc_constraint (r_conditions r)) (\<lambda>conditions. mk_record
     ([(1, CUuid (r_rule_id r)), (2, CUint (r_generation r)), (3, CStr (r_domain r)), (4, CStr (r_scope r)),
       (5, CInt (scast (r_priority r))), (6, CBool active)] @
      put_opt 7 (\<lambda>k. CUint (ucast (profile_kind_code k))) (r_left_kind r) @
      put_opt 8 (\<lambda>k. CUint (ucast (profile_kind_code k))) (r_right_kind r) @
      [(9, CUint (ucast (rule_kind_code (r_kind r)))), (10, CUint (ucast (outcome_code (r_outcome r)))),
       (11, CSeq required), (12, CSeq any_of), (13, CSeq incompatible), (14, CSeq conditions),
       (15, CSeq (map CStr (r_adaptations r))), (16, CStr (r_provenance r))])))))"

definition enc_evidence :: "evidence_record \<Rightarrow> canon res" where
  "enc_evidence e =
     bindE (mk_record (as_record (ev_value e))) (\<lambda>value. mk_record
     [(1, CUuid (ev_id e)), (2, CUuid (ev_subject e)), (3, CStr (ev_field e)), (4, value),
      (5, CStr (ev_provenance e)), (6, CStr (ev_source e)), (7, CUint (ev_source_generation e)),
      (8, CStr (ev_observed_timestamp e)), (9, CUint (ucast (evidence_kind_code (ev_kind e)))),
      (10, CBool (ev_validated e)), (11, CStr (ev_digest_hex e))])"

definition enc_invalidation :: "invalidation \<Rightarrow> canon res" where
  "enc_invalidation iv = mk_record
     [(1, CUuid (iv_target iv)), (2, CUint (iv_generation iv)), (3, CStr (iv_reason iv)),
      (4, CStr (iv_fingerprint_before iv))]"

definition enc_decision :: "decision \<Rightarrow> canon res" where
  "enc_decision d =
     bindE (mapE enc_constraint_item (d_satisfied d)) (\<lambda>sat.
     bindE (mapE enc_constraint_item (d_failed d)) (\<lambda>fail. mk_record
     [(1, CUuid (d_decision_id d)), (2, CUuid (d_left d)), (3, CUuid (d_right d)),
      (4, CUint (ucast (outcome_code (d_outcome d)))), (5, CUuid (d_rule_id d)), (6, CUint (d_rule_generation d)),
      (7, CUuid (d_policy_id d)), (8, CUint (d_policy_generation d)), (9, CSeq sat), (10, CSeq fail),
      (11, CSeq (map CStr (d_adaptations d))), (12, CSeq (map CStr (d_missing_evidence d))),
      (13, CSeq (map CStr (d_provenance d))), (14, CUint (d_registry_generation d)),
      (15, CBool (d_counterfactual d)), (16, CBytes (bytes_str (d_digest d)))]))"

text \<open>The document and the container around it.\<close>

definition snapshot_document :: "registry \<Rightarrow> canon res" where
  "snapshot_document R =
     bindE (mapE enc_profile (concat (map snd (profiles R)))) (\<lambda>ps.
     bindE (mapE (\<lambda>rr. enc_rule (rr_rule rr) (rr_active rr)) (map snd (rules R))) (\<lambda>rs.
     bindE (mapE enc_evidence (map snd (evidence R))) (\<lambda>evs.
     bindE (mapE enc_invalidation (invalidations R)) (\<lambda>ivs.
     bindE (mapE enc_decision (map snd (decisions R))) (\<lambda>ds. mk_record
       [(1, CUint (registry_gen R)), (2, CUuid (policy_id R)), (3, CSeq ps), (4, CSeq rs), (5, CSeq evs),
        (6, CSeq ivs), (7, CSeq ds)])))))"

definition container_magic :: bytes where
  "container_magic = [0x43, 0x52, 0x52, 0x45, 0x47]"

definition container :: "bytes \<Rightarrow> bytes" where
  "container payload = container_magic @ [1] @ payload @ sha256 payload"

definition snapshot :: "registry \<Rightarrow> bytes res" where
  "snapshot R =
     bindE (snapshot_document R) (\<lambda>doc. bindE (canonical_encode doc) (\<lambda>payload. Inr (container payload)))"

text \<open>
  \<^verbatim>\<open>save\<close> and \<^verbatim>\<open>load\<close> over a file system of whole files; \<open>writable\<close> says whether a path can be
  opened and written. \<^verbatim>\<open>load\<close> follows \<^verbatim>\<open>recover\<close> below.
\<close>

type_synonym files = "string \<rightharpoonup> bytes"

definition save :: "(string \<Rightarrow> bool) \<Rightarrow> string \<Rightarrow> registry \<Rightarrow> files \<Rightarrow> bool res \<times> files" where
  "save writable path R fs =
     (case snapshot R of
        Inl e \<Rightarrow> (Inl e, fs)
      | Inr bs \<Rightarrow> if writable path then (Inr True, fs(path \<mapsto> bs)) else (Inr False, fs))"

section \<open>Readers\<close>

definition dec_constraint :: "canon \<Rightarrow> constraint" where
  "dec_constraint c = \<lparr>c_op = enum_or pred_op_cast P_Eq c 1, c_field = str_or [] c 2,
     c_right_field = str_or [] c 3, c_expected = canon_or CNull c 4, c_expected2 = canon_or CNull c 5,
     c_set = seq_at c 6, c_note = str_or [] c 7\<rparr>"

definition dec_constraint_item :: "canon \<Rightarrow> constraint_item" where
  "dec_constraint_item c = \<lparr>ci_dimension = str_or [] c 1, ci_left = str_or [] c 2, ci_right = str_or [] c 3,
     ci_satisfied = bool_or False c 4, ci_note = str_or [] c 5\<rparr>"

text \<open>\<^verbatim>\<open>Canon::mk_record(v->as_record())\<close> sorts and checks the nested record once more.\<close>

definition record_field :: "canon \<Rightarrow> u32 \<Rightarrow> canon res" where
  "record_field c tag = (case field c tag of Some (CRecord r) \<Rightarrow> mk_record r | _ \<Rightarrow> Inr CNull)"

definition dec_profile :: "canon \<Rightarrow> profile_record res" where
  "dec_profile c =
     bindE (record_field c 4) (\<lambda>payload. Inr
     \<lparr>p_kind = enum_or profile_kind_cast PK_Model c 2, p_id = uuid_or zero_uuid c 1,
      p_generation = uint_or 0 c 3, p_payload = payload, p_deps = the_uuids (seq_at c 5),
      p_active = bool_or True c 6, p_superseded = bool_or False c 7, p_provenance = str_or [] c 8,
      p_fingerprint = str_or [] c 9\<rparr>)"

definition int32_or :: "i32 \<Rightarrow> canon \<Rightarrow> u32 \<Rightarrow> i32" where
  "int32_or d c tag = (case field c tag of Some (CInt v) \<Rightarrow> ucast v | _ \<Rightarrow> d)"

definition dec_rule :: "canon \<Rightarrow> rule_record" where
  "dec_rule c = \<lparr>rr_rule =
     \<lparr>r_rule_id = uuid_or zero_uuid c 1, r_generation = uint_or 0 c 2, r_domain = str_or [] c 3,
      r_scope = str_or [] c 4, r_priority = int32_or 0 c 5, r_active = True,
      r_kind = enum_or rule_kind_cast RK_Equality c 9, r_left_kind = opt_enum profile_kind_cast c 7,
      r_right_kind = opt_enum profile_kind_cast c 8, r_required = map dec_constraint (seq_at c 11),
      r_any_of = map dec_constraint (seq_at c 12), r_incompatible_with = map dec_constraint (seq_at c 13),
      r_conditions = map dec_constraint (seq_at c 14), r_adaptations = the_strs (seq_at c 15),
      r_outcome = enum_or outcome_cast Compatible c 10, r_provenance = str_or [] c 16\<rparr>,
     rr_active = bool_or True c 6, rr_superseded = False\<rparr>"

definition dec_evidence :: "canon \<Rightarrow> evidence_record res" where
  "dec_evidence c =
     bindE (record_field c 4) (\<lambda>value. Inr
     \<lparr>ev_id = uuid_or zero_uuid c 1, ev_subject = uuid_or zero_uuid c 2, ev_field = str_or [] c 3,
      ev_value = value, ev_provenance = str_or [] c 5, ev_source = str_or [] c 6,
      ev_source_generation = uint_or 0 c 7, ev_observed_timestamp = str_or [] c 8,
      ev_kind = enum_or evidence_kind_cast EK_Reported c 9, ev_validated = bool_or False c 10,
      ev_digest_hex = str_or [] c 11\<rparr>)"

definition dec_invalidation :: "canon \<Rightarrow> invalidation" where
  "dec_invalidation c = \<lparr>iv_target = uuid_or zero_uuid c 1, iv_generation = uint_or 0 c 2,
     iv_reason = str_or [] c 3, iv_fingerprint_before = str_or [] c 4\<rparr>"

text \<open>\<^verbatim>\<open>copy_n\<close> of at most 32 bytes over the zeroed digest.\<close>

definition digest_field :: "canon \<Rightarrow> u32 \<Rightarrow> digest" where
  "digest_field c tag = (case field c tag of
     Some (CBytes s) \<Rightarrow> take 32 (str_bytes s) @ drop (length s) (replicate 32 0) | _ \<Rightarrow> replicate 32 0)"

definition dec_decision :: "canon \<Rightarrow> decision" where
  "dec_decision c = \<lparr>d_decision_id = uuid_or zero_uuid c 1, d_left = uuid_or zero_uuid c 2,
     d_right = uuid_or zero_uuid c 3, d_outcome = enum_or outcome_cast Unknown c 4,
     d_rule_id = uuid_or zero_uuid c 5, d_rule_generation = uint_or 0 c 6,
     d_policy_id = uuid_or zero_uuid c 7, d_policy_generation = uint_or 0 c 8, d_evidence = [],
     d_satisfied = map dec_constraint_item (seq_at c 9), d_failed = map dec_constraint_item (seq_at c 10),
     d_adaptations = the_strs (seq_at c 11), d_missing_evidence = the_strs (seq_at c 12),
     d_provenance = the_strs (seq_at c 13), d_registry_generation = uint_or 0 c 14,
     d_counterfactual = bool_or False c 15, d_explanation = [], d_digest = digest_field c 16\<rparr>"

text \<open>Recovery reads the sections of the document in turn.\<close>

definition recover_profile :: "canon \<Rightarrow> (uuid, profile_record list) umap \<Rightarrow> (uuid, profile_record list) umap res" where
  "recover_profile e m =
     bindE (dec_profile e) (\<lambda>p.
     bindE (if p_fingerprint p = [] then Inr True
            else bindE (canonical_fingerprint_hex (p_payload p)) (\<lambda>fp. Inr (fp = p_fingerprint p))) (\<lambda>ok.
     if \<not> ok then Inl (Runtime_Error ''recover: profile fingerprint mismatch (corruption)'')
     else Inr (push (p_id p) p m)))"

fun recover_profiles :: "canon list \<Rightarrow> (uuid, profile_record list) umap \<Rightarrow> (uuid, profile_record list) umap res" where
  "recover_profiles [] m = Inr m"
| "recover_profiles (e # es) m = bindE (recover_profile e m) (recover_profiles es)"

definition rebuild_edges :: "(uuid, profile_record list) umap \<Rightarrow> uuid dep_graph" where
  "rebuild_edges m =
     fold (\<lambda>(u, hist) G. fold (\<lambda>p. add_dependency u (p_deps p)) hist G) m \<lparr>deps = [], reverse = []\<rparr>"

definition recover_rules :: "canon list \<Rightarrow> (uuid, rule_record) umap" where
  "recover_rules es = fold (\<lambda>e m. let rr = dec_rule e in AList.update (r_rule_id (rr_rule rr)) rr m) es []"

fun recover_evidence :: "canon list \<Rightarrow> (uuid, evidence_record) umap \<Rightarrow> (uuid, evidence_record) umap res" where
  "recover_evidence [] m = Inr m"
| "recover_evidence (e # es) m =
     bindE (dec_evidence e) (\<lambda>ev. recover_evidence es (AList.update (ev_id ev) ev m))"

definition recover_decisions :: "canon list \<Rightarrow> (digest, decision) umap" where
  "recover_decisions es = fold (\<lambda>e m. let d = dec_decision e in AList.update (d_digest d) d m) es []"

definition recover_document :: "canon \<Rightarrow> registry res" where
  "recover_document doc =
     bindE (recover_profiles (seq_at doc 3) []) (\<lambda>ps.
     bindE (recover_evidence (seq_at doc 5) []) (\<lambda>evs.
       let R = empty_registry\<lparr>registry_gen := uint_or 0 doc 1, policy_id := uuid_or zero_uuid doc 2,
             profiles := ps, graph := rebuild_edges ps, rules := recover_rules (seq_at doc 4), evidence := evs,
             invalidations := map dec_invalidation (seq_at doc 6), decisions := recover_decisions (seq_at doc 7)\<rparr>
       in if has_cycle (graph R) then Inl (Runtime_Error ''recover: dependency cycle in snapshot'') else Inr R))"

definition recover :: "bytes \<Rightarrow> registry res" where
  "recover bs =
     (if length bs < 5 + 1 + 32 then Inl (Runtime_Error ''recover: buffer too small'')
      else if take 5 bs \<noteq> container_magic then Inl (Runtime_Error ''recover: bad container magic'')
      else if bs ! 5 \<noteq> 1 then Inl (Runtime_Error ''recover: unsupported container version'')
      else
        let n = length bs - 5 - 1 - 32; payload = take n (drop 6 bs) in
        if sha256 payload \<noteq> take 32 (drop (6 + n) bs)
        then Inl (Runtime_Error ''recover: checksum mismatch (corruption)'')
        else bindE (canonical_decode payload) (\<lambda>doc.
          if kind doc \<noteq> KRecord then Inl (Runtime_Error ''recover: payload not a record'')
          else recover_document doc))"

definition load :: "string \<Rightarrow> files \<Rightarrow> registry res" where
  "load path fs =
     (case fs path of
        None \<Rightarrow> Inl (Runtime_Error (''load: cannot open '' @ path))
      | Some bs \<Rightarrow> recover bs)"

section \<open>Each reader undoes its writer\<close>

lemma mapE_total [simp]: "mapE (\<lambda>x. Inr (f x)) xs = Inr (map f xs)"
  by (rule mapE_Inr) simp

lemma scast_back: "ucast (scast (x :: i32) :: u64) = x"
  by (rule bit_word_eqI) (auto simp: bit_simps bit_word_scast_iff)

definition constraint_ok :: "constraint \<Rightarrow> bool" where
  "constraint_ok c \<longleftrightarrow> pred_op_ok (c_op c) \<and> canon_ok (c_expected c) \<and> canon_ok (c_expected2 c) \<and>
     (\<forall>v \<in> set (c_set c). canon_ok v)"

definition profile_record_ok :: "profile_record \<Rightarrow> bool" where
  "profile_record_ok p \<longleftrightarrow> profile_kind_ok (p_kind p) \<and> kind (p_payload p) = KRecord \<and> canon_ok (p_payload p)"

definition kind_option_ok :: "profile_kind option \<Rightarrow> bool" where
  "kind_option_ok k \<longleftrightarrow> (case k of None \<Rightarrow> True | Some k \<Rightarrow> profile_kind_ok k)"

definition rule_record_ok :: "rule_record \<Rightarrow> bool" where
  "rule_record_ok rr \<longleftrightarrow> (let r = rr_rule rr in
     rule_kind_ok (r_kind r) \<and> outcome_ok (r_outcome r) \<and> kind_option_ok (r_left_kind r) \<and>
     kind_option_ok (r_right_kind r) \<and> r_active r \<and>
     (\<forall>c \<in> set (r_required r) \<union> set (r_any_of r) \<union> set (r_incompatible_with r) \<union> set (r_conditions r).
        constraint_ok c))"

definition evidence_ok :: "evidence_record \<Rightarrow> bool" where
  "evidence_ok e \<longleftrightarrow> evidence_kind_ok (ev_kind e) \<and> kind (ev_value e) = KRecord \<and> canon_ok (ev_value e)"

definition decision_ok :: "decision \<Rightarrow> bool" where
  "decision_ok d \<longleftrightarrow> outcome_ok (d_outcome d) \<and> length (d_digest d) = 32"

lemmas casts_back = PredOp_u8.cast_u64 ProfileKind_u8.cast_u64 RuleKind_u8.cast_u64 Outcome_u8.cast_u64
  EvidenceKind_u8.cast_u64

interpretation constraint_codec: record_codec enc_constraint "\<lambda>c. Inr (dec_constraint c)" constraint_ok
  by unfold_locales (auto simp: enc_constraint_def dec_constraint_def constraint_ok_def codec_simps casts_back)

interpretation item_codec: record_codec enc_constraint_item "\<lambda>c. Inr (dec_constraint_item c)" "\<lambda>_. True"
  by unfold_locales (auto simp: enc_constraint_item_def dec_constraint_item_def codec_simps)

lemma record_field_ok: "canon_ok v \<Longrightarrow> kind v = KRecord \<Longrightarrow> mk_record (as_record v) = Inr v"
  by (cases v) (simp_all add: mk_record_tags_ok)

lemma record_field_back:
  "field c tag = Some v \<Longrightarrow> canon_ok v \<Longrightarrow> kind v = KRecord \<Longrightarrow> record_field c tag = Inr v"
  by (cases v) (simp_all add: record_field_def mk_record_tags_ok)

interpretation profile_codec: record_codec enc_profile dec_profile profile_record_ok
proof
  fix p assume ok: "profile_record_ok p"
  then show "\<exists>c. enc_profile p = Inr c \<and> canon_ok c \<and> dec_profile c = Inr p"
    by (auto simp: enc_profile_def dec_profile_def profile_record_ok_def record_field_ok record_field_back [of _ _ "p_payload p"]
        codec_simps casts_back)
qed

interpretation evidence_codec: record_codec enc_evidence dec_evidence evidence_ok
proof
  fix e assume ok: "evidence_ok e"
  then show "\<exists>c. enc_evidence e = Inr c \<and> canon_ok c \<and> dec_evidence c = Inr e"
    by (auto simp: enc_evidence_def dec_evidence_def evidence_ok_def record_field_ok record_field_back [of _ _ "ev_value e"]
        codec_simps casts_back)
qed

interpretation invalidation_codec: record_codec enc_invalidation "\<lambda>c. Inr (dec_invalidation c)" "\<lambda>_. True"
  by unfold_locales (auto simp: enc_invalidation_def dec_invalidation_def codec_simps)

lemma kind_option_back:
  "kind_option_ok k \<Longrightarrow> map_option (\<lambda>k. profile_kind_cast (ucast (ucast (profile_kind_code k) :: u64))) k = k"
  by (cases k) (simp_all add: kind_option_ok_def casts_back)

lemma constraints_written:
  assumes "\<forall>c \<in> set cs. constraint_ok c"
  obtains es where "mapE enc_constraint cs = Inr es" "\<forall>e \<in> set es. canon_ok e" "map dec_constraint es = cs"
  using constraint_codec.list_written [OF assms] by auto

interpretation rule_codec:
  record_codec "\<lambda>rr. enc_rule (rr_rule rr) (rr_active rr)" "\<lambda>c. Inr (dec_rule c)"
    "\<lambda>rr. rule_record_ok rr \<and> \<not> rr_superseded rr"
proof
  fix rr assume ok: "rule_record_ok rr \<and> \<not> rr_superseded rr"
  let ?r = "rr_rule rr"
  obtain e1 where e1: "mapE enc_constraint (r_required ?r) = Inr e1" "\<forall>e \<in> set e1. canon_ok e"
      "map dec_constraint e1 = r_required ?r"
    by (rule constraints_written [of "r_required ?r"]) (use ok in \<open>auto simp: rule_record_ok_def Let_def\<close>)
  obtain e2 where e2: "mapE enc_constraint (r_any_of ?r) = Inr e2" "\<forall>e \<in> set e2. canon_ok e"
      "map dec_constraint e2 = r_any_of ?r"
    by (rule constraints_written [of "r_any_of ?r"]) (use ok in \<open>auto simp: rule_record_ok_def Let_def\<close>)
  obtain e3 where e3: "mapE enc_constraint (r_incompatible_with ?r) = Inr e3" "\<forall>e \<in> set e3. canon_ok e"
      "map dec_constraint e3 = r_incompatible_with ?r"
    by (rule constraints_written [of "r_incompatible_with ?r"]) (use ok in \<open>auto simp: rule_record_ok_def Let_def\<close>)
  obtain e4 where e4: "mapE enc_constraint (r_conditions ?r) = Inr e4" "\<forall>e \<in> set e4. canon_ok e"
      "map dec_constraint e4 = r_conditions ?r"
    by (rule constraints_written [of "r_conditions ?r"]) (use ok in \<open>auto simp: rule_record_ok_def Let_def\<close>)
  have flags: "rr_superseded rr = False" "r_active ?r = True"
    using ok by (simp_all add: rule_record_ok_def Let_def)
  have "rule_kind_ok (r_kind ?r)" "outcome_ok (r_outcome ?r)" "kind_option_ok (r_left_kind ?r)"
    "kind_option_ok (r_right_kind ?r)"
    using ok by (simp_all add: rule_record_ok_def Let_def)
  then show "\<exists>c. enc_rule ?r (rr_active rr) = Inr c \<and> canon_ok c \<and> Inr (dec_rule c) = Inr rr"
    using flags e1(2,3) e2(2,3) e3(2,3) e4(2,3)
    by (cases "r_left_kind ?r"; cases "r_right_kind ?r")
      (auto simp: enc_rule_def dec_rule_def int32_or_def e1(1) e2(1) e3(1) e4(1) codec_simps casts_back scast_back
        kind_option_ok_def intro!: rule_record.equality rule.equality)
qed

text \<open>A decision comes back without its explanation and its evidence list.\<close>

definition restored_decision :: "decision \<Rightarrow> decision" where
  "restored_decision d = d\<lparr>d_evidence := [], d_explanation := []\<rparr>"

lemma items_written:
  obtains es where "mapE enc_constraint_item cs = Inr es" "\<forall>e \<in> set es. canon_ok e" "map dec_constraint_item es = cs"
  using item_codec.list_written [of cs] by auto

lemma decision_written:
  assumes "decision_ok d"
  shows "\<exists>c. enc_decision d = Inr c \<and> canon_ok c \<and> dec_decision c = restored_decision d"
proof -
  obtain e1 where e1: "mapE enc_constraint_item (d_satisfied d) = Inr e1" "\<forall>e \<in> set e1. canon_ok e"
      "map dec_constraint_item e1 = d_satisfied d"
    by (rule items_written)
  obtain e2 where e2: "mapE enc_constraint_item (d_failed d) = Inr e2" "\<forall>e \<in> set e2. canon_ok e"
      "map dec_constraint_item e2 = d_failed d"
    by (rule items_written)
  show ?thesis
    using assms e1 e2
    by (auto simp: enc_decision_def dec_decision_def restored_decision_def digest_field_def decision_ok_def
        codec_simps casts_back intro!: decision.equality)
qed

lemma decisions_written:
  assumes "\<forall>d \<in> set ds. decision_ok d"
  obtains cs where "mapE enc_decision ds = Inr cs" "\<forall>c \<in> set cs. canon_ok c"
    "map dec_decision cs = map restored_decision ds"
proof -
  have "\<exists>cs. mapE enc_decision ds = Inr cs \<and> (\<forall>c \<in> set cs. canon_ok c) \<and> map dec_decision cs = map restored_decision ds"
    using assms
  proof (induction ds)
    case (Cons d ds)
    then show ?case
      using decision_written [of d] by auto
  qed simp
  then show thesis
    using that by blast
qed

section \<open>The sections of the document\<close>

lemma update_fresh: "k \<notin> fst ` set m \<Longrightarrow> AList.update k v m = m @ [(k, v)]"
  by (induction m) auto

lemma set_update_subset: "set (AList.update k v m) \<subseteq> insert (k, v) (set m)"
  by (induction m) auto

lemma update_last: "k \<notin> fst ` set m \<Longrightarrow> AList.update k v (m @ [(k, w)]) = m @ [(k, v)]"
  by (induction m) auto

text \<open>Storing values under the keys they carry, in order, rebuilds a keyed store.\<close>

lemma fold_update_fresh:
  assumes "distinct (map key vs)" and "fst ` set m \<inter> key ` set vs = {}"
  shows "fold (\<lambda>v m. AList.update (key v) v m) vs m = m @ map (\<lambda>v. (key v, v)) vs"
  using assms
proof (induction vs arbitrary: m)
  case (Cons v vs)
  then have "AList.update (key v) v m = m @ [(key v, v)]"
    by (intro update_fresh) auto
  with Cons show ?case by auto
qed simp

lemma fold_update_keyed:
  assumes "keyed key m"
  shows "fold (\<lambda>v m. AList.update (key v) v m) (map snd m) [] = m"
proof -
  have k: "map (\<lambda>e. key (snd e)) m = keys m" "\<forall>e \<in> set m. key (snd e) = fst e"
    using assms unfolding keyed_def by (auto intro!: map_cong)
  have m: "map (\<lambda>v. (key v, v)) (map snd m) = m"
    unfolding map_map by (rule map_idI) (use k(2) in auto)
  have "distinct (map key (map snd m))"
    unfolding map_map comp_def k(1) using assms by (simp add: keyed_def)
  then show ?thesis
    using fold_update_fresh [of key "map snd m" "[]"] m by simp
qed

lemma fold_push_same:
  "u \<notin> fst ` set m \<Longrightarrow> \<forall>p \<in> set hist. p_id p = u \<Longrightarrow>
     fold (\<lambda>p. push (p_id p) p) hist (m @ [(u, h)]) = m @ [(u, h @ hist)]"
proof (induction hist arbitrary: h)
  case (Cons p hist)
  have "map_of m u = None"
    using Cons.prems(1) by (simp add: map_of_eq_None_iff)
  with Cons show ?case
    by (simp add: push_def update_last map_add_def)
qed simp

lemma fold_push_history:
  assumes "u \<notin> fst ` set m" and "\<forall>p \<in> set hist. p_id p = u" and "hist \<noteq> []"
  shows "fold (\<lambda>p. push (p_id p) p) hist m = m @ [(u, hist)]"
proof -
  obtain p ps where hist: "hist = p # ps"
    using assms(3) by (cases hist) auto
  have "map_of m u = None"
    using assms(1) by (simp add: map_of_eq_None_iff)
  then have "push u p m = m @ [(u, [p])]"
    using assms(1) by (simp add: push_def update_fresh)
  then show ?thesis
    using fold_push_same [OF assms(1), of ps "[p]"] assms(2) hist by simp
qed

lemma fold_push_profiles:
  assumes "distinct (keys m)" and "\<forall>(u, hist) \<in> set m. hist \<noteq> [] \<and> (\<forall>p \<in> set hist. p_id p = u)"
    and "fst ` set m0 \<inter> fst ` set m = {}"
  shows "fold (\<lambda>p. push (p_id p) p) (concat (map snd m)) m0 = m0 @ m"
  using assms
proof (induction m arbitrary: m0)
  case (Cons e m)
  obtain u hist where e: "e = (u, hist)" by (cases e)
  have "fold (\<lambda>p. push (p_id p) p) hist m0 = m0 @ [e]"
    using Cons.prems e by (auto intro: fold_push_history)
  then show ?case
    using Cons.IH [of "m0 @ [e]"] Cons.prems e by auto
qed simp

lemma profiles_ok_history:
  assumes "profiles_ok m"
  shows "\<forall>(u, hist) \<in> set m. hist \<noteq> [] \<and>
    (\<forall>p \<in> set hist. p_id p = u \<and> canonical_fingerprint_hex (p_payload p) = Inr (p_fingerprint p))"
  using assms unfolding profiles_ok_def history_ok_def by fastforce

lemma recover_profiles_fold:
  assumes "mapE dec_profile cs = Inr ps"
    and "\<forall>p \<in> set ps. canonical_fingerprint_hex (p_payload p) = Inr (p_fingerprint p)"
  shows "recover_profiles cs m = Inr (fold (\<lambda>p. push (p_id p) p) ps m)"
  using assms
proof (induction cs arbitrary: ps m)
  case (Cons c cs)
  then obtain p ps' where "dec_profile c = Inr p" "mapE dec_profile cs = Inr ps'" "ps = p # ps'"
    by (auto simp: bindE_eq_Inr)
  then show ?case
    using Cons by (simp add: recover_profile_def)
qed simp

lemma recover_profile_Inr:
  "recover_profile c m = Inr m' \<Longrightarrow> \<exists>p. m' = push (p_id p) p m \<and>
     (p_fingerprint p = [] \<or> canonical_fingerprint_hex (p_payload p) = Inr (p_fingerprint p))"
  by (auto simp: recover_profile_def bindE_eq_Inr split: if_splits)

lemma recover_profiles_fingerprints:
  assumes "recover_profiles cs m = Inr m'"
    and "\<forall>hist \<in> snd ` set m. \<forall>p \<in> set hist.
      p_fingerprint p = [] \<or> canonical_fingerprint_hex (p_payload p) = Inr (p_fingerprint p)"
  shows "\<forall>hist \<in> snd ` set m'. \<forall>p \<in> set hist.
      p_fingerprint p = [] \<or> canonical_fingerprint_hex (p_payload p) = Inr (p_fingerprint p)"
  using assms
proof (induction cs arbitrary: m)
  case (Cons c cs)
  let ?fine = "\<lambda>p. p_fingerprint p = [] \<or> canonical_fingerprint_hex (p_payload p) = Inr (p_fingerprint p)"
  obtain p where p: "?fine p" "recover_profiles cs (push (p_id p) p m) = Inr m'"
    using Cons.prems(1) by (auto simp: bindE_eq_Inr dest!: recover_profile_Inr)
  have "set (push (p_id p) p m) \<subseteq> insert (p_id p, adjacent m (p_id p) @ [p]) (set m)"
    unfolding push_def adjacent_def by (rule set_update_subset)
  moreover have "\<forall>q \<in> set (adjacent m (p_id p)). ?fine q"
  proof (cases "map_of m (p_id p)")
    case (Some h)
    then have "h \<in> snd ` set m"
      by (metis image_eqI map_of_SomeD snd_conv)
    with Cons.prems(2) have "\<forall>q \<in> set h. ?fine q"
      by blast
    with Some show ?thesis
      by (simp add: adjacent_def)
  qed (simp add: adjacent_def)
  ultimately have "\<forall>hist \<in> snd ` set (push (p_id p) p m). \<forall>q \<in> set hist. ?fine q"
    using Cons.prems(2) p(1) by fastforce
  with Cons.IH p(2) show ?case by blast
qed simp

lemma recover_evidence_fold:
  "mapE dec_evidence cs = Inr es \<Longrightarrow> recover_evidence cs m = Inr (fold (\<lambda>e m. AList.update (ev_id e) e m) es m)"
  by (induction cs arbitrary: es m) (auto simp: bindE_eq_Inr)

lemma recover_rules_fold:
  "recover_rules cs = fold (\<lambda>rr m. AList.update (r_rule_id (rr_rule rr)) rr m) (map dec_rule cs) []"
  by (simp add: recover_rules_def Let_def fold_map comp_def)

lemma recover_decisions_fold:
  "recover_decisions cs = fold (\<lambda>d m. AList.update (d_digest d) d m) (map dec_decision cs) []"
  by (simp add: recover_decisions_def Let_def fold_map comp_def)

section \<open>The rebuilt dependency graph\<close>

lemma adjacent_fold_history:
  "hist \<noteq> [] \<Longrightarrow> adjacent (deps (fold (\<lambda>p. add_dependency u (p_deps p)) hist G)) x =
     (if x = u then filter (\<lambda>d. d \<noteq> u) (p_deps (last hist)) else adjacent (deps G) x)"
proof (induction hist arbitrary: G)
  case (Cons p hist)
  then show ?case
    by (cases "hist = []") (simp_all add: adjacent_add_dependency)
qed simp

lemma adjacent_rebuild:
  assumes "distinct (keys m)" and "\<forall>(u, hist) \<in> set m. hist \<noteq> []"
  shows "adjacent (deps (fold (\<lambda>(u, hist) G. fold (\<lambda>p. add_dependency u (p_deps p)) hist G) m G)) x =
    (case map_of m x of None \<Rightarrow> adjacent (deps G) x | Some hist \<Rightarrow> filter (\<lambda>d. d \<noteq> x) (p_deps (last hist)))"
  using assms
proof (induction m arbitrary: G)
  case (Cons e m)
  obtain u hist where e: "e = (u, hist)" by (cases e)
  have "map_of m u = None"
    using Cons.prems(1) e by (simp add: map_of_eq_None_iff)
  then show ?case
    using Cons e by (auto simp: adjacent_fold_history split: option.splits)
qed simp

lemma graph_ok_rebuild: "graph_ok (rebuild_edges m)"
proof -
  have hist: "graph_ok G \<Longrightarrow> graph_ok (fold (\<lambda>p. add_dependency u (p_deps p)) hist G)" for u hist G
    by (induction hist arbitrary: G) (simp_all add: graph_ok_add_dependency)
  have all: "graph_ok G \<Longrightarrow> graph_ok (fold (\<lambda>(u, hist) G. fold (\<lambda>p. add_dependency u (p_deps p)) hist G) m G)" for G
    by (induction m arbitrary: G) (auto simp: hist)
  show ?thesis
    unfolding rebuild_edges_def by (rule all) (simp add: graph_ok_def adjacent_def no_empty_def)
qed

text \<open>
  The edges of an identity are the dependencies of its newest generation. The registry keeps it that
  way except after a rejected supersession, which drops the edges only.
\<close>

definition deps_current :: "registry \<Rightarrow> bool" where
  "deps_current R \<longleftrightarrow> (\<forall>x. dependencies_of (graph R) x =
     (case map_of (profiles R) x of None \<Rightarrow> [] | Some hist \<Rightarrow> filter (\<lambda>d. d \<noteq> x) (p_deps (last hist))))"

lemma dependencies_rebuild:
  assumes "profiles_ok (profiles R)" and "deps_current R"
  shows "dependencies_of (rebuild_edges (profiles R)) x = dependencies_of (graph R) x"
proof -
  have ne: "\<forall>(u, hist) \<in> set (profiles R). hist \<noteq> []" and "distinct (keys (profiles R))"
    using assms(1) unfolding profiles_ok_def history_ok_def by fastforce+
  then show ?thesis
    using adjacent_rebuild [of "profiles R" "\<lparr>deps = [], reverse = []\<rparr>" x] assms(2)
    by (auto simp: rebuild_edges_def deps_current_def dependencies_of_def adjacent_def split: option.splits)
qed

lemma has_cycle_dependencies:
  assumes "\<And>x. dependencies_of G x = dependencies_of G' x"
  shows "has_cycle G = has_cycle G'"
proof -
  have "edges (deps G) = edges (deps G')"
    using assms by (auto simp: edges_def dependencies_of_def)
  then show ?thesis
    by (simp add: has_cycle_edges)
qed

section \<open>What recovery restores\<close>

text \<open>
  What a registry must satisfy to survive: every object can be written and the document's lengths fit
  32 bits.
\<close>

definition objects_ok :: "registry \<Rightarrow> bool" where
  "objects_ok R \<longleftrightarrow> (\<forall>hist \<in> snd ` set (profiles R). \<forall>p \<in> set hist. profile_record_ok p) \<and>
     (\<forall>rr \<in> snd ` set (rules R). rule_record_ok rr) \<and> (\<forall>e \<in> snd ` set (evidence R). evidence_ok e) \<and>
     (\<forall>d \<in> snd ` set (decisions R). decision_ok d)"

definition persistable :: "registry \<Rightarrow> bool" where
  "persistable R \<longleftrightarrow> registry_ok R \<and> deps_current R \<and> objects_ok R \<and>
     (\<forall>doc. snapshot_document R = Inr doc \<longrightarrow> canon_fits doc)"

definition restored_rule :: "rule_record \<Rightarrow> rule_record" where
  "restored_rule rr = rr\<lparr>rr_superseded := False\<rparr>"

text \<open>
  What comes back: everything but the superseded mark of rules, the explanations and evidence lists of
  decisions, and the counters for rule, evidence and capability generations.
\<close>

definition restored :: "registry \<Rightarrow> registry" where
  "restored R = empty_registry\<lparr>registry_gen := registry_gen R, policy_id := policy_id R,
     profiles := profiles R, graph := rebuild_edges (profiles R),
     rules := map (\<lambda>(u, rr). (u, restored_rule rr)) (rules R), evidence := evidence R,
     invalidations := invalidations R,
     decisions := map (\<lambda>(u, d). (u, restored_decision d)) (decisions R)\<rparr>"

lemma keyed_map:
  assumes "keyed key m" and "\<And>v. key (f v) = key v"
  shows "keyed key (map (\<lambda>(k, v). (k, f v)) m)"
proof -
  have "map_of (map (\<lambda>(k, v). (k, f v)) m) k = map_option f (map_of m k)" for k
    by (simp add: map_of_map)
  then show ?thesis
    using assms by (auto simp: keyed_def comp_def case_prod_unfold simp del: map_of_eq_Some_iff)
qed

lemma registry_ok_restored:
  assumes "registry_ok R" and "deps_current R"
  shows "registry_ok (restored R)"
proof -
  have "\<not> has_cycle (rebuild_edges (profiles R))"
    using has_cycle_dependencies [of "rebuild_edges (profiles R)" "graph R"] dependencies_rebuild assms
    by (simp add: registry_ok_def)
  then show ?thesis
    using assms keyed_map [of _ "rules R" restored_rule] keyed_map [of _ "decisions R" restored_decision]
    by (simp add: registry_ok_def restored_def stores_ok_def graph_ok_rebuild restored_rule_def restored_decision_def)
qed

text \<open>The written document, section by section, and what reading it gives.\<close>

lemma document_written:
  assumes "registry_ok R" and "objects_ok R" and "deps_current R"
  shows "\<exists>doc. snapshot_document R = Inr doc \<and> canon_ok doc \<and> kind doc = KRecord \<and>
    recover_document doc = Inr (restored R)"
proof -
  have ok: "profiles_ok (profiles R)" "keyed (\<lambda>rr. r_rule_id (rr_rule rr)) (rules R)" "keyed ev_id (evidence R)"
    "keyed d_digest (decisions R)"
    using assms(1) by (simp_all add: registry_ok_def stores_ok_def)
  let ?ps = "concat (map snd (profiles R))" and ?rs = "map restored_rule (map snd (rules R))"
  have "\<forall>p \<in> set ?ps. profile_record_ok p"
    using assms(2) by (auto simp: objects_ok_def)
  then obtain cp where cp: "mapE enc_profile ?ps = Inr cp" "\<forall>c \<in> set cp. canon_ok c" "mapE dec_profile cp = Inr ?ps"
    using profile_codec.list_written by blast
  have "\<forall>rr \<in> set ?rs. rule_record_ok rr \<and> \<not> rr_superseded rr"
    using assms(2) by (auto simp: objects_ok_def restored_rule_def rule_record_ok_def)
  from rule_codec.list_written [OF this] obtain cr where
    cr: "mapE (\<lambda>rr. enc_rule (rr_rule rr) (rr_active rr)) ?rs = Inr cr" "\<forall>c \<in> set cr. canon_ok c" "map dec_rule cr = ?rs"
    by auto
  have cr': "mapE (\<lambda>rr. enc_rule (rr_rule rr) (rr_active rr)) (map snd (rules R)) = Inr cr"
    using cr(1) by (simp add: mapE_eq_Inr list_all2_map1 restored_rule_def)
  have "\<forall>e \<in> set (map snd (evidence R)). evidence_ok e"
    using assms(2) by (auto simp: objects_ok_def)
  then obtain ce where ce: "mapE enc_evidence (map snd (evidence R)) = Inr ce" "\<forall>c \<in> set ce. canon_ok c"
      "mapE dec_evidence ce = Inr (map snd (evidence R))"
    using evidence_codec.list_written by blast
  obtain ci where ci: "mapE enc_invalidation (invalidations R) = Inr ci" "\<forall>c \<in> set ci. canon_ok c"
      "map dec_invalidation ci = invalidations R"
    using invalidation_codec.list_written [of "invalidations R"] by auto
  obtain cd where cd: "mapE enc_decision (map snd (decisions R)) = Inr cd" "\<forall>c \<in> set cd. canon_ok c"
      "map dec_decision cd = map restored_decision (map snd (decisions R))"
    by (rule decisions_written [of "map snd (decisions R)"]) (use assms(2) in \<open>auto simp: objects_ok_def\<close>)
  let ?doc = "CRecord [(1, CUint (registry_gen R)), (2, CUuid (policy_id R)), (3, CSeq cp), (4, CSeq cr), (5, CSeq ce),
      (6, CSeq ci), (7, CSeq cd)]"
  have doc: "snapshot_document R = Inr ?doc" "canon_ok ?doc"
    using cp cr' cr(2) ce ci cd by (simp_all add: snapshot_document_def mk_record_tags_ok)
  have fields: "seq_at ?doc 3 = cp" "seq_at ?doc 4 = cr" "seq_at ?doc 5 = ce" "seq_at ?doc 6 = ci" "seq_at ?doc 7 = cd"
    "uint_or 0 ?doc 1 = registry_gen R" "uuid_or zero_uuid ?doc 2 = policy_id R"
    by (simp_all add: codec_simps)
  note hs = profiles_ok_history [OF ok(1)]
  have fps: "\<forall>p \<in> set ?ps. canonical_fingerprint_hex (p_payload p) = Inr (p_fingerprint p)"
    using hs by auto
  have ids: "\<forall>(u, hist) \<in> set (profiles R). hist \<noteq> [] \<and> (\<forall>p \<in> set hist. p_id p = u)"
    using hs by auto
  have "distinct (keys (profiles R))"
    using ok(1) by (simp add: profiles_ok_def)
  from fold_push_profiles [OF this ids, of "[]"] have ps: "recover_profiles cp [] = Inr (profiles R)"
    using recover_profiles_fold [OF cp(3) fps, of "[]"] by simp
  have rs: "recover_rules cr = map (\<lambda>(u, rr). (u, restored_rule rr)) (rules R)"
    using fold_update_keyed [OF keyed_map [OF ok(2), of restored_rule]]
    by (simp add: recover_rules_fold cr(3) restored_rule_def comp_def case_prod_unfold)
  have es: "recover_evidence ce [] = Inr (evidence R)"
    using recover_evidence_fold [OF ce(3)] fold_update_keyed [OF ok(3)] by simp
  have ds: "recover_decisions cd = map (\<lambda>(u, d). (u, restored_decision d)) (decisions R)"
    using fold_update_keyed [OF keyed_map [OF ok(4), of restored_decision]]
    by (simp add: recover_decisions_fold cd(3) restored_decision_def comp_def case_prod_unfold)
  have "\<not> has_cycle (rebuild_edges (profiles R))"
    using registry_ok_restored [OF assms(1,3)] by (simp add: registry_ok_def restored_def)
  then have "recover_document ?doc = Inr (restored R)"
    using ci(3) by (simp add: recover_document_def fields ps rs es ds restored_def)
  with doc show ?thesis by auto
qed

section \<open>The container\<close>

lemma recover_container:
  "recover (container payload) = bindE (canonical_decode payload) (\<lambda>doc.
     if kind doc \<noteq> KRecord then Inl (Runtime_Error ''recover: payload not a record'') else recover_document doc)"
proof -
  have m: "length container_magic = 5"
    by (simp add: container_magic_def)
  then show ?thesis
    by (simp add: recover_def container_def Let_def nth_append)
qed

lemma recover_is_container:
  assumes "recover bs = Inr R"
  shows "\<exists>payload. bs = container payload"
proof -
  let ?n = "length bs - 38"
  let ?p = "take ?n (drop 6 bs)"
  have len: "38 \<le> length bs" and m: "take 5 bs = container_magic" and v: "bs ! 5 = 1"
    and sha: "sha256 ?p = take 32 (drop (6 + ?n) bs)"
    using assms by (auto simp: recover_def Let_def split: if_splits)
  have "bs = take 5 bs @ [bs ! 5] @ drop 6 bs"
    using len id_take_nth_drop [of 5 bs] by simp
  moreover have "drop 6 bs = ?p @ drop (6 + ?n) bs"
    by (metis append_take_drop_id drop_drop add.commute)
  moreover have "drop (6 + ?n) bs = take 32 (drop (6 + ?n) bs)"
    using len by simp
  ultimately have "bs = container ?p"
    unfolding container_def m [symmetric] v [symmetric] sha by simp
  then show ?thesis by blast
qed

lemma recover_document_encoded:
  assumes "canon_ok doc" and "canon_fits doc" and "kind doc = KRecord"
  shows "recover (container (k_magic @ [k_version] @ enc doc)) = recover_document doc"
  using canonical_decode_encode_enc [OF assms(1,2)] assms(3) by (simp add: recover_container)

section \<open>Evaluation after recovery\<close>

lemma evaluate_restored: "evaluate_locked left right requirement (restored R) = evaluate_locked left right requirement R"
proof -
  have "current u (restored R) = current u R" for u
    by (simp add: current_def restored_def)
  moreover have "candidates ok l r (restored R) = candidates ok l r R" for ok l r
    by (simp add: candidates_def restored_def restored_rule_def applicable_def filter_map comp_def case_prod_unfold)
  moreover have "decision_identity d s q (restored R) = decision_identity d s q R" for d s q
    by (simp add: decision_identity_def restored_def)
  moreover have "policy_id (restored R) = policy_id R" "registry_gen (restored R) = registry_gen R"
    by (simp_all add: restored_def)
  ultimately show ?thesis
    unfolding evaluate_locked_def by (simp only:)
qed

lemma recover_snapshot:
  assumes "persistable R"
  shows "\<exists>bs. snapshot R = Inr bs \<and> recover bs = Inr (restored R)"
proof -
  have R: "registry_ok R" "objects_ok R" "deps_current R" "\<And>doc. snapshot_document R = Inr doc \<Longrightarrow> canon_fits doc"
    using assms by (simp_all add: persistable_def)
  obtain doc where doc: "snapshot_document R = Inr doc" "canon_ok doc" "kind doc = KRecord"
      "recover_document doc = Inr (restored R)"
    using document_written [OF R(1-3)] by blast
  have "snapshot R = Inr (container (k_magic @ [k_version] @ enc doc))"
    using doc(1,2) by (simp add: snapshot_def canonical_encode_enc)
  moreover have "recover (container (k_magic @ [k_version] @ enc doc)) = Inr (restored R)"
    using recover_document_encoded [OF doc(2) R(4) [OF doc(1)] doc(3)] doc(4) by simp
  ultimately show ?thesis by blast
qed

lemma example_persistable: "persistable example_registry"
proof -
  have cur: "deps_current example_registry"
    by (simp add: deps_current_def example_registry_def dependencies_of_def adjacent_def)
  have ok: "objects_ok example_registry"
    by (simp add: objects_ok_def example_registry_def empty_registry_def profile_record_ok_def model_payload_def)
  have "canon_fits doc" if "snapshot_document example_registry = Inr doc" for doc
    using that by (auto simp: snapshot_document_def example_registry_def empty_registry_def enc_profile_def
        model_payload_def mk_record_tags_ok example_profile_def new_profile_def bytes_length)
  then show ?thesis
    using cur ok example_registry_ok by (simp add: persistable_def)
qed

section \<open>Properties\<close>

text \<open>
  Property C10. A registry that can be written survives a snapshot: recovery of its bytes succeeds and
  gives a well-formed registry with the same profiles and histories, policy, generation, rules,
  evidence and invalidations, the same dependencies, the same decisions up to their explanations, and
  every pair and requirement is decided exactly as before.
\<close>

theorem snapshot_recover:
  assumes "persistable R"
  shows "\<exists>bs. snapshot R = Inr bs \<and> recover bs = Inr (restored R) \<and> registry_ok (restored R) \<and>
    (\<forall>x. dependencies_of (graph (restored R)) x = dependencies_of (graph R) x) \<and>
    (\<forall>left right q. evaluate_locked left right q (restored R) = evaluate_locked left right q R) \<and>
    (writable path \<longrightarrow> (case save writable path R fs of (ok, fs') \<Rightarrow> ok = Inr True \<and> load path fs' = Inr (restored R)))"
proof -
  have R: "registry_ok R" "deps_current R"
    using assms by (simp_all add: persistable_def)
  have "dependencies_of (graph (restored R)) x = dependencies_of (graph R) x" for x
    using dependencies_rebuild [OF _ R(2)] R(1) by (simp add: restored_def registry_ok_def)
  then show ?thesis
    using recover_snapshot [OF assms] registry_ok_restored [OF R] evaluate_restored
    by (auto simp: save_def load_def)
qed

theorem snapshot_recover_witness:
  "\<exists>bs. snapshot example_registry = Inr bs \<and> recover bs = Inr (restored example_registry) \<and>
     dependencies_of (graph (restored example_registry)) (Uuid 2) = [Uuid 1]"
proof -
  have "dependencies_of (graph example_registry) (Uuid 2) = [Uuid 1]"
    by (simp add: example_registry_def dependencies_of_def adjacent_def)
  then show ?thesis
    using snapshot_recover [of example_registry "\<lambda>_. True" "''r.bin''" "\<lambda>_. None"] example_persistable by auto
qed

text \<open>
  Property C30. Recovery accepts nothing but a container: magic, version, the canonical encoding of one
  well-formed record, and its SHA-256; what it returns is read from that record. The dependency graph
  of the result is acyclic and consistent. A fingerprint stored with a profile is that of its payload,
  or it is empty: the code does not compare an empty fingerprint, so a profile without one is accepted with any
  payload (\<open>missing_fingerprint_accepted\<close>), although the documentation has every fingerprint verified. A document
  exchanged under the same checksum is only accepted when it collides with the original under SHA-256.
\<close>

theorem recover_accepts:
  assumes "recover bs = Inr R"
  shows "\<exists>doc. bs = container (k_magic @ [k_version] @ enc doc) \<and> canon_ok doc \<and> canon_fits doc \<and> kind doc = KRecord \<and>
    recover_document doc = Inr R \<and> graph_ok (graph R) \<and> \<not> has_cycle (graph R) \<and>
    (\<forall>hist \<in> snd ` set (profiles R). \<forall>p \<in> set hist.
       p_fingerprint p = [] \<or> canonical_fingerprint_hex (p_payload p) = Inr (p_fingerprint p)) \<and>
    (\<forall>doc' R'. recover (container_magic @ [1] @ (k_magic @ [k_version] @ enc doc') @
         sha256 (k_magic @ [k_version] @ enc doc)) = Inr R' \<longrightarrow>
       sha256 (k_magic @ [k_version] @ enc doc') = sha256 (k_magic @ [k_version] @ enc doc))"
proof -
  obtain payload where bs: "bs = container payload"
    using recover_is_container [OF assms] by blast
  obtain doc where doc: "canonical_decode payload = Inr doc" "kind doc = KRecord" "recover_document doc = Inr R"
    using assms unfolding bs recover_container by (auto simp: bindE_eq_Inr split: if_splits)
  note enc = canonical_decode_enc [OF doc(1)]
  obtain ps where ps: "recover_profiles (seq_at doc 3) [] = Inr ps" "profiles R = ps" "graph R = rebuild_edges ps"
      "\<not> has_cycle (graph R)"
    using doc(3) by (auto simp: recover_document_def bindE_eq_Inr Let_def split: if_splits)
  have fp: "\<forall>hist \<in> snd ` set ps. \<forall>p \<in> set hist.
      p_fingerprint p = [] \<or> canonical_fingerprint_hex (p_payload p) = Inr (p_fingerprint p)"
    using recover_profiles_fingerprints [OF ps(1)] by simp
  have "sha256 (k_magic @ [k_version] @ enc doc') = sha256 (k_magic @ [k_version] @ enc doc)"
    if r: "recover (container_magic @ [1] @ (k_magic @ [k_version] @ enc doc') @
      sha256 (k_magic @ [k_version] @ enc doc)) = Inr R'" for doc' R'
  proof -
    obtain payload' where "container_magic @ [1] @ (k_magic @ [k_version] @ enc doc') @
        sha256 (k_magic @ [k_version] @ enc doc) = container payload'"
      using recover_is_container [OF r] by blast
    then have "(k_magic @ [k_version] @ enc doc') @ sha256 (k_magic @ [k_version] @ enc doc) =
        payload' @ sha256 payload'"
      by (simp add: container_def)
    then show ?thesis
      by (metis append_eq_append_conv length_sha256)
  qed
  with bs enc doc(2,3) ps fp graph_ok_rebuild show ?thesis
    by (intro exI [of _ doc]) auto
qed

theorem recover_accepts_witness:
  "\<exists>R. recover (container (k_magic @ [k_version] @ enc (CRecord []))) = Inr R \<and> \<not> has_cycle (graph R)"
proof -
  have "recover_document (CRecord []) = Inr (empty_registry\<lparr>profiles := []\<rparr>)"
    by (simp add: recover_document_def codec_simps rebuild_edges_def recover_rules_def recover_decisions_def
        has_cycle_def empty_registry_def Let_def)
  then have "recover (container (k_magic @ [k_version] @ enc (CRecord []))) = Inr (empty_registry\<lparr>profiles := []\<rparr>)"
    using recover_document_encoded [of "CRecord []"] by simp
  with recover_accepts [OF this] show ?thesis
    by blast
qed

text \<open>A document with one profile that has an id and a payload but no fingerprint.\<close>

definition unsigned_document :: "uuid \<Rightarrow> crecord \<Rightarrow> canon" where
  "unsigned_document u r = CRecord [(3, CSeq [CRecord [(1, CUuid u), (4, CRecord r)]])]"

text \<open>
  Whatever its payload, such a profile is recovered and is the current one of its identity: there is
  nothing its payload is compared with.
\<close>

theorem missing_fingerprint_accepted:
  assumes "canon_ok (CRecord r)" and "length (enc (CRecord r)) < 2 ^ 31"
  shows "\<exists>R p. recover (container (k_magic @ [k_version] @ enc (unsigned_document u r))) = Inr R \<and>
    find_profile u False R = Some p \<and> p_payload p = CRecord r \<and> p_fingerprint p = []"
proof -
  let ?p = "\<lparr>p_kind = PK_Model, p_id = u, p_generation = 0, p_payload = CRecord r, p_deps = [], p_active = True,
    p_superseded = False, p_provenance = [], p_fingerprint = []\<rparr>"
  let ?R = "empty_registry\<lparr>profiles := [(u, [?p])]\<rparr>"
  have "record_field (CRecord [(1, CUuid u), (4, CRecord r)]) 4 = Inr (CRecord r)"
    using assms(1) by (simp add: record_field_def field_Cons mk_record_tags_ok)
  then have "recover_document (unsigned_document u r) = Inr ?R"
    by (simp add: unsigned_document_def recover_document_def codec_simps recover_profile_def dec_profile_def
        push_def rebuild_edges_def add_dependency_def recover_rules_def recover_decisions_def has_cycle_def empty_registry_def Let_def)
  moreover have "recover (container (k_magic @ [k_version] @ enc (unsigned_document u r))) = recover_document (unsigned_document u r)"
  proof (rule recover_document_encoded)
    show "canon_fits (unsigned_document u r)"
      using assms(2) by (intro canon_fits_small) (simp add: unsigned_document_def bytes_length)
  qed (use assms(1) in \<open>simp_all add: unsigned_document_def\<close>)
  ultimately show ?thesis
    by (simp add: find_profile_def newest_active_def)
qed

theorem missing_fingerprint_accepted_witness:
  "\<exists>R p. recover (container (k_magic @ [k_version] @ enc (unsigned_document (Uuid 1) [(2, CUint 7)]))) = Inr R \<and>
    find_profile (Uuid 1) False R = Some p \<and> p_payload p = CRecord [(2, CUint 7)] \<and> p_fingerprint p = []"
  by (rule missing_fingerprint_accepted) (simp_all add: bytes_length)

text \<open>A document with a profile of kind 200 and generation 0 and a rule of outcome 200.\<close>

definition invalid_document :: canon where
  "invalid_document = CRecord
     [(3, CSeq [CRecord [(2, CUint 200), (3, CUint 0)]]), (4, CSeq [CRecord [(10, CUint 200)]])]"

text \<open>
  Recovery does not validate enumerators or generations: a container whose profile has a
  kind and whose rule has an outcome that are no enumerators, and whose profile has generation 0, is
  accepted, and the name of that outcome throws.
\<close>

theorem invalid_enumerators_accepted:
  "\<exists>R p rr. recover (container (k_magic @ [k_version] @ enc invalid_document)) = Inr R \<and>
     history_of zero_uuid R = [p] \<and> p_kind p = PK_Raw 200 \<and> p_generation p = 0 \<and> p_active p \<and>
     active_rules R = [rr] \<and> r_outcome rr = Outcome_Raw 200 \<and> isl (outcome_name (r_outcome rr)) \<and> \<not> registry_ok R"
proof -
  let ?R = "empty_registry\<lparr>
      profiles := [(zero_uuid, [\<lparr>p_kind = PK_Raw 200, p_id = zero_uuid, p_generation = 0, p_payload = CNull, p_deps = [],
        p_active = True, p_superseded = False, p_provenance = [], p_fingerprint = []\<rparr>])],
      graph := \<lparr>deps = [], reverse = []\<rparr>,
      rules := [(zero_uuid, dec_rule (CRecord [(10, CUint 200)]))]\<rparr>"
  have "recover_document invalid_document = Inr ?R"
    by (simp add: invalid_document_def recover_document_def codec_simps recover_profile_def dec_profile_def
        record_field_def profile_kind_cast_def push_def rebuild_edges_def add_dependency_def recover_rules_def dec_rule_def
        recover_decisions_def has_cycle_def empty_registry_def Let_def)
  moreover have "recover (container (k_magic @ [k_version] @ enc invalid_document)) = recover_document invalid_document"
    by (rule recover_document_encoded) (simp_all add: invalid_document_def bytes_length)
  moreover have "r_outcome (rr_rule (dec_rule (CRecord [(10, CUint 200)]))) = Outcome_Raw 200"
    "rr_active (dec_rule (CRecord [(10, CUint 200)]))"
    by (simp_all add: dec_rule_def codec_simps outcome_cast_def)
  ultimately show ?thesis
    by (auto simp: history_of_def adjacent_def active_rules_def map_filter_simps registry_ok_def profiles_ok_def
        history_ok_def)
qed

text \<open>
  A profile whose payload is not a record is registered and evaluated, but the snapshot
  writes an empty record in its place: the bytes are produced, and recovery rejects them as corrupt,
  unless the two payloads collide under SHA-256.
\<close>

theorem plain_payload_unrecoverable:
  assumes "canon_ok payload" and "kind payload \<noteq> KRecord"
    and "register_profile (new_profile u kd payload [] []) empty_registry = (Inr v, R)"
  shows "(\<exists>bs. snapshot R = Inr bs \<and>
      recover bs = Inl (Runtime_Error ''recover: profile fingerprint mismatch (corruption)'')) \<or>
    sha256 (k_magic @ [k_version] @ enc payload) = sha256 (k_magic @ [k_version] @ enc (CRecord []))"
proof -
  let ?fp = "sha_hex (sha256 (k_magic @ [k_version] @ enc payload))"
  let ?p = "(new_profile u kd payload [] [])\<lparr>p_fingerprint := ?fp, p_generation := 1\<rparr>"
  have R: "profiles R = [(u, [?p])]" "rules R = []" "evidence R = []" "invalidations R = []" "decisions R = []"
    "registry_gen R = 1" "policy_id R = zero_uuid"
    using assms(3) canonical_fingerprint_hex_enc [OF assms(1)]
    by (auto simp: register_profile_def new_profile_def empty_registry_def push_def Let_def split: if_splits)
  have r: "as_record payload = []"
    using assms(2) by (cases payload) (simp_all add: as_record_def)
  let ?c = "CRecord [(1, CUuid u), (2, CUint (ucast (profile_kind_code kd))), (3, CUint 1), (4, CRecord []), (5, CSeq []),
      (6, CBool True), (7, CBool False), (8, CStr []), (9, CStr ?fp)]"
  let ?doc = "CRecord [(1, CUint 1), (2, CUuid zero_uuid), (3, CSeq [?c]), (4, CSeq []), (5, CSeq []), (6, CSeq []),
      (7, CSeq [])]"
  have doc: "snapshot_document R = Inr ?doc"
    using r by (simp add: snapshot_document_def R enc_profile_def new_profile_def mk_record_tags_ok)
  have "snapshot R = Inr (container (k_magic @ [k_version] @ enc ?doc))"
    by (simp add: snapshot_def doc canonical_encode_enc)
  moreover have "recover (container (k_magic @ [k_version] @ enc ?doc)) = recover_document ?doc"
    by (rule recover_document_encoded) (simp_all add: bytes_length)
  moreover have "recover_document ?doc = Inl (Runtime_Error ''recover: profile fingerprint mismatch (corruption)'')"
    if "sha256 (k_magic @ [k_version] @ enc payload) \<noteq> sha256 (k_magic @ [k_version] @ enc (CRecord []))"
  proof -
    have "dec_profile ?c = Inr \<lparr>p_kind = profile_kind_cast (ucast (ucast (profile_kind_code kd) :: u64)), p_id = u,
        p_generation = 1, p_payload = CRecord [], p_deps = [], p_active = True, p_superseded = False,
        p_provenance = [], p_fingerprint = ?fp\<rparr>"
      by (simp add: dec_profile_def record_field_def codec_simps)
    moreover have "?fp \<noteq> []"
      by (metis length_sha_hex length_sha256 length_0_conv mult_eq_0_iff zero_neq_numeral)
    moreover have "canonical_fingerprint_hex (CRecord []) = Inr (sha_hex (sha256 (k_magic @ [k_version] @ enc (CRecord []))))"
      by (rule canonical_fingerprint_hex_enc) simp
    ultimately have "recover_profile ?c [] = Inl (Runtime_Error ''recover: profile fingerprint mismatch (corruption)'')"
      using that by (auto simp: recover_profile_def sha_hex_inject simp del: enc.simps)
    then show ?thesis
      by (simp add: recover_document_def codec_simps)
  qed
  ultimately show ?thesis
    by auto
qed

theorem plain_payload_unrecoverable_witness:
  "(\<exists>R bs. register_profile (new_profile (Uuid 3) PK_Model CNull [] []) empty_registry = (Inr (Uuid 3), R) \<and>
      snapshot R = Inr bs \<and>
      recover bs = Inl (Runtime_Error ''recover: profile fingerprint mismatch (corruption)'')) \<or>
    sha256 (k_magic @ [k_version] @ enc CNull) = sha256 (k_magic @ [k_version] @ enc (CRecord []))"
proof -
  have "\<not> create_cycle (Uuid 3) [] (graph empty_registry)"
    by (simp add: create_cycle_edges empty_registry_def edges_def adjacent_def)
  then obtain R where R: "register_profile (new_profile (Uuid 3) PK_Model CNull [] []) empty_registry = (Inr (Uuid 3), R)"
    by (simp add: register_profile_def new_profile_def canonical_fingerprint_hex_enc empty_registry_def Let_def)
  show ?thesis
    using plain_payload_unrecoverable [OF _ _ R] R by auto
qed

end
