(* ===== verification/Machine.thy ===== *)
theory Machine
  imports Persist Evaluate
begin

text \<open>
  The registry as a state machine: one step per call of a mutating operation of
  \<^verbatim>\<open>CompatibilityRegistry\<close>, in any order and with any arguments. The locales hold what is used of
  every such machine: invariants, relations between an earlier and a later state, and the simulation of
  one machine by another.
\<close>

section \<open>Machines\<close>

locale machine =
  fixes step :: "'s \<Rightarrow> 's \<Rightarrow> bool" and inv :: "'s \<Rightarrow> bool"
  assumes preserved: "step s s' \<Longrightarrow> inv s \<Longrightarrow> inv s'"
begin

lemma reachable: "step\<^sup>*\<^sup>* s s' \<Longrightarrow> inv s \<Longrightarrow> inv s'"
  by (induction rule: rtranclp_induct) (auto dest: preserved)

end

text \<open>A machine whose steps only move forward in a preorder.\<close>

locale progress = machine step inv for step :: "'s \<Rightarrow> 's \<Rightarrow> bool" and inv +
  fixes before :: "'s \<Rightarrow> 's \<Rightarrow> bool"
  assumes forward: "step s s' \<Longrightarrow> inv s \<Longrightarrow> before s s'"
    and before_refl: "before s s"
    and before_trans: "before s s' \<Longrightarrow> before s' s'' \<Longrightarrow> before s s''"
begin

lemma reachable_forward: "step\<^sup>*\<^sup>* s s' \<Longrightarrow> inv s \<Longrightarrow> before s s'"
proof (induction rule: rtranclp_induct)
  case (step s' s'')
  then have "inv s'"
    by (blast intro: reachable)
  with step show ?case
    by (blast intro: before_trans forward)
qed (rule before_refl)

end

text \<open>Every step of the concrete machine is no step or one step of the abstract one.\<close>

locale simulation = machine cstep cinv for cstep :: "'c \<Rightarrow> 'c \<Rightarrow> bool" and cinv +
  fixes astep :: "'a \<Rightarrow> 'a \<Rightarrow> bool" and abs :: "'c \<Rightarrow> 'a"
  assumes simulated: "cstep s s' \<Longrightarrow> cinv s \<Longrightarrow> astep\<^sup>=\<^sup>= (abs s) (abs s')"
begin

lemma simulated_run: "cstep\<^sup>*\<^sup>* s s' \<Longrightarrow> cinv s \<Longrightarrow> astep\<^sup>*\<^sup>* (abs s) (abs s')"
proof (induction rule: rtranclp_induct)
  case (step s' s'')
  then have "cinv s'"
    by (blast intro: reachable)
  with step simulated [of s' s''] show ?case
    by (auto intro: rtranclp.rtrancl_into_rtrancl)
qed simp

end

section \<open>The registry's steps\<close>

text \<open>Payloads are values the factories of \<^verbatim>\<open>Canon\<close> can build; everything else is arbitrary.\<close>

inductive reg_step :: "registry \<Rightarrow> registry \<Rightarrow> bool" where
  register: "canon_ok (p_payload p) \<Longrightarrow> reg_step R (snd (register_profile p R))"
| register_new: "canon_ok payload \<Longrightarrow> reg_step R (snd (register_new_profile u kd payload ds prov R))"
| supersede: "canon_ok payload \<Longrightarrow> reg_step R (snd (supersede_profile kd u payload ds prov R))"
| invalidate: "reg_step R (snd (invalidate_profile u why R))"
| propagate: "reg_step R (propagate_invalidation u R)"
| register_rule: "reg_step R (snd (register_rule r R))"
| supersede_rule: "reg_step R (snd (supersede_rule u r R))"
| disable_rule: "reg_step R (snd (disable_rule u R))"
| register_evidence: "reg_step R (register_evidence ev R)"
| policy: "reg_step R (set_policy u R)"
| pair: "reg_step R (snd (evaluate_pair left right R))"
| requirement: "reg_step R (snd (evaluate_requirement candidate req R))"

inductive_cases reg_stepE: "reg_step R R'"

lemma evaluate_state:
  "snd (evaluate_pair left right R) = R \<or> (\<exists>d. evaluate_locked left right False R = Inr d \<and>
     snd (evaluate_pair left right R) = remember d R)"
  "snd (evaluate_requirement left right R) = R \<or> (\<exists>d. evaluate_locked left right True R = Inr d \<and>
     snd (evaluate_requirement left right R) = remember d R)"
  by (auto simp: evaluate_pair_def evaluate_requirement_def split: sum.splits)

lemma remember_ok: "registry_ok R \<Longrightarrow> registry_ok (remember d R)"
  by (simp add: registry_ok_def stores_ok_def remember_def keyed_update)

lemma evaluate_ok:
  "registry_ok R \<Longrightarrow> registry_ok (snd (evaluate_pair left right R))"
  "registry_ok R \<Longrightarrow> registry_ok (snd (evaluate_requirement left right R))"
  using evaluate_state [of left right R] remember_ok by auto

lemmas operations_ok = register_profile_ok register_new_profile_ok supersede_profile_ok invalidate_profile_ok
  propagate_invalidation_ok register_rule_ok supersede_rule_ok disable_rule_ok register_evidence_ok
  set_policy_ok evaluate_ok

lemma untouched_profiles:
  "profiles (snd (register_rule r R)) = profiles R" "profiles (snd (supersede_rule u r R)) = profiles R"
  "profiles (snd (disable_rule u R)) = profiles R" "profiles (register_evidence ev R) = profiles R"
  "profiles (set_policy u R) = profiles R" "profiles (remember d R) = profiles R"
  "profiles (snd (evaluate_pair left right R)) = profiles R"
  "profiles (snd (evaluate_requirement left right R)) = profiles R"
  by (auto simp: register_rule_def supersede_rule_def disable_rule_def register_evidence_def set_policy_def
      remember_def evaluate_pair_def evaluate_requirement_def Let_def split: option.splits prod.splits sum.splits)

lemmas operations_history = register_profile_history register_new_profile_history supersede_profile_history
  invalidate_profile_history propagate_invalidation_history untouched_profiles [THEN extends_history_refl]

interpretation registry_machine: progress reg_step registry_ok extends_history
proof
  fix R R' assume "reg_step R R'" and "registry_ok R"
  then show "registry_ok R'"
    by (cases rule: reg_stepE) (auto intro: operations_ok)
next
  fix R R' assume "reg_step R R'"
  then show "extends_history R R'"
    by (cases rule: reg_stepE) (auto intro: operations_history)
qed (auto intro: extends_history_trans)

section \<open>Where cached decisions come from\<close>

definition decided :: "registry \<Rightarrow> registry \<Rightarrow> decision \<Rightarrow> bool" where
  "decided R0 R d \<longleftrightarrow> (\<exists>Rd left right q. reg_step\<^sup>*\<^sup>* R0 Rd \<and> reg_step\<^sup>*\<^sup>* Rd R \<and> evaluate_locked left right q Rd = Inr d)"

lemma decided_later: "decided R0 R d \<Longrightarrow> reg_step R R' \<Longrightarrow> decided R0 R' d"
  unfolding decided_def by (blast intro: rtranclp.rtrancl_into_rtrancl)

lemma untouched_decisions:
  "decisions (snd (register_profile p R)) = decisions R"
  "decisions (snd (register_new_profile u kd payload ds prov R)) = decisions R"
  "decisions (snd (supersede_profile kd u payload ds prov R)) = decisions R"
  "decisions (snd (invalidate_profile u why R)) = decisions R"
  "decisions (snd (register_rule r R)) = decisions R" "decisions (snd (supersede_rule u r R)) = decisions R"
  "decisions (snd (disable_rule u R)) = decisions R" "decisions (register_evidence ev R) = decisions R"
  "decisions (set_policy u R) = decisions R"
  by (auto simp: register_profile_def register_new_profile_def supersede_profile_def invalidate_profile_def
      register_rule_def supersede_rule_def disable_rule_def register_evidence_def set_policy_def Let_def
      split: option.splits prod.splits sum.splits)

lemma propagate_decisions [simp]: "decisions (propagate_invalidation u R) = decisions R"
proof -
  have "decisions (invalidate_node u R) = decisions R" for u R
    by (simp add: invalidate_node_def split: option.splits)
  then have "decisions (propagate_loop stack seen R) = decisions R" for stack seen R
    by (induction stack seen R rule: propagate_loop.induct) (simp_all add: Let_def split: prod.splits)
  then show ?thesis
    by (simp add: propagate_invalidation_def del: propagate_loop.simps)
qed

lemma step_decisions:
  assumes "reg_step R R'"
  shows "decisions R' = decisions R \<or>
    (\<exists>d left right q. evaluate_locked left right q R = Inr d \<and> decisions R' = AList.update (d_digest d) d (decisions R))"
  using assms
proof (cases rule: reg_step.cases)
  case (pair left right)
  then show ?thesis
    using evaluate_state(1) [of left right R] by (elim disjE exE conjE) (simp_all add: remember_def, blast)
next
  case (requirement left right)
  then show ?thesis
    using evaluate_state(2) [of left right R] by (elim disjE exE conjE) (simp_all add: remember_def, blast)
qed (simp_all add: untouched_decisions)

lemma reachable_decisions:
  "reg_step\<^sup>*\<^sup>* R0 R \<Longrightarrow> decisions R0 = [] \<Longrightarrow> map_of (decisions R) k = Some d \<Longrightarrow> d_digest d = k \<and> decided R0 R d"
proof (induction arbitrary: k d rule: rtranclp_induct)
  case (step R R')
  show ?case
  proof (cases "map_of (decisions R) k = Some d")
    case True
    then show ?thesis
      using step decided_later by blast
  next
    case False
    then obtain left right q where d: "evaluate_locked left right q R = Inr d" "k = d_digest d"
      using step_decisions [OF step.hyps(2)] step.prems(2)
      by (auto simp: map_of_update simp del: map_of_eq_Some_iff split: if_splits)
    then have "decided R0 R' d"
      unfolding decided_def using step.hyps by blast
    with d show ?thesis by simp
  qed
qed simp

section \<open>The graph holds the dependencies of the current generations\<close>

definition wanted_deps :: "registry \<Rightarrow> uuid \<Rightarrow> uuid list" where
  "wanted_deps R x =
     (case map_of (profiles R) x of None \<Rightarrow> [] | Some hist \<Rightarrow> filter (\<lambda>d. d \<noteq> x) (p_deps (last hist)))"

lemma deps_current_wanted: "deps_current R \<longleftrightarrow> (\<forall>x. adjacent (deps (graph R)) x = wanted_deps R x)"
  by (simp add: deps_current_def wanted_deps_def dependencies_of_def)

lemma deps_current_cong:
  "deps_current R \<Longrightarrow> graph R' = graph R \<Longrightarrow> (\<And>x. wanted_deps R' x = wanted_deps R x) \<Longrightarrow> deps_current R'"
  by (simp add: deps_current_wanted)

lemma untouched_graph:
  "graph (snd (register_rule r R)) = graph R" "graph (snd (supersede_rule u r R)) = graph R"
  "graph (snd (disable_rule u R)) = graph R" "graph (register_evidence ev R) = graph R"
  "graph (set_policy u R) = graph R" "graph (remember d R) = graph R"
  "graph (snd (evaluate_pair left right R)) = graph R"
  "graph (snd (evaluate_requirement left right R)) = graph R"
  by (auto simp: register_rule_def supersede_rule_def disable_rule_def register_evidence_def set_policy_def
      remember_def evaluate_pair_def evaluate_requirement_def Let_def split: option.splits prod.splits sum.splits)

lemma propagate_graph [simp]: "graph (propagate_invalidation u R) = graph R"
proof -
  have "graph (propagate_loop stack seen R) = graph R" for stack seen R
    by (induction stack seen R rule: propagate_loop.induct) (simp_all add: Let_def split: prod.splits)
  then show ?thesis
    by (simp add: propagate_invalidation_def del: propagate_loop.simps)
qed

lemma register_profile_deps:
  assumes "registry_ok R" and "canon_ok (p_payload p)" and "deps_current R"
  shows "deps_current (snd (register_profile p R))"
  using assms(1,2)
proof (cases rule: register_profile_cases)
  case (same hist)
  with assms(3) show ?thesis by simp
next
  case (rejected e)
  show ?thesis
  proof (cases "map_of (profiles R) (p_id p)")
    case None
    with rejected assms(3) show ?thesis by simp
  next
    case (Some hist)
    then have "hist \<noteq> []"
      using assms(1) profiles_okD unfolding registry_ok_def history_ok_def by blast
    with Some rejected show ?thesis
      by (intro deps_current_cong [OF assms(3)]) (auto simp: wanted_deps_def last_map)
  qed
next
  case (added fp q R')
  then show ?thesis
    using assms(3) by (simp add: deps_current_wanted wanted_deps_def adjacent_add_dependency)
qed

lemma supersede_profile_deps:
  assumes "deps_current R" and "supersede_profile kd u payload ds prov R = (Inr v, R')"
  shows "deps_current R'"
proof -
  obtain hist fp where hist: "map_of (profiles R) u = Some hist" "canonical_fingerprint_hex payload = Inr fp"
    using assms(2) by (auto simp: supersede_profile_def split: option.splits sum.splits)
  then show ?thesis
    using assms
    by (auto simp: supersede_profile_def Let_def deps_current_wanted wanted_deps_def new_profile_def
        adjacent_add_dependency adjacent_remove_dependency split: if_splits)
qed

lemma invalidate_deps:
  assumes "registry_ok R" and "deps_current R"
  shows "deps_current (snd (invalidate_profile u why R))"
proof (cases "map_of (profiles R) u")
  case None
  with assms(2) show ?thesis
    by (simp add: invalidate_profile_def)
next
  case (Some hist)
  then have "hist \<noteq> []"
    using assms(1) profiles_okD unfolding registry_ok_def history_ok_def by blast
  with Some show ?thesis
    by (intro deps_current_cong [OF assms(2)]) (auto simp: wanted_deps_def invalidate_profile_def last_map)
qed

lemma propagate_deps:
  assumes "registry_ok R" and "deps_current R"
  shows "deps_current (propagate_invalidation u R)"
proof (rule deps_current_cong [OF assms(2)])
  fix x
  have "hist \<noteq> []" if "map_of (profiles R) x = Some hist" for hist
    using that assms(1) profiles_okD unfolding registry_ok_def history_ok_def by blast
  then show "wanted_deps (propagate_invalidation u R) x = wanted_deps R x"
    using propagate_invalidation_profiles [of u R x]
    by (cases "map_of (profiles R) x") (auto simp: wanted_deps_def kill_def last_map split: if_splits)
qed simp

lemma untouched_deps:
  assumes "deps_current R"
  shows "deps_current (snd (register_rule r R))" "deps_current (snd (supersede_rule u r R))"
    "deps_current (snd (disable_rule u R))" "deps_current (register_evidence ev R)" "deps_current (set_policy u R)"
    "deps_current (snd (evaluate_pair left right R))" "deps_current (snd (evaluate_requirement left right R))"
  by (rule deps_current_cong [OF assms]; simp add: untouched_graph untouched_profiles wanted_deps_def)+

lemma step_deps:
  assumes "reg_step R R'" and "registry_ok R" and "deps_current R"
  shows "deps_current R' \<or> (\<exists>kd u payload ds prov e. supersede_profile kd u payload ds prov R = (Inl e, R'))"
  using assms(1)
proof (cases rule: reg_step.cases)
  case (register_new payload u kd ds prov)
  then show ?thesis
    using assms by (cases "canonical_fingerprint_hex payload")
      (auto simp: register_new_profile_def new_profile_def intro!: register_profile_deps)
next
  case (supersede payload kd u ds prov)
  then show ?thesis
    using assms(3) supersede_profile_deps by (metis prod.collapse sum.exhaust)
qed (use assms in \<open>simp_all add: register_profile_deps invalidate_deps propagate_deps untouched_deps\<close>)

section \<open>Properties\<close>

text \<open>
  Property C11. Whatever operations are called, in whatever order: the registry stays well formed, with an acyclic
  and consistent dependency graph, and no generation of any identity is ever lost, renumbered or
  rewritten; only its two status flags change.
\<close>

theorem reachable_registry:
  assumes "reg_step\<^sup>*\<^sup>* R R'" and "registry_ok R"
  shows "registry_ok R' \<and> extends_history R R'"
  using registry_machine.reachable [OF assms] registry_machine.reachable_forward [OF assms] by blast

theorem reachable_registry_witness:
  "registry_ok (snd (invalidate_profile (Uuid 1) ''recalled'' (propagate_invalidation (Uuid 2) example_registry)))"
proof -
  have "reg_step\<^sup>*\<^sup>* example_registry
      (snd (invalidate_profile (Uuid 1) ''recalled'' (propagate_invalidation (Uuid 2) example_registry)))"
    by (rule rtranclp.rtrancl_into_rtrancl [OF r_into_rtranclp]) (rule reg_step.intros)+
  from reachable_registry [OF this example_registry_ok] show ?thesis ..
qed

text \<open>
  Property C36. The cache holds no decision that was not made: every decision in it is what the evaluator answered
  for some pair or requirement in a state the registry was in, and is found under its own digest.
\<close>

theorem cached_decisions_made:
  assumes "reg_step\<^sup>*\<^sup>* R0 R" and "decisions R0 = []" and "map_of (decisions R) k = Some d"
  shows "d_digest d = k \<and>
    (\<exists>Rd left right q. reg_step\<^sup>*\<^sup>* R0 Rd \<and> reg_step\<^sup>*\<^sup>* Rd R \<and> evaluate_locked left right q Rd = Inr d)"
  using reachable_decisions [OF assms] by (simp add: decided_def)

theorem cached_decisions_made_witness:
  "\<exists>d Rd left right q. reg_step\<^sup>*\<^sup>* (pair_registry pair_rules) Rd \<and> evaluate_locked left right q Rd = Inr d \<and>
     map_of (decisions (snd (evaluate_pair (Uuid 1) (Uuid 2) (pair_registry pair_rules)))) (d_digest d) = Some d"
proof -
  let ?R = "pair_registry pair_rules"
  obtain d where d: "evaluate_locked (Uuid 1) (Uuid 2) False ?R = Inr d"
    using pair_evaluates by blast
  then have m: "map_of (decisions (snd (evaluate_pair (Uuid 1) (Uuid 2) ?R))) (d_digest d) = Some d"
    by (simp add: evaluate_pair_def remember_def map_of_update)
  have "reg_step\<^sup>*\<^sup>* ?R (snd (evaluate_pair (Uuid 1) (Uuid 2) ?R))"
    by (rule r_into_rtranclp, rule reg_step.pair)
  moreover have "decisions ?R = []"
    by (simp add: pair_registry_def empty_registry_def)
  ultimately show ?thesis
    using cached_decisions_made [OF _ _ m] m by blast
qed

text \<open>
  The edges of the graph are the dependencies of the newest generations (without a dependency on
  itself), until a supersession is rejected: that call alone drops the edges of an identity and keeps
  its history.
\<close>

theorem graph_follows_histories:
  assumes "reg_step\<^sup>*\<^sup>* R R'" and "registry_ok R" and "deps_current R"
  shows "deps_current R' \<or>
    (\<exists>R1 R2 kd u payload ds prov e. reg_step\<^sup>*\<^sup>* R R1 \<and>
       supersede_profile kd u payload ds prov R1 = (Inl e, R2) \<and> reg_step\<^sup>*\<^sup>* R2 R')"
  using assms(1)
proof (induction rule: rtranclp_induct)
  case base
  with assms(3) show ?case by simp
next
  case (step R1 R2)
  have "registry_ok R1"
    using registry_machine.reachable [OF step.hyps(1) assms(2)] .
  with step step_deps [of R1 R2] show ?case
    by (blast intro: rtranclp.rtrancl_into_rtrancl)
qed

theorem graph_follows_histories_witness:
  "deps_current (snd (invalidate_profile (Uuid 1) [] example_registry)) \<or>
   (\<exists>R1 R2 kd u payload ds prov e. reg_step\<^sup>*\<^sup>* example_registry R1 \<and>
      supersede_profile kd u payload ds prov R1 = (Inl e, R2))"
proof -
  have "deps_current example_registry"
    by (simp add: deps_current_def example_registry_def dependencies_of_def adjacent_def)
  moreover have "reg_step\<^sup>*\<^sup>* example_registry (snd (invalidate_profile (Uuid 1) [] example_registry))"
    by (rule r_into_rtranclp, rule reg_step.invalidate)
  ultimately show ?thesis
    using graph_follows_histories [OF _ example_registry_ok] by blast
qed

end
