(* ===== verification/Coordinator.thy ===== *)
theory Coordinator
  imports Frame Machine
begin

text \<open>
  The coordinator of \<^verbatim>\<open>include/compat/net.hpp\<close> and \<^verbatim>\<open>src/compat/net.cpp\<close>: the sources it knows, the
  handler of every request, and the loop that serves connections one after the other. The random
  identifiers of \<^verbatim>\<open>Uuid::genseed\<close> are an argument.
\<close>

section \<open>State\<close>

record source_info =
  boot_id :: uuid
  generation :: u64
  scope :: string

record coordinator =
  co_registry :: registry
  epoch :: u64
  sources :: "string \<rightharpoonup> source_info"

definition start_coordinator :: "registry \<Rightarrow> coordinator" where
  "start_coordinator seed = \<lparr>co_registry = seed, epoch = 1, sources = (\<lambda>_. None)\<rparr>"

section \<open>Constraints and decisions on the wire\<close>

definition enc_constraint_wire :: "constraint \<Rightarrow> canon res" where
  "enc_constraint_wire c = mk_record
     [(1, CUint (ucast (pred_op_code (c_op c)))), (2, CStr (c_field c)), (3, CStr (c_right_field c)),
      (4, c_expected c)]"

definition dec_constraint_wire :: "canon \<Rightarrow> constraint" where
  "dec_constraint_wire c = \<lparr>c_op = enum_or pred_op_cast P_Eq c 1, c_field = str_or [] c 2,
     c_right_field = str_or [] c 3, c_expected = canon_or CNull c 4, c_expected2 = CNull, c_set = [],
     c_note = []\<rparr>"

definition err_rec :: "string \<Rightarrow> canon res" where
  "err_rec why = mk_record [(1, CStr why)]"

definition ack_rec :: "canon res" where
  "ack_rec = mk_record []"

definition enc_decision_wire :: "decision \<Rightarrow> canon res" where
  "enc_decision_wire d = mk_record
     [(1, CUint (ucast (outcome_code (d_outcome d)))), (2, CUuid (d_decision_id d)),
      (3, CUuid (d_rule_id d)), (4, CStr (d_explanation d))]"

section \<open>Requests\<close>

text \<open>
  A handler returns what \<^verbatim>\<open>handle_request\<close> returns, with the response it fills in, or the exception
  it lets through, and the state it leaves. A response is of type \<open>Ack\<close> unless the handler sets it.
\<close>

type_synonym handled = "(bool \<times> net_message) res"

definition reject :: "string \<Rightarrow> handled" where
  "reject why = bindE (err_rec why) (\<lambda>p. Inr (False, \<lparr>m_type = Ack, m_payload = p\<rparr>))"

definition respond :: "msg_type \<Rightarrow> canon res \<Rightarrow> handled" where
  "respond t payload = bindE payload (\<lambda>p. Inr (True, \<lparr>m_type = t, m_payload = p\<rparr>))"

abbreviation epoch_tag :: u32 where
  "epoch_tag \<equiv> 100"

definition handle_register_source :: "uuid \<Rightarrow> net_message \<Rightarrow> coordinator \<Rightarrow> handled \<times> coordinator" where
  "handle_register_source u m S =
     (let source = field_str m 1; sc = field_str m 2 in
      if source = [] then (reject ''missing source name'', S)
      else (respond Ack (mk_record [(1, CUuid u), (2, CUint (epoch S)), (3, CUint 1)]),
        S\<lparr>sources := (sources S)(source \<mapsto> \<lparr>boot_id = u, generation = 1, scope = sc\<rparr>)\<rparr>))"

text \<open>The checks under the coordinator's lock: why the request is refused, if it is.\<close>

definition profile_refused :: "string \<Rightarrow> uuid \<Rightarrow> u64 \<Rightarrow> string \<Rightarrow> u64 \<Rightarrow> coordinator \<Rightarrow> string option" where
  "profile_refused source boot sgen domain ep S =
     (if ep \<noteq> epoch S then Some ''stale coordinator epoch''
      else case sources S source of
        None \<Rightarrow> Some ''unknown source''
      | Some i \<Rightarrow>
          if boot_id i \<noteq> boot then Some ''stale SourceBootId''
          else if sgen < generation i then Some ''stale source generation''
          else if scope i \<noteq> ''*'' \<and> scope i \<noteq> domain then Some ''source not authorized for domain''
          else None)"

definition update_refused :: "string \<Rightarrow> uuid \<Rightarrow> u64 \<Rightarrow> coordinator \<Rightarrow> string option" where
  "update_refused source boot ep S =
     (if ep \<noteq> epoch S then Some ''stale coordinator epoch''
      else case sources S source of
        None \<Rightarrow> Some ''stale SourceBootId''
      | Some i \<Rightarrow> if boot_id i \<noteq> boot then Some ''stale SourceBootId'' else None)"

definition set_generation :: "string \<Rightarrow> u64 \<Rightarrow> coordinator \<Rightarrow> coordinator" where
  "set_generation source sgen S =
     (case sources S source of
        None \<Rightarrow> S
      | Some i \<Rightarrow> S\<lparr>sources := (sources S)(source \<mapsto> i\<lparr>generation := sgen\<rparr>)\<rparr>)"

definition handle_register_profile :: "uuid \<Rightarrow> net_message \<Rightarrow> coordinator \<Rightarrow> handled \<times> coordinator" where
  "handle_register_profile u m S =
     (let p = m_payload m; source = field_str m 1; sgen = uint_or 0 p 3 in
      case (field p 5, field p 6) of
        (Some (CRecord prof), Some (CUint k)) \<Rightarrow>
          (case profile_refused source (field_uuid zero_uuid m 2) sgen (field_str m 4) (uint_or 0 p epoch_tag) S of
             Some why \<Rightarrow> (reject why, S)
           | None \<Rightarrow>
               (case register_new_profile u (profile_kind_cast (ucast k)) (CRecord prof) [] [] (co_registry S) of
                  (Inl e, R) \<Rightarrow> (Inl e, S\<lparr>co_registry := R\<rparr>)
                | (Inr pid, R) \<Rightarrow>
                    (respond Ack (mk_record [(1, CUuid pid)]), set_generation source sgen (S\<lparr>co_registry := R\<rparr>))))
      | _ \<Rightarrow> (reject ''bad profile'', S))"

definition wire_rule :: "net_message \<Rightarrow> rule" where
  "wire_rule m =
     (let p = m_payload m in
     \<lparr>r_rule_id = field_uuid zero_uuid m 4, r_generation = 0, r_domain = field_str m 7, r_scope = field_str m 6,
      r_priority = int32_or 0 p 8, r_active = True, r_kind = RK_Equality,
      r_left_kind = opt_enum profile_kind_cast p 12, r_right_kind = opt_enum profile_kind_cast p 13,
      r_required = map dec_constraint_wire (seq_at p 10), r_any_of = [],
      r_incompatible_with = map dec_constraint_wire (seq_at p 11), r_conditions = [], r_adaptations = [],
      r_outcome = enum_or outcome_cast Compatible p 9, r_provenance = []\<rparr>)"

definition handle_register_rule :: "net_message \<Rightarrow> coordinator \<Rightarrow> handled \<times> coordinator" where
  "handle_register_rule m S =
     (case update_refused (field_str m 1) (field_uuid zero_uuid m 2) (uint_or 0 (m_payload m) epoch_tag) S of
        Some why \<Rightarrow> (reject why, S)
      | None \<Rightarrow> (respond Ack ack_rec, S\<lparr>co_registry := snd (register_rule (wire_rule m) (co_registry S))\<rparr>))"

definition wire_evidence :: "uuid \<Rightarrow> net_message \<Rightarrow> evidence_record" where
  "wire_evidence u m = \<lparr>ev_id = u, ev_subject = zero_uuid, ev_field = field_str m 4,
     ev_value = canon_or CNull (m_payload m) 5, ev_provenance = [], ev_source = [],
     ev_source_generation = 0, ev_observed_timestamp = [], ev_kind = EK_Reported,
     ev_validated = False, ev_digest_hex = []\<rparr>"

definition handle_register_evidence :: "uuid \<Rightarrow> net_message \<Rightarrow> coordinator \<Rightarrow> handled \<times> coordinator" where
  "handle_register_evidence u m S =
     (case update_refused (field_str m 1) (field_uuid zero_uuid m 2) (uint_or 0 (m_payload m) epoch_tag) S of
        Some why \<Rightarrow> (reject why, S)
      | None \<Rightarrow> (respond Ack ack_rec, S\<lparr>co_registry := register_evidence (wire_evidence u m) (co_registry S)\<rparr>))"

definition handle_query ::
  "(uuid \<Rightarrow> uuid \<Rightarrow> registry \<Rightarrow> decision res \<times> registry) \<Rightarrow> net_message \<Rightarrow> coordinator \<Rightarrow> handled \<times> coordinator" where
  "handle_query ev m S =
     (case ev (field_uuid zero_uuid m 1) (field_uuid zero_uuid m 2) (co_registry S) of
        (Inl e, R) \<Rightarrow> (Inl e, S\<lparr>co_registry := R\<rparr>)
      | (Inr d, R) \<Rightarrow> (respond Decision (enc_decision_wire d), S\<lparr>co_registry := R\<rparr>))"

definition handle_invalidate :: "net_message \<Rightarrow> coordinator \<Rightarrow> handled \<times> coordinator" where
  "handle_invalidate m S =
     (case update_refused (field_str m 1) (field_uuid zero_uuid m 2) (uint_or 0 (m_payload m) epoch_tag) S of
        Some why \<Rightarrow> (reject why, S)
      | None \<Rightarrow> (respond Ack ack_rec,
          S\<lparr>co_registry := snd (invalidate_profile (field_uuid zero_uuid m 4) (field_str m 5) (co_registry S))\<rparr>))"

definition handle_snapshot :: "coordinator \<Rightarrow> handled \<times> coordinator" where
  "handle_snapshot S =
     (respond Ack (bindE (snapshot (co_registry S)) (\<lambda>bs. mk_record [(1, CBytes (bytes_str bs))])), S)"

definition handle_request :: "uuid \<Rightarrow> net_message \<Rightarrow> coordinator \<Rightarrow> handled \<times> coordinator" where
  "handle_request u m S =
     (case m_type m of
        Register_Source \<Rightarrow> handle_register_source u m S
      | Register_Profile \<Rightarrow> handle_register_profile u m S
      | Register_Rule \<Rightarrow> handle_register_rule m S
      | Register_Evidence \<Rightarrow> handle_register_evidence u m S
      | Query_Pair \<Rightarrow> handle_query evaluate_pair m S
      | Query_Requirement \<Rightarrow> handle_query evaluate_requirement m S
      | Invalidate \<Rightarrow> handle_invalidate m S
      | Snapshot \<Rightarrow> handle_snapshot S
      | Shutdown \<Rightarrow> (respond Ack ack_rec, S)
      | _ \<Rightarrow> (reject ''unknown message type'', S))"

section \<open>Serving\<close>

text \<open>What goes back on the wire: the reason of a refusal is replaced by a fixed text.\<close>

definition reply_frame :: "handled \<Rightarrow> bytes res" where
  "reply_frame r =
     bindE r (\<lambda>(ok, resp).
       if ok then frame_message (m_type resp) (m_payload resp)
       else bindE (err_rec ''request failed'') (frame_message Error))"

text \<open>
  A connection is the bytes that arrive on it; \<open>sent k\<close> says whether the \<open>k\<close>-th reply can still be
  sent. Serving it ends when the peer stops, when it asks for a shutdown, or with an exception,
  which nothing in \<^verbatim>\<open>run\<close> catches.
\<close>

datatype ending = Closed | Shut_Down | Crashed error

lemma recv_frame_shorter: "recv_frame s = Inr (m, s') \<Longrightarrow> length s' < length s"
  by (auto simp: recv_frame_def Let_def bindE_eq_Inr split: if_splits)

function serve :: "(nat \<Rightarrow> uuid) \<Rightarrow> (nat \<Rightarrow> bool) \<Rightarrow> nat \<Rightarrow> bytes \<Rightarrow> coordinator \<Rightarrow>
    bytes list \<times> ending \<times> nat \<times> coordinator" where
  "serve seed sent k s S =
     (case recv_frame s of
        Inl e \<Rightarrow> ([], (if e = Out_Of_Bounds then Crashed e else Closed), k, S)
      | Inr (m, s') \<Rightarrow>
          (case handle_request (seed k) m S of (r, S') \<Rightarrow>
            (case reply_frame r of
               Inl e \<Rightarrow> ([], Crashed e, Suc k, S')
             | Inr f \<Rightarrow>
                 if \<not> sent k then ([], Closed, Suc k, S')
                 else if m_type m = Shutdown then ([f], Shut_Down, Suc k, S')
                 else (case serve seed sent (Suc k) s' S' of (fs, e, n, S'') \<Rightarrow> (f # fs, e, n, S'')))))"
  by pat_completeness auto
termination
  by (relation "measure (\<lambda>(seed, sent, k, s, S). length s)") (auto simp: recv_frame_shorter)

declare serve.simps [simp del]

text \<open>The accept loop: connections in the order they are accepted.\<close>

fun run :: "(nat \<Rightarrow> uuid) \<Rightarrow> (nat \<Rightarrow> bool) \<Rightarrow> nat \<Rightarrow> bytes list \<Rightarrow> coordinator \<Rightarrow>
    bytes list list \<times> ending \<times> nat \<times> coordinator" where
  "run seed sent k [] S = ([], Closed, k, S)"
| "run seed sent k (c # cs) S =
     (case serve seed sent k c S of
        (fs, Closed, n, S') \<Rightarrow> (case run seed sent n cs S' of (fss, e, n', S'') \<Rightarrow> (fs # fss, e, n', S''))
      | (fs, e, n, S') \<Rightarrow> ([fs], e, n, S'))"

section \<open>What one request can do\<close>

lemma reject_simp [simp]: "reject why = Inr (False, \<lparr>m_type = Ack, m_payload = CRecord [(1, CStr why)]\<rparr>)"
  by (simp add: reject_def err_rec_def codec_simps)

lemma respond_simp [simp]: "respond t (Inr p) = Inr (True, \<lparr>m_type = t, m_payload = p\<rparr>)"
  by (simp add: respond_def)

lemma respond_accepts: "respond t p \<noteq> Inr (False, resp)"
  by (simp add: respond_def bindE_eq_Inr)

lemma wire_values_ok:
  "canon_ok c \<Longrightarrow> canon_ok (canon_or CNull c tag)"
  "canon_ok c \<Longrightarrow> field c tag = Some (CRecord r) \<Longrightarrow> canon_ok (CRecord r)"
  subgoal by (auto simp: canon_or_def dest: canon_ok_field split: option.splits)
  subgoal by (rule canon_ok_field)
  done

lemma set_generation_fields [simp]:
  "co_registry (set_generation source sgen S) = co_registry S" "epoch (set_generation source sgen S) = epoch S"
  by (simp_all add: set_generation_def split: option.splits)

text \<open>How a request to register a profile can end.\<close>

lemma handle_register_profile_cases:
  obtains (malformed) "handle_register_profile u m S = (reject ''bad profile'', S)"
    | (refused) why where "handle_register_profile u m S = (reject why, S)"
    | (thrown) r k e R where "field (m_payload m) 5 = Some (CRecord r)" "field (m_payload m) 6 = Some (CUint k)"
      "profile_refused (field_str m 1) (field_uuid zero_uuid m 2) (uint_or 0 (m_payload m) 3) (field_str m 4)
        (uint_or 0 (m_payload m) epoch_tag) S = None"
      "register_new_profile u (profile_kind_cast (ucast k)) (CRecord r) [] [] (co_registry S) = (Inl e, R)"
      "handle_register_profile u m S = (Inl e, S\<lparr>co_registry := R\<rparr>)"
    | (registered) r k pid R where "field (m_payload m) 5 = Some (CRecord r)" "field (m_payload m) 6 = Some (CUint k)"
      "profile_refused (field_str m 1) (field_uuid zero_uuid m 2) (uint_or 0 (m_payload m) 3) (field_str m 4)
        (uint_or 0 (m_payload m) epoch_tag) S = None"
      "register_new_profile u (profile_kind_cast (ucast k)) (CRecord r) [] [] (co_registry S) = (Inr pid, R)"
      "handle_register_profile u m S = (Inr (True, \<lparr>m_type = Ack, m_payload = CRecord [(1, CUuid pid)]\<rparr>),
        set_generation (field_str m 1) (uint_or 0 (m_payload m) 3) (S\<lparr>co_registry := R\<rparr>))"
proof (cases "\<exists>r k. field (m_payload m) 5 = Some (CRecord r) \<and> field (m_payload m) 6 = Some (CUint k)")
  case False
  then have "handle_register_profile u m S = (reject ''bad profile'', S)"
    by (auto simp: handle_register_profile_def Let_def split: option.splits canon.splits)
  then show thesis by (rule malformed)
next
  case True
  then obtain r k where f: "field (m_payload m) 5 = Some (CRecord r)" "field (m_payload m) 6 = Some (CUint k)"
    by blast
  let ?refused = "profile_refused (field_str m 1) (field_uuid zero_uuid m 2) (uint_or 0 (m_payload m) 3)
      (field_str m 4) (uint_or 0 (m_payload m) epoch_tag) S"
  let ?reg = "register_new_profile u (profile_kind_cast (ucast k)) (CRecord r) [] [] (co_registry S)"
  show thesis
  proof (cases ?refused)
    case (Some why)
    then show thesis
      using refused f by (simp add: handle_register_profile_def Let_def)
  next
    case None
    obtain x R where reg: "?reg = (x, R)"
      by (cases ?reg)
    show thesis
    proof (cases x)
      case (Inl e)
      then show thesis
        using thrown [OF f None] None reg f by (simp add: handle_register_profile_def Let_def)
    next
      case (Inr pid)
      then show thesis
        using registered [OF f None] reg None f
        by (simp add: handle_register_profile_def Let_def codec_simps)
    qed
  qed
qed

lemma update_cases:
  assumes "h = (case update_refused source boot ep S of Some why \<Rightarrow> (reject why, S) | None \<Rightarrow> (respond Ack ack_rec, S'))"
  obtains (refused) why where "h = (reject why, S)"
    | (accepted) "update_refused source boot ep S = None"
      "h = (Inr (True, \<lparr>m_type = Ack, m_payload = CRecord []\<rparr>), S')"
  using assms by (cases "update_refused source boot ep S") (simp_all add: ack_rec_def mk_record_literal)

lemmas handle_register_rule_cases = update_cases [OF handle_register_rule_def]
lemmas handle_register_evidence_cases = update_cases [OF handle_register_evidence_def]
lemmas handle_invalidate_cases = update_cases [OF handle_invalidate_def]

lemma handle_query_state:
  "co_registry (snd (handle_query ev m S)) = snd (ev (field_uuid zero_uuid m 1) (field_uuid zero_uuid m 2) (co_registry S))"
  "sources (snd (handle_query ev m S)) = sources S" "epoch (snd (handle_query ev m S)) = epoch S"
  by (simp_all add: handle_query_def split: prod.splits sum.splits)

section \<open>The coordinator drives the registry\<close>

text \<open>A step is a request whose payload came out of the decoder, with any random identifier.\<close>

inductive co_step :: "coordinator \<Rightarrow> coordinator \<Rightarrow> bool" where
  request: "canon_ok (m_payload m) \<Longrightarrow> co_step S (snd (handle_request u m S))"

inductive_cases co_stepE: "co_step S S'"

lemma register_profile_simulated:
  assumes "canon_ok (m_payload m)"
  shows "reg_step\<^sup>=\<^sup>= (co_registry S) (co_registry (snd (handle_register_profile u m S)))"
proof (cases rule: handle_register_profile_cases [of u m S])
  case (thrown r k e R)
  then have "reg_step (co_registry S) R"
    using reg_step.register_new [OF wire_values_ok(2) [OF assms thrown(1)]] by (metis snd_conv)
  with thrown show ?thesis by simp
next
  case (registered r k pid R)
  then have "reg_step (co_registry S) R"
    using reg_step.register_new [OF wire_values_ok(2) [OF assms registered(1)]] by (metis snd_conv)
  with registered show ?thesis by simp
qed simp_all

lemma update_simulated:
  "reg_step\<^sup>=\<^sup>= (co_registry S) (co_registry (snd (handle_register_rule m S)))"
  "reg_step\<^sup>=\<^sup>= (co_registry S) (co_registry (snd (handle_register_evidence u m S)))"
  "reg_step\<^sup>=\<^sup>= (co_registry S) (co_registry (snd (handle_invalidate m S)))"
  subgoal by (cases rule: handle_register_rule_cases [of m S]) (simp_all add: reg_step.register_rule)
  subgoal by (cases rule: handle_register_evidence_cases [of u m S]) (simp_all add: reg_step.register_evidence)
  subgoal by (cases rule: handle_invalidate_cases [of m S]) (simp_all add: reg_step.invalidate)
  done

lemma query_simulated:
  "reg_step\<^sup>=\<^sup>= (co_registry S) (co_registry (snd (handle_query evaluate_pair m S)))"
  "reg_step\<^sup>=\<^sup>= (co_registry S) (co_registry (snd (handle_query evaluate_requirement m S)))"
  by (simp_all add: handle_query_state reg_step.pair reg_step.requirement)

lemma handle_request_simulated:
  assumes "canon_ok (m_payload m)"
  shows "reg_step\<^sup>=\<^sup>= (co_registry S) (co_registry (snd (handle_request u m S)))"
  using register_profile_simulated [OF assms] update_simulated query_simulated
  by (cases "m_type m")
    (simp_all add: handle_request_def handle_snapshot_def handle_register_source_def Let_def)

abbreviation co_registry_ok :: "coordinator \<Rightarrow> bool" where
  "co_registry_ok S \<equiv> registry_ok (co_registry S)"

interpretation coordinator: simulation co_step co_registry_ok reg_step co_registry
proof
  fix S S' assume "co_step S S'"
  then show sim: "reg_step\<^sup>=\<^sup>= (co_registry S) (co_registry S')"
    by (elim co_stepE) (simp only: handle_request_simulated)
  assume "co_registry_ok S"
  with sim show "co_registry_ok S'"
    using registry_machine.preserved by auto
qed

text \<open>Whatever bytes arrive, serving them is a sequence of such steps.\<close>

lemma recv_frame_payload: "recv_frame s = Inr (m, s') \<Longrightarrow> canon_ok (m_payload m)"
  by (auto simp: recv_frame_def unframe_message_def Let_def bindE_eq_Inr dest: canonical_decode_enc(2) split: if_splits)

lemma serve_steps: "serve seed sent k s S = (fs, e, n, S') \<Longrightarrow> co_step\<^sup>*\<^sup>* S S'"
proof (induction seed sent k s S arbitrary: fs e n S' rule: serve.induct)
  case (1 seed sent k s S)
  show ?case
  proof (cases "recv_frame s")
    case (Inl e)
    then show ?thesis
      using "1.prems" by (simp add: serve.simps)
  next
    case (Inr ms)
    obtain m s' where ms: "ms = (m, s')" by (cases ms)
    obtain r S1 where h: "handle_request (seed k) m S = (r, S1)"
      by (cases "handle_request (seed k) m S")
    have step: "co_step S S1"
      using co_step.request [OF recv_frame_payload, of s m s' S "seed k"] Inr ms h by simp
    show ?thesis
    proof (cases "reply_frame r")
      case Inl': (Inl e)
      then show ?thesis
        using "1.prems" Inr ms h step by (simp add: serve.simps)
    next
      case Inr': (Inr f)
      show ?thesis
      proof (cases "sent k \<and> m_type m \<noteq> Shutdown")
        case False
        then show ?thesis
          using "1.prems" Inr Inr' ms h step by (auto simp: serve.simps split: if_splits)
      next
        case True
        obtain fs1 e1 n1 S2 where rest: "serve seed sent (Suc k) s' S1 = (fs1, e1, n1, S2)"
          by (cases "serve seed sent (Suc k) s' S1")
        have "co_step\<^sup>*\<^sup>* S1 S2"
          by (rule "1.IH" [OF Inr ms [symmetric] h [symmetric]]) (use Inr' True rest in simp_all)
        then show ?thesis
          using "1.prems" Inr Inr' ms h True rest step by (simp add: serve.simps)
      qed
    qed
  qed
qed

lemma run_steps: "run seed sent k cs S = (fss, e, n, S') \<Longrightarrow> co_step\<^sup>*\<^sup>* S S'"
proof (induction seed sent k cs S arbitrary: fss e n S' rule: run.induct)
  case (2 seed sent k c cs S)
  obtain fs e1 n1 S1 where serve: "serve seed sent k c S = (fs, e1, n1, S1)"
    by (cases "serve seed sent k c S")
  obtain fss2 e2 n2 S2 where rest: "run seed sent n1 cs S1 = (fss2, e2, n2, S2)"
    by (cases "run seed sent n1 cs S1")
  show ?case
    using 2 serve serve_steps [OF serve] rest by (cases e1) (auto intro: rtranclp_trans)
qed simp

section \<open>Sources\<close>

lemma profile_refused_None:
  "profile_refused source boot sgen domain ep S = None \<longleftrightarrow>
    ep = epoch S \<and> (\<exists>i. sources S source = Some i \<and> boot_id i = boot \<and> generation i \<le> sgen \<and>
      (scope i = ''*'' \<or> scope i = domain))"
  by (auto simp: profile_refused_def not_less split: option.splits)

lemma update_refused_None:
  "update_refused source boot ep S = None \<longleftrightarrow>
    ep = epoch S \<and> (\<exists>i. sources S source = Some i \<and> boot_id i = boot)"
  by (auto simp: update_refused_def split: option.splits)

text \<open>What one request does to the entry of a source.\<close>

lemma handle_request_sources:
  "sources (snd (handle_request u m S)) x = sources S x \<or>
   (\<exists>sc. sources (snd (handle_request u m S)) x = Some \<lparr>boot_id = u, generation = 1, scope = sc\<rparr>) \<or>
   (\<exists>i g. sources S x = Some i \<and> generation i \<le> g \<and>
      sources (snd (handle_request u m S)) x = Some (i\<lparr>generation := g\<rparr>))"
proof (cases "m_type m")
  case Register_Profile
  show ?thesis
  proof (cases rule: handle_register_profile_cases [of u m S])
    case (registered r k pid R)
    then show ?thesis
      using Register_Profile
      by (auto simp: handle_request_def profile_refused_None set_generation_def split: option.splits)
  qed (use Register_Profile in \<open>simp_all add: handle_request_def\<close>)
next
  case Register_Rule
  then show ?thesis
    by (cases rule: handle_register_rule_cases [of m S]) (simp_all add: handle_request_def)
next
  case Register_Evidence
  then show ?thesis
    by (cases rule: handle_register_evidence_cases [of u m S]) (simp_all add: handle_request_def)
next
  case Invalidate
  then show ?thesis
    by (cases rule: handle_invalidate_cases [of m S]) (simp_all add: handle_request_def)
qed (simp_all add: handle_request_def handle_query_state handle_snapshot_def handle_register_source_def Let_def)

lemma handle_request_epoch: "epoch (snd (handle_request u m S)) = epoch S"
proof (cases "m_type m")
  case Register_Profile
  then show ?thesis
    by (cases rule: handle_register_profile_cases [of u m S]) (simp_all add: handle_request_def)
next
  case Register_Rule
  then show ?thesis
    by (cases rule: handle_register_rule_cases [of m S]) (simp_all add: handle_request_def)
next
  case Register_Evidence
  then show ?thesis
    by (cases rule: handle_register_evidence_cases [of u m S]) (simp_all add: handle_request_def)
next
  case Invalidate
  then show ?thesis
    by (cases rule: handle_invalidate_cases [of m S]) (simp_all add: handle_request_def)
qed (simp_all add: handle_request_def handle_query_state handle_snapshot_def handle_register_source_def Let_def)

text \<open>A sequence of requests, each with the identifier drawn for it.\<close>

definition requests :: "(uuid \<times> net_message) list \<Rightarrow> coordinator \<Rightarrow> coordinator" where
  "requests ms S = fold (\<lambda>(u, m) S. snd (handle_request u m S)) ms S"

lemma requests_simps [simp]:
  "requests [] S = S" "requests ((u, m) # ms) S = requests ms (snd (handle_request u m S))"
  by (simp_all add: requests_def)

lemma boot_id_gone:
  "(\<forall>i. sources S x = Some i \<longrightarrow> boot_id i \<noteq> b) \<Longrightarrow> b \<notin> fst ` set ms \<Longrightarrow>
     sources (requests ms S) x = Some i \<Longrightarrow> boot_id i \<noteq> b"
proof (induction ms arbitrary: S)
  case (Cons um ms)
  obtain u m where um: "um = (u, m)" by (cases um)
  have "\<forall>i. sources (snd (handle_request u m S)) x = Some i \<longrightarrow> boot_id i \<noteq> b"
    using handle_request_sources [of u m S x] Cons.prems(1,2) um by auto
  then show ?case
    using Cons um by auto
qed simp

section \<open>Properties\<close>

text \<open>
  Property C12. No bytes on any connection can corrupt the registry: whatever arrives, in however many
  connections, the registry behind the coordinator only makes steps of the registry machine, so it
  stays well formed and no history is lost.
\<close>

theorem network_cannot_corrupt:
  assumes "run seed sent k cs S = (fss, e, n, S')" and "registry_ok (co_registry S)"
  shows "reg_step\<^sup>*\<^sup>* (co_registry S) (co_registry S') \<and> registry_ok (co_registry S') \<and>
    extends_history (co_registry S) (co_registry S')"
proof -
  have "reg_step\<^sup>*\<^sup>* (co_registry S) (co_registry S')"
    using coordinator.simulated_run [OF run_steps [OF assms(1)]] assms(2) by blast
  then show ?thesis
    using registry_machine.reachable registry_machine.reachable_forward assms(2) by blast
qed

theorem network_cannot_corrupt_witness:
  "\<exists>fss e n S'. run (\<lambda>_. Uuid 7) (\<lambda>_. True) 0 [[1, 2, 3], []] (start_coordinator example_registry) = (fss, e, n, S') \<and>
     registry_ok (co_registry S')"
proof -
  let ?S = "start_coordinator example_registry"
  obtain fss e n S' where run: "run (\<lambda>_. Uuid 7) (\<lambda>_. True) 0 [[1, 2, 3], []] ?S = (fss, e, n, S')"
    by (cases "run (\<lambda>_. Uuid 7) (\<lambda>_. True) 0 [[1, 2, 3], []] ?S")
  with network_cannot_corrupt [OF run] example_registry_ok show ?thesis
    by (auto simp: start_coordinator_def)
qed

text \<open>
  Property C9. A refused request changes nothing at all. A request that changes anything in the
  registry but the decision cache carries the current epoch and the current boot id of a known source;
  one that registers a profile also carries a generation that is not stale and a domain in the
  source's scope. Rules, evidence and invalidations are not checked against either.
\<close>

theorem mutation_authorised:
  assumes "handle_request u m S = (r, S')"
  shows "(\<forall>resp. r = Inr (False, resp) \<longrightarrow> S' = S) \<and>
    (co_registry S' \<noteq> (co_registry S)\<lparr>decisions := decisions (co_registry S')\<rparr> \<longrightarrow>
      (\<exists>i. sources S (field_str m 1) = Some i \<and> boot_id i = field_uuid zero_uuid m 2 \<and>
        uint_or 0 (m_payload m) epoch_tag = epoch S \<and>
        (m_type m = Register_Profile \<longrightarrow> generation i \<le> uint_or 0 (m_payload m) 3 \<and>
          (scope i = ''*'' \<or> scope i = field_str m 4))))"
proof (cases "m_type m")
  case Register_Source
  with assms show ?thesis
    by (auto simp: handle_request_def handle_register_source_def Let_def respond_accepts split: if_splits)
next
  case Register_Profile
  show ?thesis
    using assms Register_Profile
    by (cases rule: handle_register_profile_cases [of u m S])
      (auto simp: handle_request_def profile_refused_None)
next
  case Register_Rule
  show ?thesis
    using assms Register_Rule
    by (cases rule: handle_register_rule_cases [of m S]) (auto simp: handle_request_def update_refused_None)
next
  case Register_Evidence
  show ?thesis
    using assms Register_Evidence
    by (cases rule: handle_register_evidence_cases [of u m S]) (auto simp: handle_request_def update_refused_None)
next
  case Invalidate
  show ?thesis
    using assms Invalidate
    by (cases rule: handle_invalidate_cases [of m S]) (auto simp: handle_request_def update_refused_None)
next
  case Query_Pair
  with assms show ?thesis
    by (auto simp: handle_request_def handle_query_def evaluate_pair_def remember_def respond_accepts
        split: sum.splits)
next
  case Query_Requirement
  with assms show ?thesis
    by (auto simp: handle_request_def handle_query_def evaluate_requirement_def remember_def respond_accepts
        split: sum.splits)
qed (use assms in \<open>auto simp: handle_request_def handle_snapshot_def respond_accepts\<close>)

definition example_coordinator :: "registry \<Rightarrow> coordinator" where
  "example_coordinator R = (start_coordinator R)\<lparr>sources :=
     [''src'' \<mapsto> \<lparr>boot_id = Uuid 7, generation = 1, scope = ''*''\<rparr>]\<rparr>"

definition recall_request :: "uuid \<Rightarrow> net_message" where
  "recall_request boot = \<lparr>m_type = Invalidate, m_payload = CRecord [(1, CStr ''src''), (2, CUuid boot),
     (3, CUint 1), (4, CUuid (Uuid 1)), (5, CStr ''recalled''), (epoch_tag, CUint 1)]\<rparr>"

lemmas request_eval = handle_request_def field_uuid_def field_str_def codec_simps

lemma recall_request_fields [simp]:
  "m_type (recall_request b) = Invalidate" "field_str (recall_request b) 1 = ''src''"
  "field_uuid zero_uuid (recall_request b) 2 = b" "field_uuid zero_uuid (recall_request b) 4 = Uuid 1"
  "uint_or 0 (m_payload (recall_request b)) epoch_tag = 1"
  by (simp_all add: recall_request_def field_str_def field_uuid_def codec_simps)

lemma example_coordinator_fields [simp]:
  "epoch (example_coordinator R) = 1" "co_registry (example_coordinator R) = R"
  "sources (example_coordinator R) = [''src'' \<mapsto> \<lparr>boot_id = Uuid 7, generation = 1, scope = ''*''\<rparr>]"
  by (simp_all add: example_coordinator_def start_coordinator_def)

theorem mutation_authorised_witness:
  "\<exists>S'. handle_request (Uuid 5) (recall_request (Uuid 7)) (example_coordinator example_registry) =
      (Inr (True, \<lparr>m_type = Ack, m_payload = CRecord []\<rparr>), S') \<and>
    (\<exists>i. sources (example_coordinator example_registry) ''src'' = Some i \<and> boot_id i = Uuid 7)"
proof -
  let ?S = "example_coordinator example_registry" and ?m = "recall_request (Uuid 7)"
  let ?S' = "?S\<lparr>co_registry := snd (invalidate_profile (Uuid 1) (field_str ?m 5) example_registry)\<rparr>"
  have h: "handle_request (Uuid 5) ?m ?S = (Inr (True, \<lparr>m_type = Ack, m_payload = CRecord []\<rparr>), ?S')"
    by (simp add: handle_request_def handle_invalidate_def update_refused_def ack_rec_def mk_record_literal)
  have "invalidations (co_registry ?S') \<noteq> invalidations (co_registry ?S)"
    by (simp add: invalidate_profile_def example_registry_def)
  then have "co_registry ?S' \<noteq> (co_registry ?S)\<lparr>decisions := decisions (co_registry ?S')\<rparr>"
    by (metis registry.ext_inject registry.surjective registry.update_convs(4))
  with mutation_authorised [OF h] h show ?thesis
    by auto
qed

text \<open>
  Property C22. A source that registers again fences off its earlier boot: once the entry of a source
  carries another boot id than \<open>b\<close>, every profile, rule, evidence or invalidation sent for
  it with \<open>b\<close> is refused and changes nothing, whatever requests come in between, as long as \<open>b\<close> is
  not drawn again. The epoch never moves while the coordinator runs.
\<close>

theorem stale_boot_refused:
  assumes "\<forall>i. sources S (field_str m 1) = Some i \<longrightarrow> boot_id i \<noteq> field_uuid zero_uuid m 2"
    and "field_uuid zero_uuid m 2 \<notin> fst ` set ms"
    and "m_type m \<in> {Register_Profile, Register_Rule, Register_Evidence, Invalidate}"
  shows "\<exists>resp. handle_request u m (requests ms S) = (Inr (False, resp), requests ms S) \<and>
    epoch (requests ms S) = epoch S"
proof -
  let ?S = "requests ms S"
  have gone: "boot_id i \<noteq> field_uuid zero_uuid m 2" if "sources ?S (field_str m 1) = Some i" for i
    using boot_id_gone [OF assms(1,2) that] .
  then have update: "\<exists>why. update_refused (field_str m 1) (field_uuid zero_uuid m 2) ep ?S = Some why"
    and profile: "profile_refused (field_str m 1) (field_uuid zero_uuid m 2) g dom ep ?S \<noteq> None" for ep g dom
    by (auto simp: update_refused_def profile_refused_def split: option.splits)
  have "\<exists>resp. handle_request u m ?S = (Inr (False, resp), ?S)"
  proof (cases "m_type m = Register_Profile")
    case True
    then show ?thesis
      by (cases rule: handle_register_profile_cases [of u m ?S]) (simp_all add: handle_request_def profile)
  next
    case False
    then show ?thesis
      using update [of "uint_or 0 (m_payload m) epoch_tag"] assms(3)
      by (auto simp: handle_request_def handle_register_rule_def handle_register_evidence_def handle_invalidate_def)
  qed
  moreover have "epoch (requests ms S) = epoch S"
    by (induction ms arbitrary: S) (auto simp: handle_request_epoch)
  ultimately show ?thesis
    by blast
qed

theorem stale_boot_refused_witness:
  "\<exists>resp. handle_request (Uuid 5) (recall_request (Uuid 6)) (requests [(Uuid 3, recall_request (Uuid 7))]
     (example_coordinator example_registry)) =
     (Inr (False, resp), requests [(Uuid 3, recall_request (Uuid 7))] (example_coordinator example_registry))"
  using stale_boot_refused [of "example_coordinator example_registry" "recall_request (Uuid 6)"
      "[(Uuid 3, recall_request (Uuid 7))]"] by auto

text \<open>
  Property C35. An exception of the evaluator leaves \<^verbatim>\<open>run\<close>: the query is not answered, and no later
  request on the connection nor any later connection is served. Any source can bring this about, since the
  outcome of a rule on the wire is not checked: evaluating a rule whose outcome is no enumerator throws.
\<close>

theorem query_exception_stops_server:
  assumes "recv_frame s = Inr (q, s')" and "m_type q = Query_Pair"
    and "evaluate_locked (field_uuid zero_uuid q 1) (field_uuid zero_uuid q 2) False (co_registry S) = Inl e"
  shows "run seed sent k (s # cs) S = ([[]], Crashed e, Suc k, S)"
proof -
  have "handle_request (seed k) q S = (Inl e, S)"
    using assms(2,3) by (simp add: handle_request_def handle_query_def evaluate_pair_def)
  then have "serve seed sent k s S = ([], Crashed e, Suc k, S)"
    using assms(1) by (simp add: serve.simps reply_frame_def)
  then show ?thesis by simp
qed

definition raw_rules :: "(uuid, rule_record) umap" where
  "raw_rules = [(Uuid 9, \<lparr>rr_rule = (example_rule 1)\<lparr>r_outcome := outcome_cast 99\<rparr>, rr_active = True,
     rr_superseded = False\<rparr>)]"

definition pair_query :: net_message where
  "pair_query = \<lparr>m_type = Query_Pair, m_payload = CRecord [(1, CUuid (Uuid 1)), (2, CUuid (Uuid 2))]\<rparr>"

lemma raw_outcome_throws:
  "evaluate_locked (Uuid 1) (Uuid 2) False (pair_registry raw_rules) =
     Inl (Runtime_Error ''outcome_name: unknown outcome'')"
proof -
  have "candidates (scope_of False) pair_left pair_right (pair_registry raw_rules) =
      [(example_rule 1)\<lparr>r_outcome := outcome_cast 99\<rparr>]"
    by (simp add: candidates_def applicable_def kind_matches_def pair_registry_simps raw_rules_def example_rule_def)
  then show ?thesis
    by (simp add: evaluate_locked_def pair_current pair_fingerprints eval_rule_def example_rule_def
        any_of_result_def kind_result_def start_eval_def decide_def counts_def take_eval_def Let_def
        decision_identity_def mk_record_tags_ok canonical_fingerprint_def canonical_encode_enc
        with_digest_def compute_digest_canon explain_text_def outcome_cast_def)
qed

lemma pair_query_framed: "\<exists>f. recv_frame f = Inr (pair_query, [])"
proof -
  let ?c = "m_payload pair_query"
  have ok: "canon_ok ?c" "canon_fits ?c" "length (k_magic @ [k_version] @ enc ?c) \<le> max_frame"
    by (simp_all add: pair_query_def bytes_length k_magic_def max_frame_def)
  let ?pl = "k_magic @ [k_version] @ enc ?c"
  have "recv_frame (frame_bytes 5 ?pl (crc32 ?pl) @ []) = Inr (pair_query, [])"
    using ok(3) unframe_frame_bytes [of ?pl 5 "crc32 ?pl" "[]"] canonical_decode_encode_enc [OF ok(1,2)]
    unfolding recv_frame_bytes [OF ok(3)]
    by (simp add: max_frame_def msg_type_cast_def pair_query_def)
  then show ?thesis by blast
qed

theorem query_exception_stops_server_witness:
  "\<exists>f e. recv_frame f = Inr (pair_query, []) \<and>
     run (\<lambda>_. Uuid 7) (\<lambda>_. True) 0 [f, f] (start_coordinator (pair_registry raw_rules)) =
       ([[]], Crashed e, 1, start_coordinator (pair_registry raw_rules))"
proof -
  obtain f where f: "recv_frame f = Inr (pair_query, [])"
    using pair_query_framed by blast
  have "m_type pair_query = Query_Pair" "field_uuid zero_uuid pair_query 1 = Uuid 1"
    "field_uuid zero_uuid pair_query 2 = Uuid 2"
    by (simp_all add: pair_query_def field_uuid_def codec_simps)
  with query_exception_stops_server [OF f] f raw_outcome_throws show ?thesis
    by (auto simp: start_coordinator_def)
qed

end
