(* ===== verification/Client.thy ===== *)
theory Client
  imports Coordinator
begin

text \<open>
  \<^verbatim>\<open>RegistryClient\<close> of \<^verbatim>\<open>include/compat/net.hpp\<close> and \<^verbatim>\<open>src/compat/net.cpp\<close>: one request per call,
  framed, answered by one frame. What is on the other side of the socket is a parameter:
  \<open>exchange f\<close> is what can be read after sending \<open>f\<close>, or \<open>None\<close> when sending fails. The locale
  \<open>responder\<close> is the contract the client needs of it, and the coordinator meets it.
\<close>

section \<open>Sending\<close>

record client =
  connected :: bool
  cl_epoch :: u64

text \<open>\<open>outcome\<close> is what the socket calls of \<^verbatim>\<open>connect\<close> come to: an error text, or a connection.\<close>

definition client_connect :: "string option \<Rightarrow> client \<Rightarrow> (string + unit) \<times> client" where
  "client_connect outcome cl =
     (case outcome of Some err \<Rightarrow> (Inl err, cl) | None \<Rightarrow> (Inr (), cl\<lparr>connected := True\<rparr>))"

definition client_close :: "client \<Rightarrow> client" where
  "client_close cl = cl\<lparr>connected := False\<rparr>"

definition set_epoch :: "u64 \<Rightarrow> client \<Rightarrow> client" where
  "set_epoch ep cl = cl\<lparr>cl_epoch := ep\<rparr>"

type_synonym exchange = "bytes \<Rightarrow> bytes option"

text \<open>A call fails with the text in \<^verbatim>\<open>err\<close>, returns, or throws.\<close>

type_synonym 'a call = "(string + 'a) res"

definition receive :: "bytes \<Rightarrow> net_message call" where
  "receive s =
     (case recv_frame s of
        Inl (Canon_Error err) \<Rightarrow> Inr (Inl err)
      | Inl (Runtime_Error err) \<Rightarrow> Inr (Inl err)
      | Inl (Invalid_Argument err) \<Rightarrow> Inr (Inl err)
      | Inl Out_Of_Bounds \<Rightarrow> Inl Out_Of_Bounds
      | Inr (resp, _) \<Rightarrow> if m_type resp = Error then Inr (Inl (field_str resp 1)) else Inr (Inr resp))"

definition client_send :: "exchange \<Rightarrow> client \<Rightarrow> msg_type \<Rightarrow> canon \<Rightarrow> net_message call" where
  "client_send exchange cl t payload =
     (if \<not> connected cl then Inr (Inl ''not connected'')
      else bindE (frame_message t payload) (\<lambda>f.
        case exchange f of None \<Rightarrow> Inr (Inl ''send failed'') | Some s \<Rightarrow> receive s))"

text \<open>What every operation does: build a record, send it, and on success read the response.\<close>

definition send_record :: "exchange \<Rightarrow> client \<Rightarrow> msg_type \<Rightarrow> canon res \<Rightarrow> (net_message \<Rightarrow> 'a) \<Rightarrow> 'a call" where
  "send_record exchange cl t record read =
     bindE record (\<lambda>payload. bindE (client_send exchange cl t payload) (\<lambda>x.
       case x of Inl err \<Rightarrow> Inr (Inl err) | Inr resp \<Rightarrow> Inr (Inr (read resp))))"

section \<open>Operations\<close>

definition source_request :: "string \<Rightarrow> string \<Rightarrow> canon res" where
  "source_request source sc = mk_record [(1, CStr source), (2, CStr sc)]"

text \<open>The coordinator's epoch is learned here; \<open>boot\<close> is the out parameter before the call.\<close>

definition client_register_source :: "exchange \<Rightarrow> string \<Rightarrow> string \<Rightarrow> uuid \<Rightarrow> client \<Rightarrow> uuid call \<times> client" where
  "client_register_source exchange source sc boot cl =
     (case send_record exchange cl Register_Source (source_request source sc) (\<lambda>resp. resp) of
        Inr (Inr resp) \<Rightarrow> (Inr (Inr (field_uuid boot resp 1)), cl\<lparr>cl_epoch := uint_or 0 (m_payload resp) 2\<rparr>)
      | Inr (Inl err) \<Rightarrow> (Inr (Inl err), cl)
      | Inl e \<Rightarrow> (Inl e, cl))"

definition profile_request :: "u64 \<Rightarrow> string \<Rightarrow> uuid \<Rightarrow> u64 \<Rightarrow> canon \<Rightarrow> profile_kind \<Rightarrow> string \<Rightarrow> canon res" where
  "profile_request ep source boot sgen profile kd domain =
     bindE (mk_record (as_record profile)) (\<lambda>prof. mk_record
     [(1, CStr source), (2, CUuid boot), (3, CUint sgen), (4, CStr domain), (5, prof),
      (6, CUint (ucast (profile_kind_code kd))), (epoch_tag, CUint ep)])"

definition client_register_profile ::
  "exchange \<Rightarrow> client \<Rightarrow> string \<Rightarrow> uuid \<Rightarrow> u64 \<Rightarrow> canon \<Rightarrow> profile_kind \<Rightarrow> string \<Rightarrow> uuid \<Rightarrow> uuid call" where
  "client_register_profile exchange cl source boot sgen profile kd domain pid =
     send_record exchange cl Register_Profile (profile_request (cl_epoch cl) source boot sgen profile kd domain)
       (\<lambda>resp. field_uuid pid resp 1)"

definition rule_request :: "u64 \<Rightarrow> string \<Rightarrow> uuid \<Rightarrow> u64 \<Rightarrow> rule \<Rightarrow> canon res" where
  "rule_request ep source boot sgen r =
     bindE (mapE enc_constraint_wire (r_required r)) (\<lambda>required.
     bindE (mapE enc_constraint_wire (r_incompatible_with r)) (\<lambda>incompatible. mk_record
     ([(1, CStr source), (2, CUuid boot), (3, CUint sgen), (4, CUuid (r_rule_id r)),
       (5, CUint (r_generation r)), (6, CStr (r_scope r)), (7, CStr (r_domain r)),
       (8, CInt (scast (r_priority r))), (9, CUint (ucast (outcome_code (r_outcome r)))),
       (10, CSeq required), (11, CSeq incompatible)] @
      put_opt 12 (\<lambda>k. CUint (ucast (profile_kind_code k))) (r_left_kind r) @
      put_opt 13 (\<lambda>k. CUint (ucast (profile_kind_code k))) (r_right_kind r) @
      [(epoch_tag, CUint ep)])))"

definition client_register_rule :: "exchange \<Rightarrow> client \<Rightarrow> string \<Rightarrow> uuid \<Rightarrow> u64 \<Rightarrow> rule \<Rightarrow> unit call" where
  "client_register_rule exchange cl source boot sgen r =
     send_record exchange cl Register_Rule (rule_request (cl_epoch cl) source boot sgen r) (\<lambda>_. ())"

definition evidence_request :: "u64 \<Rightarrow> string \<Rightarrow> uuid \<Rightarrow> u64 \<Rightarrow> evidence_record \<Rightarrow> canon res" where
  "evidence_request ep source boot sgen ev =
     bindE (mk_record (as_record (ev_value ev))) (\<lambda>value. mk_record
     [(1, CStr source), (2, CUuid boot), (3, CUint sgen), (4, CStr (ev_field ev)), (5, value),
      (epoch_tag, CUint ep)])"

definition client_register_evidence ::
  "exchange \<Rightarrow> client \<Rightarrow> string \<Rightarrow> uuid \<Rightarrow> u64 \<Rightarrow> evidence_record \<Rightarrow> unit call" where
  "client_register_evidence exchange cl source boot sgen ev =
     send_record exchange cl Register_Evidence (evidence_request (cl_epoch cl) source boot sgen ev) (\<lambda>_. ())"

definition query_request :: "u64 \<Rightarrow> uuid \<Rightarrow> uuid \<Rightarrow> canon res" where
  "query_request ep left right = mk_record [(1, CUuid left), (2, CUuid right), (epoch_tag, CUint ep)]"

text \<open>\<open>d\<close> is the caller's decision, of which only some members are overwritten.\<close>

definition client_query_pair :: "exchange \<Rightarrow> client \<Rightarrow> uuid \<Rightarrow> uuid \<Rightarrow> decision \<Rightarrow> decision call" where
  "client_query_pair exchange cl left right d =
     send_record exchange cl Query_Pair (query_request (cl_epoch cl) left right) (\<lambda>resp.
       d\<lparr>d_left := left, d_right := right, d_outcome := outcome_cast (ucast (uint_or 0 (m_payload resp) 1)),
         d_decision_id := field_uuid (d_decision_id d) resp 2, d_rule_id := field_uuid (d_rule_id d) resp 3,
         d_explanation := str_or (d_explanation d) (m_payload resp) 4\<rparr>)"

definition client_query_requirement :: "exchange \<Rightarrow> client \<Rightarrow> uuid \<Rightarrow> uuid \<Rightarrow> decision \<Rightarrow> decision call" where
  "client_query_requirement exchange cl candidate req d =
     send_record exchange cl Query_Requirement (query_request (cl_epoch cl) candidate req) (\<lambda>resp.
       d\<lparr>d_left := candidate, d_right := req, d_outcome := outcome_cast (ucast (uint_or 0 (m_payload resp) 1)),
         d_decision_id := field_uuid (d_decision_id d) resp 2\<rparr>)"

definition invalidate_request :: "u64 \<Rightarrow> string \<Rightarrow> uuid \<Rightarrow> u64 \<Rightarrow> uuid \<Rightarrow> string \<Rightarrow> canon res" where
  "invalidate_request ep source boot sgen target reason = mk_record
     [(1, CStr source), (2, CUuid boot), (3, CUint sgen), (4, CUuid target), (5, CStr reason),
      (epoch_tag, CUint ep)]"

definition client_invalidate :: "exchange \<Rightarrow> client \<Rightarrow> string \<Rightarrow> uuid \<Rightarrow> u64 \<Rightarrow> uuid \<Rightarrow> string \<Rightarrow> unit call" where
  "client_invalidate exchange cl source boot sgen target reason =
     send_record exchange cl Invalidate (invalidate_request (cl_epoch cl) source boot sgen target reason) (\<lambda>_. ())"

definition client_snapshot :: "exchange \<Rightarrow> client \<Rightarrow> unit call" where
  "client_snapshot exchange cl = send_record exchange cl Snapshot (mk_record []) (\<lambda>_. ())"

definition client_shutdown :: "exchange \<Rightarrow> client \<Rightarrow> unit call" where
  "client_shutdown exchange cl = send_record exchange cl Shutdown (mk_record []) (\<lambda>_. ())"

section \<open>What the client needs of its peer\<close>

text \<open>A payload that fits a frame the receiver accepts.\<close>

definition sendable :: "canon \<Rightarrow> bool" where
  "sendable c \<longleftrightarrow> canon_ok c \<and> canon_fits c \<and> length (k_magic @ [k_version] @ enc c) \<le> max_frame"

definition frame_of :: "net_message \<Rightarrow> bytes \<Rightarrow> bool" where
  "frame_of m f \<longleftrightarrow> frame_message (m_type m) (m_payload m) = Inr f \<and> (\<forall>rest. recv_frame (f @ rest) = Inr (m, rest))"

lemma frame_of_alone: "frame_of m f \<Longrightarrow> recv_frame f = Inr (m, [])"
  unfolding frame_of_def by (metis append_Nil2)

lemma sendable_framed:
  assumes "sendable c" and "msg_type_ok t"
  shows "\<exists>f. frame_of \<lparr>m_type = t, m_payload = c\<rparr> f"
proof -
  let ?pl = "k_magic @ [k_version] @ enc c"
  let ?f = "frame_bytes (msg_type_code t) ?pl (crc32 ?pl)"
  have small: "length ?pl \<le> max_frame" and c: "canonical_decode ?pl = Inr c"
    using assms(1) canonical_decode_encode_enc by (simp_all add: sendable_def)
  then have "unframe_message (?f @ []) = Inr (\<lparr>m_type = t, m_payload = c\<rparr>, 14 + length ?pl)"
    using assms(2) by (subst unframe_frame_bytes) (simp_all add: max_frame_def MsgType_u8.cast_code)
  then have "recv_frame (?f @ rest) = Inr (\<lparr>m_type = t, m_payload = c\<rparr>, rest)" for rest
    unfolding recv_frame_bytes [OF small] append_Nil2 by simp
  then show ?thesis
    using frame_message_bytes [of c t] assms(1) by (auto simp: sendable_def frame_of_def)
qed

locale responder =
  fixes exchange :: exchange
    and served :: "net_message \<Rightarrow> bool"
    and reply :: "net_message \<Rightarrow> net_message"
  assumes answered: "served m \<Longrightarrow> recv_frame f = Inr (m, []) \<Longrightarrow>
    \<exists>s rest. exchange f = Some s \<and> recv_frame s = Inr (reply m, rest)"
begin

lemma client_send_reply:
  assumes "connected cl" and "sendable p" and "msg_type_ok t" and "served \<lparr>m_type = t, m_payload = p\<rparr>"
  shows "client_send exchange cl t p =
    (let resp = reply \<lparr>m_type = t, m_payload = p\<rparr> in
     if m_type resp = Error then Inr (Inl (field_str resp 1)) else Inr (Inr resp))"
proof -
  obtain f where f: "frame_message t p = Inr f" "recv_frame f = Inr (\<lparr>m_type = t, m_payload = p\<rparr>, [])"
    using sendable_framed [OF assms(2,3)] frame_of_alone by (auto simp: frame_of_def)
  then obtain s rest where "exchange f = Some s" "recv_frame s = Inr (reply \<lparr>m_type = t, m_payload = p\<rparr>, rest)"
    using answered [OF assms(4), of f] by auto
  with f(1) assms(1) show ?thesis
    by (simp add: client_send_def receive_def Let_def)
qed

lemma send_record_reply:
  assumes "connected cl" and "sendable p" and "msg_type_ok t" and "served \<lparr>m_type = t, m_payload = p\<rparr>"
    and "record = Inr p"
  shows "send_record exchange cl t record read =
    (let resp = reply \<lparr>m_type = t, m_payload = p\<rparr> in
     if m_type resp = Error then Inr (Inl (field_str resp 1)) else Inr (Inr (read resp)))"
  using client_send_reply [OF assms(1-4)] assms(5) by (simp add: send_record_def Let_def)

end

section \<open>The coordinator meets the contract\<close>

text \<open>The coordinator answers one request, for which it draws \<open>u\<close>, in state \<open>S\<close>.\<close>

definition ask :: "uuid \<Rightarrow> coordinator \<Rightarrow> exchange" where
  "ask u S f = (case serve (\<lambda>_. u) (\<lambda>_. True) 0 f S of (fs, _, _, _) \<Rightarrow> Some (concat fs))"

definition after_asking :: "uuid \<Rightarrow> coordinator \<Rightarrow> bytes \<Rightarrow> coordinator" where
  "after_asking u S f = (case serve (\<lambda>_. u) (\<lambda>_. True) 0 f S of (_, _, _, S') \<Rightarrow> S')"

definition reply_message :: "handled \<Rightarrow> net_message" where
  "reply_message r =
     (case r of Inr (True, resp) \<Rightarrow> resp
      | _ \<Rightarrow> \<lparr>m_type = Error, m_payload = CRecord [(1, CStr ''request failed'')]\<rparr>)"

definition answers :: "uuid \<Rightarrow> coordinator \<Rightarrow> net_message \<Rightarrow> bool" where
  "answers u S m \<longleftrightarrow> (case fst (handle_request u m S) of
     Inl _ \<Rightarrow> False
   | Inr (ok, resp) \<Rightarrow> ok \<longrightarrow> msg_type_ok (m_type resp) \<and> sendable (m_payload resp))"

lemma reply_framed:
  assumes "answers u S m"
  shows "\<exists>f. reply_frame (fst (handle_request u m S)) = Inr f \<and> frame_of (reply_message (fst (handle_request u m S))) f"
proof -
  obtain ok t p where r: "fst (handle_request u m S) = Inr (ok, \<lparr>m_type = t, m_payload = p\<rparr>)"
    using assms by (cases "fst (handle_request u m S)") (auto simp: answers_def intro: net_message.cases)
  have "sendable (CRecord [(1, CStr ''request failed'')])"
    by (simp add: sendable_def k_magic_def bytes_length max_frame_def)
  then obtain g where failed: "frame_of \<lparr>m_type = Error, m_payload = CRecord [(1, CStr ''request failed'')]\<rparr> g"
    using sendable_framed [of _ Error] by auto
  show ?thesis
  proof (cases ok)
    case True
    then obtain f where "frame_of \<lparr>m_type = t, m_payload = p\<rparr> f"
      using assms r sendable_framed [of p t] by (auto simp: answers_def)
    then show ?thesis
      using True r by (auto simp: reply_frame_def reply_message_def frame_of_def)
  next
    case False
    then show ?thesis
      using failed r by (auto simp: reply_frame_def reply_message_def err_rec_def mk_record_literal frame_of_def)
  qed
qed

lemma recv_frame_Nil: "recv_frame [] = Inl (Runtime_Error ''recv header failed'')"
  by (simp add: recv_frame_def)

lemma serve_one:
  assumes "recv_frame f = Inr (m, [])" and "answers u S m"
  shows "\<exists>g n. serve (\<lambda>_. u) (\<lambda>_. True) 0 f S =
      ([g], if m_type m = Shutdown then Shut_Down else Closed, n, snd (handle_request u m S)) \<and>
    recv_frame g = Inr (reply_message (fst (handle_request u m S)), [])"
proof -
  obtain r S' where h: "handle_request u m S = (r, S')"
    by (cases "handle_request u m S")
  obtain g where g: "reply_frame r = Inr g" "recv_frame g = Inr (reply_message r, [])"
    using reply_framed [OF assms(2)] h frame_of_alone by auto
  have "serve (\<lambda>_. u) (\<lambda>_. True) k [] S' = ([], Closed, k, S')" for k
    by (simp add: serve.simps recv_frame_Nil)
  then show ?thesis
    using assms(1) h g by (simp add: serve.simps [of _ _ _ f])
qed

lemma serve_throws:
  assumes "recv_frame f = Inr (m, s)" and "handle_request u m S = (Inl e, S')"
  shows "serve (\<lambda>_. u) (\<lambda>_. True) 0 f S = ([], Crashed e, 1, S')"
  using assms by (simp add: serve.simps [of _ _ _ f] reply_frame_def)

interpretation coordinator_peer: responder "ask u S" "answers u S" "\<lambda>m. reply_message (fst (handle_request u m S))"
  for u S
proof
  fix m f assume "answers u S m" and "recv_frame f = Inr (m, [])"
  then obtain g e n where "serve (\<lambda>_. u) (\<lambda>_. True) 0 f S = ([g], e, n, snd (handle_request u m S))"
      "recv_frame g = Inr (reply_message (fst (handle_request u m S)), [])"
    using serve_one by blast
  then show "\<exists>s rest. ask u S f = Some s \<and> recv_frame s = Inr (reply_message (fst (handle_request u m S)), rest)"
    by (simp add: ask_def)
qed

lemma after_asking_sent:
  assumes "frame_message t p = Inr f" and "sendable p" and "msg_type_ok t" and "answers u S \<lparr>m_type = t, m_payload = p\<rparr>"
  shows "after_asking u S f = snd (handle_request u \<lparr>m_type = t, m_payload = p\<rparr> S)"
proof -
  have "recv_frame f = Inr (\<lparr>m_type = t, m_payload = p\<rparr>, [])"
    using sendable_framed [OF assms(2,3)] assms(1) frame_of_alone by (auto simp: frame_of_def)
  then show ?thesis
    using serve_one [OF _ assms(4), of f] by (auto simp: after_asking_def)
qed

section \<open>A rule on the wire\<close>

definition wired_constraint :: "constraint \<Rightarrow> constraint" where
  "wired_constraint c = c\<lparr>c_expected2 := CNull, c_set := [], c_note := []\<rparr>"

definition wired :: "rule \<Rightarrow> rule" where
  "wired r = r\<lparr>r_generation := 0, r_active := True, r_kind := RK_Equality, r_any_of := [], r_conditions := [],
     r_adaptations := [], r_provenance := [], r_required := map wired_constraint (r_required r),
     r_incompatible_with := map wired_constraint (r_incompatible_with r)\<rparr>"

lemma wire_constraint_back:
  "pred_op_ok (c_op c) \<Longrightarrow> enc_constraint_wire c = Inr e \<Longrightarrow> dec_constraint_wire e = wired_constraint c"
  by (auto simp: enc_constraint_wire_def dec_constraint_wire_def wired_constraint_def codec_simps casts_back)

lemma wire_constraints_back:
  "\<forall>c \<in> set cs. pred_op_ok (c_op c) \<Longrightarrow> mapE enc_constraint_wire cs = Inr es \<Longrightarrow>
     map dec_constraint_wire es = map wired_constraint cs"
  by (induction cs arbitrary: es) (auto simp: bindE_eq_Inr wire_constraint_back)

lemma rule_fields:
  assumes "mk_record ([(1, CStr source), (2, CUuid boot), (3, CUint sgen), (4, CUuid i), (5, CUint g),
       (6, CStr sc), (7, CStr dm), (8, CInt pr), (9, CUint out), (10, CSeq es1), (11, CSeq es2)] @
      put_opt 12 (\<lambda>k. CUint (ucast (profile_kind_code k))) lk @
      put_opt 13 (\<lambda>k. CUint (ucast (profile_kind_code k))) rk @ [(epoch_tag, CUint ep)]) = Inr p"
  shows "field p 4 = Some (CUuid i)" "field p 6 = Some (CStr sc)" "field p 7 = Some (CStr dm)"
    "field p 8 = Some (CInt pr)" "field p 9 = Some (CUint out)" "field p 10 = Some (CSeq es1)"
    "field p 11 = Some (CSeq es2)"
    "field p 12 = map_option (\<lambda>k. CUint (ucast (profile_kind_code k))) lk"
    "field p 13 = map_option (\<lambda>k. CUint (ucast (profile_kind_code k))) rk"
proof -
  have p: "p = CRecord ([(1, CStr source), (2, CUuid boot), (3, CUint sgen), (4, CUuid i), (5, CUint g),
       (6, CStr sc), (7, CStr dm), (8, CInt pr), (9, CUint out), (10, CSeq es1), (11, CSeq es2)] @
      put_opt 12 (\<lambda>k. CUint (ucast (profile_kind_code k))) lk @
      put_opt 13 (\<lambda>k. CUint (ucast (profile_kind_code k))) rk @ [(epoch_tag, CUint ep)])"
    using assms by (cases lk; cases rk) (simp_all add: mk_record_literal)
  show "field p 4 = Some (CUuid i)" "field p 6 = Some (CStr sc)" "field p 7 = Some (CStr dm)"
    "field p 8 = Some (CInt pr)" "field p 9 = Some (CUint out)" "field p 10 = Some (CSeq es1)"
    "field p 11 = Some (CSeq es2)"
    by (simp_all add: p field_Cons)
  show "field p 12 = map_option (\<lambda>k. CUint (ucast (profile_kind_code k))) lk"
    "field p 13 = map_option (\<lambda>k. CUint (ucast (profile_kind_code k))) rk"
    by (cases lk; cases rk; simp add: p field_Cons)+
qed

lemma opt_kind_back:
  "field p tag = map_option (\<lambda>k. CUint (ucast (profile_kind_code k))) k \<Longrightarrow> kind_option_ok k \<Longrightarrow>
     opt_enum profile_kind_cast p tag = k"
  by (cases k) (simp_all add: opt_enum_def kind_option_ok_def ProfileKind_u8.cast_u64)

lemma rule_request_record:
  assumes "rule_request ep source boot sgen r = Inr p"
  obtains es1 es2 where "mapE enc_constraint_wire (r_required r) = Inr es1"
    "mapE enc_constraint_wire (r_incompatible_with r) = Inr es2"
    "mk_record ([(1, CStr source), (2, CUuid boot), (3, CUint sgen), (4, CUuid (r_rule_id r)),
       (5, CUint (r_generation r)), (6, CStr (r_scope r)), (7, CStr (r_domain r)),
       (8, CInt (scast (r_priority r))), (9, CUint (ucast (outcome_code (r_outcome r)))),
       (10, CSeq es1), (11, CSeq es2)] @
      put_opt 12 (\<lambda>k. CUint (ucast (profile_kind_code k))) (r_left_kind r) @
      put_opt 13 (\<lambda>k. CUint (ucast (profile_kind_code k))) (r_right_kind r) @
      [(epoch_tag, CUint ep)]) = Inr p"
  using assms by (auto simp: rule_request_def bindE_eq_Inr)

lemma rule_request_authority:
  assumes "rule_request ep source boot sgen r = Inr p"
  shows "field p 1 = Some (CStr source)" "field p 2 = Some (CUuid boot)" "field p epoch_tag = Some (CUint ep)"
  by (rule rule_request_record [OF assms],
    cases "r_left_kind r"; cases "r_right_kind r"; auto simp: mk_record_literal field_Cons)+

lemma wire_rule_wired:
  assumes "rule_request ep source boot sgen r = Inr p" and "outcome_ok (r_outcome r)"
    and "kind_option_ok (r_left_kind r)" and "kind_option_ok (r_right_kind r)"
    and "\<forall>c \<in> set (r_required r) \<union> set (r_incompatible_with r). pred_op_ok (c_op c)"
  shows "wire_rule \<lparr>m_type = Register_Rule, m_payload = p\<rparr> = wired r"
proof -
  obtain es1 es2 where es: "mapE enc_constraint_wire (r_required r) = Inr es1"
      "mapE enc_constraint_wire (r_incompatible_with r) = Inr es2"
    and rec: "mk_record ([(1, CStr source), (2, CUuid boot), (3, CUint sgen), (4, CUuid (r_rule_id r)),
       (5, CUint (r_generation r)), (6, CStr (r_scope r)), (7, CStr (r_domain r)),
       (8, CInt (scast (r_priority r))), (9, CUint (ucast (outcome_code (r_outcome r)))),
       (10, CSeq es1), (11, CSeq es2)] @
      put_opt 12 (\<lambda>k. CUint (ucast (profile_kind_code k))) (r_left_kind r) @
      put_opt 13 (\<lambda>k. CUint (ucast (profile_kind_code k))) (r_right_kind r) @
      [(epoch_tag, CUint ep)]) = Inr p"
    by (rule rule_request_record [OF assms(1)])
  have cons: "map dec_constraint_wire es1 = map wired_constraint (r_required r)"
    "map dec_constraint_wire es2 = map wired_constraint (r_incompatible_with r)"
    using wire_constraints_back es assms(5) by auto
  note fields = rule_fields [OF rec]
  show ?thesis
    unfolding wire_rule_def wired_def
    using assms(2) opt_kind_back [OF fields(8) assms(3)] opt_kind_back [OF fields(9) assms(4)] cons
    by (simp add: int32_or_def field_uuid_def field_str_def uuid_or_def str_or_def enum_or_def seq_at_def
        fields Outcome_u8.cast_u64 scast_back)
qed

section \<open>A conversation\<close>

text \<open>What a connection is about: the replies to a list of requests, one after the other.\<close>

fun conversation :: "(nat \<Rightarrow> uuid) \<Rightarrow> nat \<Rightarrow> net_message list \<Rightarrow> coordinator \<Rightarrow> net_message list \<times> coordinator" where
  "conversation seed k [] S = ([], S)"
| "conversation seed k (m # ms) S =
     (case handle_request (seed k) m S of (r, S') \<Rightarrow>
       (case conversation seed (Suc k) ms S' of (rs, S'') \<Rightarrow> (reply_message r # rs, S'')))"

fun all_answered :: "(nat \<Rightarrow> uuid) \<Rightarrow> nat \<Rightarrow> net_message list \<Rightarrow> coordinator \<Rightarrow> bool" where
  "all_answered seed k [] S = True"
| "all_answered seed k (m # ms) S =
     (answers (seed k) S m \<and> m_type m \<noteq> Shutdown \<and>
      all_answered seed (Suc k) ms (snd (handle_request (seed k) m S)))"

lemma serve_conversation:
  assumes "list_all2 frame_of ms fs" and "all_answered seed k ms S"
  shows "\<exists>gs. serve seed (\<lambda>_. True) k (concat fs) S =
      (gs, Closed, k + length ms, snd (conversation seed k ms S)) \<and>
    list_all2 frame_of (fst (conversation seed k ms S)) gs"
  using assms
proof (induction ms arbitrary: fs k S)
  case Nil
  then show ?case
    by (simp add: serve.simps recv_frame_Nil)
next
  case (Cons m ms)
  obtain f fs' where fs: "fs = f # fs'" "frame_of m f" "list_all2 frame_of ms fs'"
    using Cons.prems(1) by (auto simp: list_all2_Cons1)
  obtain r S' where h: "handle_request (seed k) m S = (r, S')"
    by (cases "handle_request (seed k) m S")
  have ans: "answers (seed k) S m" "m_type m \<noteq> Shutdown" "all_answered seed (Suc k) ms S'"
    using Cons.prems(2) h by simp_all
  obtain g where g: "reply_frame r = Inr g" "frame_of (reply_message r) g"
    using reply_framed [OF ans(1)] h by auto
  obtain gs where gs: "serve seed (\<lambda>_. True) (Suc k) (concat fs') S' =
      (gs, Closed, Suc k + length ms, snd (conversation seed (Suc k) ms S'))"
    "list_all2 frame_of (fst (conversation seed (Suc k) ms S')) gs"
    using Cons.IH [OF fs(3) ans(3)] by blast
  have "recv_frame (concat fs) = Inr (m, concat fs')"
    using fs(1,2) by (simp add: frame_of_def)
  then have "serve seed (\<lambda>_. True) k (concat fs) S =
      (g # gs, Closed, k + length (m # ms), snd (conversation seed (Suc k) ms S'))"
    using h g(1) ans(2) gs(1) by (simp add: serve.simps [of _ _ _ "concat fs"])
  with gs(2) g(2) h show ?case
    by (intro exI [of _ "g # gs"]) (simp add: case_prod_beta')
qed

section \<open>Properties\<close>

text \<open>
  A profile registered through the client is registered by the coordinator as a local
  call would have registered it: same payload and kind, the identifier drawn there comes back, the registry
  afterwards is that of the local call, and the source's generation is the one that was sent.
\<close>

theorem remote_registration:
  assumes "connected cl" and "cl_epoch cl = epoch S" and "profile_refused source boot sgen domain (epoch S) S = None"
    and "kind profile = KRecord" and "canon_ok profile" and "profile_kind_ok kd"
    and "profile_request (epoch S) source boot sgen profile kd domain = Inr p" and "sendable p"
    and "register_new_profile u kd profile [] [] (co_registry S) = (Inr pid, R)"
  shows "client_register_profile (ask u S) cl source boot sgen profile kd domain d = Inr (Inr pid) \<and>
    (\<exists>f. frame_message Register_Profile p = Inr f \<and> co_registry (after_asking u S f) = R \<and>
      (\<exists>i. sources (after_asking u S f) source = Some i \<and> generation i = sgen))"
proof -
  let ?m = "\<lparr>m_type = Register_Profile, m_payload = p\<rparr>"
  obtain r where r: "profile = CRecord r"
    using assms(4) by (cases profile) simp_all
  have p: "p = CRecord [(1, CStr source), (2, CUuid boot), (3, CUint sgen), (4, CStr domain), (5, profile),
      (6, CUint (ucast (profile_kind_code kd))), (epoch_tag, CUint (epoch S))]"
    using assms(5,7) r by (simp add: profile_request_def mk_record_tags_ok codec_simps)
  obtain i where i: "sources S source = Some i"
    using assms(3) by (auto simp: profile_refused_None)
  have h: "handle_request u ?m S = (Inr (True, \<lparr>m_type = Ack, m_payload = CRecord [(1, CUuid pid)]\<rparr>),
      set_generation source sgen (S\<lparr>co_registry := R\<rparr>))"
    using assms(3,6,9) r unfolding p
    by (simp add: handle_request_def handle_register_profile_def Let_def field_str_def field_uuid_def codec_simps
        casts_back)
  have ans: "answers u S ?m"
    unfolding answers_def h by (simp add: sendable_def k_magic_def bytes_length max_frame_def)
  have "send_record (ask u S) cl Register_Profile
      (profile_request (cl_epoch cl) source boot sgen profile kd domain) (\<lambda>resp. field_uuid d resp 1) = Inr (Inr pid)"
    using coordinator_peer.send_record_reply [OF assms(1,8) _ ans, of "profile_request (cl_epoch cl) source boot sgen profile kd domain" "\<lambda>resp. field_uuid d resp 1"]
      assms(2,7) h by (simp add: reply_message_def field_uuid_def codec_simps Let_def)
  moreover obtain f where "frame_message Register_Profile p = Inr f"
    using sendable_framed [OF assms(8), of Register_Profile] by (auto simp: frame_of_def)
  moreover have "after_asking u S f = set_generation source sgen (S\<lparr>co_registry := R\<rparr>)"
    using after_asking_sent [OF calculation(2) assms(8) _ ans] h by simp
  ultimately show ?thesis
    using i by (simp add: client_register_profile_def set_generation_def)
qed

theorem remote_registration_witness:
  "\<exists>pid R. register_new_profile (Uuid 5) PK_Model model_payload [] [] example_registry = (Inr pid, R) \<and>
     client_register_profile (ask (Uuid 5) (example_coordinator example_registry)) \<lparr>connected = True, cl_epoch = 1\<rparr>
       ''src'' (Uuid 7) 1 model_payload PK_Model ''models'' zero_uuid = Inr (Inr pid)"
proof -
  let ?S = "example_coordinator example_registry"
  obtain p where p: "profile_request (epoch ?S) ''src'' (Uuid 7) 1 model_payload PK_Model ''models'' = Inr p" "sendable p"
    by (simp add: profile_request_def model_payload_def mk_record_tags_ok sendable_def k_magic_def bytes_length
        max_frame_def)
  have "\<not> create_cycle (Uuid 5) [] (graph example_registry)"
    using example_registry_ok by (simp add: registry_ok_def create_cycle_edges has_cycle_edges)
  then obtain R where R: "register_new_profile (Uuid 5) PK_Model model_payload [] [] (co_registry ?S) = (Inr (Uuid 5), R)"
    by (simp add: register_new_profile_def register_profile_def new_profile_def canonical_fingerprint_hex_enc Let_def
        example_registry_def)
  have "profile_refused ''src'' (Uuid 7) 1 ''models'' (epoch ?S) ?S = None"
    by (simp add: profile_refused_None)
  from remote_registration [OF _ _ this _ _ _ p R] R show ?thesis
    by (auto simp: model_payload_def)
qed

text \<open>
  Property C18. Every request is answered: when a connection carries framed requests that the coordinator can answer,
  with whatever contents, the replies come back framed, one per request and in the order of the
  requests, and all of them have taken effect when the connection ends.
\<close>

theorem requests_answered:
  assumes "list_all2 frame_of ms fs" and "all_answered seed k ms S"
  shows "\<exists>gs. serve seed (\<lambda>_. True) k (concat fs) S =
      (gs, Closed, k + length ms, snd (conversation seed k ms S)) \<and>
    length gs = length ms \<and> list_all2 frame_of (fst (conversation seed k ms S)) gs"
proof -
  have "length (fst (conversation seed k ms S)) = length ms"
    by (induction ms arbitrary: k S) (simp_all add: case_prod_beta')
  with serve_conversation [OF assms] show ?thesis
    by (metis list_all2_lengthD)
qed

theorem requests_answered_witness:
  "\<exists>fs gs n S'. list_all2 frame_of [recall_request (Uuid 7), recall_request (Uuid 6)] fs \<and>
     serve (\<lambda>_. Uuid 5) (\<lambda>_. True) 0 (concat fs) (example_coordinator example_registry) = (gs, Closed, n, S') \<and>
     length gs = 2"
proof -
  let ?S = "example_coordinator example_registry"
  have framed: "\<exists>f. frame_of (recall_request b) f" for b
    using sendable_framed [of "m_payload (recall_request b)" "m_type (recall_request b)"]
    by (simp add: recall_request_def sendable_def k_magic_def bytes_length max_frame_def)
  then obtain f g where f: "frame_of (recall_request (Uuid 7)) f" "frame_of (recall_request (Uuid 6)) g"
    by blast
  have answered: "answers u S (recall_request b)" if "epoch S = 1" for u S b
    by (simp add: answers_def handle_request_def handle_invalidate_def ack_rec_def mk_record_literal sendable_def
        k_magic_def bytes_length max_frame_def split: option.splits)
  have "list_all2 frame_of [recall_request (Uuid 7), recall_request (Uuid 6)] [f, g]"
    using f by simp
  moreover have "all_answered (\<lambda>_. Uuid 5) 0 [recall_request (Uuid 7), recall_request (Uuid 6)] ?S"
    using answered handle_request_epoch [of "Uuid 5" "recall_request (Uuid 7)" ?S] by simp
  ultimately obtain gs where "serve (\<lambda>_. Uuid 5) (\<lambda>_. True) 0 (concat [f, g]) ?S =
      (gs, Closed, 0 + length [recall_request (Uuid 7), recall_request (Uuid 6)],
       snd (conversation (\<lambda>_. Uuid 5) 0 [recall_request (Uuid 7), recall_request (Uuid 6)] ?S))"
    "length gs = length [recall_request (Uuid 7), recall_request (Uuid 6)]"
    using requests_answered by blast
  with f show ?thesis
    by (intro exI [of _ "[f, g]"] exI [of _ gs]) simp
qed

text \<open>
  Property C34. Not every rule survives the wire. The coordinator stores the rule without its kind, alternatives,
  conditions, adaptations, provenance and generation, and its constraints without the second
  operand, the set and the note. So a rule that declares an incompatibility outright is stored
  as one that establishes its nominal outcome, by default Compatible.
\<close>

theorem rule_over_wire:
  assumes "rule_request ep source boot sgen r = Inr p" and "outcome_ok (r_outcome r)"
    and "kind_option_ok (r_left_kind r)" and "kind_option_ok (r_right_kind r)"
    and "\<forall>c \<in> set (r_required r) \<union> set (r_incompatible_with r). pred_op_ok (c_op c)"
  shows "wire_rule \<lparr>m_type = Register_Rule, m_payload = p\<rparr> = wired r \<and>
    (r_kind r = RK_Explicit_Incompat \<and> r_required r = [] \<and> r_incompatible_with r = [] \<and> r_any_of r = [] \<longrightarrow>
      map_sum id e_outcome (eval_rule r l x) = Inr Incompatible \<and>
      map_sum id e_outcome (eval_rule (wired r) l x) = Inr (r_outcome r))"
proof -
  have "wire_rule \<lparr>m_type = Register_Rule, m_payload = p\<rparr> = wired r"
    by (rule wire_rule_wired [OF assms])
  moreover have "map_sum id e_outcome (eval_rule r l x) = Inr Incompatible"
    if "r_kind r = RK_Explicit_Incompat" "r_required r = []" "r_incompatible_with r = []" "r_any_of r = []"
    using that by (simp add: eval_rule_def any_of_result_def kind_result_def)
  moreover have "map_sum id e_outcome (eval_rule (wired r) l x) = Inr (r_outcome r)"
    if "r_required r = []" "r_incompatible_with r = []"
    using that by (simp add: eval_rule_def any_of_result_def kind_result_def wired_def)
  ultimately show ?thesis by blast
qed

theorem rule_over_wire_witness:
  "\<exists>p. rule_request 1 ''src'' (Uuid 7) 1 ((example_rule 1)\<lparr>r_kind := RK_Explicit_Incompat\<rparr>) = Inr p \<and>
     map_sum id e_outcome (eval_rule (wire_rule \<lparr>m_type = Register_Rule, m_payload = p\<rparr>) pair_left pair_right) =
       Inr Compatible \<and>
     map_sum id e_outcome (eval_rule ((example_rule 1)\<lparr>r_kind := RK_Explicit_Incompat\<rparr>) pair_left pair_right) =
       Inr Incompatible"
proof -
  let ?r = "(example_rule 1)\<lparr>r_kind := RK_Explicit_Incompat\<rparr>"
  obtain p where p: "rule_request 1 ''src'' (Uuid 7) 1 ?r = Inr p"
    by (simp add: rule_request_def example_rule_def mk_record_tags_ok)
  from rule_over_wire [OF p, of pair_left pair_right] p show ?thesis
    by (auto simp: example_rule_def kind_option_ok_def)
qed

end
