(* ===== verification/Profiles.thy ===== *)
theory Profiles
  imports Codec Rule
begin

text \<open>
  The eleven typed profiles of \<^verbatim>\<open>include/compat/profile.hpp\<close> with their translation to and from the
  canonical record that the registry stores. The tags are those of the \<^verbatim>\<open>modelf\<close>, \<^verbatim>\<open>tokf\<close>, \<^verbatim>\<open>tns\<close>, \<^verbatim>\<open>kvf\<close>,
  \<^verbatim>\<open>kernf\<close>, \<^verbatim>\<open>graphf\<close>, \<^verbatim>\<open>adapf\<close>, \<^verbatim>\<open>backf\<close>, \<^verbatim>\<open>devf\<close>, \<^verbatim>\<open>protf\<close> and \<^verbatim>\<open>polf\<close> enumerations; the typed identifiers
  each wrap one \<^verbatim>\<open>Uuid\<close> and are modelled as it, an \<^verbatim>\<open>std::int64_t\<close> is its 64 bits. The \<open>*_ok\<close>
  predicates ask that nested records are sorted by tag without duplicates, which \<^verbatim>\<open>mk_record\<close> otherwise
  establishes or refuses, and that the bytes of \<^verbatim>\<open>dynamic_dims\<close> are 0 or 1.
\<close>

lemma bits_back: "set bs \<subseteq> {0, 1 :: u8} \<Longrightarrow>
    map (\<lambda>b. if b then 1 else 0) (the_bools (map (\<lambda>b. CBool (b \<noteq> 0)) bs)) = bs"
  by (induction bs) auto

section \<open>\<^verbatim>\<open>ModelProfile\<close>\<close>

record model_profile =
  mo_model_id :: uuid
  mo_revision_id :: uuid
  mo_architecture :: string
  mo_family :: string
  mo_quantization :: string
  mo_tokenizer_id :: uuid
  mo_vocabulary_id :: uuid
  mo_parameter_count :: "u64 option"
  mo_adapter_ids :: "uuid list"
  mo_dtype :: string
  mo_execution_req :: crecord

definition model_to_canon :: "model_profile \<Rightarrow> canon res" where
  "model_to_canon p =
     bindE (mk_record (mo_execution_req p)) (\<lambda>execution_req.
       mk_record ([(1, CUuid (mo_model_id p)), (2, CUuid (mo_revision_id p)),
       (3, CStr (mo_architecture p)), (4, CStr (mo_family p)), (5, CStr (mo_quantization p)),
       (6, CUuid (mo_tokenizer_id p)),
       (7, CUuid (mo_vocabulary_id p))] @ put_opt 8 CUint (mo_parameter_count p)
       @ [(9, CSeq (map CUuid (mo_adapter_ids p))), (10, CStr (mo_dtype p)), (11, execution_req)]))"

definition model_from_canon :: "canon \<Rightarrow> model_profile res" where
  "model_from_canon c =
     bindE (need_uuid ''ModelProfile: missing model_id'' c 1) (\<lambda>model_id.
     bindE (need_uuid ''ModelProfile: missing revision_id'' c 2) (\<lambda>revision_id.
     bindE (need_str ''ModelProfile: missing string field'' c 3) (\<lambda>architecture.
     bindE (need_str ''ModelProfile: missing string field'' c 4) (\<lambda>family.
     bindE (need_str ''ModelProfile: missing string field'' c 5) (\<lambda>quantization.
     bindE (need_uuid ''ModelProfile: missing tokenizer_id'' c 6) (\<lambda>tokenizer_id.
     bindE (need_uuid ''ModelProfile: missing vocabulary_id'' c 7) (\<lambda>vocabulary_id.
     bindE (need_str ''ModelProfile: missing string field'' c 10) (\<lambda>dtype.
       Inr \<lparr>mo_model_id = model_id, mo_revision_id = revision_id,
       mo_architecture = architecture, mo_family = family, mo_quantization = quantization,
       mo_tokenizer_id = tokenizer_id, mo_vocabulary_id = vocabulary_id,
       mo_parameter_count = opt_uint c 8, mo_adapter_ids = the_uuids (seq_at c 9), mo_dtype = dtype,
       mo_execution_req = record_or [] c 11\<rparr>))))))))"

definition model_ok :: "model_profile \<Rightarrow> bool" where
  "model_ok p \<longleftrightarrow> record_ok (mo_execution_req p)"

interpretation model_codec: record_codec model_to_canon model_from_canon model_ok
proof
  fix p assume "model_ok p"
  then show "\<exists>c. model_to_canon p = Inr c \<and> canon_ok c \<and> model_from_canon c = Inr p"
    by (cases p; cases "mo_parameter_count p")
      (auto simp: model_to_canon_def model_from_canon_def model_ok_def codec_simps)
qed

section \<open>\<^verbatim>\<open>TokenizerProfile\<close>\<close>

record tokenizer_profile =
  tk_tokenizer_id :: uuid
  tk_vocabulary_id :: uuid
  tk_vocab_size :: u64
  tk_special_tokens :: crecord
  tk_normalization :: string
  tk_chat_template :: string

definition tokenizer_to_canon :: "tokenizer_profile \<Rightarrow> canon res" where
  "tokenizer_to_canon p =
     bindE (mk_record (tk_special_tokens p)) (\<lambda>special_tokens.
       mk_record ([(1, CUuid (tk_tokenizer_id p)), (2, CUuid (tk_vocabulary_id p)),
       (3, CUint (tk_vocab_size p)), (4, special_tokens), (5, CStr (tk_normalization p)),
       (6, CStr (tk_chat_template p))]))"

definition tokenizer_from_canon :: "canon \<Rightarrow> tokenizer_profile res" where
  "tokenizer_from_canon c =
     bindE (need_uuid ''TokenizerProfile: tokenizer_id'' c 1) (\<lambda>tokenizer_id.
     bindE (need_uuid ''TokenizerProfile: vocabulary_id'' c 2) (\<lambda>vocabulary_id.
       Inr \<lparr>tk_tokenizer_id = tokenizer_id, tk_vocabulary_id = vocabulary_id,
       tk_vocab_size = uint_or 0 c 3, tk_special_tokens = record_or [] c 4,
       tk_normalization = str_or [] c 5, tk_chat_template = str_or [] c 6\<rparr>))"

definition tokenizer_ok :: "tokenizer_profile \<Rightarrow> bool" where
  "tokenizer_ok p \<longleftrightarrow> record_ok (tk_special_tokens p)"

interpretation tokenizer_codec: record_codec tokenizer_to_canon tokenizer_from_canon tokenizer_ok
proof
  fix p assume "tokenizer_ok p"
  then show "\<exists>c. tokenizer_to_canon p = Inr c \<and> canon_ok c \<and> tokenizer_from_canon c = Inr p"
    by (cases p)
      (auto simp: tokenizer_to_canon_def tokenizer_from_canon_def tokenizer_ok_def codec_simps)
qed

section \<open>\<^verbatim>\<open>TensorProfile\<close>\<close>

record tensor_profile =
  tn_schema_id :: uuid
  tn_rank :: u64
  tn_shape :: "u64 list"
  tn_dynamic_dims :: "u8 list"
  tn_dtype :: string
  tn_layout :: string
  tn_strides :: "u64 list"
  tn_alignment :: "u64 option"
  tn_endianness :: string
  tn_semantic_role :: string

definition tensor_to_canon :: "tensor_profile \<Rightarrow> canon res" where
  "tensor_to_canon p =
     mk_record ([(1, CUuid (tn_schema_id p)), (2, CUint (tn_rank p)),
     (3, CSeq (map CInt (tn_shape p))),
     (4, CSeq (map (\<lambda>b. CBool (b \<noteq> 0)) (tn_dynamic_dims p))), (5, CStr (tn_dtype p)),
     (6, CStr (tn_layout p)), (7, CSeq (map CInt (tn_strides p)))] @ put_opt 8 CUint (tn_alignment p)
     @ [(9, CStr (tn_endianness p)), (10, CStr (tn_semantic_role p))])"

definition tensor_from_canon :: "canon \<Rightarrow> tensor_profile res" where
  "tensor_from_canon c =
     bindE (need_uuid ''TensorProfile: schema_id'' c 1) (\<lambda>schema_id.
       Inr \<lparr>tn_schema_id = schema_id, tn_rank = uint_or 0 c 2, tn_shape = the_ints (seq_at c 3),
       tn_dynamic_dims = map (\<lambda>b. if b then 1 else 0) (the_bools (seq_at c 4)),
       tn_dtype = str_or [] c 5, tn_layout = str_or [] c 6, tn_strides = the_ints (seq_at c 7),
       tn_alignment = opt_uint c 8, tn_endianness = str_or [] c 9,
       tn_semantic_role = str_or [] c 10\<rparr>)"

definition tensor_ok :: "tensor_profile \<Rightarrow> bool" where
  "tensor_ok p \<longleftrightarrow> set (tn_dynamic_dims p) \<subseteq> {0, 1}"

interpretation tensor_codec: record_codec tensor_to_canon tensor_from_canon tensor_ok
proof
  fix p assume "tensor_ok p"
  then show "\<exists>c. tensor_to_canon p = Inr c \<and> canon_ok c \<and> tensor_from_canon c = Inr p"
    by (cases p; cases "tn_alignment p")
      (auto simp: tensor_to_canon_def tensor_from_canon_def tensor_ok_def codec_simps bits_back)
qed

section \<open>\<^verbatim>\<open>KvProfile\<close>\<close>

record kv_profile =
  kv_kv_format_id :: uuid
  kv_model_revision :: string
  kv_layer_count :: u64
  kv_head_count :: u64
  kv_head_dim :: u64
  kv_dtype :: string
  kv_layout :: string
  kv_block_geometry :: crecord
  kv_positional :: string
  kv_seq_context :: u64
  kv_tokenizer_id :: string
  kv_generation :: u64

definition kv_to_canon :: "kv_profile \<Rightarrow> canon res" where
  "kv_to_canon p =
     bindE (mk_record (kv_block_geometry p)) (\<lambda>block_geometry.
       mk_record ([(1, CUuid (kv_kv_format_id p)), (2, CStr (kv_model_revision p)),
       (3, CUint (kv_layer_count p)), (4, CUint (kv_head_count p)), (5, CUint (kv_head_dim p)),
       (6, CStr (kv_dtype p)), (7, CStr (kv_layout p)), (8, block_geometry),
       (9, CStr (kv_positional p)), (10, CUint (kv_seq_context p)), (11, CStr (kv_tokenizer_id p)),
       (12, CUint (kv_generation p))]))"

definition kv_from_canon :: "canon \<Rightarrow> kv_profile res" where
  "kv_from_canon c =
     bindE (need_uuid ''KvProfile: kv_format_id'' c 1) (\<lambda>kv_format_id.
     bindE (need_str ''KvProfile: missing string'' c 2) (\<lambda>model_revision.
     bindE (need_str ''KvProfile: missing string'' c 6) (\<lambda>dtype.
     bindE (need_str ''KvProfile: missing string'' c 7) (\<lambda>layout.
     bindE (need_str ''KvProfile: missing string'' c 9) (\<lambda>positional.
     bindE (need_str ''KvProfile: missing string'' c 11) (\<lambda>tokenizer_id.
       Inr \<lparr>kv_kv_format_id = kv_format_id, kv_model_revision = model_revision,
       kv_layer_count = uint_or 0 c 3, kv_head_count = uint_or 0 c 4, kv_head_dim = uint_or 0 c 5,
       kv_dtype = dtype, kv_layout = layout, kv_block_geometry = record_or [] c 8,
       kv_positional = positional, kv_seq_context = uint_or 0 c 10, kv_tokenizer_id = tokenizer_id,
       kv_generation = uint_or 0 c 12\<rparr>))))))"

definition kv_ok :: "kv_profile \<Rightarrow> bool" where
  "kv_ok p \<longleftrightarrow> record_ok (kv_block_geometry p)"

interpretation kv_codec: record_codec kv_to_canon kv_from_canon kv_ok
proof
  fix p assume "kv_ok p"
  then show "\<exists>c. kv_to_canon p = Inr c \<and> canon_ok c \<and> kv_from_canon c = Inr p"
    by (cases p)
      (auto simp: kv_to_canon_def kv_from_canon_def kv_ok_def codec_simps)
qed

section \<open>\<^verbatim>\<open>KernelProfile\<close>\<close>

record kernel_profile =
  ke_kernel_artifact_id :: uuid
  ke_operation :: string
  ke_architecture :: string
  ke_compute_capability :: string
  ke_abi :: string
  ke_runtime :: string
  ke_compiler :: string
  ke_compiler_version :: string
  ke_dtype :: string
  ke_layout :: string
  ke_shape_spec :: string
  ke_launch_geometry :: crecord
  ke_quantization :: string
  ke_interface :: string
  ke_generation :: u64
  ke_artifact_digest :: string

definition kernel_to_canon :: "kernel_profile \<Rightarrow> canon res" where
  "kernel_to_canon p =
     bindE (mk_record (ke_launch_geometry p)) (\<lambda>launch_geometry.
       mk_record ([(1, CUuid (ke_kernel_artifact_id p)), (2, CStr (ke_operation p)),
       (3, CStr (ke_architecture p)), (4, CStr (ke_compute_capability p)), (5, CStr (ke_abi p)),
       (6, CStr (ke_runtime p)), (7, CStr (ke_compiler p)), (8, CStr (ke_compiler_version p)),
       (9, CStr (ke_dtype p)), (10, CStr (ke_layout p)), (11, CStr (ke_shape_spec p)),
       (12, launch_geometry), (13, CStr (ke_quantization p)), (14, CStr (ke_interface p)),
       (15, CUint (ke_generation p)), (16, CStr (ke_artifact_digest p))]))"

definition kernel_from_canon :: "canon \<Rightarrow> kernel_profile res" where
  "kernel_from_canon c =
     bindE (need_uuid ''KernelProfile: kernel_artifact_id'' c 1) (\<lambda>kernel_artifact_id.
     bindE (need_str ''KernelProfile: missing str'' c 2) (\<lambda>operation.
     bindE (need_str ''KernelProfile: missing str'' c 3) (\<lambda>architecture.
     bindE (need_str ''KernelProfile: missing str'' c 4) (\<lambda>compute_capability.
     bindE (need_str ''KernelProfile: missing str'' c 5) (\<lambda>abi.
     bindE (need_str ''KernelProfile: missing str'' c 6) (\<lambda>runtime.
     bindE (need_str ''KernelProfile: missing str'' c 7) (\<lambda>compiler.
     bindE (need_str ''KernelProfile: missing str'' c 8) (\<lambda>compiler_version.
     bindE (need_str ''KernelProfile: missing str'' c 9) (\<lambda>dtype.
     bindE (need_str ''KernelProfile: missing str'' c 10) (\<lambda>layout.
     bindE (need_str ''KernelProfile: missing str'' c 11) (\<lambda>shape_spec.
     bindE (need_str ''KernelProfile: missing str'' c 13) (\<lambda>quantization.
     bindE (need_str ''KernelProfile: missing str'' c 14) (\<lambda>interface.
     bindE (need_str ''KernelProfile: missing str'' c 16) (\<lambda>artifact_digest.
       Inr \<lparr>ke_kernel_artifact_id = kernel_artifact_id, ke_operation = operation,
       ke_architecture = architecture, ke_compute_capability = compute_capability, ke_abi = abi,
       ke_runtime = runtime, ke_compiler = compiler, ke_compiler_version = compiler_version,
       ke_dtype = dtype, ke_layout = layout, ke_shape_spec = shape_spec,
       ke_launch_geometry = record_or [] c 12, ke_quantization = quantization,
       ke_interface = interface, ke_generation = uint_or 0 c 15,
       ke_artifact_digest = artifact_digest\<rparr>))))))))))))))"

definition kernel_ok :: "kernel_profile \<Rightarrow> bool" where
  "kernel_ok p \<longleftrightarrow> record_ok (ke_launch_geometry p)"

interpretation kernel_codec: record_codec kernel_to_canon kernel_from_canon kernel_ok
proof
  fix p assume "kernel_ok p"
  then show "\<exists>c. kernel_to_canon p = Inr c \<and> canon_ok c \<and> kernel_from_canon c = Inr p"
    by (cases p)
      (auto simp: kernel_to_canon_def kernel_from_canon_def kernel_ok_def codec_simps)
qed

section \<open>\<^verbatim>\<open>GraphProfile\<close>\<close>

record graph_profile =
  gr_graph_artifact_id :: uuid
  gr_topology :: string
  gr_dependencies :: "uuid list"
  gr_runtime :: string
  gr_backend :: string
  gr_architecture :: string
  gr_abi :: string
  gr_dtype :: string
  gr_layout :: string
  gr_shape_spec :: string
  gr_launch_config :: crecord
  gr_memory_binding :: string
  gr_generation :: u64

definition graph_to_canon :: "graph_profile \<Rightarrow> canon res" where
  "graph_to_canon p =
     bindE (mk_record (gr_launch_config p)) (\<lambda>launch_config.
       mk_record ([(1, CUuid (gr_graph_artifact_id p)), (2, CStr (gr_topology p)),
       (3, CSeq (map CUuid (gr_dependencies p))), (4, CStr (gr_runtime p)), (5, CStr (gr_backend p)),
       (6, CStr (gr_architecture p)), (7, CStr (gr_abi p)), (8, CStr (gr_dtype p)),
       (9, CStr (gr_layout p)), (10, CStr (gr_shape_spec p)), (11, launch_config),
       (12, CStr (gr_memory_binding p)), (13, CUint (gr_generation p))]))"

definition graph_from_canon :: "canon \<Rightarrow> graph_profile res" where
  "graph_from_canon c =
     bindE (need_uuid ''GraphProfile: graph_artifact_id'' c 1) (\<lambda>graph_artifact_id.
     bindE (need_str ''GraphProfile: missing str'' c 2) (\<lambda>topology.
     bindE (need_str ''GraphProfile: missing str'' c 4) (\<lambda>runtime.
     bindE (need_str ''GraphProfile: missing str'' c 5) (\<lambda>backend.
     bindE (need_str ''GraphProfile: missing str'' c 6) (\<lambda>architecture.
     bindE (need_str ''GraphProfile: missing str'' c 7) (\<lambda>abi.
     bindE (need_str ''GraphProfile: missing str'' c 8) (\<lambda>dtype.
     bindE (need_str ''GraphProfile: missing str'' c 9) (\<lambda>layout.
     bindE (need_str ''GraphProfile: missing str'' c 10) (\<lambda>shape_spec.
     bindE (need_str ''GraphProfile: missing str'' c 12) (\<lambda>memory_binding.
       Inr \<lparr>gr_graph_artifact_id = graph_artifact_id, gr_topology = topology,
       gr_dependencies = the_uuids (seq_at c 3), gr_runtime = runtime, gr_backend = backend,
       gr_architecture = architecture, gr_abi = abi, gr_dtype = dtype, gr_layout = layout,
       gr_shape_spec = shape_spec, gr_launch_config = record_or [] c 11,
       gr_memory_binding = memory_binding, gr_generation = uint_or 0 c 13\<rparr>))))))))))"

definition graph_ok :: "graph_profile \<Rightarrow> bool" where
  "graph_ok p \<longleftrightarrow> record_ok (gr_launch_config p)"

interpretation graph_codec: record_codec graph_to_canon graph_from_canon graph_ok
proof
  fix p assume "graph_ok p"
  then show "\<exists>c. graph_to_canon p = Inr c \<and> canon_ok c \<and> graph_from_canon c = Inr p"
    by (cases p)
      (auto simp: graph_to_canon_def graph_from_canon_def graph_ok_def codec_simps)
qed

section \<open>\<^verbatim>\<open>AdapterProfile\<close>\<close>

record adapter_profile =
  ad_adapter_id :: uuid
  ad_base_model_revision :: string
  ad_kind :: string
  ad_rank_config :: crecord
  ad_target_modules :: "string list"
  ad_dtype :: string
  ad_composition :: string
  ad_activation :: crecord
  ad_generation :: u64
  ad_artifact_digest :: string

definition adapter_to_canon :: "adapter_profile \<Rightarrow> canon res" where
  "adapter_to_canon p =
     bindE (mk_record (ad_rank_config p)) (\<lambda>rank_config.
     bindE (mk_record (ad_activation p)) (\<lambda>activation.
       mk_record ([(1, CUuid (ad_adapter_id p)), (2, CStr (ad_base_model_revision p)),
       (3, CStr (ad_kind p)), (4, rank_config), (5, CSeq (map CStr (ad_target_modules p))),
       (6, CStr (ad_dtype p)), (7, CStr (ad_composition p)), (8, activation),
       (9, CUint (ad_generation p)), (10, CStr (ad_artifact_digest p))])))"

definition adapter_from_canon :: "canon \<Rightarrow> adapter_profile res" where
  "adapter_from_canon c =
     bindE (need_uuid ''AdapterProfile: adapter_id'' c 1) (\<lambda>adapter_id.
     bindE (need_str ''AdapterProfile: missing str'' c 2) (\<lambda>base_model_revision.
     bindE (need_str ''AdapterProfile: missing str'' c 3) (\<lambda>kind.
     bindE (need_str ''AdapterProfile: missing str'' c 6) (\<lambda>dtype.
     bindE (need_str ''AdapterProfile: missing str'' c 7) (\<lambda>composition.
     bindE (need_str ''AdapterProfile: missing str'' c 10) (\<lambda>artifact_digest.
       Inr \<lparr>ad_adapter_id = adapter_id, ad_base_model_revision = base_model_revision,
       ad_kind = kind, ad_rank_config = record_or [] c 4, ad_target_modules = the_strs (seq_at c 5),
       ad_dtype = dtype, ad_composition = composition, ad_activation = record_or [] c 8,
       ad_generation = uint_or 0 c 9, ad_artifact_digest = artifact_digest\<rparr>))))))"

definition adapter_ok :: "adapter_profile \<Rightarrow> bool" where
  "adapter_ok p \<longleftrightarrow> record_ok (ad_rank_config p) \<and> record_ok (ad_activation p)"

interpretation adapter_codec: record_codec adapter_to_canon adapter_from_canon adapter_ok
proof
  fix p assume "adapter_ok p"
  then show "\<exists>c. adapter_to_canon p = Inr c \<and> canon_ok c \<and> adapter_from_canon c = Inr p"
    by (cases p)
      (auto simp: adapter_to_canon_def adapter_from_canon_def adapter_ok_def codec_simps)
qed

section \<open>\<^verbatim>\<open>BackendProfile\<close>\<close>

record backend_profile =
  ba_backend_id :: uuid
  ba_runtime :: string
  ba_compiler :: string
  ba_compiler_version :: string
  ba_abi :: string
  ba_codegen_target :: string
  ba_capabilities :: crecord
  ba_protocol_version :: string
  ba_interface_version :: string

definition backend_to_canon :: "backend_profile \<Rightarrow> canon res" where
  "backend_to_canon p =
     bindE (mk_record (ba_capabilities p)) (\<lambda>capabilities.
       mk_record ([(1, CUuid (ba_backend_id p)), (2, CStr (ba_runtime p)), (3, CStr (ba_compiler p)),
       (4, CStr (ba_compiler_version p)), (5, CStr (ba_abi p)), (6, CStr (ba_codegen_target p)),
       (7, capabilities), (8, CStr (ba_protocol_version p)), (9, CStr (ba_interface_version p))]))"

definition backend_from_canon :: "canon \<Rightarrow> backend_profile res" where
  "backend_from_canon c =
     bindE (need_uuid ''BackendProfile: backend_id'' c 1) (\<lambda>backend_id.
     bindE (need_str ''BackendProfile: missing str'' c 2) (\<lambda>runtime.
     bindE (need_str ''BackendProfile: missing str'' c 3) (\<lambda>compiler.
     bindE (need_str ''BackendProfile: missing str'' c 4) (\<lambda>compiler_version.
     bindE (need_str ''BackendProfile: missing str'' c 5) (\<lambda>abi.
     bindE (need_str ''BackendProfile: missing str'' c 6) (\<lambda>codegen_target.
     bindE (need_str ''BackendProfile: missing str'' c 8) (\<lambda>protocol_version.
     bindE (need_str ''BackendProfile: missing str'' c 9) (\<lambda>interface_version.
       Inr \<lparr>ba_backend_id = backend_id, ba_runtime = runtime, ba_compiler = compiler,
       ba_compiler_version = compiler_version, ba_abi = abi, ba_codegen_target = codegen_target,
       ba_capabilities = record_or [] c 7, ba_protocol_version = protocol_version,
       ba_interface_version = interface_version\<rparr>))))))))"

definition backend_ok :: "backend_profile \<Rightarrow> bool" where
  "backend_ok p \<longleftrightarrow> record_ok (ba_capabilities p)"

interpretation backend_codec: record_codec backend_to_canon backend_from_canon backend_ok
proof
  fix p assume "backend_ok p"
  then show "\<exists>c. backend_to_canon p = Inr c \<and> canon_ok c \<and> backend_from_canon c = Inr p"
    by (cases p)
      (auto simp: backend_to_canon_def backend_from_canon_def backend_ok_def codec_simps)
qed

section \<open>\<^verbatim>\<open>DeviceProfile\<close>\<close>

record device_profile =
  de_device_id :: uuid
  de_vendor :: string
  de_architecture :: string
  de_compute_capability :: string
  de_memory_model :: string
  de_total_memory :: "u64 option"
  de_supported_dtypes :: "string list"
  de_instruction_classes :: "string list"
  de_execution_features :: "string list"
  de_runtime_min :: string
  de_driver_min :: string

definition device_to_canon :: "device_profile \<Rightarrow> canon res" where
  "device_to_canon p =
     mk_record ([(1, CUuid (de_device_id p)), (2, CStr (de_vendor p)), (3, CStr (de_architecture p)),
     (4, CStr (de_compute_capability p)),
     (5, CStr (de_memory_model p))] @ put_opt 6 CUint (de_total_memory p)
     @ [(7, CSeq (map CStr (de_supported_dtypes p))), (8, CSeq (map CStr (de_instruction_classes p))),
     (9, CSeq (map CStr (de_execution_features p))), (10, CStr (de_runtime_min p)),
     (11, CStr (de_driver_min p))])"

definition device_from_canon :: "canon \<Rightarrow> device_profile res" where
  "device_from_canon c =
     bindE (need_uuid ''DeviceProfile: device_id'' c 1) (\<lambda>device_id.
     bindE (need_str ''DeviceProfile: missing str'' c 2) (\<lambda>vendor.
     bindE (need_str ''DeviceProfile: missing str'' c 3) (\<lambda>architecture.
     bindE (need_str ''DeviceProfile: missing str'' c 4) (\<lambda>compute_capability.
     bindE (need_str ''DeviceProfile: missing str'' c 5) (\<lambda>memory_model.
     bindE (need_str ''DeviceProfile: missing str'' c 10) (\<lambda>runtime_min.
     bindE (need_str ''DeviceProfile: missing str'' c 11) (\<lambda>driver_min.
       Inr \<lparr>de_device_id = device_id, de_vendor = vendor, de_architecture = architecture,
       de_compute_capability = compute_capability, de_memory_model = memory_model,
       de_total_memory = opt_uint c 6, de_supported_dtypes = the_strs (seq_at c 7),
       de_instruction_classes = the_strs (seq_at c 8), de_execution_features = the_strs (seq_at c 9),
       de_runtime_min = runtime_min, de_driver_min = driver_min\<rparr>)))))))"

definition device_ok :: "device_profile \<Rightarrow> bool" where
  "device_ok p \<longleftrightarrow> True"

interpretation device_codec: record_codec device_to_canon device_from_canon device_ok
proof
  fix p assume "device_ok p"
  then show "\<exists>c. device_to_canon p = Inr c \<and> canon_ok c \<and> device_from_canon c = Inr p"
    by (cases p; cases "de_total_memory p")
      (auto simp: device_to_canon_def device_from_canon_def device_ok_def codec_simps)
qed

section \<open>\<^verbatim>\<open>ProtocolProfile\<close>\<close>

record protocol_profile =
  pr_protocol_id :: uuid
  pr_family :: string
  pr_major :: u64
  pr_minor :: u64
  pr_message_schema_generation :: "u64 option"
  pr_feature_bits :: crecord
  pr_required_semantics :: "string list"
  pr_optional_semantics :: "string list"

definition protocol_to_canon :: "protocol_profile \<Rightarrow> canon res" where
  "protocol_to_canon p =
     bindE (mk_record (pr_feature_bits p)) (\<lambda>feature_bits.
       mk_record ([(1, CUuid (pr_protocol_id p)), (2, CStr (pr_family p)), (3, CUint (pr_major p)),
       (4, CUint (pr_minor p))] @ put_opt 5 CUint (pr_message_schema_generation p)
       @ [(6, feature_bits), (7, CSeq (map CStr (pr_required_semantics p))),
       (8, CSeq (map CStr (pr_optional_semantics p)))]))"

definition protocol_from_canon :: "canon \<Rightarrow> protocol_profile res" where
  "protocol_from_canon c =
     bindE (need_uuid ''ProtocolProfile: protocol_id'' c 1) (\<lambda>protocol_id.
     bindE (need_str ''ProtocolProfile: missing str'' c 2) (\<lambda>family.
       Inr \<lparr>pr_protocol_id = protocol_id, pr_family = family, pr_major = uint_or 0 c 3,
       pr_minor = uint_or 0 c 4, pr_message_schema_generation = opt_uint c 5,
       pr_feature_bits = record_or [] c 6, pr_required_semantics = the_strs (seq_at c 7),
       pr_optional_semantics = the_strs (seq_at c 8)\<rparr>))"

definition protocol_ok :: "protocol_profile \<Rightarrow> bool" where
  "protocol_ok p \<longleftrightarrow> record_ok (pr_feature_bits p)"

interpretation protocol_codec: record_codec protocol_to_canon protocol_from_canon protocol_ok
proof
  fix p assume "protocol_ok p"
  then show "\<exists>c. protocol_to_canon p = Inr c \<and> canon_ok c \<and> protocol_from_canon c = Inr p"
    by (cases p; cases "pr_message_schema_generation p")
      (auto simp: protocol_to_canon_def protocol_from_canon_def protocol_ok_def codec_simps)
qed

section \<open>\<^verbatim>\<open>PolicyProfile\<close>\<close>

record policy_profile =
  po_policy_id :: uuid
  po_generation :: u64
  po_strictness :: string
  po_permitted_adaptations :: "string list"
  po_fallback :: string

definition policy_to_canon :: "policy_profile \<Rightarrow> canon res" where
  "policy_to_canon p =
     mk_record ([(1, CUuid (po_policy_id p)), (2, CUint (po_generation p)),
     (3, CStr (po_strictness p)), (4, CSeq (map CStr (po_permitted_adaptations p))),
     (5, CStr (po_fallback p))])"

definition policy_from_canon :: "canon \<Rightarrow> policy_profile res" where
  "policy_from_canon c =
     bindE (need_uuid ''PolicyProfile: policy_id'' c 1) (\<lambda>policy_id.
     bindE (need_str ''PolicyProfile: missing str'' c 3) (\<lambda>strictness.
     bindE (need_str ''PolicyProfile: missing str'' c 5) (\<lambda>fallback.
       Inr \<lparr>po_policy_id = policy_id, po_generation = uint_or 0 c 2, po_strictness = strictness,
       po_permitted_adaptations = the_strs (seq_at c 4), po_fallback = fallback\<rparr>)))"

definition policy_ok :: "policy_profile \<Rightarrow> bool" where
  "policy_ok p \<longleftrightarrow> True"

interpretation policy_codec: record_codec policy_to_canon policy_from_canon policy_ok
proof
  fix p assume "policy_ok p"
  then show "\<exists>c. policy_to_canon p = Inr c \<and> canon_ok c \<and> policy_from_canon c = Inr p"
    by (cases p)
      (auto simp: policy_to_canon_def policy_from_canon_def policy_ok_def codec_simps)
qed

section \<open>All profiles together\<close>

text \<open>
  The sum of the eleven structs, each under the kind it is registered with. \<open>typed_members\<close> lists the
  members that a rule can name and the canonical value that stands for them; an optional member that is
  not set has no entry.
\<close>

datatype typed_profile =
    Typed_Model model_profile
  | Typed_Tokenizer tokenizer_profile
  | Typed_Tensor tensor_profile
  | Typed_Kv kv_profile
  | Typed_Kernel kernel_profile
  | Typed_Graph graph_profile
  | Typed_Adapter adapter_profile
  | Typed_Backend backend_profile
  | Typed_Device device_profile
  | Typed_Protocol protocol_profile
  | Typed_Policy policy_profile

fun typed_kind :: "typed_profile \<Rightarrow> profile_kind" where
  "typed_kind (Typed_Model _) = PK_Model"
| "typed_kind (Typed_Tokenizer _) = PK_Tokenizer"
| "typed_kind (Typed_Tensor _) = PK_Tensor"
| "typed_kind (Typed_Kv _) = PK_Kv"
| "typed_kind (Typed_Kernel _) = PK_Kernel"
| "typed_kind (Typed_Graph _) = PK_Graph"
| "typed_kind (Typed_Adapter _) = PK_Adapter"
| "typed_kind (Typed_Backend _) = PK_Backend"
| "typed_kind (Typed_Device _) = PK_Device"
| "typed_kind (Typed_Protocol _) = PK_Protocol"
| "typed_kind (Typed_Policy _) = PK_Policy"

fun typed_to_canon :: "typed_profile \<Rightarrow> canon res" where
  "typed_to_canon (Typed_Model p) = model_to_canon p"
| "typed_to_canon (Typed_Tokenizer p) = tokenizer_to_canon p"
| "typed_to_canon (Typed_Tensor p) = tensor_to_canon p"
| "typed_to_canon (Typed_Kv p) = kv_to_canon p"
| "typed_to_canon (Typed_Kernel p) = kernel_to_canon p"
| "typed_to_canon (Typed_Graph p) = graph_to_canon p"
| "typed_to_canon (Typed_Adapter p) = adapter_to_canon p"
| "typed_to_canon (Typed_Backend p) = backend_to_canon p"
| "typed_to_canon (Typed_Device p) = device_to_canon p"
| "typed_to_canon (Typed_Protocol p) = protocol_to_canon p"
| "typed_to_canon (Typed_Policy p) = policy_to_canon p"

definition typed_from_canon :: "profile_kind \<Rightarrow> canon \<Rightarrow> typed_profile res" where
  "typed_from_canon k c = (case k of
       PK_Model \<Rightarrow> bindE (model_from_canon c) (\<lambda>p. Inr (Typed_Model p))
     | PK_Tokenizer \<Rightarrow> bindE (tokenizer_from_canon c) (\<lambda>p. Inr (Typed_Tokenizer p))
     | PK_Tensor \<Rightarrow> bindE (tensor_from_canon c) (\<lambda>p. Inr (Typed_Tensor p))
     | PK_Kv \<Rightarrow> bindE (kv_from_canon c) (\<lambda>p. Inr (Typed_Kv p))
     | PK_Kernel \<Rightarrow> bindE (kernel_from_canon c) (\<lambda>p. Inr (Typed_Kernel p))
     | PK_Graph \<Rightarrow> bindE (graph_from_canon c) (\<lambda>p. Inr (Typed_Graph p))
     | PK_Adapter \<Rightarrow> bindE (adapter_from_canon c) (\<lambda>p. Inr (Typed_Adapter p))
     | PK_Backend \<Rightarrow> bindE (backend_from_canon c) (\<lambda>p. Inr (Typed_Backend p))
     | PK_Device \<Rightarrow> bindE (device_from_canon c) (\<lambda>p. Inr (Typed_Device p))
     | PK_Protocol \<Rightarrow> bindE (protocol_from_canon c) (\<lambda>p. Inr (Typed_Protocol p))
     | PK_Policy \<Rightarrow> bindE (policy_from_canon c) (\<lambda>p. Inr (Typed_Policy p))
     | _ \<Rightarrow> Inl (Runtime_Error ''no typed profile''))"

fun typed_ok :: "typed_profile \<Rightarrow> bool" where
  "typed_ok (Typed_Model p) = model_ok p"
| "typed_ok (Typed_Tokenizer p) = tokenizer_ok p"
| "typed_ok (Typed_Tensor p) = tensor_ok p"
| "typed_ok (Typed_Kv p) = kv_ok p"
| "typed_ok (Typed_Kernel p) = kernel_ok p"
| "typed_ok (Typed_Graph p) = graph_ok p"
| "typed_ok (Typed_Adapter p) = adapter_ok p"
| "typed_ok (Typed_Backend p) = backend_ok p"
| "typed_ok (Typed_Device p) = device_ok p"
| "typed_ok (Typed_Protocol p) = protocol_ok p"
| "typed_ok (Typed_Policy p) = policy_ok p"

fun typed_members :: "typed_profile \<Rightarrow> (string \<times> canon) list" where
  "typed_members (Typed_Model p) =
     [(''model_id'', CUuid (mo_model_id p)),
      (''revision_id'', CUuid (mo_revision_id p)),
      (''architecture'', CStr (mo_architecture p)),
      (''family'', CStr (mo_family p)),
      (''quantization'', CStr (mo_quantization p)),
      (''tokenizer_id'', CUuid (mo_tokenizer_id p)),
      (''vocabulary_id'', CUuid (mo_vocabulary_id p))] @
     (case mo_parameter_count p of None \<Rightarrow> [] | Some n \<Rightarrow> [(''parameter_count'', CUint n)]) @
     [(''dtype'', CStr (mo_dtype p)),
      (''execution_req'', CRecord (mo_execution_req p))]"
| "typed_members (Typed_Tokenizer p) =
     [(''tokenizer_id'', CUuid (tk_tokenizer_id p)),
      (''vocabulary_id'', CUuid (tk_vocabulary_id p)),
      (''vocab_size'', CUint (tk_vocab_size p)),
      (''normalization'', CStr (tk_normalization p)),
      (''chat_template'', CStr (tk_chat_template p))]"
| "typed_members (Typed_Tensor p) =
     [(''schema_id'', CUuid (tn_schema_id p)),
      (''rank'', CUint (tn_rank p)),
      (''dtype'', CStr (tn_dtype p)),
      (''layout'', CStr (tn_layout p))] @
     (case tn_alignment p of None \<Rightarrow> [] | Some n \<Rightarrow> [(''alignment'', CUint n)]) @
     [(''endianness'', CStr (tn_endianness p)),
      (''semantic_role'', CStr (tn_semantic_role p))]"
| "typed_members (Typed_Kv p) =
     [(''kv_format_id'', CUuid (kv_kv_format_id p)),
      (''model_revision'', CStr (kv_model_revision p)),
      (''layer_count'', CUint (kv_layer_count p)),
      (''head_count'', CUint (kv_head_count p)),
      (''head_dim'', CUint (kv_head_dim p)),
      (''dtype'', CStr (kv_dtype p)),
      (''layout'', CStr (kv_layout p)),
      (''positional'', CStr (kv_positional p)),
      (''seq_context'', CUint (kv_seq_context p))]"
| "typed_members (Typed_Kernel p) =
     [(''kernel_artifact_id'', CUuid (ke_kernel_artifact_id p)),
      (''operation'', CStr (ke_operation p)),
      (''architecture'', CStr (ke_architecture p)),
      (''compute_capability'', CStr (ke_compute_capability p)),
      (''abi'', CStr (ke_abi p)),
      (''runtime'', CStr (ke_runtime p)),
      (''compiler'', CStr (ke_compiler p)),
      (''compiler_version'', CStr (ke_compiler_version p)),
      (''dtype'', CStr (ke_dtype p)),
      (''layout'', CStr (ke_layout p)),
      (''shape_spec'', CStr (ke_shape_spec p)),
      (''quantization'', CStr (ke_quantization p)),
      (''interface'', CStr (ke_interface p)),
      (''generation'', CUint (ke_generation p))]"
| "typed_members (Typed_Graph p) =
     [(''graph_artifact_id'', CUuid (gr_graph_artifact_id p)),
      (''topology'', CStr (gr_topology p)),
      (''runtime'', CStr (gr_runtime p)),
      (''backend'', CStr (gr_backend p)),
      (''architecture'', CStr (gr_architecture p)),
      (''abi'', CStr (gr_abi p)),
      (''dtype'', CStr (gr_dtype p)),
      (''layout'', CStr (gr_layout p)),
      (''memory_binding'', CStr (gr_memory_binding p))]"
| "typed_members (Typed_Adapter p) =
     [(''adapter_id'', CUuid (ad_adapter_id p)),
      (''base_model_revision'', CStr (ad_base_model_revision p)),
      (''kind'', CStr (ad_kind p)),
      (''dtype'', CStr (ad_dtype p)),
      (''composition'', CStr (ad_composition p)),
      (''generation'', CUint (ad_generation p))]"
| "typed_members (Typed_Backend p) =
     [(''backend_id'', CUuid (ba_backend_id p)),
      (''runtime'', CStr (ba_runtime p)),
      (''compiler'', CStr (ba_compiler p)),
      (''compiler_version'', CStr (ba_compiler_version p)),
      (''abi'', CStr (ba_abi p)),
      (''codegen_target'', CStr (ba_codegen_target p)),
      (''protocol_version'', CStr (ba_protocol_version p)),
      (''interface_version'', CStr (ba_interface_version p))]"
| "typed_members (Typed_Device p) =
     [(''device_id'', CUuid (de_device_id p)),
      (''vendor'', CStr (de_vendor p)),
      (''architecture'', CStr (de_architecture p)),
      (''compute_capability'', CStr (de_compute_capability p)),
      (''memory_model'', CStr (de_memory_model p))] @
     (case de_total_memory p of None \<Rightarrow> [] | Some n \<Rightarrow> [(''total_memory'', CUint n)]) @
     [(''runtime_min'', CStr (de_runtime_min p)),
      (''driver_min'', CStr (de_driver_min p))]"
| "typed_members (Typed_Protocol p) =
     [(''protocol_id'', CUuid (pr_protocol_id p)),
      (''family'', CStr (pr_family p)),
      (''major'', CUint (pr_major p)),
      (''minor'', CUint (pr_minor p))] @
     (case pr_message_schema_generation p of None \<Rightarrow> [] | Some n \<Rightarrow> [(''message_schema_generation'', CUint n)])"
| "typed_members (Typed_Policy p) =
     [(''policy_id'', CUuid (po_policy_id p)),
      (''generation'', CUint (po_generation p)),
      (''strictness'', CStr (po_strictness p)),
      (''fallback'', CStr (po_fallback p))]"

definition unnamed_members :: "profile_kind \<Rightarrow> string list" where
  "unnamed_members k = (case k of
       PK_Model \<Rightarrow> [''adapter_ids'']
     | PK_Tokenizer \<Rightarrow> [''special_tokens'']
     | PK_Tensor \<Rightarrow> [''shape'', ''dynamic_dims'', ''strides'']
     | PK_Kv \<Rightarrow> [''block_geometry'', ''tokenizer_id'', ''generation'']
     | PK_Kernel \<Rightarrow> [''launch_geometry'', ''artifact_digest'']
     | PK_Graph \<Rightarrow> [''dependencies'', ''shape_spec'', ''launch_config'', ''generation'']
     | PK_Adapter \<Rightarrow> [''rank_config'', ''target_modules'', ''activation'', ''artifact_digest'']
     | PK_Backend \<Rightarrow> [''capabilities'']
     | PK_Device \<Rightarrow> [''supported_dtypes'', ''instruction_classes'', ''execution_features'']
     | PK_Protocol \<Rightarrow> [''feature_bits'', ''required_semantics'', ''optional_semantics'']
     | PK_Policy \<Rightarrow> [''permitted_adaptations'']
     | _ \<Rightarrow> [])"

lemma typed_written:
  assumes "typed_ok p"
  shows "\<exists>c. typed_to_canon p = Inr c \<and> canon_ok c \<and> typed_from_canon (typed_kind p) c = Inr p"
  using assms
  by (cases p)
    (auto simp: typed_from_canon_def dest!: model_codec.written
      tokenizer_codec.written
      tensor_codec.written
      kv_codec.written
      kernel_codec.written
      graph_codec.written
      adapter_codec.written
      backend_codec.written
      device_codec.written
      protocol_codec.written
      policy_codec.written)

interpretation typed_codec: record_codec typed_to_canon "typed_from_canon k" "\<lambda>p. typed_ok p \<and> typed_kind p = k" for k
  by unfold_locales (use typed_written in blast)

named_theorems typed_resolve \<open>the members of each profile as rules see them\<close>

lemmas resolve_names = resolve_profile_field_def tag_for_def dot_head_def dot_tail_def unnamed_members_def codec_simps

lemma model_resolve [typed_resolve]:
  assumes "model_ok p" and "model_to_canon p = Inr c"
  shows "(\<forall>m \<in> set (typed_members (Typed_Model p)). resolve_profile_field PK_Model c (fst m) = Some (snd m)) \<and>
    (\<forall>n \<in> set (unnamed_members PK_Model). resolve_profile_field PK_Model c n = None)"
  using assms by (cases "mo_parameter_count p") (auto simp: model_to_canon_def model_ok_def resolve_names)

lemma tokenizer_resolve [typed_resolve]:
  assumes "tokenizer_ok p" and "tokenizer_to_canon p = Inr c"
  shows "(\<forall>m \<in> set (typed_members (Typed_Tokenizer p)). resolve_profile_field PK_Tokenizer c (fst m) = Some (snd m)) \<and>
    (\<forall>n \<in> set (unnamed_members PK_Tokenizer). resolve_profile_field PK_Tokenizer c n = None)"
  using assms by (auto simp: tokenizer_to_canon_def tokenizer_ok_def resolve_names)

lemma tensor_resolve [typed_resolve]:
  assumes "tensor_ok p" and "tensor_to_canon p = Inr c"
  shows "(\<forall>m \<in> set (typed_members (Typed_Tensor p)). resolve_profile_field PK_Tensor c (fst m) = Some (snd m)) \<and>
    (\<forall>n \<in> set (unnamed_members PK_Tensor). resolve_profile_field PK_Tensor c n = None)"
  using assms by (cases "tn_alignment p") (auto simp: tensor_to_canon_def tensor_ok_def resolve_names)

lemma kv_resolve [typed_resolve]:
  assumes "kv_ok p" and "kv_to_canon p = Inr c"
  shows "(\<forall>m \<in> set (typed_members (Typed_Kv p)). resolve_profile_field PK_Kv c (fst m) = Some (snd m)) \<and>
    (\<forall>n \<in> set (unnamed_members PK_Kv). resolve_profile_field PK_Kv c n = None)"
  using assms by (auto simp: kv_to_canon_def kv_ok_def resolve_names)

lemma kernel_resolve [typed_resolve]:
  assumes "kernel_ok p" and "kernel_to_canon p = Inr c"
  shows "(\<forall>m \<in> set (typed_members (Typed_Kernel p)). resolve_profile_field PK_Kernel c (fst m) = Some (snd m)) \<and>
    (\<forall>n \<in> set (unnamed_members PK_Kernel). resolve_profile_field PK_Kernel c n = None)"
  using assms by (auto simp: kernel_to_canon_def kernel_ok_def resolve_names)

lemma graph_resolve [typed_resolve]:
  assumes "graph_ok p" and "graph_to_canon p = Inr c"
  shows "(\<forall>m \<in> set (typed_members (Typed_Graph p)). resolve_profile_field PK_Graph c (fst m) = Some (snd m)) \<and>
    (\<forall>n \<in> set (unnamed_members PK_Graph). resolve_profile_field PK_Graph c n = None)"
  using assms by (auto simp: graph_to_canon_def graph_ok_def resolve_names)

lemma adapter_resolve [typed_resolve]:
  assumes "adapter_ok p" and "adapter_to_canon p = Inr c"
  shows "(\<forall>m \<in> set (typed_members (Typed_Adapter p)). resolve_profile_field PK_Adapter c (fst m) = Some (snd m)) \<and>
    (\<forall>n \<in> set (unnamed_members PK_Adapter). resolve_profile_field PK_Adapter c n = None)"
  using assms by (auto simp: adapter_to_canon_def adapter_ok_def resolve_names)

lemma backend_resolve [typed_resolve]:
  assumes "backend_ok p" and "backend_to_canon p = Inr c"
  shows "(\<forall>m \<in> set (typed_members (Typed_Backend p)). resolve_profile_field PK_Backend c (fst m) = Some (snd m)) \<and>
    (\<forall>n \<in> set (unnamed_members PK_Backend). resolve_profile_field PK_Backend c n = None)"
  using assms by (auto simp: backend_to_canon_def backend_ok_def resolve_names)

lemma device_resolve [typed_resolve]:
  assumes "device_ok p" and "device_to_canon p = Inr c"
  shows "(\<forall>m \<in> set (typed_members (Typed_Device p)). resolve_profile_field PK_Device c (fst m) = Some (snd m)) \<and>
    (\<forall>n \<in> set (unnamed_members PK_Device). resolve_profile_field PK_Device c n = None)"
  using assms by (cases "de_total_memory p") (auto simp: device_to_canon_def device_ok_def resolve_names)

lemma protocol_resolve [typed_resolve]:
  assumes "protocol_ok p" and "protocol_to_canon p = Inr c"
  shows "(\<forall>m \<in> set (typed_members (Typed_Protocol p)). resolve_profile_field PK_Protocol c (fst m) = Some (snd m)) \<and>
    (\<forall>n \<in> set (unnamed_members PK_Protocol). resolve_profile_field PK_Protocol c n = None)"
  using assms by (cases "pr_message_schema_generation p") (auto simp: protocol_to_canon_def protocol_ok_def resolve_names)

lemma policy_resolve [typed_resolve]:
  assumes "policy_ok p" and "policy_to_canon p = Inr c"
  shows "(\<forall>m \<in> set (typed_members (Typed_Policy p)). resolve_profile_field PK_Policy c (fst m) = Some (snd m)) \<and>
    (\<forall>n \<in> set (unnamed_members PK_Policy). resolve_profile_field PK_Policy c n = None)"
  using assms by (auto simp: policy_to_canon_def policy_ok_def resolve_names)

section \<open>Properties\<close>

text \<open>
  Property C31. Every typed profile survives its canonical form: it can be written, the payload is
  well formed, and reading it back under its kind, directly or after encoding and decoding the bytes,
  gives the same struct. Two structs of one kind with the same fingerprint are equal or their
  encodings are a collision of SHA-256.
\<close>

theorem typed_profile_roundtrip:
  assumes "typed_ok p"
  shows "\<exists>c. typed_to_canon p = Inr c \<and> canon_ok c \<and> typed_from_canon (typed_kind p) c = Inr p \<and>
    (canon_fits c \<longrightarrow>
       bindE (bindE (canonical_encode c) canonical_decode) (typed_from_canon (typed_kind p)) = Inr p \<and>
       (\<forall>q c'. typed_ok q \<and> typed_kind q = typed_kind p \<and> typed_to_canon q = Inr c' \<and> canon_fits c' \<and>
          canonical_fingerprint_hex c = canonical_fingerprint_hex c' \<longrightarrow>
          p = q \<or> enc c \<noteq> enc c' \<and>
            sha256 (k_magic @ [k_version] @ enc c) = sha256 (k_magic @ [k_version] @ enc c')))"
proof -
  obtain c where c: "typed_to_canon p = Inr c" "canon_ok c" "typed_from_canon (typed_kind p) c = Inr p"
    using typed_written [OF assms] by blast
  have "bindE (bindE (canonical_encode c) canonical_decode) (typed_from_canon (typed_kind p)) = Inr p"
    if "canon_fits c"
    using typed_codec.bytes_roundtrip [where k = "typed_kind p" and x = p and c = c] that c assms by simp
  moreover have "p = q \<or> enc c \<noteq> enc c' \<and>
      sha256 (k_magic @ [k_version] @ enc c) = sha256 (k_magic @ [k_version] @ enc c')"
    if "canon_fits c" "typed_ok q" "typed_kind q = typed_kind p" "typed_to_canon q = Inr c'" "canon_fits c'"
      "canonical_fingerprint_hex c = canonical_fingerprint_hex c'" for q c'
    using typed_codec.fingerprint_identity [where k = "typed_kind p" and x = p and y = q and c = c and c' = c'] that c(1) assms by simp
  ultimately show ?thesis
    using c by blast
qed

definition example_policy :: policy_profile where
  "example_policy = \<lparr>po_policy_id = Uuid 5, po_generation = 1, po_strictness = ''strict'',
     po_permitted_adaptations = [''cast''], po_fallback = ''deny''\<rparr>"

theorem typed_profile_roundtrip_witness:
  "\<exists>c. policy_to_canon example_policy = Inr c \<and> policy_from_canon c = Inr example_policy"
  using typed_profile_roundtrip [of "Typed_Policy example_policy"]
  by (auto simp: policy_ok_def typed_from_canon_def bindE_eq_Inr)

text \<open>
  Property C32. Rules see a typed profile as it is: each member with a name in \<^verbatim>\<open>tag_for\<close> resolves to
  exactly the canonical value of that member. The remaining members, among them a device's supported
  dtypes, a protocol's required semantics and a backend's capabilities, resolve to nothing, so no
  constraint can ever refer to them.
\<close>

theorem typed_fields_resolve:
  assumes "typed_ok p" and "typed_to_canon p = Inr c"
  shows "(\<forall>m \<in> set (typed_members p). resolve_profile_field (typed_kind p) c (fst m) = Some (snd m)) \<and>
    (\<forall>n \<in> set (unnamed_members (typed_kind p)). resolve_profile_field (typed_kind p) c n = None)"
  using assms
  by (cases p) (simp only: typed_ok.simps typed_to_canon.simps typed_kind.simps, rule typed_resolve, assumption, assumption)+

theorem typed_fields_resolve_witness:
  "\<exists>c. policy_to_canon example_policy = Inr c \<and>
     resolve_profile_field PK_Policy c ''strictness'' = Some (CStr ''strict'') \<and>
     resolve_profile_field PK_Policy c ''permitted_adaptations'' = None"
proof -
  obtain c where c: "policy_to_canon example_policy = Inr c"
    using policy_codec.written [of example_policy] by (auto simp: policy_ok_def)
  show ?thesis
    using typed_fields_resolve [of "Typed_Policy example_policy" c] c
    by (auto simp: policy_ok_def unnamed_members_def example_policy_def)
qed

end
