(* ===== verification/Capability.thy ===== *)
theory Capability
  imports Codec Rule
begin

text \<open>
  \<^verbatim>\<open>include/compat/capability.hpp\<close>: the capability set, a list of canonical values sorted by tag with
  typed getters and setters. Every reader goes through \<^verbatim>\<open>find_\<close>, which is \<^verbatim>\<open>std::lower_bound\<close>
  without a test for equality of the tag.
\<close>

section \<open>State and operations\<close>

datatype capability_kind = CK_Device | CK_Backend | CK_Runtime | CK_Protocol | CK_Toolchain | CK_Kernel | CK_Generic

fun capability_kind_code :: "capability_kind \<Rightarrow> u8" where
  "capability_kind_code CK_Device = 0"
| "capability_kind_code CK_Backend = 1"
| "capability_kind_code CK_Runtime = 2"
| "capability_kind_code CK_Protocol = 3"
| "capability_kind_code CK_Toolchain = 4"
| "capability_kind_code CK_Kernel = 5"
| "capability_kind_code CK_Generic = 6"

record capability_set =
  cs_id :: uuid
  cs_generation :: u64
  cs_kind :: capability_kind
  caps :: crecord

definition empty_capabilities :: capability_set where
  "empty_capabilities = \<lparr>cs_id = zero_uuid, cs_generation = 0, cs_kind = CK_Generic, caps = []\<rparr>"

definition capability_to_canon :: "capability_set \<Rightarrow> canon res" where
  "capability_to_canon s =
     mk_record ([(1, CUuid (cs_id s)), (2, CUint (cs_generation s)),
       (3, CUint (ucast (capability_kind_code (cs_kind s))))] @ caps s)"

text \<open>The iterator is the suffix it points to; \<^verbatim>\<open>end()\<close> is the empty one.\<close>

definition find_cap :: "capability_set \<Rightarrow> u32 \<Rightarrow> crecord" where
  "find_cap s tag = lower_bound (caps s) tag"

definition has :: "capability_set \<Rightarrow> u32 \<Rightarrow> bool" where
  "has s tag \<longleftrightarrow> find_cap s tag \<noteq> []"

definition get_cap :: "(canon \<Rightarrow> 'a option) \<Rightarrow> capability_set \<Rightarrow> u32 \<Rightarrow> 'a option" where
  "get_cap as s tag = (case find_cap s tag of [] \<Rightarrow> None | it # _ \<Rightarrow> as (snd it))"

definition get_bool :: "capability_set \<Rightarrow> u32 \<Rightarrow> bool option" where
  "get_bool = get_cap (\<lambda>c. case c of CBool b \<Rightarrow> Some b | _ \<Rightarrow> None)"

definition get_uint :: "capability_set \<Rightarrow> u32 \<Rightarrow> u64 option" where
  "get_uint = get_cap (\<lambda>c. case c of CUint v \<Rightarrow> Some v | _ \<Rightarrow> None)"

definition get_float :: "capability_set \<Rightarrow> u32 \<Rightarrow> double option" where
  "get_float = get_cap (\<lambda>c. case c of CFloat v \<Rightarrow> Some v | _ \<Rightarrow> None)"

definition get_str :: "capability_set \<Rightarrow> u32 \<Rightarrow> string option" where
  "get_str = get_cap (\<lambda>c. case c of CStr v \<Rightarrow> Some v | _ \<Rightarrow> None)"

definition get_uint_sub :: "capability_set \<Rightarrow> u32 \<Rightarrow> u32 \<Rightarrow> u64 option" where
  "get_uint_sub s outer tag = get_cap (\<lambda>c. if kind c \<noteq> KRecord then None else opt_uint c tag) s outer"

definition put_cap :: "u32 \<Rightarrow> canon \<Rightarrow> capability_set \<Rightarrow> capability_set" where
  "put_cap tag v s =
     (let before = takeWhile (\<lambda>e. fst e < tag) (caps s) in
      case lower_bound (caps s) tag of
        [] \<Rightarrow> s\<lparr>caps := before @ [(tag, v)]\<rparr>
      | it # rest \<Rightarrow>
          if fst it = tag then s\<lparr>caps := before @ (tag, v) # rest\<rparr>
          else s\<lparr>caps := before @ (tag, v) # it # rest\<rparr>)"

definition set_bool :: "u32 \<Rightarrow> bool \<Rightarrow> capability_set \<Rightarrow> capability_set" where
  "set_bool tag v = put_cap tag (CBool v)"

definition set_uint :: "u32 \<Rightarrow> u64 \<Rightarrow> capability_set \<Rightarrow> capability_set" where
  "set_uint tag v = put_cap tag (CUint v)"

definition set_float :: "u32 \<Rightarrow> double \<Rightarrow> capability_set \<Rightarrow> capability_set res" where
  "set_float tag v s = bindE (mk_float v) (\<lambda>c. Inr (put_cap tag c s))"

definition set_str :: "u32 \<Rightarrow> string \<Rightarrow> capability_set \<Rightarrow> capability_set" where
  "set_str tag v = put_cap tag (CStr v)"

definition set_record :: "u32 \<Rightarrow> crecord \<Rightarrow> capability_set \<Rightarrow> capability_set res" where
  "set_record tag r s = bindE (mk_record r) (\<lambda>c. Inr (put_cap tag c s))"

definition unset :: "u32 \<Rightarrow> capability_set \<Rightarrow> capability_set" where
  "unset tag s =
     (case find_cap s tag of
        [] \<Rightarrow> s
      | _ # rest \<Rightarrow> s\<lparr>caps := takeWhile (\<lambda>e. fst e < tag) (caps s) @ rest\<rparr>)"

definition cap_size :: "capability_set \<Rightarrow> nat" where
  "cap_size s = length (caps s)"

section \<open>The sorted list as a map\<close>

definition caps_ok :: "capability_set \<Rightarrow> bool" where
  "caps_ok s \<longleftrightarrow> record_ok (caps s)"

text \<open>The same operations, one entry at a time.\<close>

fun put_list :: "u32 \<Rightarrow> canon \<Rightarrow> crecord \<Rightarrow> crecord" where
  "put_list t v [] = [(t, v)]"
| "put_list t v (e # r) =
     (if fst e < t then e # put_list t v r else if fst e = t then (t, v) # r else (t, v) # e # r)"

fun unset_list :: "u32 \<Rightarrow> crecord \<Rightarrow> crecord" where
  "unset_list t [] = []"
| "unset_list t (e # r) = (if fst e < t then e # unset_list t r else r)"

lemma lower_bound_simps [simp]:
  "lower_bound [] t = []"
  "lower_bound (e # r) t = (if fst e < t then lower_bound r t else e # r)"
  by (simp_all add: lower_bound_def)

lemma put_cap_list: "put_cap t v s = s\<lparr>caps := put_list t v (caps s)\<rparr>"
proof -
  have "put_list t v r = takeWhile (\<lambda>e. fst e < t) r @
      (case lower_bound r t of [] \<Rightarrow> [(t, v)] | it # rest \<Rightarrow> if fst it = t then (t, v) # rest else (t, v) # it # rest)"
    for r by (induction r) auto
  then show ?thesis
    by (simp add: put_cap_def Let_def split: list.split)
qed

lemma unset_unset_list: "unset t s = s\<lparr>caps := unset_list t (caps s)\<rparr>"
proof -
  have u: "takeWhile (\<lambda>e. fst e < t) r @ tl (lower_bound r t) = unset_list t r" for r
    by (induction r) auto
  have n: "lower_bound r t = [] \<Longrightarrow> unset_list t r = r" for r
    by (induction r) (auto split: if_splits)
  show ?thesis
  proof (cases "lower_bound (caps s) t")
    case Nil
    then show ?thesis
      by (simp add: unset_def find_cap_def n)
  next
    case (Cons e rest)
    then show ?thesis
      using u [of "caps s"] by (simp add: unset_def find_cap_def)
  qed
qed

lemma put_list_ok:
  assumes "tags_ok r"
  shows "tags_ok (put_list t v r)" and "map_of (put_list t v r) = (map_of r)(t \<mapsto> v)"
    and "set (put_list t v r) \<subseteq> insert (t, v) (set r)"
proof -
  show sub: "set (put_list t v r) \<subseteq> insert (t, v) (set r)" for r
    by (induction r) auto
  show "tags_ok (put_list t v r)"
    using assms
  proof (induction r)
    case (Cons e r)
    then show ?case
      using sub [of r] by (fastforce simp: not_less)
  qed simp
  show "map_of (put_list t v r) = (map_of r)(t \<mapsto> v)"
    using assms by (induction r) (auto simp: fun_upd_twist)
qed

lemma unset_list_ok:
  assumes "tags_ok r"
  shows "tags_ok (unset_list t r)" and "set (unset_list t r) \<subseteq> set r"
    and "map_of r t \<noteq> None \<Longrightarrow> map_of (unset_list t r) = (map_of r)(t := None)"
proof -
  show sub: "set (unset_list t r) \<subseteq> set r" for r
    by (induction r) auto
  show "tags_ok (unset_list t r)"
    using assms
  proof (induction r)
    case (Cons e r)
    then show ?case
      using sub [of r] by auto
  qed simp
  show "map_of r t \<noteq> None \<Longrightarrow> map_of (unset_list t r) = (map_of r)(t := None)"
    using assms
  proof (induction r)
    case (Cons e r)
    have "map_of r t = None" if "\<not> fst e < t"
      using that Cons.prems by (auto simp: map_of_eq_None_iff)
    then show ?case
      using Cons by (auto simp: fun_upd_twist split: if_splits)
  qed simp
qed

lemma lower_bound_present:
  "tags_ok r \<Longrightarrow> map_of r t = Some v \<Longrightarrow> \<exists>rest. lower_bound r t = (t, v) # rest"
  by (induction r) (force split: if_splits dest: map_of_SomeD)+

lemma lower_bound_next:
  assumes "tags_ok r" and "map_of r t = None" and "lower_bound r t = e # rest"
  shows "e \<in> set r" and "t < fst e" and "\<forall>x \<in> set r. t < fst x \<longrightarrow> fst e \<le> fst x"
    and "map_of (unset_list t r) = (map_of r)(fst e := None)"
  using assms
proof (induction r)
  case (Cons x r)
  {
    case 1
    with Cons.IH(1) show ?case by (auto split: if_splits)
  next
    case 2
    with Cons.IH(2) show ?case by (auto split: if_splits)
  next
    case 3
    with Cons.IH(3) show ?case by (auto split: if_splits intro: less_imp_le)
  next
    case 4
    have "map_of r (fst x) = None"
      using 4(1) by (auto simp: map_of_eq_None_iff)
    with 4 Cons.IH(2,4) show ?case by (auto simp: fun_eq_iff split: if_splits)
  }
qed simp_all

lemma put_cap_ok:
  assumes "caps_ok s" and "canon_ok v"
  shows "caps_ok (put_cap t v s)" and "map_of (caps (put_cap t v s)) = (map_of (caps s))(t \<mapsto> v)"
  using assms put_list_ok [of "caps s" t v] by (auto simp: caps_ok_def put_cap_list)

lemma unset_ok: "caps_ok s \<Longrightarrow> caps_ok (unset t s)"
  using unset_list_ok [of "caps s" t] by (auto simp: caps_ok_def unset_unset_list)

lemma find_cap_present: "caps_ok s \<Longrightarrow> map_of (caps s) t = Some v \<Longrightarrow> \<exists>rest. find_cap s t = (t, v) # rest"
  by (simp add: caps_ok_def find_cap_def lower_bound_present)

lemma find_cap_next:
  assumes "caps_ok s" and "map_of (caps s) t = None" and "map_of (caps s) t' = Some v" and "t < t'"
    and "\<forall>x \<in> fst ` set (caps s). t < x \<longrightarrow> t' \<le> x"
  shows "\<exists>rest. find_cap s t = (t', v) # rest"
proof -
  have tags: "tags_ok (caps s)"
    using assms(1) by (simp add: caps_ok_def)
  have "(t', v) \<in> set (caps s)"
    using assms(3) by (rule map_of_SomeD)
  then obtain e rest where e: "lower_bound (caps s) t = e # rest"
    using assms(4) by (cases "lower_bound (caps s) t") (force simp: lower_bound_def dropWhile_eq_Nil_conv)+
  note n = lower_bound_next [OF tags assms(2) e]
  have "fst e = t'"
    using n(1-3) assms(4,5) \<open>(t', v) \<in> set (caps s)\<close> by (metis antisym fst_conv image_eqI)
  moreover have "map_of (caps s) (fst e) = Some (snd e)"
    using n(1) tags_ok_distinct [OF tags] by simp
  ultimately show ?thesis
    using e assms(3) by (cases e) (simp add: find_cap_def)
qed

lemmas getter_defs = get_bool_def get_uint_def get_float_def get_str_def get_uint_sub_def get_cap_def

lemmas setter_defs = set_bool_def set_uint_def set_float_def set_str_def set_record_def

section \<open>Properties\<close>

text \<open>
  The set stays sorted without duplicates under every setter and \<^verbatim>\<open>unset\<close>, a setter changes
  exactly the entry of its tag, and a getter of the same type then returns the value while getters of
  the other types return nothing.
\<close>

theorem capability_set_get:
  assumes "caps_ok s" and "isfinite f" and "record_ok r"
  shows "(\<forall>s' \<in> {set_bool t b s, set_uint t n s, set_str t x s, unset t s}. caps_ok s') \<and>
    map_of (caps (set_uint t n s)) = (map_of (caps s))(t \<mapsto> CUint n) \<and>
    get_bool (set_bool t b s) t = Some b \<and> get_uint (set_bool t b s) t = None \<and>
    get_uint (set_uint t n s) t = Some n \<and> get_bool (set_uint t n s) t = None \<and>
    get_str (set_str t x s) t = Some x \<and> get_float (set_str t x s) t = None \<and>
    (\<exists>s'. set_float t f s = Inr s' \<and> caps_ok s' \<and> get_float s' t = Some f) \<and>
    (\<exists>s'. set_record t r s = Inr s' \<and> caps_ok s' \<and> get_uint_sub s' t k = opt_uint (CRecord r) k)"
proof -
  have put: "caps_ok (put_cap t v s) \<and> map_of (caps (put_cap t v s)) = (map_of (caps s))(t \<mapsto> v) \<and>
      (\<exists>rest. find_cap (put_cap t v s) t = (t, v) # rest)" if "canon_ok v" for v
    using put_cap_ok [OF assms(1) that, of t] find_cap_present [of "put_cap t v s" t v] by simp
  have "mk_record r = Inr (CRecord r)"
    using assms(3) by (simp add: mk_record_tags_ok)
  then show ?thesis
    using put [of "CBool b"] put [of "CUint n"] put [of "CStr x"] put [of "CFloat f"] put [of "CRecord r"] assms
      unset_ok [OF assms(1), of t]
    by (auto simp: setter_defs getter_defs mk_float_def simp del: canon_ok.simps(2))
qed

theorem capability_set_get_witness:
  "get_uint (set_uint 6 48 empty_capabilities) 6 = Some 48"
proof -
  have "caps_ok empty_capabilities" and "isfinite 0"
    by (simp_all add: caps_ok_def empty_capabilities_def isfinite_def exponent_def)
  from capability_set_get [OF this, of "[]" 6 _ 48] show ?thesis
    by simp
qed

text \<open>
  Property C33. A tag that is not in the set is not reported as unknown: every getter, \<^verbatim>\<open>has\<close> and \<^verbatim>\<open>unset\<close>
  act on the entry with the next larger tag instead, against the tri-state contract of the header.
\<close>

theorem absent_tag_reads_next:
  assumes "caps_ok s" and "map_of (caps s) t = None" and "map_of (caps s) t' = Some v" and "t < t'"
    and "\<forall>x \<in> fst ` set (caps s). t < x \<longrightarrow> t' \<le> x"
  shows "has s t \<and> get_bool s t = get_bool s t' \<and> get_uint s t = get_uint s t' \<and>
    get_float s t = get_float s t' \<and> get_str s t = get_str s t' \<and> get_uint_sub s t k = get_uint_sub s t' k \<and>
    map_of (caps (unset t s)) = (map_of (caps s))(t' := None)"
proof -
  obtain rest where r: "find_cap s t = (t', v) # rest"
    using find_cap_next [OF assms] by blast
  obtain rest' where r': "find_cap s t' = (t', v) # rest'"
    using find_cap_present [OF assms(1,3)] by blast
  have "map_of (unset_list t (caps s)) = (map_of (caps s))(t' := None)"
    using lower_bound_next(4) [OF _ assms(2), of "(t', v)" rest] assms(1) r by (simp add: caps_ok_def find_cap_def)
  with r r' show ?thesis
    by (simp add: has_def getter_defs unset_unset_list)
qed

theorem absent_tag_reads_next_witness:
  "get_bool (set_bool 5 True empty_capabilities) 4 = Some True \<and>
   caps (unset 4 (set_bool 5 True empty_capabilities)) = []"
proof -
  let ?s = "set_bool 5 True empty_capabilities"
  have caps: "caps ?s = [(5, CBool True)]"
    by (simp add: set_bool_def put_cap_list empty_capabilities_def)
  then have ok: "caps_ok ?s" "map_of (caps ?s) 4 = None" "map_of (caps ?s) 5 = Some (CBool True)"
    "\<forall>x \<in> fst ` set (caps ?s). 4 < x \<longrightarrow> 5 \<le> x"
    by (simp_all add: caps_ok_def)
  have "get_bool ?s 4 = get_bool ?s 5"
    using absent_tag_reads_next [OF ok(1-3) _ ok(4)] by simp
  moreover have "get_bool ?s 5 = Some True"
    by (simp add: getter_defs find_cap_def caps)
  ultimately show ?thesis
    by (simp add: unset_unset_list caps)
qed

text \<open>
  A set whose tags include 1, 2 or 3 cannot be made canonical: they collide with the tags
  of its id, generation and kind, and \<^verbatim>\<open>mk_record\<close> throws. These are the tags under which rules look for
  compute capability, shared memory and graph support.
\<close>

theorem reserved_tags_rejected:
  assumes "caps_ok s"
  shows "(if {1, 2, 3} \<inter> fst ` set (caps s) = {} then \<exists>c. capability_to_canon s = Inr c \<and> canon_ok c
      else \<exists>e. capability_to_canon s = Inl e) \<and>
    map_of capability_tags ''compute_capability'' = Some 1 \<and>
    map_of capability_tags ''max_shared_memory'' = Some 2 \<and> map_of capability_tags ''graph_support'' = Some 3"
proof -
  let ?r = "[(1, CUuid (cs_id s)), (2, CUint (cs_generation s)),
      (3, CUint (ucast (capability_kind_code (cs_kind s))))] @ caps s"
  have d: "distinct (map fst ?r) \<longleftrightarrow> {1, 2, 3} \<inter> fst ` set (caps s) = {}"
    using assms tags_ok_distinct [of "caps s"] by (auto simp: caps_ok_def)
  have "\<exists>e. mk_record ?r = Inl e" if "\<not> distinct (map fst ?r)"
    using that mk_record_eq_Inr [of ?r] by (cases "mk_record ?r") auto
  moreover have "\<exists>c. mk_record ?r = Inr c \<and> canon_ok c" if "distinct (map fst ?r)"
  proof -
    have "canon_ok (snd e)" if "e \<in> set ?r" for e
      using that assms by (auto simp: caps_ok_def)
    then show ?thesis
      using that mk_record_eq_Inr [of ?r] canon_ok_mk_record [of ?r] by auto
  qed
  ultimately show ?thesis
    unfolding capability_to_canon_def using d by (simp add: capability_tags_def)
qed

theorem reserved_tags_rejected_witness:
  "\<exists>e. capability_to_canon (set_uint 1 120 empty_capabilities) = Inl e"
proof -
  have caps: "caps (set_uint 1 120 empty_capabilities) = [(1, CUint 120)]"
    by (simp add: set_uint_def put_cap_list empty_capabilities_def)
  then have "caps_ok (set_uint 1 120 empty_capabilities)"
    by (simp add: caps_ok_def)
  from reserved_tags_rejected [OF this] caps show ?thesis
    by (simp split: if_splits)
qed

end
