(* ===== verification/Json.thy ===== *)
theory Json
  imports Evaluate
begin

text \<open>
  The JSON rendering of canonical values (\<^verbatim>\<open>canonical_to_json\<close> of \<^verbatim>\<open>src/compat/canonical.cpp\<close>) and of
  decisions (\<^verbatim>\<open>explain_json\<close> of \<^verbatim>\<open>src/compat/registry.cpp\<close>), against a grammar of JSON. How a
  stream prints a \<^verbatim>\<open>double\<close> with 17 digits is a parameter; what is used of it is that the text is a JSON
  number when the value is finite.
\<close>

section \<open>Rendering\<close>

abbreviation quote_char :: char where
  "quote_char \<equiv> CHR 0x22"

abbreviation backslash :: char where
  "backslash \<equiv> CHR 0x5C"

definition escape_char :: "char \<Rightarrow> string" where
  "escape_char c =
     (let n = of_char c :: nat in
      if n = 0x22 then [backslash, quote_char]
      else if n = 0x5C then [backslash, backslash]
      else if n = 0x0A then [backslash, CHR ''n'']
      else if n = 0x0D then [backslash, CHR ''r'']
      else if n = 0x09 then [backslash, CHR ''t'']
      else if n < 0x20 then backslash # ''u00'' @ hex_byte (word_of_nat n)
      else [c])"

definition json_escape :: "string \<Rightarrow> string" where
  "json_escape s = concat (map escape_char s)"

definition quote :: "string \<Rightarrow> string" where
  "quote s = [quote_char] @ json_escape s @ [quote_char]"

fun canonical_to_json :: "(double \<Rightarrow> string) \<Rightarrow> canon \<Rightarrow> string"
  and json_entries :: "(double \<Rightarrow> string) \<Rightarrow> crecord \<Rightarrow> string"
  and json_elements :: "(double \<Rightarrow> string) \<Rightarrow> canon list \<Rightarrow> string" where
  "canonical_to_json ft CNull = ''null''"
| "canonical_to_json ft (CUint v) = show_nat (unat v)"
| "canonical_to_json ft (CInt v) = show_int (sint v)"
| "canonical_to_json ft (CBool b) = (if b then ''true'' else ''false'')"
| "canonical_to_json ft (CStr s) = quote s"
| "canonical_to_json ft (CBytes s) = quote (''hex:'' @ concat (map hex_byte (str_bytes s)))"
| "canonical_to_json ft (CUuid u) = quote (uuid_to_string u)"
| "canonical_to_json ft (CFloat d) = ft d"
| "canonical_to_json ft (CRecord r) = ''{'' @ json_entries ft r @ ''}''"
| "canonical_to_json ft (CSeq q) = ''['' @ json_elements ft q @ '']''"
| "json_entries ft [] = []"
| "json_entries ft ((t, v) # r) =
     [quote_char] @ show_nat (unat t) @ [quote_char] @ '':'' @ canonical_to_json ft v @
     (if r = [] then [] else '','' @ json_entries ft r)"
| "json_elements ft [] = []"
| "json_elements ft (v # q) = canonical_to_json ft v @ (if q = [] then [] else '','' @ json_elements ft q)"

definition explain_json :: "(double \<Rightarrow> string) \<Rightarrow> decision \<Rightarrow> string res" where
  "explain_json ft d =
     bindE (outcome_name (d_outcome d)) (\<lambda>name.
     bindE (mk_record
       ([(1, CStr ''decision''), (2, CStr (uuid_to_string (d_decision_id d))), (3, CStr name),
         (4, CStr (uuid_to_string (d_left d))), (5, CStr (uuid_to_string (d_right d)))] @
        (if \<not> is_zero (d_rule_id d) then [(6, CStr (uuid_to_string (d_rule_id d)))] else []) @
        [(7, CSeq (map CStr (d_missing_evidence d))), (8, CSeq (map CStr (d_adaptations d))),
         (9, CSeq (map CStr (d_provenance d)))]))
       (\<lambda>c. Inr (canonical_to_json ft c)))"

section \<open>JSON texts\<close>

datatype json =
    JNull | JBool bool | JNumber string | JString string | JArray "json list"
  | JObject "(string \<times> json) list"

text \<open>Texts without white space; the characters of a literal are bytes.\<close>

definition digits :: "string \<Rightarrow> bool" where
  "digits s \<longleftrightarrow> s \<noteq> [] \<and> list_all is_digit s"

definition json_int :: "string \<Rightarrow> bool" where
  "json_int s \<longleftrightarrow> digits s \<and> (s = ''0'' \<or> hd s \<noteq> CHR ''0'')"

definition json_number :: "string \<Rightarrow> bool" where
  "json_number s \<longleftrightarrow> (\<exists>sign i f e. s = sign @ i @ f @ e \<and> sign \<in> {[], ''-''} \<and> json_int i \<and>
     (f = [] \<or> (\<exists>ds. f = ''.'' @ ds \<and> digits ds)) \<and>
     (e = [] \<or> (\<exists>x es ds. e = x @ es @ ds \<and> x \<in> {''e'', ''E''} \<and> es \<in> {[], ''+'', ''-''} \<and> digits ds)))"

definition short_escapes :: "(char \<times> char) list" where
  "short_escapes = [(quote_char, quote_char), (backslash, backslash), (CHR ''n'', CHR 0x0A), (CHR ''r'', CHR 0x0D),
     (CHR ''t'', CHR 0x09), (CHR ''b'', CHR 0x08), (CHR ''f'', CHR 0x0C), (CHR ''/'', CHR ''/'')]"

inductive json_chars :: "string \<Rightarrow> string \<Rightarrow> bool" where
  end_of: "json_chars [] []"
| plain: "json_chars s t \<Longrightarrow> (of_char c :: nat) \<ge> 0x20 \<Longrightarrow> c \<noteq> quote_char \<Longrightarrow> c \<noteq> backslash \<Longrightarrow>
    json_chars (c # s) (c # t)"
| short: "json_chars s t \<Longrightarrow>
    (e, c) \<in> set short_escapes \<Longrightarrow> json_chars (c # s) (backslash # e # t)"
| unicode: "json_chars s t \<Longrightarrow> hexv h = Inr a \<Longrightarrow> hexv l = Inr b \<Longrightarrow>
    json_chars (char_of (unat (push_bit 4 a OR b)) # s) (backslash # CHR ''u'' # CHR ''0'' # CHR ''0'' # h # l # t)"

inductive json_text :: "json \<Rightarrow> string \<Rightarrow> bool"
  and json_items :: "json list \<Rightarrow> string \<Rightarrow> bool"
  and json_members :: "(string \<times> json) list \<Rightarrow> string \<Rightarrow> bool" where
  null: "json_text JNull ''null''"
| true: "json_text (JBool True) ''true''"
| false: "json_text (JBool False) ''false''"
| number: "json_number s \<Longrightarrow> json_text (JNumber s) s"
| string: "json_chars s t \<Longrightarrow> json_text (JString s) ([quote_char] @ t @ [quote_char])"
| no_items: "json_text (JArray []) ''[]''"
| array: "json_items js t \<Longrightarrow> json_text (JArray js) (''['' @ t @ '']'')"
| no_members: "json_text (JObject []) ''{}''"
| object: "json_members ms t \<Longrightarrow> json_text (JObject ms) (''{'' @ t @ ''}'')"
| item: "json_text j t \<Longrightarrow> json_items [j] t"
| items: "json_text j t \<Longrightarrow> json_items js t' \<Longrightarrow> json_items (j # js) (t @ '','' @ t')"
| member: "json_chars k t \<Longrightarrow> json_text j t' \<Longrightarrow> json_members [(k, j)] ([quote_char] @ t @ [quote_char] @ '':'' @ t')"
| members: "json_chars k t \<Longrightarrow> json_text j t' \<Longrightarrow> json_members ms t'' \<Longrightarrow>
    json_members ((k, j) # ms) ([quote_char] @ t @ [quote_char] @ '':'' @ t' @ '','' @ t'')"

text \<open>What a canonical value says in JSON.\<close>

fun json_of :: "(double \<Rightarrow> string) \<Rightarrow> canon \<Rightarrow> json" where
  "json_of ft CNull = JNull"
| "json_of ft (CUint v) = JNumber (show_nat (unat v))"
| "json_of ft (CInt v) = JNumber (show_int (sint v))"
| "json_of ft (CBool b) = JBool b"
| "json_of ft (CStr s) = JString s"
| "json_of ft (CBytes s) = JString (''hex:'' @ concat (map hex_byte (str_bytes s)))"
| "json_of ft (CUuid u) = JString (uuid_to_string u)"
| "json_of ft (CFloat d) = JNumber (ft d)"
| "json_of ft (CRecord r) = JObject (map (\<lambda>(t, v). (show_nat (unat t), json_of ft v)) r)"
| "json_of ft (CSeq q) = JArray (map (json_of ft) q)"

section \<open>Numbers\<close>

lemma digits_show_nat: "digits (show_nat n)"
  by (auto simp: digits_def list_all_iff show_nat_digits)

lemma hd_show_nat: "hd (show_nat n) = CHR ''0'' \<Longrightarrow> n = 0"
proof (induction n rule: show_nat.induct)
  case (1 n)
  show ?case
  proof (cases "n < 10")
    case True
    then have "show_nat n = [digit_char n]"
      by (simp add: show_nat.simps [of n])
    with "1.prems" have "(of_char (digit_char n) :: nat) = of_char (CHR ''0'')"
      by simp
    with True show ?thesis
      by (simp add: digit_char_def)
  next
    case False
    then have "hd (show_nat n) = hd (show_nat (n div 10))"
      by (simp add: show_nat.simps [of n])
    then have "n div 10 = 0"
      using "1.IH" [OF False] "1.prems" by simp
    with False show ?thesis by simp
  qed
qed

lemma json_int_show_nat: "json_int (show_nat n)"
  using digits_show_nat [of n] hd_show_nat [of n] by (auto simp: json_int_def show_nat.simps [of 0] digit_char_def)

lemma json_number_int: "json_int s \<Longrightarrow> json_number s" "json_int s \<Longrightarrow> json_number (''-'' @ s)"
  unfolding json_number_def
  subgoal by (intro exI [of _ "[]"] exI [of _ s]) simp
  subgoal by (rule exI [of _ "''-''"], intro exI [of _ s] exI [of _ "[]"]) simp
  done

lemma json_number_show: "json_number (show_nat n)" "json_number (show_int i)"
  using json_number_int json_int_show_nat by (simp_all add: show_int_def)

lemma show_small:
  "show_nat 0 = ''0''" "show_nat 1 = ''1''" "show_nat (Suc 0) = ''1''" "show_nat 2 = ''2''" "show_nat 3 = ''3''"
  "show_nat 4 = ''4''" "show_nat 5 = ''5''" "show_nat 6 = ''6''" "show_nat 7 = ''7''" "show_nat 8 = ''8''"
  "show_nat 9 = ''9''"
  by code_simp+

section \<open>Literals\<close>

lemma json_chars_escape: "json_chars s (json_escape s)"
proof (induction s)
  case Nil
  show ?case
    by (simp add: json_escape_def json_chars.end_of)
next
  case (Cons c s)
  let ?n = "of_char c :: nat"
  have code: "c = CHR 0x22 \<longleftrightarrow> ?n = 0x22" "c = CHR 0x5C \<longleftrightarrow> ?n = 0x5C" "c = CHR 0x0A \<longleftrightarrow> ?n = 0x0A"
    "c = CHR 0x0D \<longleftrightarrow> ?n = 0x0D" "c = CHR 0x09 \<longleftrightarrow> ?n = 0x09"
    unfolding of_char_eq_iff [where 'a = nat, symmetric] by simp_all
  have tail: "json_escape (c # s) = escape_char c @ json_escape s"
    by (simp add: json_escape_def)
  show ?case
  proof (cases "c \<in> {CHR 0x22, CHR 0x5C, CHR 0x0A, CHR 0x0D, CHR 0x09}")
    case True
    then have "\<exists>e. escape_char c = [backslash, e] \<and> (e, c) \<in> set short_escapes"
      by (elim insertE) (simp_all add: escape_char_def short_escapes_def)
    then obtain e where e: "escape_char c = [backslash, e]" "(e, c) \<in> set short_escapes"
      by (elim exE conjE)
    have "json_chars (c # s) (backslash # e # json_escape s)"
      by (rule json_chars.short [OF Cons.IH e(2)])
    then show ?thesis
      unfolding tail e(1) by simp
  next
    case False
    show ?thesis
    proof (cases "?n < 0x20")
      case True
      let ?b = "word_of_nat ?n :: u8"
      have "escape_char c = backslash # ''u00'' @ hex_byte ?b"
        using False True code by (simp add: escape_char_def Let_def)
      moreover have "char_of (unat ?b) = c"
        using True by (simp add: unat_of_nat take_bit_eq_mod)
      ultimately show ?thesis
        using json_chars.unicode [OF Cons.IH hexv_hexl [OF nibbles(1) [of ?b]] hexv_hexl [OF nibbles(2) [of ?b]]]
        unfolding tail by (simp add: hex_byte_def nibbles(3))
    next
      case big: False
      have "escape_char c = [c]"
        using False big code by (simp add: escape_char_def Let_def)
      then show ?thesis
        using json_chars.plain [OF Cons.IH, of c] False big unfolding tail by simp
    qed
  qed
qed

text \<open>A literal says one thing only.\<close>

inductive_cases json_chars_NilE: "json_chars s []"
inductive_cases json_chars_ConsE: "json_chars s (c # t)"

lemma short_escapes_function:
  "(e, c) \<in> set short_escapes \<Longrightarrow> map_of short_escapes e = Some c" "(e, c) \<in> set short_escapes \<Longrightarrow> e \<noteq> CHR ''u''"
  by (auto simp: short_escapes_def)

lemma json_chars_unique: "json_chars s t \<Longrightarrow> json_chars s' t \<Longrightarrow> s = s'"
proof (induction arbitrary: s' rule: json_chars.induct)
  case end_of
  then show ?case
    by (auto elim: json_chars_NilE)
next
  case (plain s t c)
  from plain.prems show ?case
    by (rule json_chars_ConsE) (use plain.hyps(4) plain.IH in simp_all)
next
  case (short s t e c)
  from short.prems show ?case
  proof (rule json_chars_ConsE)
    fix s2 t2 e2 c2
    assume "s' = c2 # s2" "e # t = e2 # t2" "json_chars s2 t2" "(e2, c2) \<in> set short_escapes"
    then show ?thesis
      using short.IH short_escapes_function(1) short.hyps(2) by (metis list.inject option.inject)
  next
    fix s2 t2 h l a b
    assume "e # t = CHR ''u'' # CHR ''0'' # CHR ''0'' # h # l # t2"
    then show ?thesis
      using short_escapes_function(2) [OF short.hyps(2)] by simp
  qed simp
next
  case (unicode s t h a l b)
  from unicode.prems show ?case
  proof (rule json_chars_ConsE)
    fix s2 t2 e2 c2
    assume "CHR ''u'' # CHR ''0'' # CHR ''0'' # h # l # t = e2 # t2" "(e2, c2) \<in> set short_escapes"
    then show ?thesis
      using short_escapes_function(2) by blast
  next
    fix s2 t2 h2 a2 l2 b2
    assume "s' = char_of (unat (push_bit 4 a2 OR b2)) # s2" "json_chars s2 t2" "hexv h2 = Inr a2" "hexv l2 = Inr b2"
      "CHR ''u'' # CHR ''0'' # CHR ''0'' # h # l # t = CHR ''u'' # CHR ''0'' # CHR ''0'' # h2 # l2 # t2"
    then show ?thesis
      using unicode.IH unicode.hyps(2,3) by simp
  qed simp
qed

section \<open>Every rendering is a JSON text\<close>

lemma literal_text: "json_text (JString s) (quote s)"
  unfolding quote_def by (intro json_text_json_items_json_members.string json_chars_escape)

lemma show_nat_literal: "json_chars (show_nat n) (show_nat n)"
proof -
  have "json_chars s s" if "\<forall>c \<in> set s. is_digit c" for s
    using that by (induction s) (auto intro!: json_chars.intros simp: is_digit_def)
  then show ?thesis
    using show_nat_digits by blast
qed

text \<open>The stream's text for a finite double is a JSON number.\<close>

definition prints_numbers :: "(double \<Rightarrow> string) \<Rightarrow> bool" where
  "prints_numbers ft \<longleftrightarrow> (\<forall>d. isfinite d \<longrightarrow> json_number (ft d))"

lemma rendering_text:
  shows "prints_numbers ft \<Longrightarrow> canon_ok c \<Longrightarrow> json_text (json_of ft c) (canonical_to_json ft c)"
    and "prints_numbers ft \<Longrightarrow> (\<forall>e \<in> set r. canon_ok (snd e)) \<Longrightarrow> r \<noteq> [] \<Longrightarrow>
      json_members (map (\<lambda>(t, v). (show_nat (unat t), json_of ft v)) r) (json_entries ft r)"
    and "prints_numbers ft \<Longrightarrow> (\<forall>c \<in> set q. canon_ok c) \<Longrightarrow> q \<noteq> [] \<Longrightarrow>
      json_items (map (json_of ft) q) (json_elements ft q)"
proof (induction ft c and ft r and ft q rule: canonical_to_json_json_entries_json_elements.induct)
  case (9 ft r)
  then show ?case
    by (cases "r = []") (simp_all add: json_text_json_items_json_members.no_members [simplified]
        json_text_json_items_json_members.object [simplified])
next
  case (10 ft q)
  then show ?case
    by (cases "q = []") (simp_all add: json_text_json_items_json_members.no_items [simplified]
        json_text_json_items_json_members.array [simplified])
next
  case (12 ft t v r)
  then show ?case
    using json_text_json_items_json_members.member [OF show_nat_literal, of "json_of ft v" "canonical_to_json ft v" "unat t"]
      json_text_json_items_json_members.members [OF show_nat_literal, of "json_of ft v" "canonical_to_json ft v" _ "json_entries ft r" "unat t"]
    by (cases "r = []") simp_all
next
  case (14 ft v q)
  then show ?case
    using json_text_json_items_json_members.item [of "json_of ft v" "canonical_to_json ft v"]
      json_text_json_items_json_members.items [of "json_of ft v" "canonical_to_json ft v" _ "json_elements ft q"]
    by (cases "q = []") simp_all
qed (simp_all add: literal_text json_number_show prints_numbers_def json_text_json_items_json_members.intros)

section \<open>Properties\<close>

text \<open>
  Property C37. The rendering of every canonical value is a JSON text for exactly that value: numbers
  without leading zeros, strings that read back as the bytes they were made of and in no other way, records as
  objects with distinct member names. The kinds are not told apart: an unsigned and a signed integer
  of the same value, or an identifier and its text, look the same.
\<close>

theorem rendering_is_json:
  assumes "canon_ok c" and "prints_numbers ft"
  shows "json_text (json_of ft c) (canonical_to_json ft c) \<and>
    (\<forall>s s'. json_chars s' (json_escape s) \<longleftrightarrow> s' = s) \<and>
    (\<forall>r. c = CRecord r \<longrightarrow> distinct (map (\<lambda>(t, v). show_nat (unat t)) r)) \<and>
    canonical_to_json ft (CUint 7) = canonical_to_json ft (CInt 7)"
proof (intro conjI allI impI)
  show "json_text (json_of ft c) (canonical_to_json ft c)"
    by (rule rendering_text(1) [OF assms(2,1)])
  show "json_chars s' (json_escape s) \<longleftrightarrow> s' = s" for s s'
    using json_chars_escape json_chars_unique by blast
  show "canonical_to_json ft (CUint 7) = canonical_to_json ft (CInt 7)"
    by (simp add: show_int_def)
next
  fix r assume "c = CRecord r"
  then have "distinct (map fst r)"
    using assms(1) by (simp add: tags_ok_distinct)
  then have "distinct (map (\<lambda>t. show_nat (unat t)) (map fst r))"
    by (simp add: distinct_map inj_on_def flip: word_unat_eq_iff)
  then show "distinct (map (\<lambda>(t, v). show_nat (unat t)) r)"
    by (simp add: comp_def case_prod_beta')
qed

theorem rendering_is_json_witness:
  "json_text (JObject [(''1'', JString [quote_char]), (''2'', JNumber ''1'')])
     (canonical_to_json (\<lambda>_. ''0'') (CRecord [(1, CStr [quote_char]), (2, CUint 1)]))"
proof -
  have "prints_numbers (\<lambda>_. ''0'')"
    using json_number_show(1) [of 0] by (simp add: prints_numbers_def show_small)
  from rendering_is_json [OF _ this, of "CRecord [(1, CStr [quote_char]), (2, CUint 1)]"] show ?thesis
    by (simp add: show_small)
qed

text \<open>
  The JSON explanation of a decision is one object with its identity, outcome, sides, deciding rule (when there
  is one), missing evidence, adaptations and provenance; it is refused exactly when the outcome is no
  enumerator.
\<close>

theorem explain_json_members:
  assumes "prints_numbers ft" and "outcome_name (d_outcome d) = Inr name"
  shows "\<exists>t. explain_json ft d = Inr t \<and> json_text (JObject (
    [(''1'', JString ''decision''), (''2'', JString (uuid_to_string (d_decision_id d))), (''3'', JString name),
     (''4'', JString (uuid_to_string (d_left d))), (''5'', JString (uuid_to_string (d_right d)))] @
    (if d_rule_id d = zero_uuid then [] else [(''6'', JString (uuid_to_string (d_rule_id d)))]) @
    [(''7'', JArray (map JString (d_missing_evidence d))), (''8'', JArray (map JString (d_adaptations d))),
     (''9'', JArray (map JString (d_provenance d)))])) t"
proof -
  let ?r = "[(1, CStr ''decision''), (2, CStr (uuid_to_string (d_decision_id d))), (3, CStr name),
         (4, CStr (uuid_to_string (d_left d))), (5, CStr (uuid_to_string (d_right d)))] @
        (if \<not> is_zero (d_rule_id d) then [(6, CStr (uuid_to_string (d_rule_id d)))] else []) @
        [(7, CSeq (map CStr (d_missing_evidence d))), (8, CSeq (map CStr (d_adaptations d))),
         (9, CSeq (map CStr (d_provenance d)))]"
  have "canon_ok (CRecord ?r)"
    by auto
  then have "explain_json ft d = Inr (canonical_to_json ft (CRecord ?r))"
    using assms(2) by (simp add: explain_json_def mk_record_tags_ok del: canonical_to_json.simps)
  moreover have "json_text (json_of ft (CRecord ?r)) (canonical_to_json ft (CRecord ?r))"
    by (rule rendering_text(1) [OF assms(1)]) fact
  moreover have "json_of ft (CRecord ?r) = JObject (
    [(''1'', JString ''decision''), (''2'', JString (uuid_to_string (d_decision_id d))), (''3'', JString name),
     (''4'', JString (uuid_to_string (d_left d))), (''5'', JString (uuid_to_string (d_right d)))] @
    (if d_rule_id d = zero_uuid then [] else [(''6'', JString (uuid_to_string (d_rule_id d)))]) @
    [(''7'', JArray (map JString (d_missing_evidence d))), (''8'', JArray (map JString (d_adaptations d))),
     (''9'', JArray (map JString (d_provenance d)))])"
    by (simp add: show_small comp_def)
  ultimately show ?thesis
    by metis
qed

end
