(* ===== verification/Cuda.thy ===== *)
theory Cuda
  imports Profiles "HOL-Library.Signed_Division"
begin

text \<open>
  Device discovery (\<^verbatim>\<open>include/compat/cuda.hpp\<close>, \<^verbatim>\<open>src/compat/cuda.cpp\<close>). What the CUDA runtime
  answers is a parameter: a record of the results of the calls the code makes.
\<close>

section \<open>The CUDA runtime\<close>

record device_prop =
  pr_name :: string
  pr_major :: int
  pr_minor :: int
  pr_total_global_mem :: u64
  pr_shared_mem_per_block :: u64
  pr_max_threads_per_block :: int
  pr_multi_processor_count :: int
  pr_regs_per_multiprocessor :: int

text \<open>A failed call is \<open>Inl\<close> the error string or \<open>None\<close>.\<close>

record cuda_api =
  get_device_count :: "string + int"
  driver_get_version :: "int option"
  runtime_get_version :: "int option"
  get_device_properties :: "nat \<Rightarrow> device_prop option"

section \<open>Discovery\<close>

record device_info =
  di_ordinal :: nat
  di_name :: string
  di_compute_capability :: string
  di_total_memory :: u64
  di_shared_memory_per_block :: u64
  di_max_threads_per_block :: u64
  di_multi_processor_count :: u64
  di_registers_per_multiprocessor :: u64
  di_driver_version :: string
  di_runtime_version :: string
  di_initialized :: bool
  di_error :: string

definition no_device :: device_info where
  "no_device = \<lparr>di_ordinal = 0, di_name = [], di_compute_capability = [], di_total_memory = 0,
     di_shared_memory_per_block = 0, di_max_threads_per_block = 0, di_multi_processor_count = 0,
     di_registers_per_multiprocessor = 0, di_driver_version = [], di_runtime_version = [],
     di_initialized = False, di_error = []\<rparr>"

definition format_cuda_version :: "int \<Rightarrow> string" where
  "format_cuda_version v = show_int (v sdiv 1000) @ ''.'' @ show_int (v smod 1000)"

text \<open>Without CUDA support compiled in.\<close>

definition discover_without_cuda :: "device_info list" where
  "discover_without_cuda = [no_device\<lparr>di_error := ''CUDA support not compiled in''\<rparr>]"

definition discover_device :: "cuda_api \<Rightarrow> int \<Rightarrow> int \<Rightarrow> nat \<Rightarrow> device_info" where
  "discover_device api driver runtime i =
     (case get_device_properties api i of
        None \<Rightarrow> no_device\<lparr>di_ordinal := i,
          di_error := ''cudaGetDeviceProperties failed for device '' @ show_nat i\<rparr>
      | Some prop \<Rightarrow>
          \<lparr>di_ordinal = i, di_name = pr_name prop,
           di_compute_capability = show_int (pr_major prop) @ ''.'' @ show_int (pr_minor prop),
           di_total_memory = pr_total_global_mem prop, di_shared_memory_per_block = pr_shared_mem_per_block prop,
           di_max_threads_per_block = word_of_int (pr_max_threads_per_block prop),
           di_multi_processor_count = word_of_int (pr_multi_processor_count prop),
           di_registers_per_multiprocessor = word_of_int (pr_regs_per_multiprocessor prop),
           di_driver_version = (if driver \<noteq> 0 then format_cuda_version driver else []),
           di_runtime_version = (if runtime \<noteq> 0 then format_cuda_version runtime else []),
           di_initialized = True, di_error = []\<rparr>)"

definition discover_cuda_devices :: "cuda_api \<Rightarrow> device_info list" where
  "discover_cuda_devices api =
     (case get_device_count api of
        Inl err \<Rightarrow> [no_device\<lparr>di_error := ''cudaGetDeviceCount failed: '' @ err\<rparr>]
      | Inr n \<Rightarrow>
          if n \<le> 0 then [no_device\<lparr>di_error := ''no CUDA device''\<rparr>]
          else
            let driver = (case driver_get_version api of Some v \<Rightarrow> v | None \<Rightarrow> 0);
                runtime = (case runtime_get_version api of Some v \<Rightarrow> v | None \<Rightarrow> 0)
            in map (discover_device api driver runtime) [0..<nat n])"

definition make_cuda_device_profile :: "uuid \<Rightarrow> device_info \<Rightarrow> device_profile" where
  "make_cuda_device_profile u info =
     (let seen = di_initialized info; sm = ''sm_'' @ di_compute_capability info in
     \<lparr>de_device_id = u, de_vendor = ''NVIDIA'', de_architecture = (if seen then sm else []),
      de_compute_capability = (if seen then di_compute_capability info else []), de_memory_model = ''global'',
      de_total_memory = (if seen then Some (di_total_memory info) else None),
      de_supported_dtypes = (if seen then [''f16'', ''f32'', ''bf16''] else []),
      de_instruction_classes = (if seen then [sm] else []), de_execution_features = [],
      de_runtime_min = (if seen then di_runtime_version info else []),
      de_driver_min = (if seen then di_driver_version info else [])\<rparr>)"

section \<open>Properties\<close>

text \<open>
  Discovery always reports at least one device, one per device when the runtime
  answers, and an entry is marked initialised exactly when its properties were read. A profile made from an
  entry that is not initialised says nothing about memory, data types or instructions, but its
  architecture and capability are present and empty, not absent: to the rules they are known fields.
\<close>

theorem unobserved_device:
  assumes "\<not> di_initialized info" and "device_to_canon (make_cuda_device_profile u info) = Inr c"
  shows "resolve_profile_field PK_Device c ''total_memory'' = None \<and>
    resolve_profile_field PK_Device c ''architecture'' = Some (CStr []) \<and>
    resolve_profile_field PK_Device c ''compute_capability'' = Some (CStr []) \<and>
    discover_cuda_devices api \<noteq> [] \<and>
    (\<forall>i < length (discover_cuda_devices api). di_initialized (discover_cuda_devices api ! i) \<longrightarrow>
       di_ordinal (discover_cuda_devices api ! i) = i \<and> get_device_properties api i \<noteq> None)"
proof (intro conjI allI impI)
  have c: "c = CRecord ([(1, CUuid u), (2, CStr ''NVIDIA''), (3, CStr []), (4, CStr []), (5, CStr ''global''),
      (7, CSeq []), (8, CSeq []), (9, CSeq []), (10, CStr []), (11, CStr [])])"
    using assms by (simp add: device_to_canon_def make_cuda_device_profile_def Let_def mk_record_literal)
  show "resolve_profile_field PK_Device c ''total_memory'' = None"
    "resolve_profile_field PK_Device c ''architecture'' = Some (CStr [])"
    "resolve_profile_field PK_Device c ''compute_capability'' = Some (CStr [])"
    by (simp_all add: c resolve_profile_field_def tag_for_def dot_head_def dot_tail_def codec_simps)
  show "discover_cuda_devices api \<noteq> []"
    by (simp add: discover_cuda_devices_def Let_def split: sum.splits)
next
  fix i assume "i < length (discover_cuda_devices api)" and "di_initialized (discover_cuda_devices api ! i)"
  then show "di_ordinal (discover_cuda_devices api ! i) = i" "get_device_properties api i \<noteq> None"
    by (auto simp: discover_cuda_devices_def discover_device_def no_device_def Let_def
        split: sum.splits if_splits option.splits)
qed

theorem unobserved_device_witness:
  "\<exists>c. device_to_canon (make_cuda_device_profile (Uuid 3) (hd discover_without_cuda)) = Inr c \<and>
     resolve_profile_field PK_Device c ''architecture'' = Some (CStr [])"
proof -
  have off: "\<not> di_initialized (hd discover_without_cuda)"
    by (simp add: discover_without_cuda_def no_device_def)
  then obtain c where "device_to_canon (make_cuda_device_profile (Uuid 3) (hd discover_without_cuda)) = Inr c"
    by (simp add: device_to_canon_def make_cuda_device_profile_def Let_def mk_record_literal)
  with unobserved_device [OF off this] show ?thesis
    by blast
qed

text \<open>
  CUDA encodes a version as 1000 times the major plus 10 times the minor number. The text made of
  it carries ten times the minor number: release 12.9 is reported as \<^verbatim>\<open>12.90\<close>, and every version with a
  minor number other than 0 compares above itself.
\<close>

theorem cuda_version_text:
  assumes "m < 100" and "1000 * M + 10 * m < 2 ^ 31"
  shows "format_cuda_version (1000 * int M + 10 * int m) = show_nat M @ ''.'' @ show_nat (10 * m) \<and>
    cmp_ver (CStr (format_cuda_version (1000 * int M + 10 * int m))) (CStr (show_nat M @ ''.'' @ show_nat m)) =
      Inr (if m = 0 then 0 else 1)"
proof -
  let ?v = "1000 * int M + 10 * int m"
  have "?v div 1000 = int M" "?v mod 1000 = int (10 * m)"
    using assms(1) by (simp_all add: div_add1_eq mod_simps)
  moreover have "v sdiv 1000 = v div 1000" "v smod 1000 = v mod 1000" if "0 \<le> v" for v :: int
    using that by (cases "v = 0"; simp add: signed_divide_int_def signed_modulo_int_def)+
  ultimately have shown: "format_cuda_version ?v = show_nat M @ ''.'' @ show_nat (10 * m)"
    by (simp add: format_cuda_version_def show_int_def nat_mult_distrib)
  have w: "(word_of_nat i :: u64) < word_of_nat j \<longleftrightarrow> i < j" "(word_of_nat i :: u64) = word_of_nat j \<longleftrightarrow> i = j"
    if "i < 2 ^ 64" "j < 2 ^ 64" for i j
    using that by (simp_all add: word_less_nat_alt word_unat_eq_iff unsigned_of_nat take_bit_nat_eq_self)
  show ?thesis
    using assms parse_ver_show_nat [of M "10 * m"] parse_ver_show_nat [of M m]
    by (simp add: shown cmp_ver_compare ver_of_def as_string_def compare_ver_def w del: of_nat_mult)
qed

theorem cuda_version_text_witness:
  "format_cuda_version 12090 = show_nat 12 @ ''.'' @ show_nat 90 \<and>
   cmp_ver (CStr (format_cuda_version 12090)) (CStr (show_nat 12 @ ''.'' @ show_nat 9)) = Inr 1"
proof -
  have "1000 * int 12 + 10 * int 9 = 12090" by simp
  with cuda_version_text [of 9 12] show ?thesis by auto
qed

end
