(* ===== verification/Transport.thy ===== *)
theory Transport
  imports Client
begin

text \<open>
  The socket loops of \<^verbatim>\<open>src/compat/net.cpp\<close>: \<^verbatim>\<open>sock_send_all\<close>, \<^verbatim>\<open>sock_recv_exact\<close>, \<^verbatim>\<open>recv_frame\<close> and the
  server's and the client's use of them. \<^verbatim>\<open>send\<close> and \<^verbatim>\<open>recv\<close> of the operating system are arguments
  of the loops; the locales \<open>byte_sink\<close> and \<open>byte_source\<close> are what the loops need of them. A
  connection that hands out what arrives in segments of any size, and takes any number of bytes per
  call, provides both. Over such connections client and server behave as over the plain lists of
  bytes of the theories before, however the network cuts the stream.
\<close>

section \<open>The loops\<close>

text \<open>
  A length is passed to the socket calls as \<^verbatim>\<open>static_cast<int>\<close> of a \<^verbatim>\<open>std::size_t\<close>: its low 32 bits,
  as a signed number.
\<close>

definition int_arg :: "nat \<Rightarrow> int" where
  "int_arg n = sint (word_of_nat n :: 32 word)"

text \<open>\<open>send d k s\<close> is the call for \<open>k\<close> bytes of \<open>d\<close>; it returns the result of \<^verbatim>\<open>::send\<close>.\<close>

function sock_send_all :: "(bytes \<Rightarrow> int \<Rightarrow> 's \<Rightarrow> int \<times> 's) \<Rightarrow> bytes \<Rightarrow> 's \<Rightarrow> bool \<times> 's" where
  "sock_send_all send d s =
     (if d = [] then (True, s)
      else case send d (int_arg (length d)) s of (sent, s') \<Rightarrow>
        if sent \<le> 0 then (False, s') else sock_send_all send (drop (nat sent) d) s')"
  by pat_completeness auto
termination
  by (relation "measure (\<lambda>(send, d, s). length d)") auto

declare sock_send_all.simps [simp del]

text \<open>
  \<open>recv k s\<close> is the call for at most \<open>k\<close> bytes: the bytes it wrote to the buffer, none when it
  returned 0, or \<open>None\<close> when it returned an error.
\<close>

function sock_recv_exact :: "(int \<Rightarrow> 's \<Rightarrow> bytes option \<times> 's) \<Rightarrow> nat \<Rightarrow> 's \<Rightarrow> bytes option \<times> 's" where
  "sock_recv_exact recv n s =
     (if n = 0 then (Some [], s)
      else case recv (int_arg n) s of
        (None, s') \<Rightarrow> (None, s')
      | (Some got, s') \<Rightarrow>
          if got = [] then (None, s')
          else case sock_recv_exact recv (n - length got) s' of (rest, s'') \<Rightarrow> (map_option ((@) got) rest, s''))"
  by pat_completeness auto
termination
  by (relation "measure (\<lambda>(recv, n, s). n)") auto

declare sock_recv_exact.simps [simp del]

definition sock_recv_frame :: "(int \<Rightarrow> 's \<Rightarrow> bytes option \<times> 's) \<Rightarrow> 's \<Rightarrow> net_message res \<times> 's" where
  "sock_recv_frame recv s =
     (case sock_recv_exact recv 10 s of
        (None, s) \<Rightarrow> (Inl (Runtime_Error ''recv header failed''), s)
      | (Some hdr, s) \<Rightarrow>
          let len = be_nat (take 4 (drop 6 hdr)) in
          if len > max_frame then (Inl (Runtime_Error ''frame too large''), s)
          else case sock_recv_exact recv (len + 4) s of
            (None, s) \<Rightarrow> (Inl (Runtime_Error ''recv body failed''), s)
          | (Some body, s) \<Rightarrow> (bindE (unframe_message (hdr @ body)) (\<lambda>(m, _). Inr m), s))"

section \<open>What the loops need of the operating system\<close>

lemma int_arg_signed: "int_arg n = signed_take_bit 31 (int n)"
  by (simp add: int_arg_def sint_uint unsigned_of_nat of_nat_take_bit signed_take_bit_take_bit)

lemma int_arg_small: "n < 2 ^ 31 \<Longrightarrow> int_arg n = int n"
  unfolding int_arg_signed by (rule signed_take_bit_int_eq_self) simp_all

lemma int_arg_le: "int_arg n \<le> int n"
  unfolding int_arg_signed by (simp add: signed_take_bit_int_less_eq_self_iff)

lemma int_arg_big: "2 ^ 31 \<le> n \<Longrightarrow> int_arg n \<le> int n - 2 ^ 32"
  using signed_take_bit_int_less_eq [of 31 "int n"] by (simp add: int_arg_signed)

lemma left_over: "0 < r \<Longrightarrow> r \<le> k \<Longrightarrow> k \<le> int n - 2 ^ 32 \<Longrightarrow> nat r + 2 ^ 32 \<le> n"
  by simp

text \<open>
  \<open>written s\<close> is what the peer will get of what was sent so far: a call takes a prefix of at most
  the number of bytes asked for, or fails and takes nothing.
\<close>

locale byte_sink =
  fixes send :: "bytes \<Rightarrow> int \<Rightarrow> 's \<Rightarrow> int \<times> 's"
    and written :: "'s \<Rightarrow> bytes"
  assumes accepted: "send d k s = (r, s') \<Longrightarrow> 0 < r \<Longrightarrow> r \<le> k \<and> written s' = written s @ take (nat r) d"
    and refused: "send d k s = (r, s') \<Longrightarrow> r \<le> 0 \<Longrightarrow> written s' = written s"
begin

text \<open>Either all is written, or the loop reports a failure and a proper prefix is.\<close>

lemma send_all_written:
  "sock_send_all send d s = (ok, s') \<Longrightarrow>
    \<exists>n. written s' = written s @ take n d \<and> (if ok then n = length d else n < length d)"
proof (induction "length d" arbitrary: d s rule: less_induct)
  case less
  show ?case
  proof (cases "d = []")
    case True
    with less.prems show ?thesis
      by (simp add: sock_send_all.simps)
  next
    case False
    obtain r s1 where r: "send d (int_arg (length d)) s = (r, s1)"
      by (cases "send d (int_arg (length d)) s")
    show ?thesis
    proof (cases "r \<le> 0")
      case True
      with False less.prems r refused [OF r] show ?thesis
        by (auto simp: sock_send_all.simps)
    next
      case pos: False
      have le: "nat r \<le> length d" and w: "written s1 = written s @ take (nat r) d"
        using accepted [OF r] pos int_arg_le [of "length d"] by linarith+
      have "sock_send_all send (drop (nat r) d) s1 = (ok, s')"
        using less.prems False r pos by (simp add: sock_send_all.simps)
      moreover have "length (drop (nat r) d) < length d"
        using False pos by simp
      ultimately obtain n where
        "written s' = written s1 @ take n (drop (nat r) d)"
        "if ok then n = length (drop (nat r) d) else n < length (drop (nat r) d)"
        using less.hyps by blast
      then have "written s' = written s @ take (nat r + n) d"
        "if ok then nat r + n = length d else nat r + n < length d"
        using w le by (auto simp: take_add split: if_splits)
      then show ?thesis
        by blast
    qed
  qed
qed

text \<open>From 2 GiB on the length asked for never reaches what is left, so the loop cannot succeed.\<close>

lemma send_all_too_long:
  "2 ^ 31 \<le> length d \<Longrightarrow> fst (sock_send_all send d s) = False"
proof (induction "length d" arbitrary: d s rule: less_induct)
  case less
  obtain r s1 where r: "send d (int_arg (length d)) s = (r, s1)"
    by (cases "send d (int_arg (length d)) s")
  have "d \<noteq> []"
    using less.prems by auto
  show ?case
  proof (cases "r \<le> 0")
    case True
    with \<open>d \<noteq> []\<close> r show ?thesis
      by (simp add: sock_send_all.simps)
  next
    case False
    then have "nat r + 2 ^ 32 \<le> length d"
      by (intro left_over [OF _ accepted [OF r, THEN conjunct1] int_arg_big [OF less.prems]]) simp_all
    then have "2 ^ 31 \<le> length (drop (nat r) d)"
      by simp
    moreover have "length (drop (nat r) d) < length d"
      using \<open>d \<noteq> []\<close> False by simp
    ultimately have "fst (sock_send_all send (drop (nat r) d) s1) = False"
      using less.hyps by blast
    with \<open>d \<noteq> []\<close> r False show ?thesis
      by (simp add: sock_send_all.simps)
  qed
qed

end

text \<open>
  \<open>pending s\<close> is what is still to come before the peer closes or the connection breaks: a call hands
  out a piece of it, no longer than asked for, and fails or returns 0 only at the end.
\<close>

locale byte_source =
  fixes recv :: "int \<Rightarrow> 's \<Rightarrow> bytes option \<times> 's"
    and pending :: "'s \<Rightarrow> bytes"
  assumes piece: "0 < k \<Longrightarrow> recv k s = (Some got, s') \<Longrightarrow> int (length got) \<le> k \<and> pending s = got @ pending s'"
    and ended: "0 < k \<Longrightarrow> recv k s = (r, s') \<Longrightarrow> r \<in> {None, Some []} \<Longrightarrow> pending s = [] \<and> pending s' = []"
begin

lemma recv_exact:
  "n < 2 ^ 31 \<Longrightarrow> sock_recv_exact recv n s = (r, s') \<Longrightarrow>
    (if n \<le> length (pending s) then r = Some (take n (pending s)) \<and> pending s' = drop n (pending s)
     else r = None)"
proof (induction n arbitrary: s r s' rule: less_induct)
  case (less n)
  show ?case
  proof (cases "n = 0")
    case True
    with less.prems show ?thesis
      by (simp add: sock_recv_exact.simps)
  next
    case False
    obtain g s1 where g: "recv (int_arg n) s = (g, s1)"
      by (cases "recv (int_arg n) s")
    have pos: "0 < int_arg n" and n: "int_arg n = int n"
      using False int_arg_small [OF less.prems(1)] by simp_all
    show ?thesis
    proof (cases "g \<in> {None, Some []}")
      case True
      then have "r = None"
        using less.prems(2) False g by (auto simp: sock_recv_exact.simps)
      with ended [OF pos g True] False show ?thesis
        by simp
    next
      case more: False
      then obtain got where got: "g = Some got" "got \<noteq> []"
        by auto
      have le: "length got \<le> n" and p: "pending s = got @ pending s1"
        using piece [OF pos g [unfolded got]] n by auto
      obtain r1 where rest: "sock_recv_exact recv (n - length got) s1 = (r1, s')" "r = map_option ((@) got) r1"
        using less.prems(2) False g got
        by (cases "sock_recv_exact recv (n - length got) s1") (simp add: sock_recv_exact.simps)
      have "n - length got < 2 ^ 31"
        using less.prems(1) by linarith
      moreover have "n - length got < n"
        using False got(2) by simp
      ultimately show ?thesis
        using less.IH [OF _ _ rest(1)] rest(2) le p by (auto split: if_splits)
    qed
  qed
qed

lemma header_length [simp]: "drop 6 (take 10 bs) = take 4 (drop 6 bs)"
  by (simp add: drop_take)

lemma recv_frame_pending:
  assumes "sock_recv_frame recv s = (r, s')"
  shows "case recv_frame (pending s) of Inl e \<Rightarrow> r = Inl e | Inr (m, rest) \<Rightarrow> r = Inr m \<and> pending s' = rest"
proof -
  let ?len = "be_nat (take 4 (drop 6 (pending s)))"
  obtain hdr s1 where hdr: "sock_recv_exact recv 10 s = (hdr, s1)"
    by (cases "sock_recv_exact recv 10 s")
  note head = recv_exact [OF _ hdr, simplified]
  consider "length (pending s) < 10" | "10 \<le> length (pending s)" "?len > max_frame"
    | "10 \<le> length (pending s)" "?len \<le> max_frame"
    by linarith
  then show ?thesis
  proof cases
    case 1
    then show ?thesis
      using head assms hdr by (auto simp: sock_recv_frame_def recv_frame_def)
  next
    case 2
    then show ?thesis
      using head assms hdr
      by (auto simp: sock_recv_frame_def recv_frame_def Let_def)
  next
    case 3
    obtain body s2 where body: "sock_recv_exact recv (?len + 4) s1 = (body, s2)"
      by (cases "sock_recv_exact recv (?len + 4) s1")
    have h: "hdr = Some (take 10 (pending s))" "pending s1 = drop 10 (pending s)"
      using head 3(1) by simp_all
    have "?len + 4 < 2 ^ 31"
      using 3(2) by (simp add: max_frame_def)
    note tail = recv_exact [OF this body, unfolded h]
    show ?thesis
    proof (cases "10 + ?len + 4 \<le> length (pending s)")
      case True
      then have b: "body = Some (take (?len + 4) (drop 10 (pending s)))" "pending s2 = drop (10 + ?len + 4) (pending s)"
        using tail by (simp_all add: ac_simps)
      have "take 10 (pending s) @ take (?len + 4) (drop 10 (pending s)) = take (10 + ?len + 4) (pending s)"
        by (simp only: take_add add.assoc)
      then have "r = bindE (unframe_message (take (10 + ?len + 4) (pending s))) (\<lambda>(m, _). Inr m)" "s' = s2"
        using assms hdr body h b 3(2) by (simp_all add: sock_recv_frame_def Let_def)
      with True 3 b(2) show ?thesis
        by (auto simp: recv_frame_def Let_def bindE_def split: sum.splits)
    next
      case False
      then have "body = None"
        using tail by (simp split: if_splits)
      with False 3 assms hdr h body show ?thesis
        by (auto simp: sock_recv_frame_def recv_frame_def Let_def)
    qed
  qed
qed

end

section \<open>Connections\<close>

text \<open>
  A connection: what arrives, cut into the segments in which the network delivers it, an empty one or
  none where the peer has closed; how many bytes each call of \<^verbatim>\<open>send\<close> can take, until sending fails;
  and what has been sent.
\<close>

record connection =
  inbox :: "bytes list"
  room :: "nat list"
  outbox :: bytes

definition conn_recv :: "int \<Rightarrow> connection \<Rightarrow> bytes option \<times> connection" where
  "conn_recv k c =
     (case inbox c of
        [] \<Rightarrow> (Some [], c)
      | g # gs \<Rightarrow>
          if g = [] then (Some [], c)
          else (Some (take (nat k) g), c\<lparr>inbox := (if length g \<le> nat k then gs else drop (nat k) g # gs)\<rparr>))"

definition conn_send :: "bytes \<Rightarrow> int \<Rightarrow> connection \<Rightarrow> int \<times> connection" where
  "conn_send d k c =
     (case room c of
        [] \<Rightarrow> (- 1, c)
      | n # ns \<Rightarrow> (int (min n (nat k)), c\<lparr>outbox := outbox c @ take (min n (nat k)) d, room := ns\<rparr>))"

definition pending :: "connection \<Rightarrow> bytes" where
  "pending c = concat (takeWhile (\<lambda>g. g \<noteq> []) (inbox c))"

interpretation conn: byte_sink conn_send outbox
  by unfold_locales (auto simp: conn_send_def split: list.splits)

interpretation conn: byte_source conn_recv pending
  by unfold_locales (auto simp: conn_recv_def pending_def split: list.splits if_splits)

lemma conn_send_inbox: "inbox (snd (conn_send d k c)) = inbox c"
  by (simp add: conn_send_def split: list.splits)

lemma conn_recv_outbox: "outbox (snd (conn_recv k c)) = outbox c"
  by (simp add: conn_recv_def split: list.splits)

lemma sock_send_all_keeps:
  assumes "\<And>d k s. f (snd (send d k s)) = f s"
  shows "f (snd (sock_send_all send d s)) = f s"
proof (induction "length d" arbitrary: d s rule: less_induct)
  case less
  have keeps: "f s1 = f s" if "send d k s = (r, s1)" for k r s1
    using assms [of d k s] that by simp
  show ?case
  proof (cases "d = []")
    case False
    then show ?thesis
      using less keeps by (subst sock_send_all.simps) (auto split: prod.split)
  qed (simp add: sock_send_all.simps)
qed

lemma sock_recv_exact_keeps:
  assumes "\<And>k s. f (snd (recv k s)) = f s"
  shows "f (snd (sock_recv_exact recv n s)) = f s"
proof (induction n arbitrary: s rule: less_induct)
  case (less n)
  have keeps: "f s1 = f s" if "recv k s = (r, s1)" for k r s1
    using assms [of k s] that by simp
  show ?case
  proof (cases "n = 0")
    case False
    then have tail: "f s2 = f s1" if "sock_recv_exact recv (n - length g) s1 = (r, s2)" "g \<noteq> []" for g r s1 s2
      using less [of "n - length g" s1] that by simp
    from False show ?thesis
      by (subst sock_recv_exact.simps) (auto split: prod.split option.split dest!: tail dest: keeps)
  qed (simp add: sock_recv_exact.simps)
qed

lemma send_pending: "sock_send_all conn_send d c = (ok, c') \<Longrightarrow> pending c' = pending c"
  using sock_send_all_keeps [of inbox conn_send d c, OF conn_send_inbox] by (simp add: pending_def)

lemma recv_outbox: "sock_recv_frame conn_recv c = (r, c') \<Longrightarrow> outbox c' = outbox c"
  using sock_recv_exact_keeps [of outbox conn_recv, OF conn_recv_outbox]
  by (auto simp: sock_recv_frame_def Let_def split: prod.splits option.splits if_splits) (metis snd_conv)+

section \<open>The server over connections\<close>

text \<open>
  The inner loop of \<^verbatim>\<open>CoordinatorServer::run\<close>: \<open>k\<close> counts the requests handled, the \<open>k\<close>-th of which
  may draw \<open>seed k\<close>.
\<close>

lemma frame_shortens: "sock_recv_frame conn_recv c = (Inr m, c') \<Longrightarrow> length (pending c') < length (pending c)"
  using conn.recv_frame_pending [of c "Inr m" c'] recv_frame_shorter [of "pending c"]
  by (auto split: sum.splits prod.splits)

function conn_serve :: "(nat \<Rightarrow> uuid) \<Rightarrow> nat \<Rightarrow> connection \<Rightarrow> coordinator \<Rightarrow>
    ending \<times> nat \<times> connection \<times> coordinator" where
  "conn_serve seed k c S =
     (case sock_recv_frame conn_recv c of
        (Inl e, c') \<Rightarrow> ((if e = Out_Of_Bounds then Crashed e else Closed), k, c', S)
      | (Inr m, c') \<Rightarrow>
          (case handle_request (seed k) m S of (r, S') \<Rightarrow>
            (case reply_frame r of
               Inl e \<Rightarrow> (Crashed e, Suc k, c', S')
             | Inr f \<Rightarrow>
                 (case sock_send_all conn_send f c' of
                    (False, c'') \<Rightarrow> (Closed, Suc k, c'', S')
                  | (True, c'') \<Rightarrow>
                      if m_type m = Shutdown then (Shut_Down, Suc k, c'', S')
                      else conn_serve seed (Suc k) c'' S'))))"
  by pat_completeness auto
termination
  by (relation "measure (\<lambda>(seed, k, c, S). length (pending c))")
    (auto dest!: send_pending [OF sym] frame_shortens [OF sym])

declare conn_serve.simps [simp del]

text \<open>
  \<^verbatim>\<open>run\<close>: nothing happens unless the socket could be created, bound and set to listen (\<open>listening\<close>).
  Connections are accepted one after the other, \<open>None\<close> being a failed \<^verbatim>\<open>accept\<close>, which is tried again.
\<close>

fun accept_loop :: "(nat \<Rightarrow> uuid) \<Rightarrow> nat \<Rightarrow> connection option list \<Rightarrow> coordinator \<Rightarrow>
    ending \<times> nat \<times> connection list \<times> coordinator" where
  "accept_loop seed k [] S = (Closed, k, [], S)"
| "accept_loop seed k (None # cs) S = accept_loop seed k cs S"
| "accept_loop seed k (Some c # cs) S =
     (case conn_serve seed k c S of
        (Closed, n, c', S') \<Rightarrow> (case accept_loop seed n cs S' of (e, n', cs', S'') \<Rightarrow> (e, n', c' # cs', S''))
      | (e, n, c', S') \<Rightarrow> (e, n, [c'], S'))"

definition run_server :: "bool \<Rightarrow> (nat \<Rightarrow> uuid) \<Rightarrow> connection option list \<Rightarrow> coordinator \<Rightarrow>
    ending \<times> nat \<times> connection list \<times> coordinator" where
  "run_server listening seed cs S = (if listening then accept_loop seed 0 cs S else (Closed, 0, [], S))"

section \<open>Refinement\<close>

text \<open>\<open>serve\<close> asks \<open>sent\<close> only about the requests it handles.\<close>

lemma serve_counts:
  "serve seed sent k s S = (fs, e, n, S') \<Longrightarrow> k \<le> n"
proof (induction seed sent k s S arbitrary: fs e n S' rule: serve.induct)
  case (1 seed sent k s S)
  show ?case
    using "1.prems" "1.IH"
    by (subst (asm) serve.simps) (fastforce split: sum.splits prod.splits if_splits)
qed

lemma serve_sent_cong:
  "serve seed sent k s S = (fs, e, n, S') \<Longrightarrow> (\<And>j. k \<le> j \<Longrightarrow> j < n \<Longrightarrow> sent' j = sent j) \<Longrightarrow>
    serve seed sent' k s S = (fs, e, n, S')"
proof (induction seed sent k s S arbitrary: fs e n S' rule: serve.induct)
  case (1 seed sent k s S)
  show ?case
  proof (cases "recv_frame s")
    case (Inl x)
    then show ?thesis
      using "1.prems"(1) by (simp add: serve.simps)
  next
    case (Inr ms)
    obtain m s' where ms: "ms = (m, s')" by (cases ms)
    obtain r S1 where h: "handle_request (seed k) m S = (r, S1)"
      by (cases "handle_request (seed k) m S")
    show ?thesis
    proof (cases "reply_frame r")
      case Inl': (Inl x)
      then show ?thesis
        using "1.prems"(1) Inr ms h by (simp add: serve.simps)
    next
      case Inr': (Inr f)
      have "k < n"
        using "1.prems"(1) Inr ms h Inr' serve_counts [of seed sent "Suc k" s' S1]
        by (subst (asm) serve.simps) (fastforce split: prod.splits if_splits)
      then have k: "sent' k = sent k"
        using "1.prems"(2) by simp
      show ?thesis
      proof (cases "sent k \<and> m_type m \<noteq> Shutdown")
        case False
        then show ?thesis
          using "1.prems"(1) Inr ms h Inr' k by (auto simp: serve.simps [of _ _ k])
      next
        case True
        obtain fs1 e1 n1 S2 where tail: "serve seed sent (Suc k) s' S1 = (fs1, e1, n1, S2)"
          by (metis prod_cases4)
        then have res: "fs = f # fs1" "e = e1" "n = n1" "S' = S2"
          using "1.prems"(1) True Inr ms h Inr' by (simp_all add: serve.simps [of _ _ k])
        have "serve seed sent' (Suc k) s' S1 = (fs1, e1, n1, S2)"
          using "1.IH" [OF Inr ms [symmetric] h [symmetric] Inr'] True tail res "1.prems"(2) by simp
        then show ?thesis
          using True Inr ms h Inr' k res by (simp add: serve.simps [of _ _ k])
      qed
    qed
  qed
qed

text \<open>What a failed send leaves on the connection: a proper prefix of a reply.\<close>

definition broken_off :: "bytes \<Rightarrow> bool" where
  "broken_off part \<longleftrightarrow> (\<exists>r f n. reply_frame r = Inr f \<and> part = take n f \<and> n < length f)"

lemma conn_serve_refines:
  "conn_serve seed k c S = (e, n, c', S') \<Longrightarrow>
    \<exists>sent fs part. serve seed sent k (pending c) S = (fs, e, n, S') \<and>
      outbox c' = outbox c @ concat fs @ part \<and> (part = [] \<or> e = Closed \<and> broken_off part)"
proof (induction seed k c S arbitrary: e n c' S' rule: conn_serve.induct)
  case (1 seed k c S)
  obtain msg c1 where recv: "sock_recv_frame conn_recv c = (msg, c1)"
    by (cases "sock_recv_frame conn_recv c")
  note frame = conn.recv_frame_pending [OF recv] and out = recv_outbox [OF recv]
  show ?case
  proof (cases msg)
    case (Inl x)
    then have "recv_frame (pending c) = Inl x"
      using frame by (auto split: sum.splits)
    then show ?thesis
      using "1.prems" recv Inl out by (intro exI [of _ "\<lambda>_. True"] exI [of _ "[]"]) (auto simp: serve.simps conn_serve.simps)
  next
    case (Inr m)
    then have m: "recv_frame (pending c) = Inr (m, pending c1)"
      using frame by (auto split: sum.splits)
    obtain r S1 where h: "handle_request (seed k) m S = (r, S1)"
      by (cases "handle_request (seed k) m S")
    show ?thesis
    proof (cases "reply_frame r")
      case Inl': (Inl x)
      then show ?thesis
        using "1.prems" recv Inr out m h
        by (intro exI [of _ "\<lambda>_. True"] exI [of _ "[]"]) (auto simp: serve.simps conn_serve.simps)
    next
      case Inr': (Inr f)
      obtain ok c2 where send: "sock_send_all conn_send f c1 = (ok, c2)"
        by (cases "sock_send_all conn_send f c1")
      obtain j where j: "outbox c2 = outbox c1 @ take j f" "if ok then j = length f else j < length f"
        using conn.send_all_written [OF send] by blast
      consider "\<not> ok" | "ok" "m_type m = Shutdown" | "ok" "m_type m \<noteq> Shutdown"
        by blast
      then show ?thesis
      proof cases
        case 1
        then have "broken_off (take j f)"
          using Inr' j(2) unfolding broken_off_def by auto
        then show ?thesis
          using 1 "1.prems" recv Inr out m h Inr' send j
          by (intro exI [of _ "\<lambda>_. False"] exI [of _ "[]"] exI [of _ "take j f"]) (auto simp: serve.simps conn_serve.simps)
      next
        case 2
        then show ?thesis
          using "1.prems" recv Inr out m h Inr' send j
          by (intro exI [of _ "\<lambda>_. True"] exI [of _ "[f]"] exI [of _ "[]"]) (auto simp: serve.simps conn_serve.simps)
      next
        case 3
        have "conn_serve seed (Suc k) c2 S1 = (e, n, c', S')"
          using "1.prems" recv Inr h Inr' send 3 by (simp add: conn_serve.simps [of _ k])
        obtain sent fs part where tail: "serve seed sent (Suc k) (pending c2) S1 = (fs, e, n, S')"
          "outbox c' = outbox c2 @ concat fs @ part" "part = [] \<or> e = Closed \<and> broken_off part"
          using "1.IH" [OF recv [symmetric] Inr h [symmetric] Inr' send [symmetric] eqTrueI [OF 3(1)] 3(2)] \<open>conn_serve seed (Suc k) c2 S1 = (e, n, c', S')\<close>
          by blast
        define sent' where "sent' = sent(k := True)"
        have "serve seed sent' (Suc k) (pending c2) S1 = (fs, e, n, S')"
          using tail(1) by (rule serve_sent_cong) (simp add: sent'_def)
        moreover have "sent' k"
          by (simp add: sent'_def)
        ultimately have "serve seed sent' k (pending c) S = (f # fs, e, n, S')"
          using m h Inr' 3 send_pending [OF send] by (simp add: serve.simps [of _ _ k])
        then show ?thesis
          using tail(2,3) j 3 out by (intro exI [of _ sent'] exI [of _ "f # fs"] exI [of _ part]) simp
      qed
    qed
  qed
qed

lemma run_counts: "run seed sent k ss S = (fss, e, n, S') \<Longrightarrow> k \<le> n"
proof (induction seed sent k ss S arbitrary: fss e n S' rule: run.induct)
  case (2 seed sent k c cs S)
  obtain fs e1 n1 S1 where one: "serve seed sent k c S = (fs, e1, n1, S1)"
    by (metis prod_cases4)
  show ?case
    using "2.prems" "2.IH" [OF one [symmetric] refl] serve_counts [OF one] one
    by (cases e1) (fastforce split: prod.splits)+
qed simp

lemma run_sent_cong:
  "run seed sent k ss S = (fss, e, n, S') \<Longrightarrow> (\<And>j. k \<le> j \<Longrightarrow> j < n \<Longrightarrow> sent' j = sent j) \<Longrightarrow>
    run seed sent' k ss S = (fss, e, n, S')"
proof (induction ss arbitrary: k S fss e n S')
  case (Cons s ss)
  obtain fs e1 n1 S1 where one: "serve seed sent k s S = (fs, e1, n1, S1)"
    by (metis prod_cases4)
  obtain fss2 e2 n2 S2 where rest: "run seed sent n1 ss S1 = (fss2, e2, n2, S2)"
    by (metis prod_cases4)
  have n: "n1 \<le> n"
    using Cons.prems(1) one rest run_counts [OF rest] by (cases e1) simp_all
  have one': "serve seed sent' k s S = (fs, e1, n1, S1)"
    using one by (rule serve_sent_cong) (use Cons.prems(2) n in simp)
  show ?case
  proof (cases e1)
    case Closed
    then have "n = n2"
      using Cons.prems(1) one rest by simp
    then have "run seed sent' n1 ss S1 = (fss2, e2, n2, S2)"
      using rest by (rule_tac Cons.IH) (use Cons.prems(2) serve_counts [OF one] in simp_all)
    then show ?thesis
      using Cons.prems(1) one one' rest Closed by simp
  next
    case Shut_Down
    then show ?thesis
      using Cons.prems(1) one one' by simp
  next
    case (Crashed x)
    then show ?thesis
      using Cons.prems(1) one one' by auto
  qed
qed simp

definition accepted :: "connection option list \<Rightarrow> connection list" where
  "accepted cs = map the (filter (\<lambda>c. c \<noteq> None) cs)"

lemma accepted_simps [simp]:
  "accepted [] = []" "accepted (None # cs) = accepted cs" "accepted (Some c # cs) = c # accepted cs"
  by (simp_all add: accepted_def)

text \<open>What was put on a connection: the replies \<open>fs\<close>, and part of one more if sending it failed.\<close>

definition sent_over :: "bytes list \<Rightarrow> connection \<times> connection \<Rightarrow> bool" where
  "sent_over fs cc \<longleftrightarrow> (\<exists>part. outbox (snd cc) = outbox (fst cc) @ concat fs @ part \<and> (part = [] \<or> broken_off part))"

lemma accept_loop_refines:
  "accept_loop seed k cs S = (e, n, cs', S') \<Longrightarrow>
    \<exists>sent fss. run seed sent k (map pending (accepted cs)) S = (fss, e, n, S') \<and>
      list_all2 sent_over fss (zip (accepted cs) cs')"
proof (induction seed k cs S arbitrary: e n cs' S' rule: accept_loop.induct)
  case (3 seed k c cs S)
  obtain e1 n1 c1 S1 where one: "conn_serve seed k c S = (e1, n1, c1, S1)"
    by (metis prod_cases4)
  obtain sent fs part where a: "serve seed sent k (pending c) S = (fs, e1, n1, S1)"
    "outbox c1 = outbox c @ concat fs @ part" "part = [] \<or> e1 = Closed \<and> broken_off part"
    using conn_serve_refines [OF one] by blast
  then have over: "sent_over fs (c, c1)"
    by (auto simp: sent_over_def)
  show ?case
  proof (cases e1)
    case Closed
    obtain cs1 where rest: "accept_loop seed n1 cs S1 = (e, n, cs1, S')" "cs' = c1 # cs1"
      using "3.prems" one Closed by (auto split: prod.splits)
    obtain sent2 fss where b: "run seed sent2 n1 (map pending (accepted cs)) S1 = (fss, e, n, S')"
      "list_all2 sent_over fss (zip (accepted cs) cs1)"
      using "3.IH" [OF one [symmetric] Closed refl refl rest(1)] by blast
    define sent' where "sent' j = (if j < n1 then sent j else sent2 j)" for j
    have "serve seed sent' k (pending c) S = (fs, e1, n1, S1)"
      using a(1) by (rule serve_sent_cong) (simp add: sent'_def)
    moreover have "run seed sent' n1 (map pending (accepted cs)) S1 = (fss, e, n, S')"
      using b(1) by (rule run_sent_cong) (simp add: sent'_def)
    ultimately show ?thesis
      using b(2) over rest(2) Closed by (intro exI [of _ sent'] exI [of _ "fs # fss"]) simp
  next
    case Shut_Down
    then show ?thesis
      using "3.prems" one a(1) over by (intro exI [of _ sent] exI [of _ "[fs]"]) auto
  next
    case (Crashed x)
    then show ?thesis
      using "3.prems" one a(1) over by (intro exI [of _ sent] exI [of _ "[fs]"]) auto
  qed
qed auto

section \<open>The client over a connection\<close>

text \<open>\<^verbatim>\<open>RegistryClient::send\<close> with its socket.\<close>

definition sock_client_send :: "client \<Rightarrow> msg_type \<Rightarrow> canon \<Rightarrow> connection \<Rightarrow> net_message call \<times> connection" where
  "sock_client_send cl t payload c =
     (if \<not> connected cl then (Inr (Inl ''not connected''), c)
      else case frame_message t payload of
        Inl e \<Rightarrow> (Inl e, c)
      | Inr f \<Rightarrow>
          (case sock_send_all conn_send f c of
             (False, c') \<Rightarrow> (Inr (Inl ''send failed''), c')
           | (True, c') \<Rightarrow>
               (case sock_recv_frame conn_recv c' of (r, c'') \<Rightarrow>
                 (case r of
                    Inl (Canon_Error err) \<Rightarrow> (Inr (Inl err), c'')
                  | Inl (Runtime_Error err) \<Rightarrow> (Inr (Inl err), c'')
                  | Inl (Invalid_Argument err) \<Rightarrow> (Inr (Inl err), c'')
                  | Inl Out_Of_Bounds \<Rightarrow> (Inl Out_Of_Bounds, c'')
                  | Inr resp \<Rightarrow>
                      if m_type resp = Error then (Inr (Inl (field_str resp 1)), c'') else (Inr (Inr resp), c'')))))"

text \<open>The exchange the client's other operations are modelled with.\<close>

definition exchange_over :: "connection \<Rightarrow> exchange" where
  "exchange_over c f = (case sock_send_all conn_send f c of (ok, c') \<Rightarrow> if ok then Some (pending c') else None)"

lemma client_over_connection:
  "fst (sock_client_send cl t payload c) = client_send (exchange_over c) cl t payload"
proof (cases "connected cl")
  case True
  show ?thesis
  proof (cases "frame_message t payload")
    case (Inr f)
    obtain ok c1 where send: "sock_send_all conn_send f c = (ok, c1)"
      by (cases "sock_send_all conn_send f c")
    obtain r c2 where recv: "sock_recv_frame conn_recv c1 = (r, c2)"
      by (cases "sock_recv_frame conn_recv c1")
    show ?thesis
      using conn.recv_frame_pending [OF recv] True Inr send recv
      by (auto simp: sock_client_send_def client_send_def exchange_over_def receive_def split: sum.splits error.splits)
  qed (simp add: sock_client_send_def client_send_def True)
qed (simp add: sock_client_send_def client_send_def)

section \<open>Properties\<close>

text \<open>
  Property C5. The server behind real sockets is the server of the model: however the network cuts
  what arrives into segments, whatever part of a reply each call of \<^verbatim>\<open>send\<close> takes and wherever sending
  or \<^verbatim>\<open>accept\<close> fails, the run ends as a run over the unbroken bytes of the connections does, after as
  many requests and in the same state, and each connection carries exactly that run's replies, whole
  and in order, and at most a proper prefix of one more.
\<close>

theorem socket_server_refines:
  "case run_server True seed cs S of (e, n, cs', S') \<Rightarrow>
    \<exists>sent fss. run seed sent 0 (map pending (accepted cs)) S = (fss, e, n, S') \<and>
      list_all2 sent_over fss (zip (accepted cs) cs')"
proof -
  obtain e n cs' S' where loop: "accept_loop seed 0 cs S = (e, n, cs', S')"
    by (metis prod_cases4)
  with accept_loop_refines [OF loop] show ?thesis
    by (simp add: run_server_def)
qed

text \<open>
  Property C38. \<^verbatim>\<open>sock_send_all\<close> reports success exactly when the whole buffer was taken, and only for
  buffers below 2 GiB, where the length fits the \<^verbatim>\<open>int\<close> of the call; otherwise a proper prefix was
  sent. The bytes still to be received are not affected.
\<close>

theorem send_all_exact:
  "case sock_send_all conn_send d c of (ok, c') \<Rightarrow>
    inbox c' = inbox c \<and>
    (\<exists>n. outbox c' = outbox c @ take n d \<and> (if ok then n = length d \<and> length d < 2 ^ 31 else n < length d))"
proof -
  obtain ok c' where send: "sock_send_all conn_send d c = (ok, c')"
    by (cases "sock_send_all conn_send d c")
  moreover have "inbox c' = inbox c"
    using sock_send_all_keeps [of inbox conn_send d c, OF conn_send_inbox] send by simp
  moreover have "length d < 2 ^ 31" if ok
    using conn.send_all_too_long [of d c] send that by (cases "length d < 2 ^ 31") auto
  ultimately show ?thesis
    using conn.send_all_written [OF send] by (auto split: if_splits)
qed

end
