(* ===== verification/Verdict.thy ===== *)
theory Verdict
  imports Evaluate
begin

text \<open>
  What the evaluator decides, without its loops: a table that gives the outcome of a rule from the
  sets of its clauses that hold, fail, or lack a field, and a resolution that picks one rule's outcome.
  \<open>eval_rule\<close> and \<open>evaluate_locked\<close> of \<^verbatim>\<open>src/compat/registry.cpp\<close> are shown to compute them.
\<close>

section \<open>The table\<close>

datatype truth = Holds | Fails | Lacks

definition truth_of :: "profile_record \<Rightarrow> profile_record \<Rightarrow> constraint \<Rightarrow> truth" where
  "truth_of l r c = (if \<not> constraint_known c l r then Lacks else if met c l r then Holds else Fails)"

text \<open>The sets of clauses are all the table looks at.\<close>

definition any_true :: "truth \<Rightarrow> (constraint \<Rightarrow> truth) \<Rightarrow> constraint list \<Rightarrow> bool" where
  "any_true t v cs \<longleftrightarrow> (\<exists>c \<in> set cs. v c = t)"

definition all_hold :: "(constraint \<Rightarrow> truth) \<Rightarrow> constraint list \<Rightarrow> bool" where
  "all_hold v cs \<longleftrightarrow> (\<forall>c \<in> set cs. v c = Holds)"

definition alternatives_met :: "rule \<Rightarrow> (constraint \<Rightarrow> truth) \<Rightarrow> bool" where
  "alternatives_met rl v \<longleftrightarrow> r_any_of rl = [] \<or> any_true Holds v (r_any_of rl)"

definition kind_outcome :: "rule \<Rightarrow> (constraint \<Rightarrow> truth) \<Rightarrow> outcome" where
  "kind_outcome rl v =
     (case r_kind rl of
        RK_Conditional \<Rightarrow> (if all_hold v (r_conditions rl) then r_outcome rl else Conditional)
      | RK_Adaptation \<Rightarrow> Compatible_With_Adaptation
      | RK_Explicit_Incompat \<Rightarrow> Incompatible
      | _ \<Rightarrow> r_outcome rl)"

text \<open>The outcome of a rule, \<open>None\<close> when it has nothing definite to say.\<close>

definition verdict_of :: "rule \<Rightarrow> (constraint \<Rightarrow> truth) \<Rightarrow> outcome option" where
  "verdict_of rl v =
     (if any_true Holds v (r_incompatible_with rl) then Some Incompatible
      else if \<not> all_hold v (r_required rl) then
        (if any_true Lacks v (r_incompatible_with rl @ r_required rl) then Some Insufficient_Evidence else None)
      else if \<not> alternatives_met rl v then
        (if any_true Lacks v (r_any_of rl) then Some Insufficient_Evidence else None)
      else Some (kind_outcome rl v))"

text \<open>Whether a rule that does not decide lacked a field.\<close>

definition starved :: "rule \<Rightarrow> (constraint \<Rightarrow> truth) \<Rightarrow> bool" where
  "starved rl v \<longleftrightarrow>
     any_true Lacks v (r_incompatible_with rl @ r_required rl) \<or>
     r_kind rl = RK_Conditional \<and> all_hold v (r_required rl) \<and> alternatives_met rl v \<and>
     any_true Lacks v (r_conditions rl)"

definition decides :: "outcome option \<Rightarrow> bool" where
  "decides x \<longleftrightarrow> x \<noteq> None \<and> x \<noteq> Some Unknown"

text \<open>The outcome of a pair: the first rule that decides, in the order of the candidates.\<close>

definition resolution :: "rule list \<Rightarrow> (constraint \<Rightarrow> truth) \<Rightarrow> outcome" where
  "resolution rls v =
     (case find (\<lambda>rl. decides (verdict_of rl v)) rls of
        Some rl \<Rightarrow> the (verdict_of rl v)
      | None \<Rightarrow> if list_ex (\<lambda>rl. starved rl v) rls then Insufficient_Evidence else Unknown)"

section \<open>The loops find what the table asks for\<close>

text \<open>A clause is settled when it is known to lack a field, or its check returns.\<close>

definition settled :: "profile_record \<Rightarrow> profile_record \<Rightarrow> constraint \<Rightarrow> bool" where
  "settled l r c \<longleftrightarrow> constraint_known c l r \<longrightarrow> \<not> isl (check c l r)"

definition clauses :: "rule \<Rightarrow> constraint set" where
  "clauses rl = set (r_incompatible_with rl) \<union> set (r_required rl) \<union> set (r_any_of rl) \<union> set (r_conditions rl)"

lemma truth_simps:
  "truth_of l r c = Holds \<longleftrightarrow> met c l r" "truth_of l r c = Lacks \<longleftrightarrow> \<not> constraint_known c l r"
  by (auto simp: truth_of_def met_def)

lemma any_true_simps [simp]:
  "any_true t v [] = False" "any_true t v (c # cs) \<longleftrightarrow> v c = t \<or> any_true t v cs"
  "any_true t v (cs @ cs') \<longleftrightarrow> any_true t v cs \<or> any_true t v cs'"
  "all_hold v []" "all_hold v (c # cs) \<longleftrightarrow> v c = Holds \<and> all_hold v cs"
  by (auto simp: any_true_def all_hold_def)

lemma missing_flag [simp]:
  "e_missing (missing c e)" "e_missing (satisfied c y n e) = e_missing e" "e_missing (failed c y n w e) = e_missing e"
  by (simp_all add: missing_def satisfied_def failed_def)

lemma settled_cases:
  assumes "settled l r c"
  obtains (lacks) "\<not> constraint_known c l r" "truth_of l r c = Lacks"
    | (holds) y n where "constraint_known c l r" "check c l r = Inr (True, y, n)" "truth_of l r c = Holds"
    | (fails) y n where "constraint_known c l r" "check c l r = Inr (False, y, n)" "truth_of l r c = Fails"
proof (cases "constraint_known c l r")
  case True
  then obtain ok y n where c: "check c l r = Inr (ok, y, n)"
    using assms by (cases "check c l r") (auto simp: settled_def)
  show thesis
  proof (cases ok)
    case True
    then show thesis
      using \<open>constraint_known c l r\<close> c by (intro holds) (auto simp: truth_of_def met_def)
  next
    case False
    then show thesis
      using \<open>constraint_known c l r\<close> c by (intro fails) (auto simp: truth_of_def met_def)
  qed
next
  case False
  then show thesis
    by (intro lacks) (simp_all add: truth_of_def)
qed

lemma incompatible_loop_table:
  "\<forall>c \<in> set cs. settled l r c \<Longrightarrow> \<exists>e'. incompatible_loop l r cs e = Inr (any_true Holds (truth_of l r) cs, e') \<and>
    (if any_true Holds (truth_of l r) cs then e_definite e' \<and> e_outcome e' = Incompatible
     else e_definite e' = e_definite e \<and> (e_missing e' \<longleftrightarrow> e_missing e \<or> any_true Lacks (truth_of l r) cs))"
proof (induction cs arbitrary: e)
  case (Cons c cs)
  then have IH: "\<exists>e'. incompatible_loop l r cs e1 = Inr (any_true Holds (truth_of l r) cs, e') \<and>
    (if any_true Holds (truth_of l r) cs then e_definite e' \<and> e_outcome e' = Incompatible
     else e_definite e' = e_definite e1 \<and> (e_missing e' \<longleftrightarrow> e_missing e1 \<or> any_true Lacks (truth_of l r) cs))" for e1
    by simp
  have "settled l r c"
    using Cons.prems by simp
  then show ?case
  proof (cases rule: settled_cases)
    case lacks
    then show ?thesis
      using IH [of "missing c e"] by (cases "any_true Holds (truth_of l r) cs") auto
  next
    case (holds y n)
    then show ?thesis
      by simp
  next
    case (fails y n)
    then show ?thesis
      using IH [of "satisfied c y n e"] by (cases "any_true Holds (truth_of l r) cs") auto
  qed
qed simp

lemma required_loop_table:
  "\<forall>c \<in> set cs. settled l r c \<Longrightarrow> \<exists>e'. required_loop l r cs e all = Inr (all \<and> all_hold (truth_of l r) cs, e') \<and>
    e_definite e' = e_definite e \<and> (e_missing e' \<longleftrightarrow> e_missing e \<or> any_true Lacks (truth_of l r) cs)"
proof (induction cs arbitrary: e all)
  case (Cons c cs)
  then have IH: "\<exists>e'. required_loop l r cs e1 b = Inr (b \<and> all_hold (truth_of l r) cs, e') \<and>
    e_definite e' = e_definite e1 \<and> (e_missing e' \<longleftrightarrow> e_missing e1 \<or> any_true Lacks (truth_of l r) cs)" for e1 b
    by simp
  have "settled l r c"
    using Cons.prems by simp
  then show ?case
  proof (cases rule: settled_cases)
    case lacks
    then show ?thesis
      using IH [of "failed c [] [] ''missing evidence'' (missing c e)" False] by simp
  next
    case (holds y n)
    then show ?thesis
      using IH [of "satisfied c y n e" all] by simp
  next
    case (fails y n)
    then show ?thesis
      using IH [of "failed c y n n e" False] by simp
  qed
qed simp

lemma any_of_loop_table:
  "\<forall>c \<in> set cs. settled l r c \<Longrightarrow> \<exists>m' e'. any_of_loop l r cs e m = Inr (any_true Holds (truth_of l r) cs, m', e') \<and>
    e_definite e' = e_definite e \<and> e_missing e' = e_missing e \<and>
    (any_true Holds (truth_of l r) cs \<or> m' = (m \<or> any_true Lacks (truth_of l r) cs))"
proof (induction cs arbitrary: e m)
  case (Cons c cs)
  then have IH: "\<exists>m' e'. any_of_loop l r cs e1 b = Inr (any_true Holds (truth_of l r) cs, m', e') \<and>
    e_definite e' = e_definite e1 \<and> e_missing e' = e_missing e1 \<and>
    (any_true Holds (truth_of l r) cs \<or> m' = (b \<or> any_true Lacks (truth_of l r) cs))" for e1 b
    by simp
  have "settled l r c"
    using Cons.prems by simp
  then show ?case
  proof (cases rule: settled_cases)
    case lacks
    then show ?thesis
      using IH [of e True] by simp
  next
    case (holds y n)
    then show ?thesis
      by simp
  next
    case (fails y n)
    then show ?thesis
      using IH [of "failed c y n n e" m] by simp
  qed
qed simp

lemma conditions_loop_table:
  "\<forall>c \<in> set cs. settled l r c \<Longrightarrow> \<exists>e'. conditions_loop l r cs e cond = Inr (cond \<and> all_hold (truth_of l r) cs, e') \<and>
    (e_missing e' \<longleftrightarrow> e_missing e \<or> any_true Lacks (truth_of l r) cs)"
proof (induction cs arbitrary: e cond)
  case (Cons c cs)
  then have IH: "\<exists>e'. conditions_loop l r cs e1 b = Inr (b \<and> all_hold (truth_of l r) cs, e') \<and>
    (e_missing e' \<longleftrightarrow> e_missing e1 \<or> any_true Lacks (truth_of l r) cs)" for e1 b
    by simp
  have "settled l r c"
    using Cons.prems by simp
  then show ?case
  proof (cases rule: settled_cases)
    case lacks
    then show ?thesis
      using IH [of "missing c e" False] by simp
  next
    case (holds y n)
    then show ?thesis
      using IH [of e cond] by simp
  next
    case (fails y n)
    then show ?thesis
      using IH [of "failed c y n n e" False] by simp
  qed
qed simp

section \<open>One rule\<close>

definition agrees :: "rule \<Rightarrow> profile_record \<Rightarrow> profile_record \<Rightarrow> rule_eval \<Rightarrow> bool" where
  "agrees rl l r e \<longleftrightarrow>
     (if e_definite e then verdict_of rl (truth_of l r) = Some (e_outcome e) else verdict_of rl (truth_of l r) = None) \<and>
     (counts e \<or> (e_missing e \<longleftrightarrow> starved rl (truth_of l r)))"

lemma kind_result_table:
  assumes "\<forall>c \<in> set (r_conditions rl). settled l r c"
  shows "\<exists>e'. kind_result rl l r e = Inr e' \<and> e_definite e' \<and> e_outcome e' = kind_outcome rl (truth_of l r) \<and>
    (e_missing e' \<longleftrightarrow> e_missing e \<or> r_kind rl = RK_Conditional \<and> any_true Lacks (truth_of l r) (r_conditions rl))"
proof (cases "r_kind rl = RK_Conditional")
  case True
  obtain e1 where "conditions_loop l r (r_conditions rl) e True = Inr (all_hold (truth_of l r) (r_conditions rl), e1)"
    "e_missing e1 \<longleftrightarrow> e_missing e \<or> any_true Lacks (truth_of l r) (r_conditions rl)"
    using conditions_loop_table [OF assms, of e True] by auto
  with True show ?thesis
    by (simp add: kind_result_def kind_outcome_def)
qed (simp add: kind_result_def kind_outcome_def split: rule_kind.split)

lemma any_of_result_table:
  assumes "\<forall>c \<in> clauses rl. settled l r c"
  shows "\<exists>e'. any_of_result rl l r e = Inr e' \<and>
    (if alternatives_met rl (truth_of l r)
     then e_definite e' \<and> e_outcome e' = kind_outcome rl (truth_of l r) \<and>
       (e_missing e' \<longleftrightarrow> e_missing e \<or> r_kind rl = RK_Conditional \<and> any_true Lacks (truth_of l r) (r_conditions rl))
     else if any_true Lacks (truth_of l r) (r_any_of rl) then e_definite e' \<and> e_outcome e' = Insufficient_Evidence
     else \<not> e_definite e' \<and> e_missing e' = e_missing e)"
proof -
  have cond: "\<forall>c \<in> set (r_conditions rl). settled l r c" and any: "\<forall>c \<in> set (r_any_of rl). settled l r c"
    using assms by (simp_all add: clauses_def)
  show ?thesis
  proof (cases "r_any_of rl = []")
    case True
    then show ?thesis
      using kind_result_table [OF cond, of e] by (simp add: any_of_result_def alternatives_met_def)
  next
    case False
    obtain m' e1 where e1: "any_of_loop l r (r_any_of rl) e False =
        Inr (any_true Holds (truth_of l r) (r_any_of rl), m', e1)" "e_missing e1 = e_missing e"
        "any_true Holds (truth_of l r) (r_any_of rl) \<or> m' = any_true Lacks (truth_of l r) (r_any_of rl)"
      using any_of_loop_table [OF any, of e False] by auto
    show ?thesis
    proof (cases "any_true Holds (truth_of l r) (r_any_of rl)")
      case True
      then show ?thesis
        using kind_result_table [OF cond, of e1] e1 False by (simp add: any_of_result_def alternatives_met_def)
    next
      case none: False
      then show ?thesis
        using e1 False by (simp add: any_of_result_def alternatives_met_def)
    qed
  qed
qed

lemma eval_rule_table:
  assumes "\<forall>c \<in> clauses rl. settled l r c"
  shows "\<exists>e. eval_rule rl l r = Inr e \<and> agrees rl l r e"
proof -
  let ?v = "truth_of l r"
  have inc: "\<forall>c \<in> set (r_incompatible_with rl). settled l r c" and req: "\<forall>c \<in> set (r_required rl). settled l r c"
    using assms by (simp_all add: clauses_def)
  have start: "\<not> e_definite (start_eval rl)" "\<not> e_missing (start_eval rl)"
    by (simp_all add: start_eval_def)
  obtain e1 where e1: "incompatible_loop l r (r_incompatible_with rl) (start_eval rl) =
      Inr (any_true Holds ?v (r_incompatible_with rl), e1)"
    "if any_true Holds ?v (r_incompatible_with rl) then e_definite e1 \<and> e_outcome e1 = Incompatible
     else \<not> e_definite e1 \<and> (e_missing e1 \<longleftrightarrow> any_true Lacks ?v (r_incompatible_with rl))"
    using incompatible_loop_table [OF inc, of "start_eval rl"] start by auto
  show ?thesis
  proof (cases "any_true Holds ?v (r_incompatible_with rl)")
    case True
    then show ?thesis
      using e1 by (simp add: eval_rule_def agrees_def verdict_of_def counts_def)
  next
    case compatible: False
    obtain e2 where e2: "required_loop l r (r_required rl) e1 True = Inr (all_hold ?v (r_required rl), e2)"
      "\<not> e_definite e2" "e_missing e2 \<longleftrightarrow> any_true Lacks ?v (r_incompatible_with rl @ r_required rl)"
      using required_loop_table [OF req, of e1 True] e1(2) compatible by auto
    show ?thesis
    proof (cases "all_hold ?v (r_required rl)")
      case False
      then show ?thesis
        using e1(1) e2 compatible by (simp add: eval_rule_def agrees_def verdict_of_def counts_def starved_def)
    next
      case True
      then have "eval_rule rl l r = any_of_result rl l r e2"
        using e1(1) e2(1) compatible by (simp add: eval_rule_def)
      then show ?thesis
        using any_of_result_table [OF assms, of e2] e2(3) compatible True
        by (auto simp: agrees_def verdict_of_def counts_def starved_def split: if_splits)
    qed
  qed
qed

lemma agrees_decides:
  assumes "agrees rl l r e"
  shows "counts e \<longleftrightarrow> decides (verdict_of rl (truth_of l r))"
    and "counts e \<Longrightarrow> verdict_of rl (truth_of l r) = Some (e_outcome e)"
    and "\<not> counts e \<Longrightarrow> e_missing e \<longleftrightarrow> starved rl (truth_of l r)"
  using assms by (auto simp: agrees_def counts_def decides_def split: if_splits)

section \<open>The pair\<close>

definition named :: "outcome \<Rightarrow> bool" where
  "named x \<longleftrightarrow> (case x of Outcome_Raw _ \<Rightarrow> False | _ \<Rightarrow> True)"

lemma named_outcome: "named x \<Longrightarrow> \<exists>name. outcome_name x = Inr name"
  by (cases x) (simp_all add: named_def)

lemma verdict_named: "named (r_outcome rl) \<Longrightarrow> verdict_of rl v = Some x \<Longrightarrow> named x"
  by (auto simp: verdict_of_def kind_outcome_def named_def split: if_splits rule_kind.splits)

lemma conflict_loop_total:
  "\<forall>e \<in> set es. named (e_outcome e) \<Longrightarrow> \<exists>d'. conflict_loop best es d = Inr d'"
proof (induction es arbitrary: d)
  case (Cons e es)
  then show ?case
    using named_outcome [of "e_outcome e"] by auto
qed simp

lemma decide_total:
  "\<forall>e \<in> set evals. counts e \<longrightarrow> named (e_outcome e) \<Longrightarrow> \<exists>d'. decide cand evals d = Inr d'"
proof (cases "filter counts evals")
  case (Cons best others)
  assume "\<forall>e \<in> set evals. counts e \<longrightarrow> named (e_outcome e)"
  moreover have "set others \<subseteq> set (filter counts evals)"
    using Cons by auto
  ultimately have "\<forall>e \<in> set others. named (e_outcome e)"
    by auto
  then show ?thesis
    using Cons conflict_loop_total by (simp add: decide_def)
qed (simp add: decide_def Let_def)

lemma find_list_all2:
  assumes "list_all2 (\<lambda>x y. P x \<longleftrightarrow> Q y) xs ys"
  shows "case find P xs of
      None \<Rightarrow> filter Q ys = []
    | Some x \<Rightarrow> \<exists>y ys'. filter Q ys = y # ys' \<and> (x, y) \<in> set (zip xs ys)"
  using assms by (induction rule: list_all2_induct) (auto split: option.splits)

lemma decide_resolution:
  assumes "decide cand evals d = Inr d'" and "list_all2 (\<lambda>rl e. agrees rl l r e) cand evals"
  shows "d_outcome d' = resolution cand (truth_of l r)"
proof -
  have counts: "list_all2 (\<lambda>rl e. decides (verdict_of rl (truth_of l r)) \<longleftrightarrow> counts e) cand evals"
    using assms(2) by (rule list_all2_mono) (simp add: agrees_decides)
  show ?thesis
  proof (cases "find (\<lambda>rl. decides (verdict_of rl (truth_of l r))) cand")
    case None
    then have none: "filter counts evals = []"
      using find_list_all2 [OF counts] by simp
    have "list_all2 (\<lambda>rl e. starved rl (truth_of l r) \<longleftrightarrow> e_missing e) cand evals"
      using assms(2) by (rule list.rel_mono_strong) (use none in \<open>auto simp: filter_empty_conv dest: agrees_decides(3)\<close>)
    then have "list_ex (\<lambda>rl. starved rl (truth_of l r)) cand \<longleftrightarrow> list_ex e_missing evals"
      by (induction rule: list_all2_induct) auto
    then show ?thesis
      using decide_result [OF assms(1)] none None by (simp add: resolution_def)
  next
    case (Some rl)
    then obtain best others where best: "filter counts evals = best # others" "(rl, best) \<in> set (zip cand evals)"
      using find_list_all2 [OF counts] by auto
    then have "agrees rl l r best" "counts best"
      using assms(2) by (auto simp: list_all2_iff) (metis filter_eq_ConsD)
    then show ?thesis
      using decide_result [OF assms(1)] best(1) Some agrees_decides(2) by (simp add: resolution_def)
  qed
qed

lemma resolution_named:
  assumes "\<forall>rl \<in> set rls. named (r_outcome rl)"
  shows "named (resolution rls v)"
proof (cases "find (\<lambda>rl. decides (verdict_of rl v)) rls")
  case None
  then show ?thesis
    by (simp add: resolution_def named_def)
next
  case (Some rl)
  then have "rl \<in> set rls" "decides (verdict_of rl v)"
    by (auto simp: find_Some_iff)
  then show ?thesis
    using Some assms verdict_named by (auto simp: resolution_def decides_def)
qed

lemma evaluate_locked_table:
  assumes "current left R = Some l" and "current right R = Some r" and "p_fingerprint l \<noteq> p_fingerprint r"
    and "\<forall>rl \<in> set (candidates (scope_of requirement) l r R). named (r_outcome rl) \<and> (\<forall>c \<in> clauses rl. settled l r c)"
  shows "\<exists>d. evaluate_locked left right requirement R = Inr d \<and>
    d_outcome d = resolution (candidates (scope_of requirement) l r R) (truth_of l r)"
proof -
  let ?cand = "candidates (scope_of requirement) l r R"
  let ?d = "empty_decision\<lparr>d_left := p_id l, d_right := p_id r, d_policy_id := policy_id R,
      d_registry_generation := registry_gen R, d_provenance := [''deterministic rule resolution'']\<rparr>"
  have each: "\<exists>e. eval_rule rl l r = Inr e \<and> agrees rl l r e" if "rl \<in> set ?cand" for rl
    using assms(4) that by (intro eval_rule_table) blast
  have returns: "eval_rule rl l r = Inr (projr (eval_rule rl l r)) \<and> agrees rl l r (projr (eval_rule rl l r))"
    if "rl \<in> set ?cand" for rl
    using each [OF that] by auto
  define evals where "evals = map (\<lambda>rl. projr (eval_rule rl l r)) ?cand"
  have evals: "mapE (\<lambda>rl. eval_rule rl l r) ?cand = Inr evals"
    unfolding mapE_eq_Inr evals_def list.rel_map list_all2_same using returns by blast
  have agree: "list_all2 (\<lambda>rl e. agrees rl l r e) ?cand evals"
    unfolding evals_def list.rel_map list_all2_same using returns by blast
  have "named (e_outcome (projr (eval_rule rl l r)))" if "rl \<in> set ?cand" "counts (projr (eval_rule rl l r))" for rl
    using assms(4) that(1) agrees_decides(2) [OF returns [OF that(1), THEN conjunct2] that(2)] verdict_named by blast
  then have "\<forall>e \<in> set evals. counts e \<longrightarrow> named (e_outcome e)"
    unfolding evals_def by (simp only: set_map ball_simps) blast
  then obtain d1 where d1: "decide ?cand evals ?d = Inr d1"
    using decide_total by blast
  have out: "d_outcome d1 = resolution ?cand (truth_of l r)"
    using decide_resolution [OF d1 agree] .
  have "named (d_outcome d1)"
    using assms(4) unfolding out by (intro resolution_named) blast
  then obtain name where "outcome_name (d_outcome d1) = Inr name"
    using named_outcome by blast
  then show ?thesis
    using assms(1-3) evals d1 out
    by (simp add: evaluate_locked_def Let_def empty_decision_def decision_identity_def mk_record_tags_ok
        canonical_fingerprint_def canonical_encode_enc with_digest_def compute_digest_canon explain_text_def)
qed

section \<open>Properties\<close>

text \<open>
  Property C2. The evaluator against its table: for two active profiles with different fingerprints, if
  no clause of an applicable rule raises an exception and the rules' outcomes are enumerators, a
  decision is returned, and its outcome is that of the first applicable rule, in the order of
  priorities, which the table lets decide; the table reads only which clauses hold, fail or lack a
  field. No rule deciding, it is Insufficient_Evidence if one lacked a field, else Unknown.
\<close>

theorem evaluation_table:
  assumes "current left R = Some l" and "current right R = Some r" and "p_fingerprint l \<noteq> p_fingerprint r"
    and "\<forall>rl \<in> set (candidates (scope_of requirement) l r R). named (r_outcome rl) \<and> (\<forall>c \<in> clauses rl. settled l r c)"
  shows "\<exists>d. evaluate_locked left right requirement R = Inr d \<and>
    d_outcome d = resolution (candidates (scope_of requirement) l r R) (truth_of l r)"
  using assms by (rule evaluate_locked_table)

theorem evaluation_table_witness:
  "\<exists>d. evaluate_locked (Uuid 1) (Uuid 2) False (pair_registry pair_rules) = Inr d \<and>
    d_outcome d = resolution [(example_rule 1)\<lparr>r_rule_id := Uuid 8\<rparr>, example_rule 1] (truth_of pair_left pair_right)"
proof -
  have cand: "candidates (scope_of False) pair_left pair_right (pair_registry pair_rules) =
      [(example_rule 1)\<lparr>r_rule_id := Uuid 8\<rparr>, example_rule 1]"
    by (simp add: candidates_def applicable_def kind_matches_def pair_registry_simps pair_rules_def
        rule_less_def example_rule_def less_uuid_def)
  have "\<forall>rl \<in> set (candidates (scope_of False) pair_left pair_right (pair_registry pair_rules)).
      named (r_outcome rl) \<and> (\<forall>c \<in> clauses rl. settled pair_left pair_right c)"
    unfolding cand by (simp add: example_rule_def named_def clauses_def)
  from evaluation_table [OF pair_current pair_fingerprints this] show ?thesis
    unfolding cand .
qed

text \<open>
  Neither the order nor the repetition of clauses matters: two rules of the same kind
  and outcome whose four clause lists have the same members decide alike wherever both are evaluated.
\<close>

theorem clause_order_irrelevant:
  assumes "set (r_incompatible_with a) = set (r_incompatible_with b)" and "set (r_required a) = set (r_required b)"
    and "set (r_any_of a) = set (r_any_of b)" and "set (r_conditions a) = set (r_conditions b)"
    and "r_kind a = r_kind b" and "r_outcome a = r_outcome b" and "\<forall>c \<in> clauses a. settled l r c"
  shows "\<exists>e f. eval_rule a l r = Inr e \<and> eval_rule b l r = Inr f \<and> e_definite e = e_definite f \<and>
    (\<not> e_definite e \<or> e_outcome e = e_outcome f)"
proof -
  have "clauses b = clauses a"
    using assms(1-4) by (simp add: clauses_def)
  then obtain e f where "eval_rule a l r = Inr e" "eval_rule b l r = Inr f" "agrees a l r e" "agrees b l r f"
    using eval_rule_table [of a l r] eval_rule_table [of b l r] assms(7) by auto
  moreover have "r_any_of a = [] \<longleftrightarrow> r_any_of b = []"
    using assms(3) by (cases "r_any_of a"; cases "r_any_of b") auto
  then have "verdict_of a v = verdict_of b v" for v
    unfolding verdict_of_def any_true_def all_hold_def alternatives_met_def kind_outcome_def set_append assms(1-6)
    by simp
  ultimately show ?thesis
    by (auto simp: agrees_def split: if_splits)
qed

theorem clause_order_irrelevant_witness:
  "let c = version_constraint\<lparr>c_op := P_Truthy\<rparr>; c' = version_constraint\<lparr>c_op := P_Feature_Req\<rparr>;
       a = (example_rule 1)\<lparr>r_required := [c, c']\<rparr>; b = (example_rule 2)\<lparr>r_required := [c', c, c']\<rparr>
   in \<exists>e f. eval_rule a pair_left pair_right = Inr e \<and> eval_rule b pair_left pair_right = Inr f \<and>
     (\<not> e_definite e \<or> e_outcome e = e_outcome f)"
proof -
  let ?c = "version_constraint\<lparr>c_op := P_Truthy\<rparr>" and ?c' = "version_constraint\<lparr>c_op := P_Feature_Req\<rparr>"
  let ?a = "(example_rule 1)\<lparr>r_required := [?c, ?c']\<rparr>" and ?b = "(example_rule 2)\<lparr>r_required := [?c', ?c, ?c']\<rparr>"
  have "settled pair_left pair_right ?c" "settled pair_left pair_right ?c'"
    by (simp_all add: settled_def check_def evaluate_def)
  then have "\<forall>c \<in> clauses ?a. settled pair_left pair_right c"
    by (simp add: clauses_def example_rule_def)
  then show ?thesis
    using clause_order_irrelevant [of ?a ?b pair_left pair_right] by (auto simp: example_rule_def Let_def)
qed

end
