(* ===== verification/View.thy ===== *)
theory View
  imports Machine
begin

text \<open>
  What of a registry can ever be observed. A \<open>view\<close> keeps the current payload of each profile, the rules,
  the dependencies, the policy and two counters, and forgets histories, the decision cache, evidence,
  invalidations, provenance and generation numbers of profiles. Every operation of
  \<^verbatim>\<open>CompatibilityRegistry\<close> that changes or evaluates it, and every read that a view determines, is
  specified on views and shown to implement its specification (\<open>reg_op\<close> lists these calls); so two
  registries with the same view answer every later sequence of them alike. The remaining reads report
  what a view forgets: \<^verbatim>\<open>history_of\<close>, \<^verbatim>\<open>find_profile\<close> with history, \<^verbatim>\<open>find_evidence\<close>, \<^verbatim>\<open>find_decision\<close>,
  \<^verbatim>\<open>replay_decision\<close>, \<^verbatim>\<open>stats\<close>, \<^verbatim>\<open>snapshot\<close> and \<^verbatim>\<open>save\<close>. They are no \<open>reg_op\<close>, and they do tell
  registries with the same view apart.
\<close>

section \<open>Views\<close>

type_synonym entry = "profile_kind \<times> canon \<times> uuid list"

record view =
  v_known :: "uuid set"
  v_entry :: "uuid \<rightharpoonup> entry"
  v_rules :: "uuid \<rightharpoonup> rule \<times> bool"
  v_depends :: "uuid \<Rightarrow> uuid list"
  v_policy :: uuid
  v_generation :: u64
  v_next_rule :: u64

definition entry_of :: "profile_record \<Rightarrow> entry" where
  "entry_of p = (p_kind p, p_payload p, p_deps p)"

definition view :: "registry \<Rightarrow> view" where
  "view R = \<lparr>v_known = dom (map_of (profiles R)), v_entry = (\<lambda>u. map_option entry_of (current u R)),
     v_rules = (\<lambda>u. map_option (\<lambda>rr. (rr_rule rr, rr_active rr)) (map_of (rules R) u)),
     v_depends = dependencies_of (graph R), v_policy = policy_id R, v_generation = registry_gen R,
     v_next_rule = rule_gen R\<rparr>"

section \<open>The specification of the operations\<close>

definition v_edges :: "view \<Rightarrow> (uuid \<times> uuid) set" where
  "v_edges V = {(x, y). y \<in> set (v_depends V x)}"

definition v_cyclic :: "uuid \<Rightarrow> uuid list \<Rightarrow> view \<Rightarrow> bool" where
  "v_cyclic u ds V \<longleftrightarrow> (\<exists>x. (x, x) \<in> (v_edges V \<union> {(u, d) | d. d \<in> set ds \<and> d \<noteq> u})\<^sup>+)"

abbreviation v_bump :: "view \<Rightarrow> view" where
  "v_bump V \<equiv> V\<lparr>v_generation := v_generation V + 1\<rparr>"

text \<open>A current profile with this fingerprint and these dependencies.\<close>

definition v_same :: "uuid \<Rightarrow> (profile_kind \<Rightarrow> bool) \<Rightarrow> canon \<Rightarrow> uuid list \<Rightarrow> view \<Rightarrow> bool" where
  "v_same u kind_ok c ds V \<longleftrightarrow>
     (case v_entry V u of
        None \<Rightarrow> False
      | Some (kd, c', ds') \<Rightarrow>
          kind_ok kd \<and> canonical_fingerprint_hex c' = canonical_fingerprint_hex c \<and> ds' = ds)"

definition v_publish :: "uuid \<Rightarrow> entry option \<Rightarrow> uuid list \<Rightarrow> view \<Rightarrow> view" where
  "v_publish u e ds V = v_bump (V\<lparr>v_known := insert u (v_known V), v_entry := (v_entry V)(u := e),
     v_depends := (v_depends V)(u := filter (\<lambda>d. d \<noteq> u) ds)\<rparr>)"

definition v_register :: "bool \<Rightarrow> profile_kind \<Rightarrow> uuid \<Rightarrow> canon \<Rightarrow> uuid list \<Rightarrow> view \<Rightarrow> uuid res \<times> view" where
  "v_register active kd u c ds V =
     (if v_same u (\<lambda>kd'. kd' = kd) c ds V then (Inr u, V)
      else if v_cyclic u ds V then
        (Inl (Runtime_Error (''register_profile: dependency cycle rejected for '' @ uuid_to_string u)),
         V\<lparr>v_entry := (v_entry V)(u := None)\<rparr>)
      else (Inr u, v_publish u (if active then Some (kd, c, ds) else None) ds V))"

definition v_supersede :: "profile_kind \<Rightarrow> uuid \<Rightarrow> canon \<Rightarrow> uuid list \<Rightarrow> view \<Rightarrow> uuid res \<times> view" where
  "v_supersede kd u c ds V =
     (if u \<notin> v_known V then (Inl (Runtime_Error (''supersede_profile: unknown profile '' @ uuid_to_string u)), V)
      else if v_same u (\<lambda>_. True) c ds V then (Inr u, V)
      else
        let V1 = V\<lparr>v_entry := (v_entry V)(u := None), v_depends := (v_depends V)(u := [])\<rparr>
        in if v_cyclic u ds V1 then
          (Inl (Runtime_Error (''supersede_profile: dependency cycle rejected for '' @ uuid_to_string u)), V1)
        else (Inr u, v_publish u (Some (kd, c, ds)) ds V1))"

definition v_withdraw :: "uuid set \<Rightarrow> view \<Rightarrow> view" where
  "v_withdraw A V = v_bump (V\<lparr>v_entry := v_entry V |` (- A)\<rparr>)"

definition v_invalidate :: "uuid \<Rightarrow> view \<Rightarrow> bool \<times> view" where
  "v_invalidate u V = (if u \<in> v_known V then (True, v_withdraw {u} V) else (False, V))"

definition v_propagate :: "uuid \<Rightarrow> view \<Rightarrow> view" where
  "v_propagate u V = v_withdraw {x. (x, u) \<in> (v_edges V)\<^sup>*} V"

definition v_register_rule :: "rule \<Rightarrow> view \<Rightarrow> uuid \<times> view" where
  "v_register_rule r V =
     (let (gen, counter) =
        (if r_generation r \<noteq> 0 then (r_generation r, v_next_rule V)
         else case v_rules V (r_rule_id r) of
           Some (old, True) \<Rightarrow> (r_generation old + 1, v_next_rule V)
         | _ \<Rightarrow> (v_next_rule V + 1, v_next_rule V + 1))
      in (r_rule_id r, v_bump (V\<lparr>v_rules := (v_rules V)(r_rule_id r \<mapsto> (r\<lparr>r_generation := gen\<rparr>, True)),
        v_next_rule := counter\<rparr>)))"

definition v_supersede_rule :: "uuid \<Rightarrow> rule \<Rightarrow> view \<Rightarrow> bool \<times> view" where
  "v_supersede_rule u r V =
     (case v_rules V u of
        None \<Rightarrow> (False, V)
      | Some (old, _) \<Rightarrow> (True, v_bump (V\<lparr>v_rules := (v_rules V)
          (u \<mapsto> (r\<lparr>r_rule_id := u, r_generation := r_generation old + 1\<rparr>, True))\<rparr>)))"

definition v_disable_rule :: "uuid \<Rightarrow> view \<Rightarrow> bool \<times> view" where
  "v_disable_rule u V =
     (case v_rules V u of
        None \<Rightarrow> (False, V)
      | Some (r, _) \<Rightarrow> (True, v_bump (V\<lparr>v_rules := (v_rules V)(u \<mapsto> (r, False))\<rparr>)))"

section \<open>The operations meet it\<close>

lemma current_last:
  assumes "registry_ok R"
  shows "current u R = (case map_of (profiles R) u of
    None \<Rightarrow> None | Some hist \<Rightarrow> if p_active (last hist) then Some (last hist) else None)"
proof (cases "map_of (profiles R) u")
  case (Some hist)
  then have "history_ok u hist"
    using assms profiles_okD by (auto simp: registry_ok_def)
  then have ne: "hist \<noteq> []" and old: "\<forall>p \<in> set (butlast hist). \<not> p_active p"
    by (simp_all add: history_ok_def)
  obtain h p where "hist = h @ [p]"
    using ne by (cases hist rule: rev_cases) auto
  with old Some show ?thesis
    by (auto simp: current_def newest_active_def find_None_iff)
qed (simp add: current_def)

lemma current_update [simp]:
  "current u (R\<lparr>profiles := AList.update v h (profiles R)\<rparr>) = (if u = v then newest_active h else current u R)"
  by (simp add: current_def)

lemma newest_active_append [simp]:
  "newest_active (map supersede_active h @ [p]) = (if p_active p then Some p else None)"
  "newest_active (map supersede_active h) = None" "newest_active (map deactivate h) = None"
  by (auto simp: newest_active_def find_None_iff)

lemma v_edges_view: "v_edges (view R) = edges (deps (graph R))"
  by (simp add: v_edges_def view_def edges_def dependencies_of_def)

lemma v_cyclic_view: "v_cyclic u ds (view R) = create_cycle u ds (graph R)"
  by (simp add: v_cyclic_def v_edges_view create_cycle_edges)

lemma v_same_view:
  assumes "registry_ok R" and "canonical_fingerprint_hex c = Inr fp"
  shows "v_same u kind_ok c ds (view R) \<longleftrightarrow>
    (\<exists>hist. map_of (profiles R) u = Some hist \<and> p_active (last hist) \<and> p_fingerprint (last hist) = fp \<and>
      p_deps (last hist) = ds \<and> kind_ok (p_kind (last hist)))"
proof (cases "map_of (profiles R) u")
  case None
  then show ?thesis
    using assms(1) by (simp add: v_same_def view_def current_last)
next
  case (Some hist)
  then have "history_ok u hist"
    using assms(1) profiles_okD by (auto simp: registry_ok_def)
  then have "canonical_fingerprint_hex (p_payload (last hist)) = Inr (p_fingerprint (last hist))"
    by (simp add: history_ok_def)
  then show ?thesis
    using Some assms by (auto simp: v_same_def view_def current_last entry_of_def)
qed

lemma depends_updated [simp]:
  "dependencies_of (add_dependency u ds G) = (dependencies_of G)(u := filter (\<lambda>d. d \<noteq> u) ds)"
  "dependencies_of (remove_dependency u G) = (dependencies_of G)(u := [])"
  by (auto simp: dependencies_of_def adjacent_add_dependency adjacent_remove_dependency)

lemma view_published:
  assumes "dependencies_of G = (v_depends (view R))(u := filter (\<lambda>d. d \<noteq> u) ds)"
    and "map_option entry_of (newest_active h) = e"
  shows "view (R\<lparr>profiles := AList.update u h (profiles R), graph := G, registry_gen := registry_gen R + 1\<rparr>) =
    v_publish u e ds (view R)"
  using assms by (auto simp: view_def v_publish_def current_def)

lemma view_lost:
  "map_of (profiles R) u = Some hist \<Longrightarrow>
     view (R\<lparr>profiles := AList.update u (map supersede_active hist) (profiles R)\<rparr>) =
       (view R)\<lparr>v_entry := (v_entry (view R))(u := None)\<rparr>"
  by (auto simp: view_def current_def)

lemma view_depends: "dependencies_of (graph R) = v_depends (view R)"
  by (simp add: view_def)

lemma view_absent: "map_of (profiles R) u = None \<Longrightarrow> (v_entry (view R))(u := None) = v_entry (view R)"
  by (auto simp: view_def current_def)

lemma view_unseen [simp]:
  "view (R\<lparr>evidence := e\<rparr>) = view R" "view (R\<lparr>evidence_gen := g\<rparr>) = view R" "view (R\<lparr>invalidations := is\<rparr>) = view R"
  "view (R\<lparr>decisions := ds\<rparr>) = view R"
  by (simp_all add: view_def current_def)

lemma view_register:
  assumes "registry_ok R" and "canon_ok (p_payload p)"
  shows "map_prod id view (register_profile p R) =
    v_register (p_active p) (p_kind p) (p_id p) (p_payload p) (p_deps p) (view R)"
proof -
  obtain fp where fp: "canonical_fingerprint_hex (p_payload p) = Inr fp"
    using canonical_fingerprint_hex_enc [OF assms(2)] by blast
  note same = v_same_view [OF assms(1) fp, of "p_id p" "\<lambda>kd'. kd' = p_kind p" "p_deps p"]
  show ?thesis
  proof (cases "map_of (profiles R) (p_id p)")
    case None
    then show ?thesis
      using same view_absent [OF None]
      by (auto simp: register_profile_def fp v_register_def v_cyclic_view Let_def push_def entry_of_def newest_active_def
          view_depends intro!: view_published)
  next
    case (Some hist)
    then show ?thesis
      using same view_lost [OF Some]
      by (auto simp: register_profile_def fp v_register_def v_cyclic_view Let_def same_registration_def push_def
          entry_of_def view_depends intro!: view_published)
  qed
qed

lemma view_register_new:
  assumes "registry_ok R" and "canon_ok c"
  shows "map_prod id view (register_new_profile u kd c ds prov R) = v_register True kd u c ds (view R)"
  using canonical_fingerprint_hex_enc [OF assms(2)] assms(2) view_register [OF assms(1)]
  by (auto simp: register_new_profile_def new_profile_def)

lemma view_supersede:
  assumes "registry_ok R" and "canon_ok c"
  shows "map_prod id view (supersede_profile kd u c ds prov R) = v_supersede kd u c ds (view R)"
proof -
  obtain fp where fp: "canonical_fingerprint_hex c = Inr fp"
    using canonical_fingerprint_hex_enc [OF assms(2)] by blast
  note same = v_same_view [OF assms(1) fp, of u "\<lambda>_. True" ds]
  show ?thesis
  proof (cases "map_of (profiles R) u")
    case None
    then have "u \<notin> v_known (view R)"
      by (simp add: view_def domIff)
    with None show ?thesis
      by (simp add: supersede_profile_def v_supersede_def)
  next
    case (Some hist)
    let ?R1 = "R\<lparr>profiles := AList.update u (map supersede_active hist) (profiles R), graph := remove_dependency u (graph R)\<rparr>"
    let ?V1 = "(view R)\<lparr>v_entry := (v_entry (view R))(u := None), v_depends := (v_depends (view R))(u := [])\<rparr>"
    have known: "u \<in> v_known (view R)"
      using Some by (auto simp: view_def)
    have V1: "view ?R1 = ?V1"
      using Some by (auto simp: view_def current_def)
    have "view (?R1\<lparr>profiles := AList.update u (map supersede_active hist @ [p]) (profiles ?R1),
        graph := add_dependency u ds (graph ?R1), registry_gen := registry_gen ?R1 + 1\<rparr>) =
      v_publish u (Some (kd, c, ds)) ds ?V1"
      if "p_active p" "p_kind p = kd" "p_payload p = c" "p_deps p = ds" for p
      using that view_published [of "add_dependency u ds (graph ?R1)" ?R1 u ds "map supersede_active hist @ [p]" "Some (kd, c, ds)"]
      unfolding V1 by (simp add: view_depends entry_of_def)
    then show ?thesis
      using Some same known V1 v_cyclic_view [of u ds ?R1]
      by (simp add: supersede_profile_def fp v_supersede_def Let_def new_profile_def)
  qed
qed

lemma view_invalidate: "map_prod id view (invalidate_profile u why R) = v_invalidate u (view R)"
proof (cases "map_of (profiles R) u")
  case None
  then have "u \<notin> v_known (view R)"
    by (simp add: view_def domIff)
  with None show ?thesis
    by (simp add: invalidate_profile_def v_invalidate_def)
next
  case (Some hist)
  then show ?thesis
    by (auto simp: invalidate_profile_def v_invalidate_def v_withdraw_def view_def current_def restrict_map_def)
qed

lemma propagate_loop_keeps:
  "rules (propagate_loop stack seen R) = rules R \<and> graph (propagate_loop stack seen R) = graph R \<and>
   policy_id (propagate_loop stack seen R) = policy_id R \<and> registry_gen (propagate_loop stack seen R) = registry_gen R \<and>
   rule_gen (propagate_loop stack seen R) = rule_gen R"
proof (induction stack seen R rule: propagate_loop.induct)
  case (2 cur stack seen R)
  have "rules (invalidate_node cur R) = rules R \<and> policy_id (invalidate_node cur R) = policy_id R \<and>
      registry_gen (invalidate_node cur R) = registry_gen R \<and> rule_gen (invalidate_node cur R) = rule_gen R"
    by (simp add: invalidate_node_def split: option.split)
  then show ?case
    using "2.IH" [OF refl refl prod.collapse] by (simp add: Let_def case_prod_beta)
qed simp

lemma view_propagate:
  assumes "registry_ok R"
  shows "view (propagate_invalidation u R) = v_propagate u (view R)"
proof -
  let ?A = "{x. (x, u) \<in> (v_edges (view R))\<^sup>*}"
  have reach: "(u, x) \<in> (edges (reverse (graph R)))\<^sup>* \<longleftrightarrow> x \<in> ?A" for x
    using assms by (simp add: v_edges_view edges_reverse registry_ok_def rtrancl_converse)
  have profs: "map_of (profiles (propagate_invalidation u R)) x =
      (if x \<in> ?A then kill (map_of (profiles R) x) else map_of (profiles R) x)" for x
    by (simp only: propagate_invalidation_profiles reach)
  have "dom (map_of (profiles (propagate_invalidation u R))) = dom (map_of (profiles R))"
    by (auto simp: dom_def profs kill_def)
  moreover have "current x (propagate_invalidation u R) = (if x \<in> ?A then None else current x R)" for x
    unfolding current_def profs by (cases "map_of (profiles R) x") (simp_all add: kill_def)
  moreover have "rules (propagate_invalidation u R) = rules R" "graph (propagate_invalidation u R) = graph R"
    "policy_id (propagate_invalidation u R) = policy_id R" "rule_gen (propagate_invalidation u R) = rule_gen R"
    "registry_gen (propagate_invalidation u R) = registry_gen R + 1"
    using propagate_loop_keeps [of "[u]" "[]" R] by (simp_all add: propagate_invalidation_def del: propagate_loop.simps)
  ultimately show ?thesis
    by (auto simp: v_propagate_def v_withdraw_def view_def restrict_map_def)
qed

lemma view_rules:
  "map_prod id view (register_rule r R) = v_register_rule r (view R)"
  "map_prod id view (supersede_rule u r R) = v_supersede_rule u r (view R)"
  "map_prod id view (disable_rule u R) = v_disable_rule u (view R)"
  by (auto simp: register_rule_def v_register_rule_def supersede_rule_def v_supersede_rule_def disable_rule_def
      v_disable_rule_def view_def current_def Let_def split: option.split)

lemma view_settings:
  "view (register_evidence ev R) = v_bump (view R)"
  "view (set_policy u R) = v_bump ((view R)\<lparr>v_policy := u\<rparr>)"
  "view (remember d R) = view R"
  by (simp_all add: register_evidence_def set_policy_def remember_def view_def current_def)

section \<open>Evaluation sees no more\<close>

definition same_face :: "profile_record \<Rightarrow> profile_record \<Rightarrow> bool" where
  "same_face p q \<longleftrightarrow> p_kind p = p_kind q \<and> p_payload p = p_payload q"

text \<open>The part of a view that evaluation looks at.\<close>

definition sight :: "registry \<Rightarrow> (uuid \<rightharpoonup> entry) \<times> (uuid \<rightharpoonup> rule \<times> bool) \<times> uuid \<times> u64" where
  "sight R = (v_entry (view R), v_rules (view R), v_policy (view R), v_generation (view R))"

lemma check_face:
  assumes "same_face l l'" and "same_face r r'"
  shows "constraint_known c l r = constraint_known c l' r'" and "check c l r = check c l' r'"
  using assms by (simp_all add: same_face_def constraint_known_def check_def)

lemma eval_rule_face:
  assumes "same_face l l'" and "same_face r r'"
  shows "eval_rule rl l r = eval_rule rl l' r'"
proof -
  note face = check_face [OF assms]
  have "incompatible_loop l r cs e = incompatible_loop l' r' cs e" for cs e
    by (induction cs arbitrary: e) (simp_all add: face case_prod_beta' cong: if_cong)
  moreover have "required_loop l r cs e all = required_loop l' r' cs e all" for cs e all
    by (induction cs arbitrary: e all) (simp_all add: face case_prod_beta' cong: if_cong)
  moreover have "any_of_loop l r cs e m = any_of_loop l' r' cs e m" for cs e m
    by (induction cs arbitrary: e m) (simp_all add: face case_prod_beta' cong: if_cong)
  moreover have "conditions_loop l r cs e ok = conditions_loop l' r' cs e ok" for cs e ok
    by (induction cs arbitrary: e ok) (simp_all add: face case_prod_beta' cong: if_cong)
  ultimately show ?thesis
    by (simp only: eval_rule_def any_of_result_def kind_result_def)
qed

lemma candidates_restored:
  "candidates ok l r (R\<lparr>rules := map (\<lambda>(u, rr). (u, restored_rule rr)) (rules R)\<rparr>) = candidates ok l r R"
  by (simp add: candidates_def restored_rule_def applicable_def filter_map comp_def case_prod_unfold)

lemma keyed_restored:
  assumes "keyed (\<lambda>rr. r_rule_id (rr_rule rr)) m"
  shows "keyed (\<lambda>rr. r_rule_id (rr_rule rr)) (map (\<lambda>(u, rr). (u, restored_rule rr)) m)"
  using assms by (auto simp: keyed_def map_of_map restored_rule_def comp_def case_prod_unfold)

lemma candidates_view:
  assumes "registry_ok R" and "registry_ok R'" and "sight R = sight R'" and "same_face l l'" and "same_face r r'"
  shows "candidates ok l r R = candidates ok l' r' R'"
proof -
  let ?N = "\<lambda>R. R\<lparr>rules := map (\<lambda>(u, rr). (u, restored_rule rr)) (rules R)\<rparr>"
  have "map_of (rules (?N R)) u = map_of (rules (?N R')) u" for u
  proof -
    have "map_option (\<lambda>rr. (rr_rule rr, rr_active rr)) (map_of (rules R) u) =
        map_option (\<lambda>rr. (rr_rule rr, rr_active rr)) (map_of (rules R') u)"
      using assms(3) by (simp add: sight_def view_def fun_eq_iff)
    then show ?thesis
      by (cases "map_of (rules R) u"; cases "map_of (rules R') u") (simp_all add: map_of_map restored_rule_def)
  qed
  then have "candidates ok l r (?N R) = candidates ok l r (?N R')"
    using assms(1,2) by (intro candidates_unique ext) (simp_all add: registry_ok_def stores_ok_def keyed_restored)
  then have "candidates ok l r R = candidates ok l r R'"
    unfolding candidates_restored .
  also have "\<dots> = candidates ok l' r' R'"
  proof -
    have "applicable ok l r = applicable ok l' r'"
      using assms(4,5) by (auto simp: applicable_def same_face_def)
    then show ?thesis
      by (simp add: candidates_def)
  qed
  finally show ?thesis .
qed

lemma current_id:
  assumes "registry_ok R" and "current u R = Some p"
  shows "p_id p = u"
proof -
  obtain hist where "map_of (profiles R) u = Some hist" "p = last hist"
    using assms by (auto simp: current_last split: option.splits if_splits)
  moreover from this have "history_ok u hist"
    using assms(1) profiles_okD by (auto simp: registry_ok_def)
  ultimately show ?thesis
    by (simp add: history_ok_def)
qed

lemma current_face:
  assumes "registry_ok R" and "registry_ok R'" and "sight R = sight R'" and "current u R = Some p"
  obtains q where "current u R' = Some q" "same_face p q" "p_id q = p_id p" "p_fingerprint q = p_fingerprint p"
proof -
  have "map_option entry_of (current u R) = map_option entry_of (current u R')"
    using assms(3) by (simp add: sight_def view_def fun_eq_iff)
  then obtain q where q: "current u R' = Some q" "entry_of q = entry_of p"
    using assms(4) by (cases "current u R'") auto
  moreover have "p_id p = u" "p_id q = u"
    using current_id [OF assms(1,4)] current_id [OF assms(2) q(1)] by simp_all
  moreover have "p_fingerprint q = p_fingerprint p"
    using current_ok [OF assms(1,4)] current_ok [OF assms(2) q(1)] q(2) by (simp add: entry_of_def)
  ultimately show thesis
    by (intro that [of q]) (simp_all add: same_face_def entry_of_def)
qed

lemma current_none:
  assumes "sight R = sight R'" and "current u R = None"
  shows "current u R' = None"
proof -
  have "map_option entry_of (current u R) = map_option entry_of (current u R')"
    using assms(1) by (simp add: sight_def view_def fun_eq_iff)
  with assms(2) show ?thesis
    by simp
qed

lemma evaluate_view:
  assumes "registry_ok R" and "registry_ok R'" and "sight R = sight R'"
  shows "evaluate_locked left right q R = evaluate_locked left right q R'"
proof -
  have same: "policy_id R = policy_id R'" "registry_gen R = registry_gen R'"
    using assms(3) by (simp_all add: sight_def view_def)
  then have ident: "decision_identity d s q' R = decision_identity d s q' R'" for d s q'
    by (simp add: decision_identity_def)
  show ?thesis
  proof (cases "current left R")
    case None
    then show ?thesis
      using current_none [OF assms(3)] same by (simp add: evaluate_locked_def)
  next
    case (Some l)
    note left = Some
    obtain l' where l': "current left R' = Some l'" "same_face l l'" "p_id l' = p_id l" "p_fingerprint l' = p_fingerprint l"
      by (rule current_face [OF assms Some])
    show ?thesis
    proof (cases "current right R")
      case None
      then show ?thesis
        using current_none [OF assms(3)] left l'(1) same by (simp add: evaluate_locked_def)
    next
      case (Some r)
      obtain r' where r': "current right R' = Some r'" "same_face r r'" "p_id r' = p_id r" "p_fingerprint r' = p_fingerprint r"
        by (rule current_face [OF assms Some])
      show ?thesis
        unfolding evaluate_locked_def
        by (simp only: left Some l' r' same ident eval_rule_face [OF l'(2) r'(2)] option.case
            candidates_view [OF assms l'(2) r'(2)] prod.case)
    qed
  qed
qed

text \<open>Hypothetical evaluation and the matrix see no more either.\<close>

lemma edit_payload_face:
  assumes "same_face p q"
  shows "rel_sum (=) same_face (edit_payload ed p) (edit_payload ed q)"
  using assms by (auto simp: edit_payload_def same_face_def bindE_def split: sum.split)

lemma bindE_related:
  assumes "rel_sum (=) A m m'" and "\<And>x y. A x y \<Longrightarrow> rel_sum (=) B (f x) (f' y)"
  shows "rel_sum (=) B (bindE m f) (bindE m' f')"
  using assms by (cases m; cases m') auto

lemma edits_loop_face:
  assumes "same_face r0 r0'" and "same_face l l'" and "same_face r r'"
  shows "rel_sum (=) (rel_prod same_face same_face) (edits_loop r0 eds (l, r)) (edits_loop r0' eds (l', r'))"
  using assms(2,3)
proof (induction eds arbitrary: l r l' r')
  case (Cons ed eds)
  have kind: "p_kind r0 = p_kind r0'" "p_payload r0 = p_payload r0'"
    using assms(1) by (simp_all add: same_face_def)
  show ?case
  proof (cases "resolve_profile_field (p_kind r0') (p_payload r0') (ed_field ed) = None")
    case True
    have "rel_sum (=) (rel_prod same_face same_face)
        (bindE (edit_payload ed l) (\<lambda>l. edits_loop r0 eds (l, r))) (bindE (edit_payload ed l') (\<lambda>l. edits_loop r0' eds (l, r')))"
      by (rule bindE_related [OF edit_payload_face [OF Cons.prems(1)]]) (rule Cons.IH [OF _ Cons.prems(2)])
    with True show ?thesis
      by (simp only: edits_loop.simps kind simp_thms if_False)
  next
    case False
    have "rel_sum (=) (rel_prod same_face same_face)
        (bindE (edit_payload ed r) (\<lambda>r. edits_loop r0 eds (l, r))) (bindE (edit_payload ed r') (\<lambda>r. edits_loop r0' eds (l', r)))"
      by (rule bindE_related [OF edit_payload_face [OF Cons.prems(2)]]) (rule Cons.IH [OF Cons.prems(1)])
    with False show ?thesis
      by (simp only: edits_loop.simps kind simp_thms if_True)
  qed
qed simp

lemma counterfactual_view:
  assumes "registry_ok R" and "registry_ok R'" and "sight R = sight R'"
  shows "counterfactual_pair left right eds R = counterfactual_pair left right eds R'"
proof -
  have same: "policy_id R = policy_id R'" "registry_gen R = registry_gen R'"
    using assms(3) by (simp_all add: sight_def view_def)
  show ?thesis
  proof (cases "current left R = None \<or> current right R = None")
    case True
    then have absent: "current left R = None \<or> current left R \<noteq> None \<and> current right R = None"
      "current left R' = None \<or> current left R' \<noteq> None \<and> current right R' = None"
      using current_none [OF assms(3)] by blast+
    have "(case (current left R, current right R) of (Some l, Some r) \<Rightarrow> f l r | _ \<Rightarrow> b) = b"
      "(case (current left R', current right R') of (Some l, Some r) \<Rightarrow> f l r | _ \<Rightarrow> b) = b" for f and b :: "decision res"
      using absent by auto
    then show ?thesis
      by (simp only: counterfactual_pair_def Let_def same)
  next
    case False
    then obtain l r where lr: "current left R = Some l" "current right R = Some r"
      by auto
    obtain l' where l': "current left R' = Some l'" "same_face l l'"
      by (rule current_face [OF assms lr(1)])
    obtain r' where r': "current right R' = Some r'" "same_face r r'"
      by (rule current_face [OF assms lr(2)])
    have "rel_sum (=) (rel_prod same_face same_face) (edits_loop r eds (l, r)) (edits_loop r' eds (l', r'))"
      by (intro edits_loop_face l' r')
    then show ?thesis
    proof (cases rule: rel_sum.cases)
      case (1 e e')
      then show ?thesis
        by (simp add: counterfactual_pair_def lr l' r')
    next
      case (2 p p')
      then obtain a b a' b' where ab: "p = (a, b)" "p' = (a', b')" "same_face a a'" "same_face b b'"
        by (auto elim!: rel_prod.cases)
      show ?thesis
        by (simp only: counterfactual_pair_def lr l' r' 2 ab(1,2) same option.case prod.case bindE_simps
            eval_rule_face [OF ab(3,4)] candidates_view [OF assms ab(3,4)])
    qed
  qed
qed

lemma matrix_view:
  assumes "registry_ok R" and "registry_ok R'" and "sight R = sight R'"
  shows "matrix ls rs R = matrix ls rs R'"
proof -
  have "matrix_loop R ps m = matrix_loop R' ps m" for ps m
  proof (induction ps arbitrary: m)
    case (Cons p ps)
    then show ?case
      by (cases p) (simp add: evaluate_view [OF assms])
  qed simp
  then show ?thesis
    by (simp add: matrix_def)
qed

section \<open>Reading a registry\<close>

text \<open>
  The reads whose results the view determines: what \<^verbatim>\<open>find_profile\<close> and \<^verbatim>\<open>query_by_kind\<close> say of
  the current profiles (not their generation and provenance), the active rules, whose order is that of
  an unordered map, and the dependency graph.
\<close>

definition current_by_kind :: "profile_kind \<Rightarrow> registry \<Rightarrow> (uuid \<times> entry) list" where
  "current_by_kind kd R = map (\<lambda>p. (p_id p, entry_of p)) (query_by_kind kd R)"

definition v_by_kind :: "profile_kind \<Rightarrow> view \<Rightarrow> (uuid \<times> entry) list" where
  "v_by_kind kd V =
     map (\<lambda>u. (u, the (v_entry V u))) (sorted_list_of_set {u. \<exists>c ds. v_entry V u = Some (kd, c, ds)})"

definition v_dependents :: "uuid \<Rightarrow> view \<Rightarrow> uuid list" where
  "v_dependents u V = sorted_list_of_set {x. u \<in> set (v_depends V x)}"

lemma view_find:
  assumes "registry_ok R"
  shows "map_option entry_of (find_profile u False R) = v_entry (view R) u"
  using assms find_profile_newest [of R u]
  by (simp add: registry_ok_def view_def current_def Option.bind_def split: option.split)

lemma view_dependents:
  assumes "registry_ok R"
  shows "dependents_of (graph R) u = v_dependents u (view R)"
proof -
  let ?ds = "dependents_of (graph R) u"
  have "graph_ok (graph R)"
    using assms by (simp add: registry_ok_def)
  from dependents_of_exact [OF this, of u]
  have "set ?ds = {x. u \<in> set (v_depends (view R) x)}" "sorted ?ds" "distinct ?ds"
    by (simp_all add: view_depends)
  then show ?thesis
    by (metis v_dependents_def sorted_list_of_set.idem_if_sorted_distinct)
qed

lemma view_cycle: "has_cycle (graph R) \<longleftrightarrow> (\<exists>x. (x, x) \<in> (v_edges (view R))\<^sup>+)"
  by (simp add: v_edges_view has_cycle_edges)

lemma active_rules_view:
  assumes "registry_ok R"
  shows "set (active_rules R) = {r. \<exists>u. v_rules (view R) u = Some (r, True)}"
proof -
  have "umap_ok (rules R)"
    using assms by (simp add: registry_ok_def stores_ok_def keyed_def)
  then have rule: "(u, rr) \<in> set (rules R) \<longleftrightarrow> map_of (rules R) u = Some rr" for u rr
    by simp
  have "set (active_rules R) = {rr_rule rr | u rr. (u, rr) \<in> set (rules R) \<and> rr_active rr}"
    by (force simp: active_rules_def List.map_filter_def split: if_splits)
  then show ?thesis
    unfolding rule by (auto simp: view_def)
qed

lemma set_found:
  "set (List.map_filter (\<lambda>(u, h). f h) m) = {p. \<exists>u h. (u, h) \<in> set m \<and> f h = Some p}"
  by (force simp: List.map_filter_def)

text \<open>A current profile is found once, under its own identity.\<close>

lemma distinct_found:
  assumes "umap_ok m" and "\<And>u h p. (u, h) \<in> set m \<Longrightarrow> newest_active h = Some p \<Longrightarrow> p_id p = u"
  shows "distinct (map p_id (List.map_filter (\<lambda>(u, h). newest_active h) m))"
  using assms
proof (induction m)
  case (Cons e m)
  obtain u h where e: "e = (u, h)"
    by (cases e)
  have "distinct (map p_id (List.map_filter (\<lambda>(u, h). newest_active h) m))"
    using Cons.prems by (intro Cons.IH) auto
  moreover have "p_id p \<noteq> u" if "(v, k) \<in> set m" "newest_active k = Some p" for v k p
    using Cons.prems(2) [of v k p] that Cons.prems(1) e by (force simp: image_iff)
  moreover have "p_id p = u" if "newest_active h = Some p" for p
    using Cons.prems(2) [of u h p] that e by simp
  ultimately show ?case
    by (cases "newest_active h") (simp_all add: e set_found image_iff, blast)
qed (simp add: List.map_filter_simps)

lemma view_by_kind:
  assumes "registry_ok R"
  shows "current_by_kind kd R = v_by_kind kd (view R)"
proof -
  define L where "L = filter (\<lambda>p. \<not> p_kind p \<noteq> kd) (List.map_filter (\<lambda>(u, hist). newest_active hist) (profiles R))"
  let ?q = "sort_by id_less L"
  have ok: "umap_ok (profiles R)"
    using assms by (simp add: registry_ok_def profiles_ok_def)
  have at: "p_id p = u" if "(u, h) \<in> set (profiles R)" "newest_active h = Some p" for u h p
    using that ok current_id [OF assms, of u p] by (simp add: current_def)
  have L: "set L = {p. p_kind p = kd \<and> (\<exists>u. current u R = Some p)}"
    using ok by (auto simp: L_def set_found current_def Option.bind_eq_Some_conv)
  have sorted: "sorted (map p_id ?q)"
    using id_order.sorted_sort_by [of L] by (simp add: sorted_wrt_map id_less_def not_less)
  have "mset (map p_id ?q) = mset (map p_id L)"
    by simp
  moreover have "distinct (map p_id L)"
    unfolding L_def by (intro distinct_map_filter distinct_found [OF ok at])
  ultimately have distinct: "distinct (map p_id ?q)"
    using mset_eq_imp_distinct_iff by blast
  have members: "current (p_id p) R = Some p" if "p \<in> set L" for p
    using that L current_id [OF assms] by auto
  have "set (map p_id ?q) = {u. \<exists>c ds. v_entry (view R) u = Some (kd, c, ds)}"
    using L current_id [OF assms] by (force simp: view_def entry_of_def image_iff)
  with sorted distinct
  have ids: "map p_id ?q = sorted_list_of_set {u. \<exists>c ds. v_entry (view R) u = Some (kd, c, ds)}"
    by (metis sorted_list_of_set.idem_if_sorted_distinct)
  have "map (\<lambda>p. (p_id p, entry_of p)) ?q = map (\<lambda>u. (u, the (v_entry (view R) u))) (map p_id ?q)"
    using members by (simp add: view_def)
  then show ?thesis
    unfolding ids by (simp add: current_by_kind_def v_by_kind_def query_by_kind_def L_def)
qed

section \<open>Sequences of calls\<close>

datatype reg_op =
    Register_Record profile_record
  | Register_New uuid profile_kind canon "uuid list" string
  | Supersede profile_kind uuid canon "uuid list" string
  | Invalidate_Profile uuid string
  | Propagate uuid
  | Register_Rule_Op rule
  | Supersede_Rule uuid rule
  | Disable_Rule uuid
  | Register_Evidence_Op evidence_record
  | Set_Policy uuid
  | Evaluate_Pair uuid uuid
  | Evaluate_Requirement uuid uuid
  | Counterfactual uuid uuid "edit list"
  | Matrix "uuid list" "uuid list"
  | Find_Profile uuid
  | Query_Kind profile_kind
  | Active_Rules
  | Dependencies uuid
  | Dependents uuid
  | Has_Cycle
  | Generation

datatype reg_result =
    Id "uuid res"
  | Flag bool
  | Verdict "decision res"
  | Table "matrix_result res"
  | Found "entry option"
  | Entries "(uuid \<times> entry) list"
  | Rules "rule set"
  | Ids "uuid list"
  | Number u64
  | Nothing

fun perform :: "reg_op \<Rightarrow> registry \<Rightarrow> reg_result \<times> registry" where
  "perform (Register_Record p) R = map_prod Id id (register_profile p R)"
| "perform (Register_New u kd c ds prov) R = map_prod Id id (register_new_profile u kd c ds prov R)"
| "perform (Supersede kd u c ds prov) R = map_prod Id id (supersede_profile kd u c ds prov R)"
| "perform (Invalidate_Profile u why) R = map_prod Flag id (invalidate_profile u why R)"
| "perform (Propagate u) R = (Nothing, propagate_invalidation u R)"
| "perform (Register_Rule_Op r) R = map_prod (\<lambda>u. Id (Inr u)) id (register_rule r R)"
| "perform (Supersede_Rule u r) R = map_prod Flag id (supersede_rule u r R)"
| "perform (Disable_Rule u) R = map_prod Flag id (disable_rule u R)"
| "perform (Register_Evidence_Op ev) R = (Nothing, register_evidence ev R)"
| "perform (Set_Policy u) R = (Nothing, set_policy u R)"
| "perform (Evaluate_Pair left right) R = map_prod Verdict id (evaluate_pair left right R)"
| "perform (Evaluate_Requirement candidate req) R = map_prod Verdict id (evaluate_requirement candidate req R)"
| "perform (Counterfactual left right eds) R = (Verdict (counterfactual_pair left right eds R), R)"
| "perform (Matrix ls rs) R = (Table (matrix ls rs R), R)"
| "perform (Find_Profile u) R = (Found (map_option entry_of (find_profile u False R)), R)"
| "perform (Query_Kind kd) R = (Entries (current_by_kind kd R), R)"
| "perform Active_Rules R = (Rules (set (active_rules R)), R)"
| "perform (Dependencies u) R = (Ids (dependencies_of (graph R) u), R)"
| "perform (Dependents u) R = (Ids (dependents_of (graph R) u), R)"
| "perform Has_Cycle R = (Flag (has_cycle (graph R)), R)"
| "perform Generation R = (Number (registry_gen R), R)"

text \<open>What the call returns is part of the specification, except for decisions.\<close>

fun v_perform :: "reg_op \<Rightarrow> view \<Rightarrow> reg_result option \<times> view" where
  "v_perform (Register_Record p) V =
     map_prod (\<lambda>x. Some (Id x)) id (v_register (p_active p) (p_kind p) (p_id p) (p_payload p) (p_deps p) V)"
| "v_perform (Register_New u kd c ds prov) V = map_prod (\<lambda>x. Some (Id x)) id (v_register True kd u c ds V)"
| "v_perform (Supersede kd u c ds prov) V = map_prod (\<lambda>x. Some (Id x)) id (v_supersede kd u c ds V)"
| "v_perform (Invalidate_Profile u why) V = map_prod (\<lambda>x. Some (Flag x)) id (v_invalidate u V)"
| "v_perform (Propagate u) V = (Some Nothing, v_propagate u V)"
| "v_perform (Register_Rule_Op r) V = map_prod (\<lambda>u. Some (Id (Inr u))) id (v_register_rule r V)"
| "v_perform (Supersede_Rule u r) V = map_prod (\<lambda>x. Some (Flag x)) id (v_supersede_rule u r V)"
| "v_perform (Disable_Rule u) V = map_prod (\<lambda>x. Some (Flag x)) id (v_disable_rule u V)"
| "v_perform (Register_Evidence_Op ev) V = (Some Nothing, v_bump V)"
| "v_perform (Set_Policy u) V = (Some Nothing, v_bump (V\<lparr>v_policy := u\<rparr>))"
| "v_perform (Evaluate_Pair left right) V = (None, V)"
| "v_perform (Evaluate_Requirement candidate req) V = (None, V)"
| "v_perform (Counterfactual left right eds) V = (None, V)"
| "v_perform (Matrix ls rs) V = (None, V)"
| "v_perform (Find_Profile u) V = (Some (Found (v_entry V u)), V)"
| "v_perform (Query_Kind kd) V = (Some (Entries (v_by_kind kd V)), V)"
| "v_perform Active_Rules V = (Some (Rules {r. \<exists>u. v_rules V u = Some (r, True)}), V)"
| "v_perform (Dependencies u) V = (Some (Ids (v_depends V u)), V)"
| "v_perform (Dependents u) V = (Some (Ids (v_dependents u V)), V)"
| "v_perform Has_Cycle V = (Some (Flag (\<exists>x. (x, x) \<in> (v_edges V)\<^sup>+)), V)"
| "v_perform Generation V = (Some (Number (v_generation V)), V)"

text \<open>Payloads are values the factories of \<^verbatim>\<open>Canon\<close> can build.\<close>

fun reg_op_ok :: "reg_op \<Rightarrow> bool" where
  "reg_op_ok (Register_Record p) \<longleftrightarrow> canon_ok (p_payload p)"
| "reg_op_ok (Register_New u kd c ds prov) \<longleftrightarrow> canon_ok c"
| "reg_op_ok (Supersede kd u c ds prov) \<longleftrightarrow> canon_ok c"
| "reg_op_ok _ \<longleftrightarrow> True"

lemma map_prod_fst_snd: "map_prod f g x = (f (fst x), g (snd x))"
  by (cases x) simp

lemma both_parts: "map_prod id f x = y \<Longrightarrow> fst x = fst y \<and> f (snd x) = snd y"
  by (cases x) auto

lemma perform_refines:
  assumes "registry_ok R" and "reg_op_ok c"
  shows "view (snd (perform c R)) = snd (v_perform c (view R)) \<and>
    (\<forall>x. fst (v_perform c (view R)) = Some x \<longrightarrow> fst (perform c R) = x)"
proof -
  note specs = view_register [OF assms(1), THEN both_parts] view_register_new [OF assms(1), THEN both_parts]
    view_supersede [OF assms(1), THEN both_parts] view_invalidate [THEN both_parts] view_propagate [OF assms(1)]
    view_rules [THEN both_parts] view_settings
  note reads = view_find [OF assms(1)] view_by_kind [OF assms(1)] active_rules_view [OF assms(1)]
    view_dependents [OF assms(1)] view_cycle view_depends
  have gen: "registry_gen R = v_generation (view R)"
    by (simp add: view_def)
  have eval: "view (snd (evaluate_pair left right R)) = view R" "view (snd (evaluate_requirement left right R)) = view R"
    for left right
    using evaluate_state [of left right R] by (auto simp: view_settings)
  show ?thesis
    using assms(2) by (cases c) (simp_all add: specs reads gen eval map_prod_fst_snd)
qed

lemma perform_ok:
  assumes "registry_ok R" and "reg_op_ok c"
  shows "registry_ok (snd (perform c R))"
  using assms by (cases c) (simp_all add: operations_ok)

text \<open>Registering a rule without a generation number gives it the next one.\<close>

fun numbers_rule :: "reg_op \<Rightarrow> bool" where
  "numbers_rule (Register_Rule_Op r) \<longleftrightarrow> r_generation r = 0"
| "numbers_rule _ \<longleftrightarrow> False"

abbreviation numbered_from :: "u64 \<Rightarrow> view \<Rightarrow> view" where
  "numbered_from g V \<equiv> V\<lparr>v_next_rule := g\<rparr>"

lemma v_cyclic_numbered [simp]: "v_cyclic u ds (numbered_from g V) = v_cyclic u ds V"
  by (simp add: v_cyclic_def v_edges_def)

lemma v_perform_numbered:
  assumes "\<not> numbers_rule c"
  shows "v_perform c (numbered_from g V) = map_prod id (numbered_from g) (v_perform c V)"
proof (cases c)
  case (Supersede kd u c ds prov)
  then show ?thesis
    by (simp add: v_supersede_def v_same_def v_publish_def Let_def v_cyclic_def v_edges_def)
qed (use assms in \<open>auto simp: v_register_def v_same_def v_publish_def v_invalidate_def v_withdraw_def v_propagate_def
    v_edges_def v_register_rule_def v_supersede_rule_def v_disable_rule_def v_by_kind_def v_dependents_def Let_def
    split: option.split\<close>)

lemma perform_alike:
  assumes "registry_ok R" and "registry_ok R'" and "view R = numbered_from g (view R')"
    and "reg_op_ok c" and "numbers_rule c \<longrightarrow> view R = view R'"
  shows "fst (perform c R) = fst (perform c R')"
    and "numbers_rule c \<Longrightarrow> view (snd (perform c R)) = view (snd (perform c R'))"
    and "\<not> numbers_rule c \<Longrightarrow> view (snd (perform c R)) = numbered_from g (view (snd (perform c R')))"
proof -
  note refines = perform_refines [OF assms(1,4)] perform_refines [OF assms(2,4)]
  have same: "fst (v_perform c (view R)) = fst (v_perform c (view R'))"
    using assms(3,5) v_perform_numbered [of c g "view R'"] by (cases "numbers_rule c") (simp_all add: map_prod_fst_snd)
  show "view (snd (perform c R)) = view (snd (perform c R'))" if "numbers_rule c"
    using refines assms(5) that by simp
  show "view (snd (perform c R)) = numbered_from g (view (snd (perform c R')))" if "\<not> numbers_rule c"
    using refines assms(3) v_perform_numbered [OF that, of g "view R'"] by (simp add: map_prod_fst_snd)
  show "fst (perform c R) = fst (perform c R')"
  proof (cases "fst (v_perform c (view R))")
    case None
    have "sight R = sight R'"
      using assms(3) by (simp add: sight_def)
    note see = evaluate_view [OF assms(1,2) this] counterfactual_view [OF assms(1,2) this] matrix_view [OF assms(1,2) this]
    from None show ?thesis
      by (cases c) (simp_all add: see evaluate_pair_def evaluate_requirement_def map_prod_fst_snd split: sum.split)
  next
    case (Some x)
    then show ?thesis
      using refines same by simp
  qed
qed

fun perform_all :: "reg_op list \<Rightarrow> registry \<Rightarrow> reg_result list \<times> registry" where
  "perform_all [] R = ([], R)"
| "perform_all (c # cs) R =
     (case perform c R of (x, R') \<Rightarrow> (case perform_all cs R' of (xs, R'') \<Rightarrow> (x # xs, R'')))"

lemma perform_all_same:
  assumes "registry_ok R" and "registry_ok R'" and "view R = view R'" and "\<forall>c \<in> set cs. reg_op_ok c"
  shows "fst (perform_all cs R) = fst (perform_all cs R') \<and> view (snd (perform_all cs R)) = view (snd (perform_all cs R'))"
  using assms
proof (induction cs arbitrary: R R')
  case (Cons c cs)
  have ok: "reg_op_ok c" and V: "view R = numbered_from (v_next_rule (view R')) (view R')"
    using Cons.prems by simp_all
  note step = perform_alike [OF Cons.prems(1,2) V ok]
  have "view (snd (perform c R)) = view (snd (perform c R'))"
    using perform_refines [OF Cons.prems(1) ok] perform_refines [OF Cons.prems(2) ok] Cons.prems(3) by simp
  then show ?case
    using Cons.prems Cons.IH [of "snd (perform c R)" "snd (perform c R')"] step(1) perform_ok [OF _ ok]
    by (simp add: case_prod_beta)
qed simp

lemma perform_all_numbered:
  assumes "registry_ok R" and "registry_ok R'" and "view R = numbered_from g (view R')"
    and "\<forall>c \<in> set cs. reg_op_ok c \<and> \<not> numbers_rule c"
  shows "fst (perform_all cs R) = fst (perform_all cs R') \<and>
    view (snd (perform_all cs R)) = numbered_from g (view (snd (perform_all cs R')))"
  using assms
proof (induction cs arbitrary: R R')
  case (Cons c cs)
  have ok: "reg_op_ok c" "\<not> numbers_rule c"
    using Cons.prems by simp_all
  note step = perform_alike [OF Cons.prems(1-3) ok(1)]
  show ?case
    using Cons.prems Cons.IH [of "snd (perform c R)" "snd (perform c R')"] step ok perform_ok [OF _ ok(1)]
    by (simp add: case_prod_beta)
qed simp

lemma view_restored:
  assumes "persistable R"
  shows "view (restored R) = numbered_from 0 (view R)"
proof -
  have "registry_ok R" "deps_current R"
    using assms by (simp_all add: persistable_def)
  then have "dependencies_of (rebuild_edges (profiles R)) = dependencies_of (graph R)"
    using dependencies_rebuild by (auto simp: registry_ok_def)
  then show ?thesis
    by (auto simp: view_def restored_def current_def map_of_map restored_rule_def empty_registry_def option.map_comp comp_def)
qed

fun v_perform_all :: "reg_op list \<Rightarrow> view \<Rightarrow> reg_result option list \<times> view" where
  "v_perform_all [] V = ([], V)"
| "v_perform_all (c # cs) V =
     (case v_perform c V of (x, V') \<Rightarrow> (case v_perform_all cs V' of (xs, V'') \<Rightarrow> (x # xs, V'')))"

definition meets :: "reg_result option \<Rightarrow> reg_result \<Rightarrow> bool" where
  "meets spec x \<longleftrightarrow> (case spec of None \<Rightarrow> True | Some y \<Rightarrow> x = y)"

lemma perform_all_refines:
  "registry_ok R \<Longrightarrow> \<forall>c \<in> set cs. reg_op_ok c \<Longrightarrow>
     view (snd (perform_all cs R)) = snd (v_perform_all cs (view R)) \<and>
     list_all2 meets (fst (v_perform_all cs (view R))) (fst (perform_all cs R))"
proof (induction cs arbitrary: R)
  case (Cons c cs)
  have "meets (fst (v_perform c (view R))) (fst (perform c R))"
    using perform_refines [of R c] Cons.prems by (auto simp: meets_def split: option.split)
  then show ?case
    using Cons.IH [of "snd (perform c R)"] Cons.prems perform_refines [of R c] perform_ok [of R c]
    by (simp add: case_prod_beta)
qed simp

section \<open>Properties\<close>

text \<open>
  Property C3. Every sequence of calls does to the registry what the specification on views says, and
  returns what it says: identical registrations change nothing, a rejected one withdraws the current
  profile, an accepted one makes the given payload current; invalidations withdraw exactly one profile
  or everything that depends on it; rules are numbered from the previous version of the rule or from
  the counter; evidence, cached decisions and histories have no influence.
\<close>

theorem operations_refine_views:
  assumes "registry_ok R" and "\<forall>c \<in> set cs. reg_op_ok c"
  shows "view (snd (perform_all cs R)) = snd (v_perform_all cs (view R)) \<and>
    list_all2 meets (fst (v_perform_all cs (view R))) (fst (perform_all cs R))"
  using perform_all_refines [OF assms] .

theorem operations_refine_views_witness:
  "v_entry (view (snd (perform_all [Register_New (Uuid 1) PK_Model model_payload [Uuid 2] []] example_registry))) (Uuid 1) = None"
proof -
  have "v_entry (view example_registry) (Uuid 1) = Some (PK_Model, model_payload, [])"
    by (simp add: view_def current_def example_registry_def newest_active_def entry_of_def)
  then have "\<not> v_same (Uuid 1) (\<lambda>kd. kd = PK_Model) model_payload [Uuid 2] (view example_registry)"
    by (simp add: v_same_def)
  with operations_refine_views [OF example_registry_ok, of "[Register_New (Uuid 1) PK_Model model_payload [Uuid 2] []]"]
  show ?thesis
    by (simp add: v_register_def v_cyclic_view example_create_cycle)
qed



text \<open>
  Property C6. A recovered registry returns what the saved one returns to any later sequence of the calls
  of \<open>reg_op\<close> (the mutations, evaluations and reads that C7 lists), under one condition: no rule is
  registered with generation 0, which leaves its number to the registry, unless the registry has numbered
  none before. The counter of these numbers is not saved and starts again from 0; so a rule of a new
  identity registered that way gets number 1 after recovery and the next number in the saved registry, and
  decisions that rest on the rule carry different generations.
\<close>

theorem recovered_behaves_alike:
  assumes "persistable R" and "\<forall>c \<in> set cs. reg_op_ok c"
    and "rule_gen R = 0 \<or> (\<forall>c \<in> set cs. \<not> numbers_rule c)"
  shows "\<exists>bs R'. snapshot R = Inr bs \<and> recover bs = Inr R' \<and> fst (perform_all cs R') = fst (perform_all cs R) \<and>
    (\<forall>r. r_generation r = 0 \<and> map_of (rules R) (r_rule_id r) = None \<longrightarrow>
      v_rules (view (snd (perform (Register_Rule_Op r) R'))) (r_rule_id r) = Some (r\<lparr>r_generation := 1\<rparr>, True) \<and>
      v_rules (view (snd (perform (Register_Rule_Op r) R))) (r_rule_id r) =
        Some (r\<lparr>r_generation := rule_gen R + 1\<rparr>, True))"
proof -
  obtain bs where bs: "snapshot R = Inr bs" "recover bs = Inr (restored R)"
    using recover_snapshot [OF assms(1)] by blast
  have ok: "registry_ok R" "registry_ok (restored R)"
    using assms(1) registry_ok_restored by (simp_all add: persistable_def)
  note views = view_restored [OF assms(1)]
  have next_rule: "v_next_rule (view R) = rule_gen R" "v_rules (view R) u = None \<longleftrightarrow> map_of (rules R) u = None" for u
    by (simp_all add: view_def)
  have "fst (perform_all cs (restored R)) = fst (perform_all cs R)"
    using assms(3)
  proof
    assume "rule_gen R = 0"
    then have "view (restored R) = view R"
      using views next_rule by simp
    then show ?thesis
      using perform_all_same [OF ok(2,1)] assms(2) by simp
  next
    assume "\<forall>c \<in> set cs. \<not> numbers_rule c"
    then show ?thesis
      using perform_all_numbered [OF ok(2,1) views] assms(2) by simp
  qed
  moreover have "v_rules (view (snd (perform (Register_Rule_Op r) Q))) (r_rule_id r) =
      Some (r\<lparr>r_generation := v_next_rule (view Q) + 1\<rparr>, True)"
    if "registry_ok Q" "r_generation r = 0" "v_rules (view Q) (r_rule_id r) = None" for r Q
    using perform_refines [OF that(1), of "Register_Rule_Op r"] that(2,3)
    by (simp add: map_prod_fst_snd v_register_rule_def)
  ultimately show ?thesis
    using bs ok by (intro exI [of _ bs] exI [of _ "restored R"]) (simp add: views next_rule)
qed

theorem recovered_behaves_alike_witness:
  "\<exists>bs R'. snapshot example_registry = Inr bs \<and> recover bs = Inr R' \<and>
     fst (perform_all [Supersede PK_Model (Uuid 2) model_payload [] [], Counterfactual (Uuid 1) (Uuid 2) []] R') =
     fst (perform_all [Supersede PK_Model (Uuid 2) model_payload [] [], Counterfactual (Uuid 1) (Uuid 2) []] example_registry)"
  using recovered_behaves_alike [OF example_persistable,
    of "[Supersede PK_Model (Uuid 2) model_payload [] [], Counterfactual (Uuid 1) (Uuid 2) []]"] by auto

end
