(* ===== verification/Remote.thy ===== *)
theory Remote
  imports Client
begin

text \<open>
  The client and the coordinator together. \<open>client_op\<close> lists the calls a program can make on
  \<^verbatim>\<open>RegistryClient\<close>, \<open>remote\<close> is what becomes of one: it is encoded, framed, received, decoded, handled,
  answered, and the answer decoded. \<open>promised\<close> says what the caller is entitled to in terms of the
  registry alone. Whole sessions of the one are sessions of the other.
\<close>

section \<open>Calls\<close>

datatype client_op =
    Op_Source string string
  | Op_Profile string uuid u64 canon profile_kind string
  | Op_Rule string uuid u64 rule
  | Op_Evidence string uuid u64 evidence_record
  | Op_Pair uuid uuid
  | Op_Requirement uuid uuid
  | Op_Invalidate string uuid u64 uuid string
  | Op_Snapshot
  | Op_Shutdown

datatype answer = Booted uuid | Registered uuid | Done | Decided decision

fun op_type :: "client_op \<Rightarrow> msg_type" where
  "op_type (Op_Source source sc) = Register_Source"
| "op_type (Op_Profile source boot sgen profile kd domain) = Register_Profile"
| "op_type (Op_Rule source boot sgen r) = Register_Rule"
| "op_type (Op_Evidence source boot sgen ev) = Register_Evidence"
| "op_type (Op_Pair left right) = Query_Pair"
| "op_type (Op_Requirement candidate req) = Query_Requirement"
| "op_type (Op_Invalidate source boot sgen target reason) = Invalidate"
| "op_type Op_Snapshot = Snapshot"
| "op_type Op_Shutdown = Shutdown"

fun op_request :: "u64 \<Rightarrow> client_op \<Rightarrow> canon res" where
  "op_request ep (Op_Source source sc) = source_request source sc"
| "op_request ep (Op_Profile source boot sgen profile kd domain) = profile_request ep source boot sgen profile kd domain"
| "op_request ep (Op_Rule source boot sgen r) = rule_request ep source boot sgen r"
| "op_request ep (Op_Evidence source boot sgen ev) = evidence_request ep source boot sgen ev"
| "op_request ep (Op_Pair left right) = query_request ep left right"
| "op_request ep (Op_Requirement candidate req) = query_request ep candidate req"
| "op_request ep (Op_Invalidate source boot sgen target reason) = invalidate_request ep source boot sgen target reason"
| "op_request ep Op_Snapshot = mk_record []"
| "op_request ep Op_Shutdown = mk_record []"

text \<open>Out parameters start as default values.\<close>

definition answer_with :: "('a \<Rightarrow> answer) \<Rightarrow> 'a call \<Rightarrow> answer call" where
  "answer_with f = map_sum id (map_sum id f)"

fun issue :: "exchange \<Rightarrow> client_op \<Rightarrow> client \<Rightarrow> answer call \<times> client" where
  "issue x (Op_Source source sc) cl =
     (case client_register_source x source sc zero_uuid cl of (r, cl') \<Rightarrow> (answer_with Booted r, cl'))"
| "issue x (Op_Profile source boot sgen profile kd domain) cl =
     (answer_with Registered (client_register_profile x cl source boot sgen profile kd domain zero_uuid), cl)"
| "issue x (Op_Rule source boot sgen r) cl = (answer_with (\<lambda>_. Done) (client_register_rule x cl source boot sgen r), cl)"
| "issue x (Op_Evidence source boot sgen ev) cl =
     (answer_with (\<lambda>_. Done) (client_register_evidence x cl source boot sgen ev), cl)"
| "issue x (Op_Pair left right) cl = (answer_with Decided (client_query_pair x cl left right empty_decision), cl)"
| "issue x (Op_Requirement candidate req) cl =
     (answer_with Decided (client_query_requirement x cl candidate req empty_decision), cl)"
| "issue x (Op_Invalidate source boot sgen target reason) cl =
     (answer_with (\<lambda>_. Done) (client_invalidate x cl source boot sgen target reason), cl)"
| "issue x Op_Snapshot cl = (answer_with (\<lambda>_. Done) (client_snapshot x cl), cl)"
| "issue x Op_Shutdown cl = (answer_with (\<lambda>_. Done) (client_shutdown x cl), cl)"

text \<open>
  The other end of the connection. The coordinator serves it until it has answered a shutdown, an
  exception has ended it, or it has closed the connection over a frame it does not accept; after that nobody
  answers. What is sent then may still be taken by the system and bring nothing back, or be
  refused at once: \<open>late n\<close> says which of the two becomes of the \<open>n\<close>-th call from then on.
\<close>

datatype peer = Serving "nat \<Rightarrow> bool" coordinator | Gone "nat \<Rightarrow> bool" ending coordinator

fun exchange_with :: "uuid \<Rightarrow> peer \<Rightarrow> exchange" where
  "exchange_with u (Serving late S) = ask u S"
| "exchange_with u (Gone late e S) = (\<lambda>_. if late 0 then Some [] else None)"

text \<open>Having replied to all it received, \<open>serve\<close> waits for the next request; \<open>u\<close> is the id the coordinator may draw.\<close>

fun peer_after :: "uuid \<Rightarrow> peer \<Rightarrow> bytes \<Rightarrow> peer" where
  "peer_after u (Serving late S) f =
     (case serve (\<lambda>_. u) (\<lambda>_. True) 0 f S of
        (fs, e, _, S') \<Rightarrow> if e = Closed \<and> fs \<noteq> [] then Serving late S' else Gone late e S')"
| "peer_after u (Gone late e S) f = Gone (\<lambda>n. late (Suc n)) e S"

type_synonym link = "client \<times> peer"

definition remote :: "uuid \<Rightarrow> client_op \<Rightarrow> link \<Rightarrow> answer call \<times> link" where
  "remote u c = (\<lambda>(cl, P).
     case issue (exchange_with u P) c cl of (r, cl') \<Rightarrow>
       (r, cl', if \<not> connected cl then P
          else case bindE (op_request (cl_epoch cl) c) (frame_message (op_type c)) of
            Inr f \<Rightarrow> peer_after u P f | Inl _ \<Rightarrow> P))"

fun remote_session :: "(nat \<Rightarrow> uuid) \<Rightarrow> nat \<Rightarrow> client_op list \<Rightarrow> link \<Rightarrow> answer call list \<times> link" where
  "remote_session seed k [] s = ([], s)"
| "remote_session seed k (c # cs) s =
     (case remote (seed k) c s of (r, s') \<Rightarrow>
       (case remote_session seed (Suc k) cs s' of (rs, s'') \<Rightarrow> (r # rs, s'')))"

section \<open>What is promised\<close>

definition refusal :: "'a call" where
  "refusal = Inr (Inl ''request failed'')"

text \<open>A request with authority has its effect; one without has none.\<close>

definition authorised :: "string option \<Rightarrow> answer call \<times> coordinator \<Rightarrow> coordinator \<Rightarrow> answer call \<times> coordinator" where
  "authorised why granted S = (case why of None \<Rightarrow> granted | Some _ \<Rightarrow> (refusal, S))"

definition wired_evidence :: "uuid \<Rightarrow> evidence_record \<Rightarrow> evidence_record" where
  "wired_evidence u ev = \<lparr>ev_id = u, ev_subject = zero_uuid, ev_field = ev_field ev, ev_value = ev_value ev,
     ev_provenance = [], ev_source = [], ev_source_generation = 0, ev_observed_timestamp = [],
     ev_kind = EK_Reported, ev_validated = False, ev_digest_hex = []\<rparr>"

definition on_registry :: "('a \<Rightarrow> answer) \<Rightarrow> 'a res \<times> registry \<Rightarrow> coordinator \<Rightarrow> answer call \<times> coordinator" where
  "on_registry f xR S = (map_sum id (\<lambda>v. Inr (f v)) (fst xR), S\<lparr>co_registry := snd xR\<rparr>)"

fun promised :: "uuid \<Rightarrow> u64 \<Rightarrow> client_op \<Rightarrow> coordinator \<Rightarrow> answer call \<times> coordinator" where
  "promised u ep (Op_Source source sc) S =
     (if source = [] then (refusal, S)
      else (Inr (Inr (Booted u)), S\<lparr>sources := (sources S)(source \<mapsto> \<lparr>boot_id = u, generation = 1, scope = sc\<rparr>)\<rparr>))"
| "promised u ep (Op_Profile source boot sgen profile kd domain) S =
     authorised (profile_refused source boot sgen domain ep S)
       (case on_registry Registered (register_new_profile u kd profile [] [] (co_registry S)) S of
          (Inl e, S') \<Rightarrow> (Inl e, S')
        | (Inr r, S') \<Rightarrow> (Inr r, set_generation source sgen S')) S"
| "promised u ep (Op_Rule source boot sgen r) S =
     authorised (update_refused source boot ep S)
       (on_registry (\<lambda>_. Done) (apfst Inr (register_rule (wired r) (co_registry S))) S) S"
| "promised u ep (Op_Evidence source boot sgen ev) S =
     authorised (update_refused source boot ep S)
       (on_registry (\<lambda>_. Done) (Inr (), register_evidence (wired_evidence u ev) (co_registry S)) S) S"
| "promised u ep (Op_Pair left right) S =
     on_registry (\<lambda>d. Decided (empty_decision\<lparr>d_left := left, d_right := right, d_outcome := d_outcome d,
       d_decision_id := d_decision_id d, d_rule_id := d_rule_id d, d_explanation := d_explanation d\<rparr>))
       (evaluate_pair left right (co_registry S)) S"
| "promised u ep (Op_Requirement candidate req) S =
     on_registry (\<lambda>d. Decided (empty_decision\<lparr>d_left := candidate, d_right := req, d_outcome := d_outcome d,
       d_decision_id := d_decision_id d\<rparr>))
       (evaluate_requirement candidate req (co_registry S)) S"
| "promised u ep (Op_Invalidate source boot sgen target reason) S =
     authorised (update_refused source boot ep S)
       (on_registry (\<lambda>_. Done) (apfst Inr (invalidate_profile target reason (co_registry S))) S) S"
| "promised u ep Op_Snapshot S = (map_sum id (\<lambda>_. Inr Done) (snapshot (co_registry S)), S)"
| "promised u ep Op_Shutdown S = (Inr (Inr Done), S)"

text \<open>
  What the caller sees of it and where it leaves the coordinator: an exception of the operation ends the
  coordinator before it replies, a shutdown after its reply.
\<close>

fun settle :: "(nat \<Rightarrow> bool) \<Rightarrow> client_op \<Rightarrow> answer call \<times> coordinator \<Rightarrow> answer call \<times> peer" where
  "settle late c (Inl e, S) = (Inr (Inl ''recv header failed''), Gone late (Crashed e) S)"
| "settle late c (Inr a, S) = (Inr a, if c = Op_Shutdown then Gone late Shut_Down S else Serving late S)"

definition unreachable :: "(nat \<Rightarrow> bool) \<Rightarrow> answer call" where
  "unreachable late = Inr (Inl (if late 0 then ''recv header failed'' else ''send failed''))"

text \<open>The client learns the epoch when it registers a source.\<close>

definition next_client :: "client_op \<Rightarrow> answer call \<Rightarrow> coordinator \<Rightarrow> client \<Rightarrow> client" where
  "next_client c r S cl =
     (case (c, r) of (Op_Source _ _, Inr (Inr _)) \<Rightarrow> cl\<lparr>cl_epoch := epoch S\<rparr> | _ \<Rightarrow> cl)"

text \<open>
  A call the wire can carry: its enumerations are enumerators, its payload is a record, the request
  fits a frame, and the result, if the operation does not throw, fits a frame.
\<close>

fun op_ok :: "client_op \<Rightarrow> bool" where
  "op_ok (Op_Profile source boot sgen profile kd domain) \<longleftrightarrow> kind profile = KRecord \<and> canon_ok profile \<and> profile_kind_ok kd"
| "op_ok (Op_Rule source boot sgen r) \<longleftrightarrow> outcome_ok (r_outcome r) \<and> kind_option_ok (r_left_kind r) \<and>
     kind_option_ok (r_right_kind r) \<and> (\<forall>c \<in> set (r_required r) \<union> set (r_incompatible_with r). pred_op_ok (c_op c))"
| "op_ok (Op_Evidence source boot sgen ev) \<longleftrightarrow> kind (ev_value ev) = KRecord \<and> canon_ok (ev_value ev)"
| "op_ok _ \<longleftrightarrow> True"

definition decision_sendable :: "decision \<Rightarrow> bool" where
  "decision_sendable d \<longleftrightarrow> outcome_ok (d_outcome d) \<and> (\<exists>p. enc_decision_wire d = Inr p \<and> sendable p)"

fun servable :: "client_op \<Rightarrow> coordinator \<Rightarrow> bool" where
  "servable (Op_Pair left right) S \<longleftrightarrow>
     (\<forall>d. fst (evaluate_pair left right (co_registry S)) = Inr d \<longrightarrow> decision_sendable d)"
| "servable (Op_Requirement candidate req) S \<longleftrightarrow>
     (\<forall>d. fst (evaluate_requirement candidate req (co_registry S)) = Inr d \<longrightarrow> decision_sendable d)"
| "servable Op_Snapshot S \<longleftrightarrow> (\<forall>bs. snapshot (co_registry S) = Inr bs \<longrightarrow> length bs < 2 ^ 25)"
| "servable _ S \<longleftrightarrow> True"

text \<open>The request can be made and sent.\<close>

definition expressible :: "u64 \<Rightarrow> client_op \<Rightarrow> bool" where
  "expressible ep c \<longleftrightarrow> op_ok c \<and> (\<exists>p. op_request ep c = Inr p \<and> sendable p)"

definition deliverable :: "u64 \<Rightarrow> client_op \<Rightarrow> coordinator \<Rightarrow> bool" where
  "deliverable ep c S \<longleftrightarrow> expressible ep c \<and> servable c S"

section \<open>One call\<close>

text \<open>What the client makes of a response.\<close>

fun read_answer :: "client_op \<Rightarrow> net_message \<Rightarrow> answer" where
  "read_answer (Op_Source source sc) resp = Booted (field_uuid zero_uuid resp 1)"
| "read_answer (Op_Profile source boot sgen profile kd domain) resp = Registered (field_uuid zero_uuid resp 1)"
| "read_answer (Op_Pair left right) resp = Decided (empty_decision\<lparr>d_left := left, d_right := right,
     d_outcome := outcome_cast (ucast (uint_or 0 (m_payload resp) 1)),
     d_decision_id := field_uuid zero_uuid resp 2, d_rule_id := field_uuid zero_uuid resp 3,
     d_explanation := str_or [] (m_payload resp) 4\<rparr>)"
| "read_answer (Op_Requirement candidate req) resp = Decided (empty_decision\<lparr>d_left := candidate, d_right := req,
     d_outcome := outcome_cast (ucast (uint_or 0 (m_payload resp) 1)), d_decision_id := field_uuid zero_uuid resp 2\<rparr>)"
| "read_answer c resp = Done"

lemma answer_with_send: "answer_with f (send_record x cl t record read) = send_record x cl t record (\<lambda>resp. f (read resp))"
  by (simp add: answer_with_def send_record_def bindE_def map_sum.comp split: sum.split)

lemma send_record_cong: "(\<And>resp. f resp = g resp) \<Longrightarrow> send_record x cl t r f = send_record x cl t r g"
  by presburger

lemma issue_sends:
  "fst (issue x c cl) = send_record x cl (op_type c) (op_request (cl_epoch cl) c) (read_answer c)"
proof (cases c)
  case (Op_Source source sc)
  then show ?thesis
    by (simp add: client_register_source_def send_record_def answer_with_def bindE_def split: sum.split)
qed (auto simp: answer_with_send client_register_profile_def client_register_rule_def client_register_evidence_def
    client_query_pair_def client_query_requirement_def client_invalidate_def client_snapshot_def client_shutdown_def
    empty_decision_def intro!: send_record_cong)

lemma acknowledged [simp]: "ack_rec = Inr (CRecord [])"
  by (simp add: ack_rec_def mk_record_literal)

text \<open>The handler does what was promised, and its response says so.\<close>

definition handled_as :: "uuid \<Rightarrow> u64 \<Rightarrow> client_op \<Rightarrow> canon \<Rightarrow> coordinator \<Rightarrow> bool" where
  "handled_as u ep c p S \<longleftrightarrow>
     (case handle_request u \<lparr>m_type = op_type c, m_payload = p\<rparr> S of
        (Inl e, S') \<Rightarrow> promised u ep c S = (Inl e, S')
      | (Inr (ok, resp), S') \<Rightarrow>
          promised u ep c S = (if ok then Inr (Inr (read_answer c resp)) else refusal, S') \<and>
          (ok \<longrightarrow> m_type resp \<noteq> Error \<and> msg_type_ok (m_type resp) \<and> sendable (m_payload resp)))"

lemma small_sendable: "canon_ok c \<Longrightarrow> length (enc c) < 2 ^ 26 - 5 \<Longrightarrow> sendable c"
  by (simp add: sendable_def canon_fits_small k_magic_def max_frame_def)

lemma handled_source:
  "source_request source sc = Inr p \<Longrightarrow> handled_as u ep (Op_Source source sc) p S"
  by (auto simp: source_request_def handled_as_def handle_request_def handle_register_source_def Let_def field_str_def
      field_uuid_def codec_simps refusal_def small_sendable bytes_length)

lemma source_epoch:
  "source_request source sc = Inr p \<Longrightarrow>
     handle_request u \<lparr>m_type = Register_Source, m_payload = p\<rparr> S = (Inr (True, resp), S') \<Longrightarrow>
     uint_or 0 (m_payload resp) 2 = epoch S"
  by (auto simp: source_request_def handle_request_def handle_register_source_def Let_def codec_simps split: if_splits)

lemma handled_profile:
  assumes "profile_request ep source boot sgen profile kd domain = Inr p" and "op_ok (Op_Profile source boot sgen profile kd domain)"
  shows "handled_as u ep (Op_Profile source boot sgen profile kd domain) p S"
proof -
  obtain r where r: "profile = CRecord r"
    using assms(2) by (cases profile) simp_all
  have p: "p = CRecord [(1, CStr source), (2, CUuid boot), (3, CUint sgen), (4, CStr domain), (5, profile),
      (6, CUint (ucast (profile_kind_code kd))), (epoch_tag, CUint ep)]"
    using assms(1,2) r by (simp add: profile_request_def mk_record_tags_ok codec_simps)
  obtain x R where reg: "register_new_profile u kd profile [] [] (co_registry S) = (x, R)"
    by (cases "register_new_profile u kd profile [] [] (co_registry S)")
  show ?thesis
    using assms(2) reg r unfolding p
    by (cases "profile_refused source boot sgen domain ep S"; cases x)
      (auto simp: handled_as_def handle_request_def handle_register_profile_def Let_def field_str_def field_uuid_def
        codec_simps casts_back authorised_def on_registry_def refusal_def small_sendable bytes_length)
qed

lemma handled_rule:
  assumes "rule_request ep source boot sgen r = Inr p" and "op_ok (Op_Rule source boot sgen r)"
  shows "handled_as u ep (Op_Rule source boot sgen r) p S"
proof -
  have "wire_rule \<lparr>m_type = Register_Rule, m_payload = p\<rparr> = wired r"
    using wire_rule_wired [OF assms(1)] assms(2) by simp
  moreover have "field p 1 = Some (CStr source)" "field p 2 = Some (CUuid boot)" "field p epoch_tag = Some (CUint ep)"
    using rule_request_authority [OF assms(1)] by simp_all
  ultimately show ?thesis
    by (cases "update_refused source boot ep S")
      (auto simp: handled_as_def handle_request_def handle_register_rule_def field_str_def field_uuid_def uuid_or_def str_or_def
        uint_or_def authorised_def on_registry_def refusal_def small_sendable apfst_def)
qed

lemma handled_evidence:
  assumes "evidence_request ep source boot sgen ev = Inr p" and "op_ok (Op_Evidence source boot sgen ev)"
  shows "handled_as u ep (Op_Evidence source boot sgen ev) p S"
proof -
  obtain r where r: "ev_value ev = CRecord r"
    using assms(2) by (cases "ev_value ev") simp_all
  have p: "p = CRecord [(1, CStr source), (2, CUuid boot), (3, CUint sgen), (4, CStr (ev_field ev)), (5, ev_value ev),
      (epoch_tag, CUint ep)]"
    using assms r by (simp add: evidence_request_def mk_record_tags_ok codec_simps)
  show ?thesis
    unfolding p
    by (cases "update_refused source boot ep S")
      (auto simp: handled_as_def handle_request_def handle_register_evidence_def wire_evidence_def wired_evidence_def
        field_str_def field_uuid_def codec_simps authorised_def on_registry_def refusal_def small_sendable)
qed

lemma handled_invalidate:
  assumes "invalidate_request ep source boot sgen target reason = Inr p"
  shows "handled_as u ep (Op_Invalidate source boot sgen target reason) p S"
proof -
  have p: "p = CRecord [(1, CStr source), (2, CUuid boot), (3, CUint sgen), (4, CUuid target), (5, CStr reason),
      (epoch_tag, CUint ep)]"
    using assms by (simp add: invalidate_request_def mk_record_literal)
  show ?thesis
    unfolding p
    by (cases "update_refused source boot ep S")
      (auto simp: handled_as_def handle_request_def handle_invalidate_def field_str_def field_uuid_def codec_simps
        authorised_def on_registry_def refusal_def small_sendable)
qed

lemma wire_decision:
  assumes "decision_sendable d"
  obtains p where "enc_decision_wire d = Inr p" "sendable p" "field p 1 = Some (CUint (ucast (outcome_code (d_outcome d))))"
    "field p 2 = Some (CUuid (d_decision_id d))" "field p 3 = Some (CUuid (d_rule_id d))"
    "field p 4 = Some (CStr (d_explanation d))" "outcome_ok (d_outcome d)"
  using assms by (auto simp: decision_sendable_def enc_decision_wire_def mk_record_literal field_Cons)

lemma handled_queries:
  assumes "query_request ep left right = Inr p"
  shows "servable (Op_Pair left right) S \<Longrightarrow> handled_as u ep (Op_Pair left right) p S"
    and "servable (Op_Requirement left right) S \<Longrightarrow> handled_as u ep (Op_Requirement left right) p S"
proof -
  have p: "p = CRecord [(1, CUuid left), (2, CUuid right), (epoch_tag, CUint ep)]"
    using assms by (simp add: query_request_def mk_record_literal)
  have query: "handle_query f \<lparr>m_type = t, m_payload = p\<rparr> S = (case f left right (co_registry S) of
      (Inl e, R) \<Rightarrow> (Inl e, S\<lparr>co_registry := R\<rparr>)
    | (Inr d, R) \<Rightarrow> (respond Decision (enc_decision_wire d), S\<lparr>co_registry := R\<rparr>))" for f t
    by (simp add: handle_query_def p field_uuid_def codec_simps)
  show "handled_as u ep (Op_Pair left right) p S" if served: "servable (Op_Pair left right) S"
  proof -
    obtain x R where ev: "evaluate_pair left right (co_registry S) = (x, R)"
      by (cases "evaluate_pair left right (co_registry S)")
    show ?thesis
    proof (cases x)
      case (Inl e)
      with ev show ?thesis
        by (simp add: handled_as_def handle_request_def query on_registry_def)
    next
      case (Inr d)
      then have d: "decision_sendable d"
        using served ev by simp
      obtain q where q: "enc_decision_wire d = Inr q" "sendable q" "field q 1 = Some (CUint (ucast (outcome_code (d_outcome d))))"
        "field q 2 = Some (CUuid (d_decision_id d))" "field q 3 = Some (CUuid (d_rule_id d))"
        "field q 4 = Some (CStr (d_explanation d))" "outcome_ok (d_outcome d)"
        by (rule wire_decision [OF d])
      then show ?thesis
        using ev Inr
        by (simp add: handled_as_def handle_request_def query on_registry_def field_uuid_def uuid_or_def str_or_def
            uint_or_def Outcome_u8.cast_u64)
    qed
  qed
  show "handled_as u ep (Op_Requirement left right) p S" if served: "servable (Op_Requirement left right) S"
  proof -
    obtain x R where ev: "evaluate_requirement left right (co_registry S) = (x, R)"
      by (cases "evaluate_requirement left right (co_registry S)")
    show ?thesis
    proof (cases x)
      case (Inl e)
      with ev show ?thesis
        by (simp add: handled_as_def handle_request_def query on_registry_def)
    next
      case (Inr d)
      then have d: "decision_sendable d"
        using served ev by simp
      obtain q where q: "enc_decision_wire d = Inr q" "sendable q" "field q 1 = Some (CUint (ucast (outcome_code (d_outcome d))))"
        "field q 2 = Some (CUuid (d_decision_id d))" "field q 3 = Some (CUuid (d_rule_id d))"
        "field q 4 = Some (CStr (d_explanation d))" "outcome_ok (d_outcome d)"
        by (rule wire_decision [OF d])
      then show ?thesis
        using ev Inr
        by (simp add: handled_as_def handle_request_def query on_registry_def field_uuid_def uuid_or_def str_or_def
            uint_or_def Outcome_u8.cast_u64)
    qed
  qed
qed

lemma handled_snapshot:
  "servable Op_Snapshot S \<Longrightarrow> handled_as u ep Op_Snapshot p S"
  by (cases "snapshot (co_registry S)")
    (auto simp: handled_as_def handle_request_def handle_snapshot_def codec_simps small_sendable bytes_length bytes_str_def
      respond_def)

lemma handled_shutdown: "handled_as u ep Op_Shutdown p S"
  by (simp add: handled_as_def handle_request_def small_sendable)

lemma deliverable_handled:
  assumes "op_request ep c = Inr p" and "op_ok c" and "servable c S"
  shows "handled_as u ep c p S"
  using assms handled_source handled_profile handled_rule handled_evidence handled_queries handled_invalidate
    handled_snapshot handled_shutdown by (cases c) simp_all

section \<open>Sessions\<close>

lemma next_client_connected [simp]: "connected (next_client c r S cl) = connected cl"
  by (simp add: next_client_def split: client_op.split sum.split)

text \<open>What becomes of the coordinator when it handles a request that is sent alone.\<close>

lemma peer_after_reply:
  assumes "frame_message t p = Inr f" and "sendable p" and "msg_type_ok t" and "answers u S \<lparr>m_type = t, m_payload = p\<rparr>"
  shows "peer_after u (Serving late S) f =
    (if t = Shutdown then Gone late Shut_Down else Serving late) (snd (handle_request u \<lparr>m_type = t, m_payload = p\<rparr> S))"
proof -
  have "recv_frame f = Inr (\<lparr>m_type = t, m_payload = p\<rparr>, [])"
    using sendable_framed [OF assms(2,3)] assms(1) frame_of_alone by (auto simp: frame_of_def)
  then show ?thesis
    using serve_one [OF _ assms(4), of f] by auto
qed

lemma peer_after_throw:
  assumes "frame_message t p = Inr f" and "sendable p" and "msg_type_ok t"
    and "handle_request u \<lparr>m_type = t, m_payload = p\<rparr> S = (Inl e, S')"
  shows "peer_after u (Serving late S) f = Gone late (Crashed e) S'" and "ask u S f = Some []"
proof -
  have "recv_frame f = Inr (\<lparr>m_type = t, m_payload = p\<rparr>, [])"
    using sendable_framed [OF assms(2,3)] assms(1) frame_of_alone by (auto simp: frame_of_def)
  from serve_throws [OF this assms(4)] show "peer_after u (Serving late S) f = Gone late (Crashed e) S'" "ask u S f = Some []"
    by (simp_all add: ask_def)
qed

lemma op_type_simps [simp]: "msg_type_ok (op_type c)" "op_type c = Shutdown \<longleftrightarrow> c = Op_Shutdown"
  by (cases c; simp)+

lemma issue_fails:
  assumes "send_record x cl (op_type c) (op_request (cl_epoch cl) c) (\<lambda>resp. resp) = Inr (Inl err)"
  shows "issue x c cl = (Inr (Inl err), cl)"
proof -
  have "send_record x cl (op_type c) (op_request (cl_epoch cl) c) (read_answer c) = Inr (Inl err)"
    using assms by (auto simp: send_record_def bindE_def split: sum.splits)
  then have "fst (issue x c cl) = Inr (Inl err)"
    by (simp add: issue_sends)
  moreover have "snd (issue x c cl) = cl"
    using assms by (cases c) (simp_all add: client_register_source_def)
  ultimately show ?thesis
    by (metis prod.collapse)
qed

lemma issue_succeeds:
  assumes "send_record x cl (op_type c) (op_request (cl_epoch cl) c) (\<lambda>resp. resp) = Inr (Inr resp)"
  shows "issue x c cl =
    (Inr (Inr (read_answer c resp)), case c of Op_Source _ _ \<Rightarrow> cl\<lparr>cl_epoch := uint_or 0 (m_payload resp) 2\<rparr> | _ \<Rightarrow> cl)"
proof -
  have sent: "send_record x cl (op_type c) (op_request (cl_epoch cl) c) read = Inr (Inr (read resp))" for read :: "net_message \<Rightarrow> 'a"
    using assms by (auto simp: send_record_def bindE_def split: sum.splits)
  have "fst (issue x c cl) = Inr (Inr (read_answer c resp))"
    unfolding issue_sends by (rule sent)
  moreover have "snd (issue x c cl) = (case c of Op_Source _ _ \<Rightarrow> cl\<lparr>cl_epoch := uint_or 0 (m_payload resp) 2\<rparr> | _ \<Rightarrow> cl)"
    using sent [of "\<lambda>resp. resp"] by (cases c) (simp_all add: client_register_source_def)
  ultimately show ?thesis
    by (metis prod.collapse)
qed

text \<open>
  One call of a coordinator that serves: what the caller gets is what was promised, and the coordinator is
  left as promised. The only thing the client remembers is the epoch.
\<close>

lemma remote_call:
  assumes "connected cl" and "deliverable (cl_epoch cl) c S"
  shows "remote u c (cl, Serving late S) =
    (case settle late c (promised u (cl_epoch cl) c S) of (r, P) \<Rightarrow> (r, next_client c r S cl, P))"
proof -
  let ?t = "op_type c"
  obtain p where p: "op_request (cl_epoch cl) c = Inr p" "sendable p" "handled_as u (cl_epoch cl) c p S"
    using assms(2) deliverable_handled by (auto simp: deliverable_def expressible_def)
  let ?m = "\<lparr>m_type = ?t, m_payload = p\<rparr>"
  obtain f where f: "frame_message ?t p = Inr f"
    using sendable_framed [OF p(2) op_type_simps(1)] by (auto simp: frame_of_def)
  obtain r S' where h: "handle_request u ?m S = (r, S')"
    by (cases "handle_request u ?m S")
  show ?thesis
  proof (cases r)
    case (Inl e)
    then have pr: "promised u (cl_epoch cl) c S = (Inl e, S')"
      using p(3) h by (simp add: handled_as_def)
    note gone = peer_after_throw [OF f p(2) _ h [unfolded Inl]]
    have "send_record (ask u S) cl ?t (op_request (cl_epoch cl) c) (\<lambda>resp. resp) = Inr (Inl ''recv header failed'')"
      using assms(1) p(1) f gone(2) by (simp add: send_record_def client_send_def receive_def recv_frame_Nil)
    from issue_fails [OF this] show ?thesis
      using assms(1) p(1) f gone(1) by (simp add: remote_def pr next_client_def split: client_op.split)
  next
    case (Inr v)
    obtain ok resp where v: "v = (ok, resp)"
      by (cases v)
    have pr: "promised u (cl_epoch cl) c S = (if ok then Inr (Inr (read_answer c resp)) else refusal, S')"
      and sent: "ok \<longrightarrow> m_type resp \<noteq> Error \<and> msg_type_ok (m_type resp) \<and> sendable (m_payload resp)"
      using p(3) h by (simp_all add: handled_as_def Inr v)
    have ans: "answers u S ?m"
      using h sent by (simp add: answers_def Inr v)
    note left = peer_after_reply [OF f p(2) op_type_simps(1) ans, of late, unfolded h snd_conv]
    have "send_record (ask u S) cl ?t (op_request (cl_epoch cl) c) (\<lambda>resp. resp) = (if ok then Inr (Inr resp) else refusal)"
      using coordinator_peer.send_record_reply [OF assms(1) p(2) op_type_simps(1) ans p(1), of "\<lambda>resp. resp"] h sent
      by (auto simp: reply_message_def refusal_def field_str_def codec_simps Let_def Inr v)
    then have "issue (ask u S) c cl = (fst (promised u (cl_epoch cl) c S), next_client c (fst (promised u (cl_epoch cl) c S)) S cl)"
      using issue_succeeds [of "ask u S" cl c resp] issue_fails [of "ask u S" cl c "''request failed''"] pr h p(1)
        source_epoch [of _ _ p u S]
      by (cases c; cases ok) (auto simp: refusal_def next_client_def Inr v)
    then show ?thesis
      using assms(1) p(1) f left by (cases ok) (simp_all add: remote_def pr refusal_def)
  qed
qed

text \<open>A call of a coordinator that is gone fails and changes nothing.\<close>

lemma remote_gone:
  assumes "connected cl" and "expressible (cl_epoch cl) c"
  shows "remote u c (cl, Gone late e S) = (unreachable late, cl, Gone (\<lambda>n. late (Suc n)) e S)"
proof -
  obtain p where p: "op_request (cl_epoch cl) c = Inr p" "sendable p"
    using assms(2) by (auto simp: expressible_def)
  obtain f where f: "frame_message (op_type c) p = Inr f"
    using sendable_framed [OF p(2) op_type_simps(1)] by (auto simp: frame_of_def)
  have "send_record (exchange_with u (Gone late e S)) cl (op_type c) (op_request (cl_epoch cl) c) (\<lambda>resp. resp) =
      Inr (Inl (if late 0 then ''recv header failed'' else ''send failed''))"
    using assms(1) p(1) f by (simp add: send_record_def client_send_def receive_def recv_frame_Nil)
  from issue_fails [OF this] show ?thesis
    using assms(1) p(1) f by (simp add: remote_def unreachable_def)
qed

text \<open>A session, as promised.\<close>

fun promised_session :: "(nat \<Rightarrow> uuid) \<Rightarrow> nat \<Rightarrow> client_op list \<Rightarrow> link \<Rightarrow> answer call list \<times> link" where
  "promised_session seed k [] s = ([], s)"
| "promised_session seed k (c # cs) (cl, Serving late S) =
     (case settle late c (promised (seed k) (cl_epoch cl) c S) of (r, P) \<Rightarrow>
       (case promised_session seed (Suc k) cs (next_client c r S cl, P) of (rs, s') \<Rightarrow> (r # rs, s')))"
| "promised_session seed k (c # cs) (cl, Gone late e S) =
     (case promised_session seed (Suc k) cs (cl, Gone (\<lambda>n. late (Suc n)) e S) of (rs, s') \<Rightarrow> (unreachable late # rs, s'))"

fun deliverable_session :: "(nat \<Rightarrow> uuid) \<Rightarrow> nat \<Rightarrow> client_op list \<Rightarrow> link \<Rightarrow> bool" where
  "deliverable_session seed k [] s \<longleftrightarrow> True"
| "deliverable_session seed k (c # cs) (cl, Serving late S) \<longleftrightarrow>
     deliverable (cl_epoch cl) c S \<and>
     (case settle late c (promised (seed k) (cl_epoch cl) c S) of (r, P) \<Rightarrow>
       deliverable_session seed (Suc k) cs (next_client c r S cl, P))"
| "deliverable_session seed k (c # cs) (cl, Gone late e S) \<longleftrightarrow>
     expressible (cl_epoch cl) c \<and> deliverable_session seed (Suc k) cs (cl, Gone (\<lambda>n. late (Suc n)) e S)"

lemma session_as_promised:
  "connected (fst s) \<Longrightarrow> deliverable_session seed k cs s \<Longrightarrow> remote_session seed k cs s = promised_session seed k cs s"
proof (induction seed k cs s rule: promised_session.induct)
  case (2 seed k c cs cl late S)
  obtain r P where pr: "settle late c (promised (seed k) (cl_epoch cl) c S) = (r, P)"
    by (cases "settle late c (promised (seed k) (cl_epoch cl) c S)")
  show ?case
    using 2 remote_call [of cl c S "seed k" late] by (simp add: pr case_prod_beta)
next
  case (3 seed k c cs cl late e S)
  then show ?case
    using remote_gone [of cl c "seed k" late e S] by (simp add: case_prod_beta)
qed simp

section \<open>Properties\<close>

text \<open>
  Property C4. The client and the coordinator implement the registry over the network: in any
  sequence of calls that the wire can carry, as long as the coordinator serves, each call returns what the
  registry operation itself returns (profiles under the id drawn by the coordinator, decisions with their
  outcome, id, rule and explanation), has the effect of that operation and no other, and is refused without
  effect exactly when the epoch, the boot id, the generation or the scope of its source do not give it
  the authority. A shutdown is answered and ends the coordinator; an exception of the operation ends it before it
  answers. From then on every call fails and changes nothing: nothing is received, or nothing can be sent.
\<close>

theorem sessions_as_promised:
  assumes "connected cl" and "deliverable_session seed k cs (cl, P)"
  shows "remote_session seed k cs (cl, P) = promised_session seed k cs (cl, P)"
  using session_as_promised assms by simp

theorem sessions_as_promised_witness:
  "\<exists>s. remote_session (\<lambda>_. Uuid 1) 0 [Op_Source ''a'' ''*'', Op_Rule ''a'' (Uuid 1) 1 (example_rule 1),
      Op_Rule ''a'' (Uuid 2) 1 (example_rule 1), Op_Shutdown, Op_Source ''a'' ''*'', Op_Source ''a'' ''*'']
      (\<lparr>connected = True, cl_epoch = 0\<rparr>, Serving (\<lambda>n. n = 0) (start_coordinator empty_registry)) =
    ([Inr (Inr (Booted (Uuid 1))), Inr (Inr Done), Inr (Inl ''request failed''), Inr (Inr Done),
      Inr (Inl ''recv header failed''), Inr (Inl ''send failed'')], s)"
proof -
  let ?cs = "[Op_Source ''a'' ''*'', Op_Rule ''a'' (Uuid 1) 1 (example_rule 1), Op_Rule ''a'' (Uuid 2) 1 (example_rule 1),
    Op_Shutdown, Op_Source ''a'' ''*'', Op_Source ''a'' ''*'']"
  let ?s = "(\<lparr>connected = True, cl_epoch = 0\<rparr>, Serving (\<lambda>n. n = 0) (start_coordinator empty_registry))"
  have "deliverable_session (\<lambda>_. Uuid 1) 0 ?cs ?s"
    by (simp add: deliverable_def expressible_def source_request_def rule_request_def example_rule_def mk_record_tags_ok
        small_sendable bytes_length kind_option_ok_def next_client_def start_coordinator_def authorised_def update_refused_def
        on_registry_def refusal_def)
  from sessions_as_promised [OF _ this] show ?thesis
    by (simp add: next_client_def start_coordinator_def authorised_def update_refused_def on_registry_def refusal_def apfst_def
        unreachable_def)
qed

end
