(* ===== verification/Scenario.thy ===== *)
theory Scenario
  imports Verdict Machine Profiles Cuda
begin

text \<open>
  What the programs of the repository that drive the library have in common: they register kernels,
  devices and a rule that compares compute capabilities, evaluate pairs, and save the registry. The
  registries they build and the decisions on them are derived for every choice of the random ids
  they draw; the downstream consumer (\<^verbatim>\<open>downstream/consumer.cpp\<close>) is one of the programs.
\<close>

section \<open>Calling a registry\<close>

text \<open>An exception of a call ends the computation; otherwise it goes on in the new state.\<close>

definition callE :: "'a res \<times> registry \<Rightarrow> ('a \<Rightarrow> registry \<Rightarrow> 'b res) \<Rightarrow> 'b res" where
  "callE x f = (case x of (Inl e, _) \<Rightarrow> Inl e | (Inr v, R) \<Rightarrow> f v R)"

lemma callE_simps [simp]: "callE (Inl e, R) f = Inl e" "callE (Inr v, R) f = f v R"
  by (simp_all add: callE_def)

text \<open>What a proof program checks: a condition with its message.\<close>

type_synonym checks = "(bool \<times> string) list"

text \<open>\<^verbatim>\<open>catch (const std::exception& e)\<close>: only reads past a buffer are not caught.\<close>

fun what :: "error \<Rightarrow> string" where
  "what (Canon_Error s) = s"
| "what (Runtime_Error s) = s"
| "what (Invalid_Argument s) = s"
| "what Out_Of_Bounds = []"

definition catching :: "(error \<Rightarrow> 'a) \<Rightarrow> 'a res \<Rightarrow> 'a res" where
  "catching h r = (case r of Inl e \<Rightarrow> if e = Out_Of_Bounds then Inl e else Inr (h e) | Inr v \<Rightarrow> Inr v)"

section \<open>The rule and the profiles\<close>

definition default_rule :: rule where
  "default_rule = \<lparr>r_rule_id = zero_uuid, r_generation = 0, r_domain = [], r_scope = [], r_priority = 0,
     r_active = True, r_kind = RK_Equality, r_left_kind = None, r_right_kind = None, r_required = [],
     r_any_of = [], r_incompatible_with = [], r_conditions = [], r_adaptations = [], r_outcome = Compatible,
     r_provenance = []\<rparr>"

definition default_constraint :: constraint where
  "default_constraint = \<lparr>c_op = P_Eq, c_field = [], c_right_field = [], c_expected = CNull,
     c_expected2 = CNull, c_set = [], c_note = []\<rparr>"

definition capability_clause :: "pred_op \<Rightarrow> constraint" where
  "capability_clause op = default_constraint\<lparr>c_op := op, c_field := ''compute_capability'',
     c_right_field := ''compute_capability''\<rparr>"

text \<open>A kernel may run on a device whose capability is at least its own.\<close>

definition capability_rule :: "uuid \<Rightarrow> string \<Rightarrow> rule" where
  "capability_rule u dmn = default_rule\<lparr>r_rule_id := u, r_domain := dmn, r_scope := ''pair'',
     r_left_kind := Some PK_Kernel, r_right_kind := Some PK_Device,
     r_required := [capability_clause P_Version_Le], r_incompatible_with := [capability_clause P_Version_Gt]\<rparr>"

definition default_kernel :: kernel_profile where
  "default_kernel = \<lparr>ke_kernel_artifact_id = zero_uuid, ke_operation = [], ke_architecture = [],
     ke_compute_capability = [], ke_abi = [], ke_runtime = [], ke_compiler = [], ke_compiler_version = [],
     ke_dtype = [], ke_layout = [], ke_shape_spec = [], ke_launch_geometry = [], ke_quantization = [],
     ke_interface = [], ke_generation = 0, ke_artifact_digest = []\<rparr>"

definition add_kernel :: "uuid \<Rightarrow> string \<Rightarrow> string \<Rightarrow> kernel_profile" where
  "add_kernel u arch cap = default_kernel\<lparr>ke_kernel_artifact_id := u, ke_operation := ''add'',
     ke_architecture := arch, ke_compute_capability := cap, ke_abi := ''cuda'', ke_runtime := ''cudart'',
     ke_compiler := ''nvcc'', ke_compiler_version := ''12.9'', ke_dtype := ''f32'', ke_layout := ''aos'',
     ke_shape_spec := ''[N]''\<rparr>"

definition nvidia_device :: "uuid \<Rightarrow> string \<Rightarrow> string \<Rightarrow> u64 \<Rightarrow> device_profile" where
  "nvidia_device u arch cap memory = \<lparr>de_device_id = u, de_vendor = ''NVIDIA'', de_architecture = arch,
     de_compute_capability = cap, de_memory_model = ''global'', de_total_memory = Some memory,
     de_supported_dtypes = [''f16'', ''f32'', ''bf16''], de_instruction_classes = [''sm_120''],
     de_execution_features = [], de_runtime_min = [], de_driver_min = []\<rparr>"

section \<open>What the rule says of a kernel and a device\<close>

text \<open>The sign of the comparison of two capabilities.\<close>

definition exceeds :: "string \<Rightarrow> string \<Rightarrow> bool" where
  "exceeds kc dc \<longleftrightarrow> 0 < compare_ver (parse_ver kc) (parse_ver dc)"

definition capability_of :: "profile_kind \<Rightarrow> profile_record \<Rightarrow> string option" where
  "capability_of kd p =
     (case resolve_profile_field kd (p_payload p) ''compute_capability'' of Some (CStr s) \<Rightarrow> Some s | _ \<Rightarrow> None)"

lemma capability_of_Some:
  "capability_of kd p = Some s \<longleftrightarrow> resolve_profile_field kd (p_payload p) ''compute_capability'' = Some (CStr s)"
  by (auto simp: capability_of_def split: option.splits canon.splits)

definition capability_pair :: "string \<Rightarrow> string \<Rightarrow> profile_record \<Rightarrow> profile_record \<Rightarrow> bool" where
  "capability_pair kc dc l r \<longleftrightarrow> p_kind l = PK_Kernel \<and> p_kind r = PK_Device \<and>
     capability_of PK_Kernel l = Some kc \<and> capability_of PK_Device r = Some dc"

lemma capability_clause_check:
  assumes "capability_pair kc dc l r"
  shows "constraint_known (capability_clause op) l r"
    and "check (capability_clause P_Version_Le) l r =
      Inr (if exceeds kc dc then fails ''version relation fails'' else holds ''version relation holds'')"
    and "check (capability_clause P_Version_Gt) l r =
      Inr (if exceeds kc dc then holds ''version relation holds'' else fails ''version relation fails'')"
proof -
  have res: "resolve_profile_field (p_kind l) (p_payload l) ''compute_capability'' = Some (CStr kc)"
    "resolve_profile_field (p_kind r) (p_payload r) ''compute_capability'' = Some (CStr dc)"
    using assms by (simp_all add: capability_pair_def capability_of_Some)
  show "constraint_known (capability_clause op) l r"
    using res by (simp add: constraint_known_def capability_clause_def default_constraint_def)
  show "check (capability_clause P_Version_Le) l r =
      Inr (if exceeds kc dc then fails ''version relation fails'' else holds ''version relation holds'')"
    "check (capability_clause P_Version_Gt) l r =
      Inr (if exceeds kc dc then holds ''version relation holds'' else fails ''version relation fails'')"
    using res
    by (simp_all add: check_def evaluate_def capability_clause_def default_constraint_def eval_version_def
        cmp_ver_compare ver_of_def as_string_def exceeds_def)
qed

lemma capability_clause_truth:
  assumes "capability_pair kc dc l r"
  shows "truth_of l r (capability_clause P_Version_Le) = (if exceeds kc dc then Fails else Holds)"
    and "truth_of l r (capability_clause P_Version_Gt) = (if exceeds kc dc then Holds else Fails)"
    and "settled l r (capability_clause P_Version_Le)" and "settled l r (capability_clause P_Version_Gt)"
  using capability_clause_check [OF assms] by (auto simp: truth_of_def met_def settled_def)

lemma capability_verdict:
  assumes "capability_pair kc dc l r"
  shows "verdict_of (capability_rule u dmn\<lparr>r_generation := g\<rparr>) (truth_of l r) =
      Some (if exceeds kc dc then Incompatible else Compatible)"
    and "\<forall>c \<in> clauses (capability_rule u dmn\<lparr>r_generation := g\<rparr>). settled l r c"
  using capability_clause_truth [OF assms]
  by (auto simp: verdict_of_def capability_rule_def default_rule_def alternatives_met_def kind_outcome_def clauses_def)

section \<open>A registry of freshly registered profiles\<close>

definition fingerprint_of :: "canon \<Rightarrow> string" where
  "fingerprint_of c = sha_hex (sha256 (k_magic @ [k_version] @ enc c))"

definition fresh_profile :: "uuid \<Rightarrow> profile_kind \<Rightarrow> canon \<Rightarrow> profile_record" where
  "fresh_profile u kd c = (new_profile u kd c [] [])\<lparr>p_fingerprint := fingerprint_of c, p_generation := 1\<rparr>"

definition with_profiles :: "(uuid \<times> profile_kind \<times> canon) list \<Rightarrow> registry" where
  "with_profiles ps = empty_registry\<lparr>profiles := map (\<lambda>(u, kd, c). (u, [fresh_profile u kd c])) ps,
     registry_gen := word_of_nat (length ps)\<rparr>"

lemma fresh_profile_simps [simp]:
  "p_kind (fresh_profile u kd c) = kd" "p_id (fresh_profile u kd c) = u" "p_payload (fresh_profile u kd c) = c"
  "p_fingerprint (fresh_profile u kd c) = fingerprint_of c" "p_active (fresh_profile u kd c)"
  "p_deps (fresh_profile u kd c) = []" "p_generation (fresh_profile u kd c) = 1"
  "p_superseded (fresh_profile u kd c) = False" "p_provenance (fresh_profile u kd c) = []"
  by (simp_all add: fresh_profile_def new_profile_def)

lemma with_profiles_Nil: "with_profiles [] = empty_registry"
  by (simp add: with_profiles_def empty_registry_def)

lemma register_next:
  assumes "canon_ok c" and "u \<notin> fst ` set ps"
  shows "register_new_profile u kd c [] [] (with_profiles ps) = (Inr u, with_profiles (ps @ [(u, kd, c)]))"
proof -
  let ?m = "map (\<lambda>(u, kd, c). (u, [fresh_profile u kd c])) ps"
  have fresh: "u \<notin> fst ` set ?m"
    using assms(2) by force
  then have none: "map_of ?m u = None"
    by (simp only: map_of_eq_None_iff not_False_eq_True)
  moreover have "push u p ?m = ?m @ [(u, [p])]" for p
    using none fresh by (simp only: push_def option.case append_Nil update_fresh not_False_eq_True)
  moreover have "\<not> create_cycle u [] (graph empty_registry)"
    by (simp add: create_cycle_edges empty_registry_def edges_def adjacent_def)
  moreover have "add_dependency u [] (graph empty_registry) = graph empty_registry"
    by (simp add: add_dependency_def empty_registry_def)
  ultimately show ?thesis
    using assms(1)
    by (simp add: register_new_profile_def register_profile_def canonical_fingerprint_hex_enc new_profile_def Let_def
        with_profiles_def fresh_profile_def fingerprint_of_def empty_registry_def)
qed

lemma current_with_profiles:
  assumes "distinct (map fst ps)" and "(u, kd, c) \<in> set ps"
  shows "current u (with_profiles ps) = Some (fresh_profile u kd c)"
proof -
  have "map_of (map (\<lambda>(u, kd, c). (u, [fresh_profile u kd c])) ps) u = Some [fresh_profile u kd c]"
    using assms by (intro map_of_is_SomeI) (force simp: comp_def case_prod_unfold)+
  then show ?thesis
    by (simp add: current_def with_profiles_def newest_active_def)
qed

definition with_rule :: "rule \<Rightarrow> registry \<Rightarrow> registry" where
  "with_rule rl R = R\<lparr>rules := [(r_rule_id rl, \<lparr>rr_rule = rl\<lparr>r_generation := 1\<rparr>, rr_active = True, rr_superseded = False\<rparr>)],
     rule_gen := 1, registry_gen := registry_gen R + 1\<rparr>"

lemma register_first_rule:
  "r_generation rl = 0 \<Longrightarrow> register_rule rl (with_profiles ps) = (r_rule_id rl, with_rule rl (with_profiles ps))"
  by (simp add: register_rule_def with_rule_def with_profiles_def empty_registry_def)

lemma register_capability_rule:
  "register_rule (capability_rule u dmn) (with_profiles ps) = (u, with_rule (capability_rule u dmn) (with_profiles ps))"
  using register_first_rule [of "capability_rule u dmn" ps] by (simp add: capability_rule_def default_rule_def)

lemma with_rule_simps [simp]:
  "current u (with_rule rl R) = current u R" "profiles (with_rule rl R) = profiles R"
  "rules (with_rule rl R) = [(r_rule_id rl, \<lparr>rr_rule = rl\<lparr>r_generation := 1\<rparr>, rr_active = True, rr_superseded = False\<rparr>)]"
  "decisions (with_rule rl R) = decisions R" "policy_id (with_rule rl R) = policy_id R"
  "registry_gen (with_rule rl R) = registry_gen R + 1"
  by (simp_all add: with_rule_def current_def)

lemma capability_candidates:
  assumes "capability_pair kc dc l r"
  shows "candidates (scope_of False) l r (with_rule (capability_rule u dmn) R) =
    [(capability_rule u dmn)\<lparr>r_generation := 1\<rparr>]"
  using assms
  by (simp add: candidates_def applicable_def kind_matches_def capability_rule_def default_rule_def capability_pair_def)

text \<open>What the registry answers for a kernel and a device.\<close>

definition capability_outcome :: "string \<Rightarrow> string \<Rightarrow> profile_record \<Rightarrow> profile_record \<Rightarrow> outcome" where
  "capability_outcome kc dc l r =
     (if p_fingerprint l = p_fingerprint r then Exact else if exceeds kc dc then Incompatible else Compatible)"

lemma evaluate_exact:
  assumes "current left R = Some l" and "current right R = Some r" and "p_fingerprint l = p_fingerprint r"
  shows "\<exists>d. evaluate_locked left right q R = Inr d \<and> d_outcome d = Exact"
  using assms by (simp add: evaluate_locked_def Let_def with_digest_def compute_digest_canon)

lemma capability_decided:
  assumes "current kid R = Some l" and "current did R = Some r" and "capability_pair kc dc l r"
  shows "\<exists>d. evaluate_locked kid did False (with_rule (capability_rule u dmn) R) = Inr d \<and>
    d_outcome d = capability_outcome kc dc l r"
proof (cases "p_fingerprint l = p_fingerprint r")
  case True
  then show ?thesis
    using evaluate_exact [of kid "with_rule (capability_rule u dmn) R"] assms by (simp add: capability_outcome_def)
next
  case False
  have "named (r_outcome ((capability_rule u dmn)\<lparr>r_generation := 1\<rparr>))"
    by (simp add: capability_rule_def default_rule_def named_def)
  then have "\<exists>d. evaluate_locked kid did False (with_rule (capability_rule u dmn) R) = Inr d \<and>
      d_outcome d = resolution [(capability_rule u dmn)\<lparr>r_generation := 1\<rparr>] (truth_of l r)"
    using evaluate_locked_table [OF _ _ False, of kid "with_rule (capability_rule u dmn) R" did False] assms(1,2)
      capability_candidates [OF assms(3)] capability_verdict(2) [OF assms(3)] by simp
  moreover have "resolution [(capability_rule u dmn)\<lparr>r_generation := 1\<rparr>] (truth_of l r) =
      (if exceeds kc dc then Incompatible else Compatible)"
    by (simp add: resolution_def decides_def capability_verdict(1) [OF assms(3)])
  ultimately show ?thesis
    using False by (simp add: capability_outcome_def)
qed

section \<open>The decision in full\<close>

definition capability_items :: "bool \<Rightarrow> constraint_item list \<times> constraint_item list" where
  "capability_items over =
     (let le = capability_clause P_Version_Le; gt = capability_clause P_Version_Gt;
          yes = ''version relation holds''; no = ''version relation fails''
      in if over then ([], [item gt yes [] False []])
         else ([item gt [] no True [], item le yes [] True yes], []))"

lemma capability_eval:
  assumes "capability_pair kc dc l r"
    and "rl = (capability_rule u dmn)\<lparr>r_generation := 1\<rparr>"
  shows "\<exists>e. eval_rule rl l r = Inr e \<and> counts e \<and> e_rule e = rl \<and> \<not> e_missing e \<and>
    e_outcome e = (if exceeds kc dc then Incompatible else Compatible) \<and>
    (e_satisfied e, e_failed e) = capability_items (exceeds kc dc) \<and> e_adaptations e = [] \<and> e_missing_evidence e = []"
  using capability_clause_check [OF assms(1)]
  by (simp add: assms(2) eval_rule_def capability_rule_def default_rule_def start_eval_def holds_def fails_def
      any_of_result_def kind_result_def counts_def satisfied_def failed_def capability_items_def Let_def)

text \<open>A decision by the capability rule, up to its id, digest and explanation.\<close>

definition capability_decision :: "uuid \<Rightarrow> string \<Rightarrow> string \<Rightarrow> profile_record \<Rightarrow> profile_record \<Rightarrow> registry \<Rightarrow> decision" where
  "capability_decision u kc dc l r R =
     (let d = empty_decision\<lparr>d_left := p_id l, d_right := p_id r, d_policy_id := policy_id R,
        d_registry_generation := registry_gen R\<rparr>
      in if p_fingerprint l = p_fingerprint r
         then d\<lparr>d_outcome := Exact, d_satisfied := [\<lparr>ci_dimension = ''canonical_fingerprint'',
             ci_left = p_fingerprint l, ci_right = p_fingerprint r, ci_satisfied = True, ci_note = ''identical''\<rparr>],
           d_provenance := [''deterministic rule resolution'', ''identical canonical identity (exact)'']\<rparr>
         else d\<lparr>d_outcome := (if exceeds kc dc then Incompatible else Compatible), d_rule_id := u,
           d_rule_generation := 1, d_satisfied := fst (capability_items (exceeds kc dc)),
           d_failed := snd (capability_items (exceeds kc dc)),
           d_provenance := [''deterministic rule resolution'',
             ''rule '' @ uuid_to_string u @ '' (priority '' @ show_int 0 @ '')'']\<rparr>)"

lemma capability_decision_made:
  assumes "current kid R = Some l" and "current did R = Some r" and "capability_pair kc dc l r"
    and R'_def: "R' = with_rule (capability_rule u dmn) R"
  shows "\<exists>i dig expl. length dig = 32 \<and> evaluate_locked kid did False R' =
    Inr ((capability_decision u kc dc l r R')\<lparr>d_decision_id := i, d_digest := dig, d_explanation := expl\<rparr>)"
proof (cases "p_fingerprint l = p_fingerprint r")
  case True
  then have "evaluate_locked kid did False R' = with_digest (capability_decision u kc dc l r R')"
    using assms(1,2) by (simp add: R'_def evaluate_locked_def capability_decision_def Let_def empty_decision_def)
  moreover obtain dig where "compute_digest (capability_decision u kc dc l r R') = Inr dig" "length dig = 32"
    by (simp add: compute_digest_canon)
  moreover have "(capability_decision u kc dc l r R')\<lparr>d_digest := dig\<rparr> = (capability_decision u kc dc l r R')
      \<lparr>d_decision_id := zero_uuid, d_digest := dig, d_explanation := []\<rparr>" for dig
    using True by (simp add: capability_decision_def empty_decision_def)
  ultimately show ?thesis
    by (intro exI [of _ zero_uuid] exI [of _ dig] exI [of _ "[]"]) (simp only: with_digest_def bindE_simps simp_thms)
next
  case False
  obtain e where e: "eval_rule ((capability_rule u dmn)\<lparr>r_generation := 1\<rparr>) l r = Inr e" "counts e"
    "e_rule e = (capability_rule u dmn)\<lparr>r_generation := 1\<rparr>"
    "e_outcome e = (if exceeds kc dc then Incompatible else Compatible)"
    "e_satisfied e = fst (capability_items (exceeds kc dc))" "e_failed e = snd (capability_items (exceeds kc dc))"
    "e_adaptations e = []" "e_missing_evidence e = []"
    using capability_eval [OF assms(3) refl] by (metis fst_conv snd_conv)
  have name: "\<exists>name. outcome_name (if exceeds kc dc then Incompatible else Compatible) = Inr name"
    by simp
  show ?thesis
    using False e assms(1,2) name capability_candidates [OF assms(3)]
    by (auto simp: R'_def evaluate_locked_def capability_decision_def Let_def with_digest_def
        compute_digest_canon empty_decision_def decide_def take_eval_def decision_identity_def mk_record_tags_ok
        canonical_fingerprint_def canonical_encode_enc explain_text_def capability_rule_def default_rule_def)
qed

section \<open>Small registries can be written\<close>

lemma length_enc_mapE:
  assumes "mapE f xs = Inr ys" and "\<And>x y. x \<in> set xs \<Longrightarrow> f x = Inr y \<Longrightarrow> length (enc y) \<le> n"
  shows "length (enc_elements ys) \<le> length xs * n"
proof -
  have "list_all2 (\<lambda>x y. x \<in> set xs \<and> f x = Inr y) xs ys"
    using assms(1) by (auto simp: mapE_eq_Inr list_all2_conv_all_nth)
  then show ?thesis
    using assms(2) by (induction rule: list_all2_induct) (fastforce simp: add_le_mono)+
qed

lemma document_small:
  assumes "snapshot_document R = Inr doc" and "evidence R = []" and "invalidations R = []"
    and "\<And>p c. p \<in> set (concat (map snd (profiles R))) \<Longrightarrow> enc_profile p = Inr c \<Longrightarrow> length (enc c) \<le> 5000"
    and "\<And>rr c. rr \<in> snd ` set (rules R) \<Longrightarrow> enc_rule (rr_rule rr) (rr_active rr) = Inr c \<Longrightarrow> length (enc c) \<le> 5000"
    and "\<And>d c. d \<in> snd ` set (decisions R) \<Longrightarrow> enc_decision d = Inr c \<Longrightarrow> length (enc c) \<le> 5000"
    and "length (concat (map snd (profiles R))) \<le> 100" and "length (rules R) \<le> 100" and "length (decisions R) \<le> 100"
  shows "length (enc doc) \<le> 1600000"
proof -
  obtain ps rs ds where parts: "mapE enc_profile (concat (map snd (profiles R))) = Inr ps"
    "mapE (\<lambda>rr. enc_rule (rr_rule rr) (rr_active rr)) (map snd (rules R)) = Inr rs"
    "mapE enc_decision (map snd (decisions R)) = Inr ds"
    and doc: "doc = CRecord [(1, CUint (registry_gen R)), (2, CUuid (policy_id R)), (3, CSeq ps), (4, CSeq rs), (5, CSeq []),
        (6, CSeq []), (7, CSeq ds)]"
    using assms(1-3) by (auto simp: snapshot_document_def bindE_eq_Inr mk_record_tags_ok)
  have "length (enc_elements ps) \<le> length (concat (map snd (profiles R))) * 5000"
    using parts(1) by (rule length_enc_mapE) (use assms(4) in blast)
  moreover have "length (enc_elements rs) \<le> length (map snd (rules R)) * 5000"
    using parts(2) by (rule length_enc_mapE) (use assms(5) in auto)
  moreover have "length (enc_elements ds) \<le> length (map snd (decisions R)) * 5000"
    using parts(3) by (rule length_enc_mapE) (use assms(6) in auto)
  ultimately have "length (enc_elements ps) \<le> 500000" "length (enc_elements rs) \<le> 500000" "length (enc_elements ds) \<le> 500000"
    using assms(7-9) by simp_all
  then show ?thesis
    unfolding doc by (simp add: bytes_length)
qed

lemma length_uuid_to_string [simp]: "length (uuid_to_string u) = 36"
proof -
  have "[0..<16] = [0, 1, 2, 3, 4, 5, 6, 7, 8, 9, 10, 11, 12, 13, 14, 15 :: nat]"
    by code_simp
  then show ?thesis
    by (simp add: uuid_to_string_def hex_byte_def)
qed

lemma enc_profile_size:
  assumes "enc_profile (fresh_profile u kd c) = Inr pc" and "canon_ok c" and "kind c = KRecord"
  shows "length (enc pc) \<le> 300 + length (enc c)"
  using assms record_field_ok [of c] by (auto simp: enc_profile_def mk_record_tags_ok bytes_length fingerprint_of_def)

lemma enc_rule_size:
  assumes "enc_rule ((capability_rule u dmn)\<lparr>r_generation := g\<rparr>) True = Inr c"
  shows "length (enc c) \<le> 1000 + length dmn"
  using assms by (auto simp: enc_rule_def enc_constraint_def capability_rule_def capability_clause_def default_rule_def
      default_constraint_def mk_record_tags_ok bytes_length bindE_eq_Inr)

lemma enc_decision_size:
  assumes "enc_decision ((capability_decision u kc dc l r R)\<lparr>d_decision_id := i, d_digest := dig, d_explanation := t\<rparr>) = Inr c"
    and "length dig = 32" and "length (p_fingerprint l) = 64" and "length (p_fingerprint r) = 64"
  shows "length (enc c) \<le> 1000"
  using assms by (auto simp: enc_decision_def enc_constraint_item_def capability_decision_def capability_items_def item_def
      capability_clause_def default_constraint_def empty_decision_def mk_record_tags_ok bytes_length bindE_eq_Inr
      show_int_def show_nat.simps Let_def split: if_splits)

text \<open>What the rows of a registry must be for the result to be written and read back.\<close>

definition plain_row :: "uuid \<times> profile_kind \<times> canon \<Rightarrow> bool" where
  "plain_row x \<longleftrightarrow> (case x of (u, kd, c) \<Rightarrow>
     profile_kind_ok kd \<and> canon_ok c \<and> kind c = KRecord \<and> length (enc c) \<le> 4000)"

definition plain_decision :: "decision \<Rightarrow> bool" where
  "plain_decision d \<longleftrightarrow> decision_ok d \<and> (\<forall>c. enc_decision d = Inr c \<longrightarrow> length (enc c) \<le> 5000)"

lemma with_profiles_ok:
  "distinct (map fst ps) \<Longrightarrow> \<forall>x \<in> set ps. plain_row x \<Longrightarrow> registry_ok (with_profiles ps)"
proof (induction ps rule: rev_induct)
  case Nil
  then show ?case
    by (simp add: with_profiles_Nil empty_registry_ok)
next
  case (snoc x ps)
  obtain u kd c where x: "x = (u, kd, c)" by (cases x)
  have "register_new_profile u kd c [] [] (with_profiles ps) = (Inr u, with_profiles (ps @ [x]))"
    using snoc.prems register_next [of c u ps kd] by (simp add: x plain_row_def)
  then show ?case
    using register_new_profile_ok [of "with_profiles ps" c u kd "[]" "[]"] snoc by (simp add: x plain_row_def)
qed

lemma scenario_persistable_at:
  assumes "distinct (map fst ps)" and "\<forall>x \<in> set ps. plain_row x" and "length ps \<le> 100" and "length dmn \<le> 1000"
    and R: "R = (with_rule (capability_rule u dmn) (with_profiles ps))\<lparr>decisions := ds, registry_gen := g\<rparr>" and "registry_ok R"
    and "\<forall>d \<in> snd ` set ds. plain_decision d" and "length ds \<le> 100"
  shows "persistable R" and "snapshot_document R = Inr doc \<Longrightarrow> length (enc doc) \<le> 1600000"
proof -
  have deps: "deps_current R"
    by (auto simp: deps_current_def R with_rule_def with_profiles_def empty_registry_def dependencies_of_def adjacent_def
        dest!: map_of_SomeD split: option.split)
  have prof: "p \<in> set (concat (map snd (profiles R))) \<longleftrightarrow> (\<exists>(u, kd, c) \<in> set ps. p = fresh_profile u kd c)" for p
    by (force simp: R with_profiles_def)
  have objects: "objects_ok R"
    using assms(2,7)
    by (force simp: objects_ok_def R with_profiles_def with_rule_def empty_registry_def profile_record_ok_def plain_row_def
        plain_decision_def rule_record_ok_def capability_rule_def default_rule_def kind_option_ok_def
        constraint_ok_def capability_clause_def default_constraint_def)
  have size: "length (enc doc) \<le> 1600000" if "snapshot_document R = Inr doc" for doc
  proof (rule document_small [OF that])
    show "evidence R = []" "invalidations R = []"
      by (simp_all add: R with_rule_def with_profiles_def empty_registry_def)
    show "length (enc c) \<le> 5000" if "p \<in> set (concat (map snd (profiles R)))" "enc_profile p = Inr c" for p c
      using that assms(2) enc_profile_size unfolding prof by (fastforce simp: plain_row_def)
    show "length (enc c) \<le> 5000" if "rr \<in> snd ` set (rules R)" "enc_rule (rr_rule rr) (rr_active rr) = Inr c" for rr c
      using that enc_rule_size [of 1 u dmn c] assms(4) by (simp add: R)
    show "length (enc c) \<le> 5000" if "d \<in> snd ` set (decisions R)" "enc_decision d = Inr c" for d c
      using that assms(7) by (auto simp: R plain_decision_def)
    show "length (concat (map snd (profiles R))) \<le> 100" "length (rules R) \<le> 100" "length (decisions R) \<le> 100"
      using assms(3,8) by (simp_all add: R with_profiles_def length_concat comp_def case_prod_unfold sum_list_triv)
  qed
  then show "snapshot_document R = Inr doc \<Longrightarrow> length (enc doc) \<le> 1600000" .
  have "canon_fits doc" if "snapshot_document R = Inr doc" for doc
    by (rule canon_fits_small) (use size [OF that] in simp)
  with deps objects assms(6) show "persistable R"
    by (simp add: persistable_def)
qed

lemma scenario_persistable:
  assumes "distinct (map fst ps)" and "\<forall>x \<in> set ps. plain_row x" and "length ps \<le> 100" and "length dmn \<le> 1000"
    and "R = (with_rule (capability_rule u dmn) (with_profiles ps))\<lparr>decisions := ds\<rparr>" and "registry_ok R"
    and "\<forall>d \<in> snd ` set ds. plain_decision d" and "length ds \<le> 100"
  shows "persistable R"
  using assms(5) by (intro scenario_persistable_at(1) [OF assms(1-4) _ assms(6-8), where u = u and g = "registry_gen R"]) simp

lemma remembered_persistable:
  assumes "distinct (map fst ps)" and "\<forall>x \<in> set ps. plain_row x" and "length ps \<le> 100" and "length dmn \<le> 1000"
    and "plain_decision d"
  shows "persistable (remember d (with_rule (capability_rule u dmn) (with_profiles ps)))"
proof (rule scenario_persistable [OF assms(1-4)])
  let ?R = "with_rule (capability_rule u dmn) (with_profiles ps)"
  show "remember d ?R = ?R\<lparr>decisions := [(d_digest d, d)]\<rparr>"
    by (simp add: remember_def with_rule_def with_profiles_def empty_registry_def)
  have "?R = snd (register_rule (capability_rule u dmn) (with_profiles ps))"
    by (simp add: register_capability_rule)
  then have "registry_ok ?R"
    using register_rule_ok [OF with_profiles_ok [OF assms(1,2)]] by simp
  then show "registry_ok (remember d ?R)"
    by (rule remember_ok)
qed (use assms(5) in simp_all)

lemma capability_decision_plain:
  assumes "length dig = 32" and "length (p_fingerprint l) = 64" and "length (p_fingerprint r) = 64"
  shows "plain_decision ((capability_decision u kc dc l r R)\<lparr>d_decision_id := i, d_digest := dig, d_explanation := t\<rparr>)"
  unfolding plain_decision_def
proof (intro conjI allI impI)
  show "decision_ok ((capability_decision u kc dc l r R)\<lparr>d_decision_id := i, d_digest := dig, d_explanation := t\<rparr>)"
    using assms(1) by (simp add: decision_ok_def capability_decision_def Let_def)
qed (rule order_trans [OF enc_decision_size [OF _ assms]], assumption, simp)

section \<open>The downstream consumer\<close>

text \<open>
  \<^verbatim>\<open>main\<close> of \<^verbatim>\<open>downstream/consumer.cpp\<close>: its exit status and the line it prints. It draws five random
  ids. \<^verbatim>\<open>recover\<close> never returns a null pointer, so the check for one is not reached.
\<close>

definition consumer_device :: "uuid \<Rightarrow> device_profile" where
  "consumer_device u = nvidia_device u ''sm_12.0'' ''12.0'' (32607 * 1024 * 1024)"

definition consumer_kernel :: "uuid \<Rightarrow> kernel_profile" where
  "consumer_kernel u = add_kernel u ''sm_12.0'' ''12.0''"

definition consumer_rule :: "uuid \<Rightarrow> rule" where
  "consumer_rule u = capability_rule u ''kernel-device''"

definition wrong_outcome :: "string \<Rightarrow> decision \<Rightarrow> (int \<times> string) res" where
  "wrong_outcome txt d = bindE (outcome_name (d_outcome d)) (\<lambda>name. Inr (1, txt @ name))"

definition consumer_checks :: "uuid \<Rightarrow> uuid \<Rightarrow> registry \<Rightarrow> (int \<times> string) res" where
  "consumer_checks kern_id dev_id R =
     callE (evaluate_pair kern_id dev_id R) (\<lambda>before R.
     if d_outcome before \<noteq> Compatible then wrong_outcome ''FAIL: expected COMPATIBLE, got '' before
     else bindE (snapshot R) (\<lambda>snap. bindE (recover snap) (\<lambda>R2.
       callE (evaluate_pair kern_id dev_id R2) (\<lambda>after R2.
       if d_outcome after \<noteq> Compatible then wrong_outcome ''FAIL: after recover expected COMPATIBLE, got '' after
       else if d_digest after \<noteq> d_digest before
       then Inr (1, ''FAIL: decision digest not preserved after recover'')
       else if d_decision_id after \<noteq> d_decision_id before
       then Inr (1, ''FAIL: decision id not preserved after recover'')
       else Inr (0, ''consumer OK'')))))"

definition consumer_main :: "uuid \<Rightarrow> uuid \<Rightarrow> uuid \<Rightarrow> uuid \<Rightarrow> uuid \<Rightarrow> (int \<times> string) res" where
  "consumer_main dev_seed dev_draw kern_seed kern_draw rule_draw =
     catching (\<lambda>e. (1, ''FAIL: exception: '' @ what e))
      (bindE (device_to_canon (consumer_device dev_seed)) (\<lambda>dev.
       callE (register_new_profile dev_draw PK_Device dev [] [] empty_registry) (\<lambda>dev_id R.
       if is_zero dev_id then Inr (1, ''FAIL: device profile id is zero'')
       else bindE (kernel_to_canon (consumer_kernel kern_seed)) (\<lambda>kern.
       callE (register_new_profile kern_draw PK_Kernel kern [] [] R) (\<lambda>kern_id R.
       if is_zero kern_id then Inr (1, ''FAIL: kernel profile id is zero'')
       else consumer_checks kern_id dev_id (snd (register_rule (consumer_rule rule_draw) R)))))))"

section \<open>Payloads\<close>

lemma kernel_payload:
  "\<exists>c. kernel_to_canon (add_kernel u arch cap) = Inr c \<and> canon_ok c \<and> kind c = KRecord \<and>
    resolve_profile_field PK_Kernel c ''compute_capability'' = Some (CStr cap) \<and>
    length (enc c) \<le> 1000 + length arch + length cap"
  by (simp add: kernel_to_canon_def add_kernel_def default_kernel_def mk_record_tags_ok resolve_eval bytes_length)

lemma device_payload:
  "\<exists>c. device_to_canon (nvidia_device u arch cap m) = Inr c \<and> canon_ok c \<and> kind c = KRecord \<and>
    resolve_profile_field PK_Device c ''compute_capability'' = Some (CStr cap) \<and>
    length (enc c) \<le> 1000 + length arch + length cap"
  by (simp add: device_to_canon_def nvidia_device_def mk_record_tags_ok resolve_eval bytes_length)

lemma exceeds_self [simp]: "\<not> exceeds s s"
  by (simp add: exceeds_def compare_ver_def)

text \<open>The capabilities the programs use.\<close>

lemma known_versions: "parse_ver ''9.0'' = (9, 0)" "parse_ver ''12.0'' = (12, 0)" "parse_ver ''13.0'' = (13, 0)"
  by (simp_all add: parse_ver_def is_digit_def dot_head_def dot_tail_def parse_num_def digits_value_def)

lemma known_exceeds [simp]:
  "exceeds ''12.0'' ''9.0''" "exceeds ''13.0'' ''9.0''" "exceeds ''13.0'' ''12.0''"
  by (simp_all add: exceeds_def known_versions compare_ver_def)

text \<open>A kernel and a device, registered and compared: the state and the decision.\<close>

lemma length_fingerprint_of [simp]: "length (fingerprint_of c) = 64"
  by (simp add: fingerprint_of_def)

lemma fresh_pair:
  "resolve_profile_field PK_Kernel kern ''compute_capability'' = Some (CStr kc) \<Longrightarrow>
   resolve_profile_field PK_Device dev ''compute_capability'' = Some (CStr dc) \<Longrightarrow>
   capability_pair kc dc (fresh_profile kid PK_Kernel kern) (fresh_profile did PK_Device dev)"
  by (simp add: capability_pair_def capability_of_Some)

lemma decided_registry:
  assumes "distinct (map fst ps)" and "(kid, PK_Kernel, kern) \<in> set ps" and "(did, PK_Device, dev) \<in> set ps"
    and "resolve_profile_field PK_Kernel kern ''compute_capability'' = Some (CStr kc)"
    and "resolve_profile_field PK_Device dev ''compute_capability'' = Some (CStr dc)"
    and R: "R = with_rule (capability_rule u dmn) (with_profiles ps)"
  shows "\<exists>d. evaluate_locked kid did False R = Inr d \<and> plain_decision d \<and>
    d_outcome d = (if fingerprint_of kern = fingerprint_of dev then Exact
      else if exceeds kc dc then Incompatible else Compatible)"
proof -
  let ?l = "fresh_profile kid PK_Kernel kern" and ?r = "fresh_profile did PK_Device dev"
  have cur: "current kid (with_profiles ps) = Some ?l" "current did (with_profiles ps) = Some ?r"
    using current_with_profiles [OF assms(1)] assms(2,3) by simp_all
  obtain i dig t where "length dig = 32" "evaluate_locked kid did False R =
      Inr ((capability_decision u kc dc ?l ?r R)\<lparr>d_decision_id := i, d_digest := dig, d_explanation := t\<rparr>)"
    using capability_decision_made [OF cur fresh_pair [OF assms(4,5)] R] by blast
  then show ?thesis
    by (intro exI conjI) (assumption, simp add: capability_decision_plain, simp add: capability_decision_def Let_def)
qed

section \<open>The registries the programs build\<close>

text \<open>Profiles registered once each, rules, counters and cached decisions.\<close>

definition stock :: "(uuid \<times> profile_kind \<times> canon) list \<Rightarrow> (uuid, rule_record) umap \<Rightarrow> u64 \<Rightarrow> u64 \<Rightarrow>
    (digest, decision) umap \<Rightarrow> registry" where
  "stock ps rs rn g ds = (with_profiles ps)\<lparr>rules := rs, rule_gen := rn, registry_gen := g, decisions := ds\<rparr>"

lemma stock_simps [simp]:
  "profiles (stock ps rs rn g ds) = profiles (with_profiles ps)" "rules (stock ps rs rn g ds) = rs"
  "rule_gen (stock ps rs rn g ds) = rn" "registry_gen (stock ps rs rn g ds) = g" "decisions (stock ps rs rn g ds) = ds"
  "policy_id (stock ps rs rn g ds) = zero_uuid" "graph (stock ps rs rn g ds) = graph empty_registry"
  "evidence (stock ps rs rn g ds) = []" "invalidations (stock ps rs rn g ds) = []"
  by (simp_all add: stock_def with_profiles_def empty_registry_def)

lemma empty_stock: "empty_registry = stock [] [] 0 0 []"
  by (simp add: stock_def with_profiles_def empty_registry_def)

lemma stock_register:
  assumes "canon_ok c" and "u \<notin> fst ` set ps"
  shows "register_new_profile u kd c [] [] (stock ps rs rn g ds) = (Inr u, stock (ps @ [(u, kd, c)]) rs rn (g + 1) ds)"
proof -
  let ?m = "map (\<lambda>(u, kd, c). (u, [fresh_profile u kd c])) ps"
  have fresh: "u \<notin> fst ` set ?m"
    using assms(2) by force
  then have none: "map_of ?m u = None"
    by (simp only: map_of_eq_None_iff not_False_eq_True)
  moreover have "push u p ?m = ?m @ [(u, [p])]" for p
    using none fresh by (simp only: push_def option.case append_Nil update_fresh not_False_eq_True)
  moreover have "\<not> create_cycle u [] (graph empty_registry)"
    by (simp add: create_cycle_edges empty_registry_def edges_def adjacent_def)
  moreover have "add_dependency u [] (graph empty_registry) = graph empty_registry"
    by (simp add: add_dependency_def empty_registry_def)
  ultimately show ?thesis
    using assms(1)
    by (simp add: register_new_profile_def register_profile_def canonical_fingerprint_hex_enc new_profile_def Let_def
        stock_def with_profiles_def fresh_profile_def fingerprint_of_def empty_registry_def)
qed

definition ruled :: "rule \<Rightarrow> (uuid, rule_record) umap" where
  "ruled r = [(r_rule_id r, \<lparr>rr_rule = r\<lparr>r_generation := 1\<rparr>, rr_active = True, rr_superseded = False\<rparr>)]"

lemma stock_rule:
  "r_generation r = 0 \<Longrightarrow> register_rule r (stock ps [] 0 g ds) = (r_rule_id r, stock ps (ruled r) 1 (g + 1) ds)"
  by (simp add: register_rule_def stock_def with_profiles_def empty_registry_def ruled_def)

lemma stock_remember: "remember d (stock ps rs rn g ds) = stock ps rs rn g (AList.update (d_digest d) d ds)"
  by (simp add: remember_def stock_def)

lemma current_stock: "current u (stock ps rs rn g ds) = current u (with_profiles ps)"
  by (simp add: current_def)

lemma stock_ruled: "stock ps (ruled r) 1 g ds = with_rule r (stock ps [] 0 (g - 1) ds)"
  by (simp add: stock_def with_rule_def ruled_def)

text \<open>What is decided does not depend on what is cached.\<close>

lemma stock_evaluate: "evaluate_locked left right q (stock ps rs rn g ds) = evaluate_locked left right q (stock ps rs rn g [])"
proof -
  have "stock ps rs rn g ds = (stock ps rs rn g [])\<lparr>decisions := ds\<rparr>"
    by (simp add: stock_def)
  then show ?thesis
    by simp
qed

section \<open>Properties\<close>

text \<open>
  The consumer of the installed library succeeds, whatever ids it draws, as long as the
  two profile ids are different and not zero: it registers its device, its kernel and its rule, finds
  the pair compatible, writes the registry, recovers it and finds the same decision under the same
  digest and id; it prints its success and returns 0. Only a collision of the two payloads under SHA-256 would make
  it fail.
\<close>

theorem consumer_succeeds:
  assumes "device_to_canon (consumer_device dev_seed) = Inr dev"
    and "kernel_to_canon (consumer_kernel kern_seed) = Inr kern"
    and "dev_draw \<noteq> kern_draw" and "\<not> is_zero dev_draw" and "\<not> is_zero kern_draw"
  shows "consumer_main dev_seed dev_draw kern_seed kern_draw rule_draw =
    Inr (if fingerprint_of kern = fingerprint_of dev then (1, ''FAIL: expected COMPATIBLE, got EXACT'')
      else (0, ''consumer OK''))"
proof -
  let ?ps = "[(dev_draw, PK_Device, dev), (kern_draw, PK_Kernel, kern)]"
  let ?R = "with_rule (consumer_rule rule_draw) (with_profiles ?ps)"
  have kern: "canon_ok kern" "kind kern = KRecord" "length (enc kern) \<le> 4000"
    "resolve_profile_field PK_Kernel kern ''compute_capability'' = Some (CStr ''12.0'')"
    using kernel_payload [of kern_seed "''sm_12.0''" "''12.0''"] assms(2) by (auto simp: consumer_kernel_def)
  have dev: "canon_ok dev" "kind dev = KRecord" "length (enc dev) \<le> 4000"
    "resolve_profile_field PK_Device dev ''compute_capability'' = Some (CStr ''12.0'')"
    using device_payload [of dev_seed "''sm_12.0''" "''12.0''" "32607 * 1024 * 1024"] assms(1) by (auto simp: consumer_device_def)
  have "register_new_profile dev_draw PK_Device dev [] [] empty_registry = (Inr dev_draw, with_profiles [(dev_draw, PK_Device, dev)])"
    using register_next [of dev dev_draw "[]"] dev(1) by (simp add: with_profiles_Nil)
  moreover have "register_new_profile kern_draw PK_Kernel kern [] [] (with_profiles [(dev_draw, PK_Device, dev)]) =
      (Inr kern_draw, with_profiles ?ps)"
    using register_next [of kern kern_draw "[(dev_draw, PK_Device, dev)]"] kern(1) assms(3) by simp
  moreover have "register_rule (consumer_rule rule_draw) (with_profiles ?ps) = (rule_draw, ?R)"
    by (simp add: consumer_rule_def register_capability_rule)
  ultimately have main: "consumer_main dev_seed dev_draw kern_seed kern_draw rule_draw =
      catching (\<lambda>e. (1, ''FAIL: exception: '' @ what e)) (consumer_checks kern_draw dev_draw ?R)"
    using assms by (simp add: consumer_main_def)
  have distinct: "distinct (map fst ?ps)"
    using assms(3) by simp
  obtain d where d: "evaluate_locked kern_draw dev_draw False ?R = Inr d" "plain_decision d"
    "d_outcome d = (if fingerprint_of kern = fingerprint_of dev then Exact else Compatible)"
    using decided_registry [OF distinct _ _ kern(4) dev(4), of kern_draw dev_draw ?R rule_draw "''kernel-device''"]
    by (auto simp: consumer_rule_def)
  have pair: "evaluate_pair kern_draw dev_draw ?R = (Inr d, remember d ?R)"
    using d(1) by (simp add: evaluate_pair_def)
  show ?thesis
  proof (cases "fingerprint_of kern = fingerprint_of dev")
    case True
    then show ?thesis
      using pair d(3) by (simp add: main consumer_checks_def wrong_outcome_def catching_def)
  next
    case False
    have "persistable (remember d ?R)"
      unfolding consumer_rule_def
      by (rule remembered_persistable) (use distinct kern dev d(2) in \<open>simp_all add: plain_row_def\<close>)
    then obtain bs where bs: "snapshot (remember d ?R) = Inr bs" "recover bs = Inr (restored (remember d ?R))"
      using recover_snapshot by blast
    have "evaluate_locked kern_draw dev_draw False (restored (remember d ?R)) = Inr d"
      using d(1) by (simp add: evaluate_restored remember_def)
    then show ?thesis
      using pair d(3) bs False by (simp add: main consumer_checks_def evaluate_pair_def catching_def)
  qed
qed

theorem consumer_succeeds_witness:
  "\<exists>status line. consumer_main (Uuid 1) (Uuid 2) (Uuid 3) (Uuid 4) (Uuid 5) = Inr (status, line) \<and>
    line \<in> {''FAIL: expected COMPATIBLE, got EXACT'', ''consumer OK''}"
proof -
  obtain dev kern where "device_to_canon (consumer_device (Uuid 1)) = Inr dev"
    "kernel_to_canon (consumer_kernel (Uuid 3)) = Inr kern"
    unfolding consumer_device_def consumer_kernel_def using device_payload kernel_payload by blast
  moreover have "\<not> is_zero (Uuid 2)" "\<not> is_zero (Uuid 4)"
    by (simp_all add: is_zero_def zero_uuid_def)
  ultimately show ?thesis
    using consumer_succeeds [of "Uuid 1" dev "Uuid 3" kern "Uuid 2" "Uuid 4" "Uuid 5"] by simp
qed

end
