(* ===== verification/Command.thy ===== *)
theory Command
  imports Scenario
begin

text \<open>
  The command line of \<^verbatim>\<open>src/cli/main.cpp\<close> with its demonstration: a function from the arguments, the
  random ids it draws and the files to the exit status and the lines it prints; an exception nobody
  catches is its only other result. The ids are drawn from \<open>seed\<close>, in the order of the calls.
\<close>

section \<open>The registry of the demonstration\<close>

definition demo_device_120 :: "uuid \<Rightarrow> device_profile" where
  "demo_device_120 u = nvidia_device u ''sm_120'' ''12.0'' (32579 * 1024 * 1024)"

definition demo_device_90 :: "uuid \<Rightarrow> device_profile" where
  "demo_device_90 u = (demo_device_120 u)\<lparr>de_architecture := ''sm_90'', de_compute_capability := ''9.0'',
     de_total_memory := Some 0\<rparr>"

definition demo_kernel_120 :: "uuid \<Rightarrow> kernel_profile" where
  "demo_kernel_120 u = add_kernel u ''sm_120'' ''12.0''"

definition demo_kernel_130 :: "uuid \<Rightarrow> kernel_profile" where
  "demo_kernel_130 u = (demo_kernel_120 u)\<lparr>ke_compute_capability := ''13.0'', ke_architecture := ''sm_130''\<rparr>"

definition build_demo :: "(nat \<Rightarrow> uuid) \<Rightarrow> registry res" where
  "build_demo seed =
     bindE (device_to_canon (demo_device_120 (seed 0))) (\<lambda>d120.
     callE (register_new_profile (seed 1) PK_Device d120 [] [] empty_registry) (\<lambda>_ R.
     bindE (device_to_canon (demo_device_90 (seed 2))) (\<lambda>d90.
     callE (register_new_profile (seed 3) PK_Device d90 [] [] R) (\<lambda>_ R.
     bindE (kernel_to_canon (demo_kernel_120 (seed 4))) (\<lambda>k120.
     callE (register_new_profile (seed 5) PK_Kernel k120 [] [] R) (\<lambda>_ R.
     bindE (kernel_to_canon (demo_kernel_130 (seed 6))) (\<lambda>k130.
     callE (register_new_profile (seed 7) PK_Kernel k130 [] [] R) (\<lambda>_ R.
     Inr (snd (register_rule (capability_rule (seed 8) []) R))))))))))"

section \<open>Printing\<close>

definition show_u64 :: "u64 \<Rightarrow> string" where
  "show_u64 v = show_nat (unat v)"

definition print_decision :: "decision \<Rightarrow> string list res" where
  "print_decision d =
     bindE (outcome_name (d_outcome d)) (\<lambda>name. Inr (
       [''  outcome: '' @ name,
        ''  left: '' @ uuid_to_string (d_left d) @ ''  right: '' @ uuid_to_string (d_right d)] @
       (if \<not> is_zero (d_rule_id d)
        then [''  rule: '' @ uuid_to_string (d_rule_id d) @ '' (gen '' @ show_u64 (d_rule_generation d) @ '')''] else []) @
       [''  digest: '' @ sha_hex (d_digest d), ''  explanation:'', d_explanation d]))"

section \<open>The demonstration\<close>

text \<open>\<^verbatim>\<open>by[0]\<close> and its like: reading past the end of a vector is undefined.\<close>

definition element_at :: "'a list \<Rightarrow> nat \<Rightarrow> 'a res" where
  "element_at xs i = (if i < length xs then Inr (xs ! i) else Inl Out_Of_Bounds)"

definition demo_path :: string where
  "demo_path = ''build'' @ [CHR 0x5C] @ ''cli_registry.bin''"

definition demo_pairs :: "uuid \<Rightarrow> uuid \<Rightarrow> uuid \<Rightarrow> registry \<Rightarrow> (string list \<times> decision \<times> registry) res" where
  "demo_pairs k120 k130 d120 R =
     callE (evaluate_pair k120 d120 R) (\<lambda>c1 R.
     bindE (print_decision c1) (\<lambda>lines1.
     callE (evaluate_pair k130 d120 R) (\<lambda>c2 R.
     bindE (print_decision c2) (\<lambda>lines2.
     Inr ([''=== pair (kernel 12.0 vs device 12.0) ===''] @ lines1 @
       [''=== pair (kernel 13.0 vs device 12.0) ===''] @ lines2, c1, R)))))"

definition demo_matrix :: "uuid list \<Rightarrow> uuid list \<Rightarrow> registry \<Rightarrow> string list res" where
  "demo_matrix ks ds R =
     bindE (matrix ks ds R) (\<lambda>mr. Inr
       [''=== matrix 2x2 ==='', ''  compatible='' @ show_nat (n_compatible mr) @ '' incompatible='' @
        show_nat (n_incompatible mr) @ '' cells='' @ show_nat (length (cells mr))])"

definition demo_recovery ::
  "(string \<Rightarrow> bool) \<Rightarrow> files \<Rightarrow> uuid \<Rightarrow> uuid \<Rightarrow> decision \<Rightarrow> registry \<Rightarrow> (string list \<times> files) res" where
  "demo_recovery writable fs k d c1 R =
     bindE (snapshot R) (\<lambda>snap.
     (case save writable demo_path R fs of
        (Inl e, _) \<Rightarrow> Inl e
      | (Inr _, fs) \<Rightarrow>
          bindE (load demo_path fs) (\<lambda>R2.
          callE (evaluate_pair k d R2) (\<lambda>rp R2.
          Inr ([''=== snapshot/save/recover/replay ==='',
            ''  replay digest equals? '' @ (if d_digest rp = d_digest c1 then ''YES'' else ''NO''),
            ''  loaded profiles: '' @ show_nat (n_profiles (stats R2)),
            ''  snapshot bytes: '' @ show_nat (length snap)], fs)))))"

definition demo_counterfactual :: "uuid \<Rightarrow> uuid \<Rightarrow> registry \<Rightarrow> string list res" where
  "demo_counterfactual k d R =
     bindE (counterfactual_pair k d [\<lparr>ed_field = ''compute_capability'', ed_value = CStr ''9.0''\<rparr>] R) (\<lambda>cf.
     bindE (outcome_name (d_outcome cf)) (\<lambda>name. Inr
       [''=== counterfactual (device 12.0 -> 9.0) ==='',
        ''  counterfactual outcome: '' @ name @ '' (derived, never authoritative)'']))"

definition demo_command :: "(nat \<Rightarrow> uuid) \<Rightarrow> (string \<Rightarrow> bool) \<Rightarrow> files \<Rightarrow> (string list \<times> files) res" where
  "demo_command seed writable fs =
     bindE (build_demo seed) (\<lambda>R.
     bindE (element_at (query_by_kind PK_Device R) 0) (\<lambda>by0.
     bindE (element_at (query_by_kind PK_Kernel R) 0) (\<lambda>ks0.
     bindE (element_at (query_by_kind PK_Kernel R) 1) (\<lambda>ks1.
     bindE (demo_pairs (p_id ks0) (p_id ks1) (p_id by0) R) (\<lambda>(lines1, c1, R).
     bindE (element_at (query_by_kind PK_Device R) 1) (\<lambda>by1.
     bindE (demo_matrix [p_id ks0, p_id ks1] [p_id by0, p_id by1] R) (\<lambda>lines2.
     bindE (demo_recovery writable fs (p_id ks0) (p_id by0) c1 R) (\<lambda>(lines3, fs).
     bindE (demo_counterfactual (p_id ks0) (p_id by0) R) (\<lambda>lines4.
     Inr (lines1 @ lines2 @ lines3 @ lines4 @
       [''=== history / dependencies ==='',
        ''  dependencies of kernel: '' @ show_nat (length (dependencies_of (graph R) (p_id ks0))),
        ''  registry generation: '' @ show_u64 (registry_gen R)], fs))))))))))"

section \<open>The command line\<close>

definition device_lines :: "uuid \<Rightarrow> device_info \<Rightarrow> string list res" where
  "device_lines u d =
     bindE (device_to_canon (make_cuda_device_profile u d)) (\<lambda>p.
     bindE (canonical_fingerprint_hex p) (\<lambda>fp. Inr
       [''device '' @ show_int (int (di_ordinal d)) @ '': '' @ di_name d,
        ''  compute capability: '' @ di_compute_capability d,
        ''  total memory: '' @ show_u64 (di_total_memory d div (1024 * 1024)) @ '' MB'',
        ''  shared mem/block: '' @ show_u64 (di_shared_memory_per_block d) @
          ''  max threads/block: '' @ show_u64 (di_max_threads_per_block d) @
          ''  SMs: '' @ show_u64 (di_multi_processor_count d),
        ''  runtime: '' @ di_runtime_version d @ ''  driver: '' @ di_driver_version d,
        ''  canonical profile fp: '' @ fp]))"

definition device_command :: "(nat \<Rightarrow> uuid) \<Rightarrow> device_info list \<Rightarrow> string list res" where
  "device_command seed devs =
     (case devs of
        [] \<Rightarrow> Inr [''CUDA device discovery: none'']
      | d # _ \<Rightarrow>
          if \<not> di_initialized d then Inr [''CUDA device discovery: '' @ di_error d]
          else bindE (mapE (\<lambda>(i, d). device_lines (seed i) d) (enumerate 0 devs)) (\<lambda>ls. Inr (concat ls)))"

definition help_lines :: "string list" where
  "help_lines =
     [''compat <command>'', [], ''Commands:'', ''  version        print version + license'',
      ''  device         discover real CUDA device(s) and canonical device profile'',
      ''  demo           run an in-process compatibility demonstration'',
      ''  cuda           (see compat_cuda_proof for the real CUDA compatibility proof)'',
      ''  multiprocess   (see compat_net_proof for the real coordinator + TCP proof)'']"

text \<open>\<open>devs\<close> is what \<^verbatim>\<open>discover_cuda_devices\<close> finds.\<close>

definition cli_main :: "(nat \<Rightarrow> uuid) \<Rightarrow> device_info list \<Rightarrow> (string \<Rightarrow> bool) \<Rightarrow> files \<Rightarrow> string list \<Rightarrow>
    (int \<times> string list \<times> files) res" where
  "cli_main seed devs writable fs argv =
     (let cmd = (if length argv > 1 then argv ! 1 else ''help'') in
      if cmd = ''version'' then
        Inr (0, [''Compatibility Registry 1.0.0 (Summon Software Labs)'',
          ''Apache License 2.0. No telemetry transmission.''], fs)
      else if cmd = ''device'' then bindE (device_command seed devs) (\<lambda>ls. Inr (0, ls, fs))
      else if cmd = ''demo'' then bindE (demo_command seed writable fs) (\<lambda>(ls, fs). Inr (0, ls, fs))
      else if cmd = ''help'' then Inr (0, help_lines, fs)
      else Inr (1, [''unknown command '' @ [CHR 0x27] @ cmd @ [CHR 0x27]], fs))"

section \<open>What the demonstration does\<close>

text \<open>A row of the demonstration: an id, a payload and the capability in it.\<close>

type_synonym row = "uuid \<times> canon \<times> string"

definition kernel_row :: "row \<Rightarrow> bool" where
  "kernel_row k \<longleftrightarrow> (case k of (u, c, cap) \<Rightarrow> plain_row (u, PK_Kernel, c) \<and>
     resolve_profile_field PK_Kernel c ''compute_capability'' = Some (CStr cap))"

definition device_row :: "row \<Rightarrow> bool" where
  "device_row d \<longleftrightarrow> (case d of (u, c, cap) \<Rightarrow> plain_row (u, PK_Device, c) \<and>
     resolve_profile_field PK_Device c ''compute_capability'' = Some (CStr cap) \<and>
     (\<exists>c'. apply_profile_field_edit PK_Device c ''compute_capability'' (CStr ''9.0'') = Inr c' \<and> canon_ok c' \<and>
       resolve_profile_field PK_Device c' ''compute_capability'' = Some (CStr ''9.0'')))"

definition demo_rows :: "row list \<Rightarrow> row list \<Rightarrow> (uuid \<times> profile_kind \<times> canon) list" where
  "demo_rows ds ks = map (\<lambda>(u, c, _). (u, PK_Device, c)) ds @ map (\<lambda>(u, c, _). (u, PK_Kernel, c)) ks"

definition demo_registry :: "uuid \<Rightarrow> row list \<Rightarrow> row list \<Rightarrow> registry" where
  "demo_registry u ds ks = with_rule (capability_rule u []) (with_profiles (demo_rows ds ks))"

lemma device_row_payload:
  "\<exists>c. device_to_canon ((nvidia_device u arch cap m)\<lparr>de_architecture := arch', de_compute_capability := cap',
      de_total_memory := Some m'\<rparr>) = Inr c \<and>
    (length arch' + length cap' \<le> 1000 \<longrightarrow> device_row (v, c, cap'))"
  by (simp add: device_to_canon_def nvidia_device_def mk_record_tags_ok resolve_eval bytes_length device_row_def
      plain_row_def apply_profile_field_edit_def)

lemma kernel_row_payload:
  "\<exists>c. kernel_to_canon ((add_kernel u arch cap)\<lparr>ke_compute_capability := cap', ke_architecture := arch'\<rparr>) = Inr c \<and>
    (length arch' + length cap' \<le> 1000 \<longrightarrow> kernel_row (v, c, cap'))"
  by (simp add: kernel_to_canon_def add_kernel_def default_kernel_def mk_record_tags_ok resolve_eval bytes_length
      kernel_row_def plain_row_def)

definition demo_outcome :: "row \<Rightarrow> row \<Rightarrow> outcome" where
  "demo_outcome k d =
     (if fingerprint_of (fst (snd k)) = fingerprint_of (fst (snd d)) then Exact
      else if exceeds (snd (snd k)) (snd (snd d)) then Incompatible else Compatible)"

lemma demo_rows_plain:
  "\<forall>d \<in> set ds. device_row d \<Longrightarrow> \<forall>k \<in> set ks. kernel_row k \<Longrightarrow> \<forall>x \<in> set (demo_rows ds ks). plain_row x"
  by (auto simp: demo_rows_def device_row_def kernel_row_def)

lemma demo_rows_fst: "map fst (demo_rows ds ks) = map fst ds @ map fst ks"
  by (simp add: demo_rows_def comp_def case_prod_unfold)

lemma demo_decided:
  assumes "distinct (map fst ds @ map fst ks)" and "k \<in> set ks" and "d \<in> set ds" and "kernel_row k" and "device_row d"
  shows "\<exists>x. evaluate_locked (fst k) (fst d) False (demo_registry u ds ks) = Inr x \<and> plain_decision x \<and>
    d_outcome x = demo_outcome k d"
proof -
  obtain kid kern kc did dev dc where kd: "k = (kid, kern, kc)" "d = (did, dev, dc)"
    by (cases k, cases d) auto
  have "(kid, PK_Kernel, kern) \<in> set (demo_rows ds ks)" "(did, PK_Device, dev) \<in> set (demo_rows ds ks)"
    using assms(2,3) kd by (force simp: demo_rows_def)+
  then have "\<exists>x. evaluate_locked kid did False (demo_registry u ds ks) = Inr x \<and> plain_decision x \<and>
      d_outcome x = (if fingerprint_of kern = fingerprint_of dev then Exact
        else if exceeds kc dc then Incompatible else Compatible)"
    by (intro decided_registry [where ps = "demo_rows ds ks" and u = u and dmn = "[]"])
      (use assms(1,4,5) kd in \<open>simp_all add: demo_rows_fst demo_registry_def kernel_row_def device_row_def\<close>)
  then show ?thesis
    by (simp only: kd fst_conv snd_conv demo_outcome_def)
qed

lemma demo_outcome_named: "\<exists>name. outcome_name (demo_outcome k d) = Inr name"
  by (simp add: demo_outcome_def)

lemma build_demo_registry:
  assumes "distinct [seed 1, seed 3, seed 5, seed 7]"
  shows "\<exists>c120 c90 k120 k130.
    device_to_canon (demo_device_120 (seed 0)) = Inr c120 \<and> device_to_canon (demo_device_90 (seed 2)) = Inr c90 \<and>
    kernel_to_canon (demo_kernel_120 (seed 4)) = Inr k120 \<and> kernel_to_canon (demo_kernel_130 (seed 6)) = Inr k130 \<and>
    (\<forall>d \<in> set [(seed 1, c120, ''12.0''), (seed 3, c90, ''9.0'')]. device_row d) \<and>
    (\<forall>k \<in> set [(seed 5, k120, ''12.0''), (seed 7, k130, ''13.0'')]. kernel_row k) \<and>
    build_demo seed = Inr (demo_registry (seed 8) [(seed 1, c120, ''12.0''), (seed 3, c90, ''9.0'')]
      [(seed 5, k120, ''12.0''), (seed 7, k130, ''13.0'')])"
proof -
  let ?m = "32579 * 1024 * 1024 :: u64"
  obtain c120 where c120: "device_to_canon (demo_device_120 (seed 0)) = Inr c120" "device_row (seed 1, c120, ''12.0'')"
    using device_row_payload [where u = "seed 0" and m = ?m and m' = ?m and arch' = "''sm_120''" and cap' = "''12.0''" and
      v = "seed 1" and arch = "''sm_120''" and cap = "''12.0''"]
    by (auto simp: demo_device_120_def nvidia_device_def)
  obtain c90 where c90: "device_to_canon (demo_device_90 (seed 2)) = Inr c90" "device_row (seed 3, c90, ''9.0'')"
    using device_row_payload [where u = "seed 2" and m = ?m and m' = 0 and arch' = "''sm_90''" and cap' = "''9.0''" and
      v = "seed 3" and arch = "''sm_120''" and cap = "''12.0''"]
    by (auto simp: demo_device_90_def demo_device_120_def)
  obtain k120 where k120: "kernel_to_canon (demo_kernel_120 (seed 4)) = Inr k120" "kernel_row (seed 5, k120, ''12.0'')"
    using kernel_row_payload [where u = "seed 4" and arch = "''sm_120''" and cap = "''12.0''" and cap' = "''12.0''" and
      arch' = "''sm_120''" and v = "seed 5"]
    by (auto simp: demo_kernel_120_def add_kernel_def default_kernel_def)
  obtain k130 where k130: "kernel_to_canon (demo_kernel_130 (seed 6)) = Inr k130" "kernel_row (seed 7, k130, ''13.0'')"
    using kernel_row_payload [where u = "seed 6" and arch = "''sm_120''" and cap = "''12.0''" and cap' = "''13.0''" and
      arch' = "''sm_130''" and v = "seed 7"]
    by (auto simp: demo_kernel_130_def demo_kernel_120_def)
  have ok: "canon_ok c120" "canon_ok c90" "canon_ok k120" "canon_ok k130"
    using c120(2) c90(2) k120(2) k130(2) by (simp_all add: device_row_def kernel_row_def plain_row_def)
  have ids: "seed 3 \<noteq> seed 1" "seed 5 \<noteq> seed 1" "seed 5 \<noteq> seed 3" "seed 7 \<noteq> seed 1" "seed 7 \<noteq> seed 3" "seed 7 \<noteq> seed 5"
    using assms by auto
  have "build_demo seed = Inr (demo_registry (seed 8) [(seed 1, c120, ''12.0''), (seed 3, c90, ''9.0'')]
      [(seed 5, k120, ''12.0''), (seed 7, k130, ''13.0'')])"
    using c120(1) c90(1) k120(1) k130(1) register_next [OF ok(1), of "seed 1" "[]", unfolded with_profiles_Nil]
      register_next [OF ok(2), of "seed 3"] register_next [OF ok(3), of "seed 5"] register_next [OF ok(4), of "seed 7"]
      ids register_capability_rule [of "seed 8" "[]"]
    by (simp add: build_demo_def demo_registry_def demo_rows_def)
  then show ?thesis
    using c120 c90 k120 k130
    by (intro exI [of _ c120] exI [of _ c90] exI [of _ k120] exI [of _ k130]) simp
qed

lemma demo_query:
  assumes "distinct (map fst [d, d', k, k'])"
  shows "query_by_kind PK_Device (demo_registry u [d, d'] [k, k']) =
      (if fst d < fst d' then [fresh_profile (fst d) PK_Device (fst (snd d)), fresh_profile (fst d') PK_Device (fst (snd d'))]
       else [fresh_profile (fst d') PK_Device (fst (snd d')), fresh_profile (fst d) PK_Device (fst (snd d))])"
    and "query_by_kind PK_Kernel (demo_registry u [d, d'] [k, k']) =
      (if fst k < fst k' then [fresh_profile (fst k) PK_Kernel (fst (snd k)), fresh_profile (fst k') PK_Kernel (fst (snd k'))]
       else [fresh_profile (fst k') PK_Kernel (fst (snd k')), fresh_profile (fst k) PK_Kernel (fst (snd k))])"
  using assms
  by (auto simp: query_by_kind_def demo_registry_def with_profiles_def demo_rows_def newest_active_def id_less_def
      List.map_filter_def case_prod_unfold)

lemma demo_current:
  assumes "distinct (map fst ds @ map fst ks)"
  shows "k \<in> set ks \<Longrightarrow> current (fst k) (demo_registry u ds ks) = Some (fresh_profile (fst k) PK_Kernel (fst (snd k)))"
    and "d \<in> set ds \<Longrightarrow> current (fst d) (demo_registry u ds ks) = Some (fresh_profile (fst d) PK_Device (fst (snd d)))"
proof -
  have dist: "distinct (map fst (demo_rows ds ks))"
    using assms by (simp add: demo_rows_fst)
  show "current (fst k) (demo_registry u ds ks) = Some (fresh_profile (fst k) PK_Kernel (fst (snd k)))" if "k \<in> set ks"
  proof -
    have "(fst k, PK_Kernel, fst (snd k)) \<in> set (demo_rows ds ks)"
      using that by (auto simp: demo_rows_def image_iff case_prod_unfold intro!: bexI [of _ k])
    then show ?thesis
      using current_with_profiles [OF dist] by (simp add: demo_registry_def)
  qed
  show "current (fst d) (demo_registry u ds ks) = Some (fresh_profile (fst d) PK_Device (fst (snd d)))" if "d \<in> set ds"
  proof -
    have "(fst d, PK_Device, fst (snd d)) \<in> set (demo_rows ds ks)"
      using that by (auto simp: demo_rows_def image_iff case_prod_unfold intro!: bexI [of _ d])
    then show ?thesis
      using current_with_profiles [OF dist] by (simp add: demo_registry_def)
  qed
qed

lemma matrix_loop_total:
  "\<forall>p \<in> set ps. \<exists>d name. evaluate_locked (fst p) (snd p) False R = Inr d \<and> outcome_name (d_outcome d) = Inr name \<Longrightarrow>
    \<exists>m'. matrix_loop R ps m = Inr m'"
proof (induction R ps m rule: matrix_loop.induct)
  case (2 R lft rgt ps m)
  then show ?case
    by fastforce
qed simp

lemma demo_matrix_counts:
  assumes "distinct (map fst ds @ map fst ks)" and "\<forall>k \<in> set ks. kernel_row k" and "\<forall>d \<in> set ds. device_row d"
    and "set ks' \<subseteq> set ks" and "set ds' \<subseteq> set ds" and "R = (demo_registry u ds ks)\<lparr>decisions := x\<rparr>"
  shows "\<exists>m. matrix (map fst ks') (map fst ds') R = Inr m \<and> length (cells m) = length ks' * length ds' \<and>
    n_compatible m = length (filter (\<lambda>(k, d). demo_outcome k d = Compatible) (List.product ks' ds')) \<and>
    n_incompatible m = length (filter (\<lambda>(k, d). demo_outcome k d = Incompatible) (List.product ks' ds'))"
proof -
  let ?ps = "List.product (map fst ks') (map fst ds')"
  have ev: "\<exists>y. evaluate_locked (fst k) (fst d) False R = Inr y \<and> d_outcome y = demo_outcome k d"
    if "k \<in> set ks'" "d \<in> set ds'" for k d
  proof -
    have "k \<in> set ks" "d \<in> set ds"
      using that assms(4,5) by auto
    then have "\<exists>y. evaluate_locked (fst k) (fst d) False (demo_registry u ds ks) = Inr y \<and> plain_decision y \<and>
        d_outcome y = demo_outcome k d"
      using demo_decided [OF assms(1)] assms(2,3) by blast
    then show ?thesis
      by (auto simp: assms(6))
  qed
  obtain m where m: "matrix (map fst ks') (map fst ds') R = Inr m"
    using matrix_loop_total [of ?ps R empty_matrix] ev demo_outcome_named by (fastforce simp: matrix_def)
  have ok: "matrix_ok R ?ps m"
    using matrix_loop_ok [OF empty_matrix_ok] m by (fastforce simp: matrix_def)
  have len: "length (cells m) = length ?ps"
    using ok by (metis matrix_ok_def length_map)
  have cell: "cell_outcome (cells m ! i) = (case List.product ks' ds' ! i of (k, d) \<Rightarrow> demo_outcome k d)"
    if i: "i < length ?ps" for i
  proof -
    obtain k d where kd: "List.product ks' ds' ! i = (k, d)"
      by (cases "List.product ks' ds' ! i")
    have prod: "?ps = map (\<lambda>(k, d). (fst k, fst d)) (List.product ks' ds')"
      by (simp add: product_concat_map map_concat comp_def)
    have "(k, d) \<in> set (List.product ks' ds')"
      using kd i nth_mem [of i "List.product ks' ds'"] by simp
    then have "k \<in> set ks'" "d \<in> set ds'"
      by auto
    moreover have "map (\<lambda>c. (cell_left c, cell_right c)) (cells m) ! i = (fst k, fst d)"
      using ok i kd by (simp add: matrix_ok_def prod)
    then have "cell_left (cells m ! i) = fst k" "cell_right (cells m ! i) = fst d"
      using i len by simp_all
    moreover have "\<exists>y. evaluate_locked (cell_left (cells m ! i)) (cell_right (cells m ! i)) False R = Inr y \<and>
        cell_outcome (cells m ! i) = d_outcome y"
      using ok i len by (auto simp: matrix_ok_def)
    ultimately show ?thesis
      using ev [of k d] kd by auto
  qed
  have outs: "map cell_outcome (cells m) = map (\<lambda>(k, d). demo_outcome k d) (List.product ks' ds')"
    using len cell by (intro nth_equalityI) auto
  have count: "length (filter (\<lambda>c. cell_outcome c = x) (cells m)) =
      length (filter (\<lambda>(k, d). demo_outcome k d = x) (List.product ks' ds'))" for x
    using arg_cong [OF outs, of "\<lambda>xs. length (filter (\<lambda>y. y = x) xs)"] by (simp add: filter_map comp_def case_prod_unfold)
  have "n_compatible m = length (filter (\<lambda>c. cell_outcome c = Compatible) (cells m))"
    "n_incompatible m = length (filter (\<lambda>c. cell_outcome c = Incompatible) (cells m))"
    using ok by (simp_all add: matrix_ok_def all_outcomes_def tally_def)
  with m len count show ?thesis
    by simp
qed

lemma demo_counterfactual_lines:
  assumes "distinct (map fst ds @ map fst ks)" and "k \<in> set ks" and "d \<in> set ds" and "kernel_row k" and "device_row d"
    and "exceeds (snd (snd k)) ''9.0''" and R: "R = (demo_registry u ds ks)\<lparr>decisions := x\<rparr>"
  shows "demo_counterfactual (fst k) (fst d) R = Inr [''=== counterfactual (device 12.0 -> 9.0) ==='',
    ''  counterfactual outcome: INCOMPATIBLE (derived, never authoritative)'']"
proof -
  obtain kid kern kc did dev dc where kd: "k = (kid, kern, kc)" "d = (did, dev, dc)"
    by (cases k, cases d) auto
  let ?l = "fresh_profile kid PK_Kernel kern" and ?r = "fresh_profile did PK_Device dev"
  have cur: "current kid R = Some ?l" "current did R = Some ?r"
    using demo_current(1) [OF assms(1), of k u] demo_current(2) [OF assms(1), of d u] assms(2,3) kd
    by (simp_all add: R current_def)
  obtain dev' where dev': "apply_profile_field_edit PK_Device dev ''compute_capability'' (CStr ''9.0'') = Inr dev'"
    "canon_ok dev'" "resolve_profile_field PK_Device dev' ''compute_capability'' = Some (CStr ''9.0'')"
    using assms(5) kd by (auto simp: device_row_def)
  have res: "resolve_profile_field PK_Device dev ''compute_capability'' = Some (CStr dc)"
    "resolve_profile_field PK_Kernel kern ''compute_capability'' = Some (CStr kc)"
    using assms(4,5) kd by (auto simp: kernel_row_def device_row_def)
  let ?r' = "?r\<lparr>p_payload := dev', p_fingerprint := fingerprint_of dev'\<rparr>"
  have edits: "edits_loop ?r [\<lparr>ed_field = ''compute_capability'', ed_value = CStr ''9.0''\<rparr>] (?l, ?r) = Inr (?l, ?r')"
    using dev' res by (simp add: edit_payload_def canonical_fingerprint_hex_enc fingerprint_of_def)
  have pair: "capability_pair kc ''9.0'' ?l ?r'"
    using res dev'(3) by (simp add: capability_pair_def capability_of_Some)
  have cand: "candidates (\<lambda>s. s = ''pair'' \<or> s = ''counterfactual'') ?l ?r' R = [(capability_rule u [])\<lparr>r_generation := 1\<rparr>]"
    by (simp add: R demo_registry_def candidates_def applicable_def kind_matches_def capability_rule_def default_rule_def)
  obtain e where e: "eval_rule ((capability_rule u [])\<lparr>r_generation := 1\<rparr>) ?l ?r' = Inr e" "counts e"
    "e_outcome e = Incompatible"
    using capability_eval [OF pair refl, of u "[]"] assms(6) kd by auto
  have "\<exists>cf. counterfactual_pair kid did [\<lparr>ed_field = ''compute_capability'', ed_value = CStr ''9.0''\<rparr>] R = Inr cf \<and>
      d_outcome cf = Incompatible"
    using cur edits cand e
    by (auto simp: counterfactual_pair_def Let_def with_digest_def compute_digest_canon explain_text_def take_eval_def)
  then show ?thesis
    using kd by (auto simp: demo_counterfactual_def)
qed

lemma print_decision_outcome:
  "outcome_name (d_outcome d) = Inr name \<Longrightarrow> \<exists>rest. print_decision d = Inr ((''  outcome: '' @ name) # rest)"
  by (simp add: print_decision_def)

text \<open>Two decisions in the cache, and the registry can still be written.\<close>

lemma demo_persistable:
  assumes "distinct (map fst ds @ map fst ks)" and "\<forall>k \<in> set ks. kernel_row k" and "\<forall>d \<in> set ds. device_row d"
    and "length ds + length ks \<le> 100" and "plain_decision x" and "plain_decision y"
  shows "persistable (remember y (remember x (demo_registry u ds ks)))"
proof -
  let ?R = "demo_registry u ds ks"
  have dist: "distinct (map fst (demo_rows ds ks))" and plain: "\<forall>z \<in> set (demo_rows ds ks). plain_row z"
    using assms(1-3) demo_rows_plain by (simp_all add: demo_rows_fst)
  have none: "decisions ?R = []"
    by (simp add: demo_registry_def with_profiles_def empty_registry_def)
  have "registry_ok (remember x ?R)"
    using remembered_persistable [OF dist plain _ _ assms(5), of "[]" u] assms(4)
    by (simp add: demo_registry_def persistable_def demo_rows_def)
  then have "registry_ok (remember y (remember x ?R))"
    by (rule remember_ok)
  then show ?thesis
  proof (rule scenario_persistable [OF dist plain, where u = u and dmn = "[]" and
        ds = "AList.update (d_digest y) y [(d_digest x, x)]", rotated 3])
    show "remember y (remember x ?R) = (with_rule (capability_rule u []) (with_profiles (demo_rows ds ks)))
        \<lparr>decisions := AList.update (d_digest y) y [(d_digest x, x)]\<rparr>"
      using none by (simp add: remember_def demo_registry_def)
  qed (use assms(4-6) in \<open>auto simp: demo_rows_def\<close>)
qed

lemma demo_recovery_lines:
  assumes "persistable R" and "evaluate_locked k d False R = Inr x" and "writable demo_path"
  shows "\<exists>n fs'. demo_recovery writable fs k d x R = Inr ([''=== snapshot/save/recover/replay ==='',
    ''  replay digest equals? YES'', ''  loaded profiles: '' @ show_nat (length (profiles R)),
    ''  snapshot bytes: '' @ show_nat n], fs')"
proof -
  obtain bs where bs: "snapshot R = Inr bs" "recover bs = Inr (restored R)"
    using recover_snapshot [OF assms(1)] by blast
  have "evaluate_locked k d False (restored R) = Inr x"
    using assms(2) by (simp add: evaluate_restored)
  moreover have "profiles (restored R) = profiles R"
    by (simp add: restored_def)
  ultimately show ?thesis
    using bs assms(3) by (auto simp: demo_recovery_def save_def load_def evaluate_pair_def stats_def remember_def)
qed

lemma demo_command_lines:
  assumes "distinct (map fst [d0, d1] @ map fst [k0, k1])"
    and "\<forall>k \<in> {k0, k1}. kernel_row k" and "\<forall>d \<in> {d0, d1}. device_row d" and "\<forall>k \<in> {k0, k1}. exceeds (snd (snd k)) ''9.0''"
    and "mset ds = mset [d0, d1]" and "mset ks = mset [k0, k1]"
    and "build_demo seed = Inr (demo_registry u ds ks)" and "writable demo_path"
    and "query_by_kind PK_Device (demo_registry u ds ks) = map (\<lambda>d. fresh_profile (fst d) PK_Device (fst (snd d))) [d0, d1]"
    and "query_by_kind PK_Kernel (demo_registry u ds ks) = map (\<lambda>k. fresh_profile (fst k) PK_Kernel (fst (snd k))) [k0, k1]"
  shows "\<exists>lines fs' name. demo_command seed writable fs = Inr (lines, fs') \<and>
    outcome_name (demo_outcome k0 d0) = Inr name \<and> lines ! 1 = ''  outcome: '' @ name \<and>
    ''  compatible='' @ show_nat (length (filter (\<lambda>(k, d). demo_outcome k d = Compatible) (List.product [k0, k1] [d0, d1])))
      @ '' incompatible='' @
      show_nat (length (filter (\<lambda>(k, d). demo_outcome k d = Incompatible) (List.product [k0, k1] [d0, d1]))) @ '' cells=4''
      \<in> set lines \<and>
    {''  replay digest equals? YES'', ''  loaded profiles: 4'',
     ''  counterfactual outcome: INCOMPATIBLE (derived, never authoritative)'',
     ''  dependencies of kernel: 0'', ''  registry generation: 5''} \<subseteq> set lines"
proof -
  let ?R = "demo_registry u ds ks"
  have sets: "set ds = {d0, d1}" "set ks = {k0, k1}" "length ds = 2" "length ks = 2"
    using mset_eq_setD [OF assms(5)] mset_eq_setD [OF assms(6)] mset_eq_length [OF assms(5)] mset_eq_length [OF assms(6)]
    by simp_all
  have "mset (map fst ds @ map fst ks) = mset (map fst [d0, d1] @ map fst [k0, k1])"
    using assms(5,6) by simp
  then have dist: "distinct (map fst ds @ map fst ks)"
    using assms(1) mset_eq_imp_distinct_iff by blast
  have rows: "\<forall>k \<in> set ks. kernel_row k" "\<forall>d \<in> set ds. device_row d"
    using assms(2,3) sets by auto
  obtain x where x: "evaluate_locked (fst k0) (fst d0) False ?R = Inr x" "plain_decision x" "d_outcome x = demo_outcome k0 d0"
    using demo_decided [OF dist, of k0 d0 u] rows sets by auto
  obtain y where y: "evaluate_locked (fst k1) (fst d0) False ?R = Inr y" "plain_decision y" "d_outcome y = demo_outcome k1 d0"
    using demo_decided [OF dist, of k1 d0 u] rows sets by auto
  obtain name where name: "outcome_name (demo_outcome k0 d0) = Inr name"
    using demo_outcome_named by blast
  obtain rest where p1: "print_decision x = Inr ((''  outcome: '' @ name) # rest)"
    using print_decision_outcome name x(3) by metis
  obtain ls where p2: "print_decision y = Inr ls"
    using print_decision_outcome demo_outcome_named y(3) by metis
  let ?R' = "remember y (remember x ?R)"
  have R': "?R' = ?R\<lparr>decisions := decisions ?R'\<rparr>"
    by (simp add: remember_def)
  have same: "evaluate_locked a b False ?R' = evaluate_locked a b False ?R" for a b
    by (subst R') simp
  have first: "evaluate_pair (fst k0) (fst d0) ?R = (Inr x, remember x ?R)"
    using x(1) by (simp add: evaluate_pair_def)
  have second: "evaluate_pair (fst k1) (fst d0) (remember x ?R) = (Inr y, ?R')"
    using y(1) by (simp add: evaluate_pair_def remember_def)
  obtain m where m: "matrix (map fst [k0, k1]) (map fst [d0, d1]) ?R' = Inr m" "length (cells m) = 4"
    "n_compatible m = length (filter (\<lambda>(k, d). demo_outcome k d = Compatible) (List.product [k0, k1] [d0, d1]))"
    "n_incompatible m = length (filter (\<lambda>(k, d). demo_outcome k d = Incompatible) (List.product [k0, k1] [d0, d1]))"
    using demo_matrix_counts [OF dist rows _ _ R', of "[k0, k1]" "[d0, d1]"] sets by auto
  have "persistable ?R'"
    using demo_persistable [OF dist rows _ x(2) y(2)] sets by simp
  moreover have "length (profiles ?R') = 4"
    using sets by (simp add: remember_def demo_registry_def with_profiles_def demo_rows_def)
  ultimately obtain n fs' where rec: "demo_recovery writable fs (fst k0) (fst d0) x ?R' =
      Inr ([''=== snapshot/save/recover/replay ==='', ''  replay digest equals? YES'', ''  loaded profiles: '' @ show_nat 4,
        ''  snapshot bytes: '' @ show_nat n], fs')"
    using demo_recovery_lines [of ?R' "fst k0" "fst d0" x writable fs] x(1) same assms(8) by auto
  have cf: "demo_counterfactual (fst k0) (fst d0) ?R' = Inr [''=== counterfactual (device 12.0 -> 9.0) ==='',
    ''  counterfactual outcome: INCOMPATIBLE (derived, never authoritative)'']"
    using demo_counterfactual_lines [OF dist _ _ _ _ _ R', of k0 d0] rows sets assms(4) by auto
  have "dependencies_of (graph ?R') a = []" for a
    by (simp add: remember_def demo_registry_def with_rule_def with_profiles_def empty_registry_def dependencies_of_def
        adjacent_def)
  moreover have "registry_gen ?R' = 5"
    using sets by (simp add: remember_def demo_registry_def with_profiles_def demo_rows_def)
  moreover have "show_nat 4 = ''4''" "show_nat 0 = ''0''" "show_u64 5 = ''5''"
    by code_simp+
  moreover have "query_by_kind kd ?R' = query_by_kind kd ?R" for kd
    by (simp add: query_by_kind_def remember_def)
  moreover define line where "line = ''  compatible='' @ show_nat (n_compatible m) @ '' incompatible='' @
    show_nat (n_incompatible m) @ '' cells=4''"
  have "demo_matrix [fst k0, fst k1] [fst d0, fst d1] ?R' = Inr [''=== matrix 2x2 ==='', line]"
    using m(1,2) calculation(3) by (simp add: demo_matrix_def line_def)
  moreover have "demo_pairs (fst k0) (fst k1) (fst d0) ?R = Inr ([''=== pair (kernel 12.0 vs device 12.0) ===''] @
      ((''  outcome: '' @ name) # rest) @ [''=== pair (kernel 13.0 vs device 12.0) ===''] @ ls, x, ?R')"
    using first second p1 p2 by (simp add: demo_pairs_def)
  ultimately have "\<exists>lines fs'. demo_command seed writable fs = Inr (lines, fs') \<and>
      lines ! 1 = ''  outcome: '' @ name \<and> line \<in> set lines \<and>
    {''  replay digest equals? YES'', ''  loaded profiles: 4'',
     ''  counterfactual outcome: INCOMPATIBLE (derived, never authoritative)'',
     ''  dependencies of kernel: 0'', ''  registry generation: 5''} \<subseteq> set lines"
    using assms(7,9,10) rec cf by (simp add: demo_command_def element_at_def)
  then obtain lines fs' where "demo_command seed writable fs = Inr (lines, fs')" "lines ! 1 = ''  outcome: '' @ name"
    "line \<in> set lines" "{''  replay digest equals? YES'', ''  loaded profiles: 4'',
     ''  counterfactual outcome: INCOMPATIBLE (derived, never authoritative)'',
     ''  dependencies of kernel: 0'', ''  registry generation: 5''} \<subseteq> set lines"
    by (elim exE conjE) (rule that)
  with name show ?thesis
    unfolding line_def m(3,4) by (intro exI conjI)
qed

definition order_rows :: "row \<Rightarrow> row \<Rightarrow> row list" where
  "order_rows a b = (if fst a < fst b then [a, b] else [b, a])"

definition count_cells :: "outcome \<Rightarrow> row list \<Rightarrow> row list \<Rightarrow> nat" where
  "count_cells oc ks ds = length (filter (\<lambda>(k, d). demo_outcome k d = oc) (List.product ks ds))"

lemma order_rows_cases:
  obtains x y where "order_rows a b = [x, y]" and "mset [a, b] = mset [x, y]" and "{x, y} = {a, b}"
  by (cases "fst a < fst b") (auto simp: order_rows_def)

lemma demo_query_ordered:
  assumes "distinct (map fst [d, d', k, k'])"
  shows "query_by_kind PK_Device (demo_registry u [d, d'] [k, k']) =
      map (\<lambda>d. fresh_profile (fst d) PK_Device (fst (snd d))) (order_rows d d')"
    and "query_by_kind PK_Kernel (demo_registry u [d, d'] [k, k']) =
      map (\<lambda>k. fresh_profile (fst k) PK_Kernel (fst (snd k))) (order_rows k k')"
  using demo_query [OF assms, of u] by (simp_all add: order_rows_def)

lemma demo_rows_printed:
  assumes "distinct (map fst [da, db, ka, kb])"
    and "\<forall>d \<in> set [da, db]. device_row d" and "\<forall>k \<in> set [ka, kb]. kernel_row k"
    and "\<forall>k \<in> set [ka, kb]. exceeds (snd (snd k)) ''9.0''"
    and "build_demo seed = Inr (demo_registry u [da, db] [ka, kb])" and "writable demo_path"
  shows "\<exists>lines fs' name. demo_command seed writable fs = Inr (lines, fs') \<and>
    outcome_name (demo_outcome (hd (order_rows ka kb)) (hd (order_rows da db))) = Inr name \<and>
    lines ! 1 = ''  outcome: '' @ name \<and>
    ''  compatible='' @ show_nat (count_cells Compatible (order_rows ka kb) (order_rows da db)) @ '' incompatible='' @
      show_nat (count_cells Incompatible (order_rows ka kb) (order_rows da db)) @ '' cells=4'' \<in> set lines \<and>
    {''  replay digest equals? YES'', ''  loaded profiles: 4'',
     ''  counterfactual outcome: INCOMPATIBLE (derived, never authoritative)'',
     ''  dependencies of kernel: 0'', ''  registry generation: 5''} \<subseteq> set lines"
proof -
  obtain d0 d1 where d: "order_rows da db = [d0, d1]" "mset [da, db] = mset [d0, d1]" "{d0, d1} = {da, db}"
    by (rule order_rows_cases)
  obtain k0 k1 where k: "order_rows ka kb = [k0, k1]" "mset [ka, kb] = mset [k0, k1]" "{k0, k1} = {ka, kb}"
    by (rule order_rows_cases)
  have ids: "distinct (map fst [d0, d1] @ map fst [k0, k1])"
    using assms(1) unfolding d(1) [symmetric] k(1) [symmetric] by (auto simp: order_rows_def)
  have rows: "\<forall>k \<in> {k0, k1}. kernel_row k" "\<forall>d \<in> {d0, d1}. device_row d" "\<forall>k \<in> {k0, k1}. exceeds (snd (snd k)) ''9.0''"
    using assms(2-4) unfolding d(3) k(3) by simp_all
  note query = demo_query_ordered [OF assms(1), of u, unfolded d(1) k(1)]
  show ?thesis
    unfolding count_cells_def d(1) k(1) list.sel
    by (rule demo_command_lines [where writable = writable and u = u,
        OF ids rows d(2) k(2) assms(5,6) query])
qed

lemma demo_outcomes:
  assumes "fingerprint_of ` {d120, d90} \<inter> fingerprint_of ` {k120, k130} = {}"
  shows "demo_outcome (k, k120, ''12.0'') (d, d120, ''12.0'') = Compatible"
    and "demo_outcome (k, k120, ''12.0'') (d', d90, ''9.0'') = Incompatible"
    and "demo_outcome (k', k130, ''13.0'') (d, d120, ''12.0'') = Incompatible"
    and "demo_outcome (k', k130, ''13.0'') (d', d90, ''9.0'') = Incompatible"
proof -
  have "fingerprint_of k120 \<noteq> fingerprint_of d120" "fingerprint_of k120 \<noteq> fingerprint_of d90"
    "fingerprint_of k130 \<noteq> fingerprint_of d120" "fingerprint_of k130 \<noteq> fingerprint_of d90"
    using assms by auto
  then show "demo_outcome (k, k120, ''12.0'') (d, d120, ''12.0'') = Compatible"
    "demo_outcome (k, k120, ''12.0'') (d', d90, ''9.0'') = Incompatible"
    "demo_outcome (k', k130, ''13.0'') (d, d120, ''12.0'') = Incompatible"
    "demo_outcome (k', k130, ''13.0'') (d', d90, ''9.0'') = Incompatible"
    by (simp_all add: demo_outcome_def)
qed

lemma demo_cells:
  fixes d d' k k' :: uuid and d120 d90 k120 k130 :: canon
  defines "ds \<equiv> order_rows (d, d120, ''12.0'') (d', d90, ''9.0'')" and "ks \<equiv> order_rows (k, k120, ''12.0'') (k', k130, ''13.0'')"
  assumes "fingerprint_of ` {d120, d90} \<inter> fingerprint_of ` {k120, k130} = {}"
  shows "show_nat (count_cells Compatible ks ds) = ''1''" and "show_nat (count_cells Incompatible ks ds) = ''3''"
    and "demo_outcome (hd ks) (hd ds) = (if k < k' \<and> d < d' then Compatible else Incompatible)"
proof -
  have "count_cells Compatible ks ds = 1" "count_cells Incompatible ks ds = 3"
    by (simp_all add: ds_def ks_def count_cells_def order_rows_def demo_outcomes [OF assms(3)])
  moreover have "show_nat 1 = ''1''" "show_nat 3 = ''3''"
    by code_simp+
  ultimately show "show_nat (count_cells Compatible ks ds) = ''1''" "show_nat (count_cells Incompatible ks ds) = ''3''"
    by simp_all
  show "demo_outcome (hd ks) (hd ds) = (if k < k' \<and> d < d' then Compatible else Incompatible)"
    by (simp add: ds_def ks_def order_rows_def demo_outcomes [OF assms(3)])
qed

section \<open>Properties\<close>

text \<open>
  Property C39. The demonstration, whatever ids it draws, if the four profile ids are different and the
  file can be written: it ends with status 0; the registry it saves and loads again holds four
  profiles and gives the first decision again under the same digest; the counterfactual pair is
  incompatible; the registry stands at generation 5. But the pair it announces as kernel 12.0 and
  device 12.0 is the kernel and the device that drew the smaller ids, so it is reported as compatible
  in one case of four and as incompatible otherwise. The matrix has one compatible and three
  incompatible cells in any case. Fingerprint collisions under SHA-256 are the only exception.
\<close>

theorem demo_output:
  assumes "distinct [seed 1, seed 3, seed 5, seed 7]" and "writable demo_path"
  shows "\<exists>lines fs' d120 d90 k120 k130.
    device_to_canon (demo_device_120 (seed 0)) = Inr d120 \<and> device_to_canon (demo_device_90 (seed 2)) = Inr d90 \<and>
    kernel_to_canon (demo_kernel_120 (seed 4)) = Inr k120 \<and> kernel_to_canon (demo_kernel_130 (seed 6)) = Inr k130 \<and>
    cli_main seed devs writable fs [''compat'', ''demo''] = Inr (0, lines, fs') \<and>
    {''  replay digest equals? YES'', ''  loaded profiles: 4'',
     ''  counterfactual outcome: INCOMPATIBLE (derived, never authoritative)'',
     ''  dependencies of kernel: 0'', ''  registry generation: 5''} \<subseteq> set lines \<and>
    (fingerprint_of ` {d120, d90} \<inter> fingerprint_of ` {k120, k130} = {} \<longrightarrow>
      ''  compatible=1 incompatible=3 cells=4'' \<in> set lines \<and>
      lines ! 1 = ''  outcome: '' @ (if seed 5 < seed 7 \<and> seed 1 < seed 3 then ''COMPATIBLE'' else ''INCOMPATIBLE''))"
proof -
  obtain d120 d90 k120 k130 where payloads:
    "device_to_canon (demo_device_120 (seed 0)) = Inr d120" "device_to_canon (demo_device_90 (seed 2)) = Inr d90"
    "kernel_to_canon (demo_kernel_120 (seed 4)) = Inr k120" "kernel_to_canon (demo_kernel_130 (seed 6)) = Inr k130"
    and rows: "\<forall>d \<in> set [(seed 1, d120, ''12.0''), (seed 3, d90, ''9.0'')]. device_row d"
    "\<forall>k \<in> set [(seed 5, k120, ''12.0''), (seed 7, k130, ''13.0'')]. kernel_row k"
    and built: "build_demo seed = Inr (demo_registry (seed 8) [(seed 1, d120, ''12.0''), (seed 3, d90, ''9.0'')]
      [(seed 5, k120, ''12.0''), (seed 7, k130, ''13.0'')])"
    using build_demo_registry [OF assms(1)] by (elim exE conjE) (rule that)
  let ?d = "order_rows (seed 1, d120, ''12.0'') (seed 3, d90, ''9.0'')"
  let ?k = "order_rows (seed 5, k120, ''12.0'') (seed 7, k130, ''13.0'')"
  obtain lines fs' name where run: "demo_command seed writable fs = Inr (lines, fs')"
    "outcome_name (demo_outcome (hd ?k) (hd ?d)) = Inr name" "lines ! 1 = ''  outcome: '' @ name"
    "''  compatible='' @ show_nat (count_cells Compatible ?k ?d) @ '' incompatible='' @
      show_nat (count_cells Incompatible ?k ?d) @ '' cells=4'' \<in> set lines"
    "{''  replay digest equals? YES'', ''  loaded profiles: 4'',
     ''  counterfactual outcome: INCOMPATIBLE (derived, never authoritative)'',
     ''  dependencies of kernel: 0'', ''  registry generation: 5''} \<subseteq> set lines"
    using demo_rows_printed [where writable = writable and seed = seed and fs = fs, OF _ rows _ built assms(2)] assms(1)
    by auto
  have "cli_main seed devs writable fs [''compat'', ''demo''] = Inr (0, lines, fs')"
    using run(1) by (simp add: cli_main_def)
  moreover have "''  compatible=1 incompatible=3 cells=4'' \<in> set lines \<and>
      lines ! 1 = ''  outcome: '' @ (if seed 5 < seed 7 \<and> seed 1 < seed 3 then ''COMPATIBLE'' else ''INCOMPATIBLE'')"
    if "fingerprint_of ` {d120, d90} \<inter> fingerprint_of ` {k120, k130} = {}"
  proof -
    have "name = (if seed 5 < seed 7 \<and> seed 1 < seed 3 then ''COMPATIBLE'' else ''INCOMPATIBLE'')"
      using run(2) unfolding demo_cells(3) [OF that] by (auto split: if_splits)
    with run(3,4) show ?thesis
      by (simp add: demo_cells(1,2) [OF that])
  qed
  ultimately show ?thesis
    using payloads run(5) by (intro exI conjI) (assumption | simp)+
qed

theorem demo_output_witness:
  "\<exists>lines fs'. cli_main (\<lambda>n. Uuid (word_of_nat (n + 1))) [] (\<lambda>_. True) (\<lambda>_. None) [''compat'', ''demo''] = Inr (0, lines, fs') \<and>
    ''  replay digest equals? YES'' \<in> set lines \<and> ''  registry generation: 5'' \<in> set lines"
proof -
  let ?seed = "\<lambda>n. Uuid (word_of_nat (n + 1))"
  have ids: "distinct [?seed 1, ?seed 3, ?seed 5, ?seed 7]"
    by simp
  obtain lines fs' where run:
    "cli_main ?seed [] (\<lambda>_. True) (\<lambda>_. None) [''compat'', ''demo''] = Inr (0, lines, fs')"
    and printed: "{''  replay digest equals? YES'', ''  loaded profiles: 4'',
     ''  counterfactual outcome: INCOMPATIBLE (derived, never authoritative)'',
     ''  dependencies of kernel: 0'', ''  registry generation: 5''} \<subseteq> set lines"
    using demo_output [OF ids TrueI, where devs = "[]" and fs = "\<lambda>_. None"] by (elim exE conjE) (rule that)
  have "''  replay digest equals? YES'' \<in> set lines" "''  registry generation: 5'' \<in> set lines"
    by (rule subsetD [OF printed]; simp)+
  with run show ?thesis
    by (intro exI conjI)
qed

end
