(* ===== verification/Daemon.thy ===== *)
theory Daemon
  imports Transport
begin

text \<open>
  The coordinator process of \<^verbatim>\<open>src/net/coordinator_main.cpp\<close>: its arguments, the registry it starts
  from, and the server it runs.
\<close>

section \<open>Arguments and start\<close>

text \<open>
  \<^verbatim>\<open>std::atoi\<close>: blanks, a sign, digits. The value of a number that does not fit an \<^verbatim>\<open>int\<close> is
  undefined; \<open>None\<close> stands for it.
\<close>

definition is_blank :: "char \<Rightarrow> bool" where
  "is_blank c \<longleftrightarrow> c = CHR '' '' \<or> 9 \<le> (of_char c :: nat) \<and> (of_char c :: nat) \<le> 13"

definition atoi :: "string \<Rightarrow> int option" where
  "atoi s =
     (let t = dropWhile is_blank s;
          neg = (t \<noteq> [] \<and> hd t = CHR ''-'');
          signed = (t \<noteq> [] \<and> (hd t = CHR ''-'' \<or> hd t = CHR ''+''));
          n = int (digits_value (takeWhile is_digit (if signed then tl t else t)));
          v = (if neg then - n else n)
      in if - (2 ^ 31) \<le> v \<and> v < 2 ^ 31 then Some v else None)"

text \<open>The argument loop: \<open>port\<close> and \<open>path\<close> are the variables so far.\<close>

fun coordinator_args :: "string list \<Rightarrow> 16 word \<Rightarrow> string \<Rightarrow> (16 word \<times> string) option" where
  "coordinator_args (a # b # as) port path =
     (if a = ''--port'' then Option.bind (atoi b) (\<lambda>v. coordinator_args as (word_of_int v) path)
      else if a = ''--recover'' then coordinator_args as port b
      else coordinator_args (b # as) port path)"
| "coordinator_args _ port path = Some (port, path)"

text \<open>
  \<^verbatim>\<open>main\<close>: first the port, the coordinator it sets up and what it prints about them (the process id
  \<open>pid\<close> is given by the system); then the run of the server on the connections of that port. A
  failure to load ends the process with an uncaught exception.
\<close>

definition coordinator_start :: "int \<Rightarrow> files \<Rightarrow> string list \<Rightarrow> (string list \<times> 16 word \<times> coordinator) res" where
  "coordinator_start pid fs argv =
     (case coordinator_args (tl argv) 19731 [] of
        None \<Rightarrow> Inl Out_Of_Bounds
      | Some (port, path) \<Rightarrow>
          bindE (if path \<noteq> [] then load path fs else Inr empty_registry) (\<lambda>registry.
            Inr ((if path \<noteq> [] then [''coordinator recovered from '' @ path] else []) @
              [''coordinator listening on port '' @ show_nat (unat port) @ '' pid='' @ show_int pid],
              port, start_coordinator registry)))"

definition coordinator_main ::
  "(nat \<Rightarrow> uuid) \<Rightarrow> int \<Rightarrow> files \<Rightarrow> bool \<Rightarrow> (16 word \<Rightarrow> connection option list) \<Rightarrow> string list \<Rightarrow>
    (string list \<times> ending \<times> nat \<times> connection list \<times> coordinator) res" where
  "coordinator_main seed pid fs listening conns argv =
     bindE (coordinator_start pid fs argv) (\<lambda>(lines, port, S). Inr (lines, run_server listening seed (conns port) S))"

lemma coordinator_args_recover:
  "coordinator_args [''--port'', p, ''--recover'', path] port path0 =
     map_option (\<lambda>v. (word_of_int v, path)) (atoi p)"
  by (cases "atoi p") simp_all

section \<open>Properties\<close>

text \<open>
  Property C19. Restarting the coordinator loses no answer: a process started with \<^verbatim>\<open>--recover\<close> on the
  file a registry was saved to prints that it recovered and serves a coordinator, at epoch 1 and without
  sources, whose registry decides every pair and every requirement as the saved one did and whose
  cache holds the saved decisions under their ids, outcomes and digests.
\<close>

theorem restart_keeps_answers:
  assumes "persistable R" and "save writable path R fs = (Inr True, fs')" and "path \<noteq> []" and "atoi p = Some v"
  shows "\<exists>R'. coordinator_main seed pid fs' listening conns [prog, ''--port'', p, ''--recover'', path] =
      Inr ([''coordinator recovered from '' @ path,
        ''coordinator listening on port '' @ show_nat (unat (word_of_int v :: 16 word)) @ '' pid='' @ show_int pid],
        run_server listening seed (conns (word_of_int v)) \<lparr>co_registry = R', epoch = 1, sources = (\<lambda>_. None)\<rparr>) \<and>
    (\<forall>left right q. evaluate_locked left right q R' = evaluate_locked left right q R) \<and>
    map (\<lambda>(k, d). (k, d_decision_id d, d_outcome d, d_digest d)) (decisions R') =
      map (\<lambda>(k, d). (k, d_decision_id d, d_outcome d, d_digest d)) (decisions R)"
proof -
  obtain bs where bs: "snapshot R = Inr bs" "recover bs = Inr (restored R)"
    using recover_snapshot [OF assms(1)] by blast
  then have "load path fs' = Inr (restored R)"
    using assms(2) by (auto simp: save_def load_def split: if_splits)
  moreover have "decisions (restored R) = map (\<lambda>(k, d). (k, restored_decision d)) (decisions R)"
    by (simp add: restored_def)
  ultimately show ?thesis
    using assms(3,4)
    by (intro exI [of _ "restored R"])
      (simp add: coordinator_main_def coordinator_start_def coordinator_args_recover start_coordinator_def evaluate_restored
        restored_decision_def comp_def case_prod_unfold)
qed

theorem restart_keeps_answers_witness:
  "\<exists>fs' R' out. save (\<lambda>_. True) ''r.bin'' example_registry (\<lambda>_. None) = (Inr True, fs') \<and>
    coordinator_main (\<lambda>_. Uuid 9) 17 fs' True (\<lambda>_. []) [''c'', ''--port'', '' 80'', ''--recover'', ''r.bin''] = Inr out \<and>
    evaluate_locked (Uuid 1) (Uuid 2) False R' = evaluate_locked (Uuid 1) (Uuid 2) False example_registry"
proof -
  have ok: "persistable example_registry"
    by (rule example_persistable)
  obtain bs where "snapshot example_registry = Inr bs"
    using recover_snapshot [OF ok] by blast
  then obtain fs' where saved: "save (\<lambda>_. True) ''r.bin'' example_registry (\<lambda>_. None) = (Inr True, fs')"
    by (simp add: save_def)
  have port: "atoi '' 80'' = Some 80"
    by (simp add: atoi_def is_blank_def is_digit_def digits_value_def)
  have path: "''r.bin'' \<noteq> []"
    by simp
  obtain R' out where "coordinator_main (\<lambda>_. Uuid 9) 17 fs' True (\<lambda>_. []) [''c'', ''--port'', '' 80'', ''--recover'', ''r.bin''] = Inr out"
    and "\<forall>left right q. evaluate_locked left right q R' = evaluate_locked left right q example_registry"
    using restart_keeps_answers [OF ok saved path port, where seed = "\<lambda>_. Uuid 9" and pid = 17 and listening = True
      and conns = "\<lambda>_. []" and prog = "''c''"] by (elim exE conjE) (rule that)
  with saved show ?thesis
    by (intro exI conjI) (assumption | rule spec, rule spec, erule spec)+
qed

end
