(* ===== verification/Sizes.thy ===== *)
theory Sizes
  imports Scenario
begin

text \<open>
  How large the decisions of small rules are. Every message of the evaluator is bounded by the names of the
  fields it mentions, every evaluation adds at most one item for each clause, and every conflict one line
  of provenance; so a registry of small profiles, rules and decisions can always be written.
\<close>

section \<open>Numbers and names\<close>

lemma length_show_nat: "n < 10 ^ k \<Longrightarrow> 0 < k \<Longrightarrow> length (show_nat n) \<le> k"
proof (induction n arbitrary: k rule: show_nat.induct)
  case (1 n)
  show ?case
  proof (cases "n < 10")
    case False
    obtain j where k: "k = Suc j"
      using "1.prems"(2) by (cases k) simp_all
    with False have j: "k = Suc j" "0 < j"
      using "1.prems"(1) by (cases j; simp)+
    have "n div 10 < 10 ^ j"
      using "1.prems"(1) j(1) by (simp add: less_mult_imp_div_less mult.commute)
    with "1.IH" [OF _ _ j(2)] False j show ?thesis
      by (simp add: show_nat.simps [of n])
  qed (use "1.prems" in \<open>simp add: show_nat.simps [of n]\<close>)
qed

lemma length_show_word: "length (show_nat (unat (w :: u64))) \<le> 20"
proof -
  have "unat w < 10 ^ 20"
    using unsigned_less [where 'a = nat, of w] by simp
  then show ?thesis
    by (intro length_show_nat) simp_all
qed

lemma length_show_priority: "length (show_int (sint (w :: i32))) \<le> 21"
proof -
  have "nat (sint w) < 10 ^ 20" "nat (- sint w) < 10 ^ 20"
    using sint_less [of w] sint_ge [of w] by simp_all
  then have "length (show_nat (nat (sint w))) \<le> 20" "length (show_nat (nat (- sint w))) \<le> 20"
    by (intro length_show_nat; simp)+
  then show ?thesis
    by (simp add: show_int_def)
qed

lemma length_outcome_name: "outcome_name x = Inr name \<Longrightarrow> length name \<le> 40"
  by (cases x) auto

section \<open>One rule\<close>

definition short_clause :: "constraint \<Rightarrow> bool" where
  "short_clause c \<longleftrightarrow> length (c_field c) \<le> 20 \<and> length (c_right_field c) \<le> 20"

definition short_item :: "constraint_item \<Rightarrow> bool" where
  "short_item c \<longleftrightarrow> length (ci_dimension c) \<le> 100 \<and> length (ci_left c) \<le> 100 \<and> length (ci_right c) \<le> 100 \<and>
     length (ci_note c) \<le> 100"

definition short_strings :: "nat \<Rightarrow> string list \<Rightarrow> bool" where
  "short_strings n ss \<longleftrightarrow> length ss \<le> n \<and> (\<forall>s \<in> set ss. length s \<le> 200)"

lemma short_strings_simps [simp]:
  "short_strings n []" "short_strings (Suc n) (s # ss) \<longleftrightarrow> length s \<le> 200 \<and> short_strings n ss"
  by (auto simp: short_strings_def)

lemma short_strings_append: "short_strings n ss \<Longrightarrow> length s \<le> 200 \<Longrightarrow> short_strings (Suc n) (ss @ [s])"
  by (auto simp: short_strings_def)

lemma short_strings_mono: "short_strings n ss \<Longrightarrow> n \<le> m \<Longrightarrow> short_strings m ss"
  by (simp add: short_strings_def)

lemma check_short:
  assumes "check c l r = Inr (ok, y, n)" and "short_clause c"
  shows "length y \<le> 100 \<and> length n \<le> 100"
  using assms
  by (cases "c_op c") (auto simp: check_def evaluate_def short_clause_def eval_equality_def eval_in_set_def eval_bound_def
      eval_version_def eval_arch_family_def eval_feature_def unknown_field_def holds_def fails_def bindE_eq_Inr Let_def
      split: option.splits if_splits canon.splits)

definition bounded :: "nat \<Rightarrow> rule_eval \<Rightarrow> bool" where
  "bounded n e \<longleftrightarrow> length (e_satisfied e) + length (e_failed e) \<le> n \<and>
     (\<forall>c \<in> set (e_satisfied e) \<union> set (e_failed e). short_item c) \<and> short_strings n (e_missing_evidence e)"

lemma bounded_mono: "bounded n e \<Longrightarrow> n \<le> m \<Longrightarrow> bounded m e"
  by (auto simp: bounded_def intro: short_strings_mono)

lemma bounded_flags [simp]:
  "bounded n (e\<lparr>e_definite := a\<rparr>) = bounded n e" "bounded n (e\<lparr>e_outcome := x\<rparr>) = bounded n e"
  "bounded n (e\<lparr>e_incompat := a\<rparr>) = bounded n e" "bounded n (e\<lparr>e_missing := a\<rparr>) = bounded n e"
  "bounded n (e\<lparr>e_adaptations := as\<rparr>) = bounded n e"
  by (simp_all add: bounded_def)

lemma bounded_start: "bounded 0 (start_eval rl)"
  by (simp add: bounded_def start_eval_def)

lemma bounded_step:
  assumes "bounded n e" and "short_clause c"
  shows "bounded (Suc n) (missing c e)"
    and "bounded (Suc n) (failed c [] [] ''missing evidence'' (missing c e))"
    and "check c l r = Inr (ok, y, m) \<Longrightarrow> bounded (Suc n) (satisfied c y m e)"
    and "check c l r = Inr (ok, y, m) \<Longrightarrow> bounded (Suc n) (failed c y m m e)"
  using assms check_short [of c l r ok y m]
  by (auto simp: bounded_def missing_def failed_def satisfied_def item_def short_item_def short_clause_def
      intro!: short_strings_append intro: short_strings_mono)

lemma incompatible_bounded:
  "incompatible_loop l r cs e = Inr (b, e') \<Longrightarrow> \<forall>c \<in> set cs. short_clause c \<Longrightarrow> bounded n e \<Longrightarrow> bounded (n + length cs) e'"
proof (induction cs arbitrary: e n)
  case (Cons c cs)
  show ?case
  proof (cases "constraint_known c l r")
    case False
    with Cons.IH [of "missing c e" "Suc n"] Cons.prems bounded_step(1) show ?thesis
      by simp
  next
    case True
    then obtain ok y m where check: "check c l r = Inr (ok, y, m)"
      using Cons.prems(1) by (cases "check c l r") auto
    let ?e = "failed c y m m (e\<lparr>e_definite := True, e_incompat := True, e_outcome := Incompatible\<rparr>)"
    have "bounded (Suc n) (satisfied c y m e)" "bounded (Suc n) ?e"
      using Cons.prems(2,3) by (intro bounded_step(3,4) [OF _ _ check]; simp)+
    then show ?thesis
      using Cons.IH [of "satisfied c y m e" "Suc n"] Cons.prems True check bounded_mono [of "Suc n" ?e "n + length (c # cs)"]
      by (cases ok) auto
  qed
qed simp

lemma required_bounded:
  "required_loop l r cs e a = Inr (b, e') \<Longrightarrow> \<forall>c \<in> set cs. short_clause c \<Longrightarrow> bounded n e \<Longrightarrow> bounded (n + length cs) e'"
proof (induction cs arbitrary: e n a)
  case (Cons c cs)
  note IH = Cons.IH [where n = "Suc n"]
  show ?case
  proof (cases "constraint_known c l r")
    case False
    with IH [of "failed c [] [] ''missing evidence'' (missing c e)" False] Cons.prems bounded_step(2) show ?thesis
      by simp
  next
    case True
    then obtain ok y m where "check c l r = Inr (ok, y, m)"
      using Cons.prems(1) by (cases "check c l r") auto
    then show ?thesis
      using IH [of "satisfied c y m e" a] IH [of "failed c y m m e" False] Cons.prems True bounded_step(3,4) [of n e c]
      by (cases ok) auto
  qed
qed simp

lemma any_of_bounded:
  "any_of_loop l r cs e a = Inr (b, a', e') \<Longrightarrow> \<forall>c \<in> set cs. short_clause c \<Longrightarrow> bounded n e \<Longrightarrow> bounded (n + length cs) e'"
proof (induction cs arbitrary: e n a)
  case (Cons c cs)
  show ?case
  proof (cases "constraint_known c l r")
    case False
    with Cons.IH [of e True n] Cons.prems show ?thesis
      by (auto intro: bounded_mono)
  next
    case True
    then obtain ok y m where check: "check c l r = Inr (ok, y, m)"
      using Cons.prems(1) by (cases "check c l r") auto
    have "bounded (Suc n) (satisfied c y m e)" "bounded (Suc n) (failed c y m m e)"
      using Cons.prems(2,3) by (intro bounded_step(3,4) [OF _ _ check]; simp)+
    then show ?thesis
      using Cons.IH [of "failed c y m m e" a "Suc n"] Cons.prems True check
        bounded_mono [of "Suc n" "satisfied c y m e" "n + length (c # cs)"]
      by (cases ok) auto
  qed
qed simp

lemma conditions_bounded:
  "conditions_loop l r cs e a = Inr (b, e') \<Longrightarrow> \<forall>c \<in> set cs. short_clause c \<Longrightarrow> bounded n e \<Longrightarrow> bounded (n + length cs) e'"
proof (induction cs arbitrary: e n a)
  case (Cons c cs)
  show ?case
  proof (cases "constraint_known c l r")
    case False
    with Cons.IH [of "missing c e" False "Suc n"] Cons.prems bounded_step(1) show ?thesis
      by simp
  next
    case True
    then obtain ok y m where "check c l r = Inr (ok, y, m)"
      using Cons.prems(1) by (cases "check c l r") auto
    then show ?thesis
      using Cons.IH [of "failed c y m m e" False "Suc n"] Cons.IH [of e a n] Cons.prems True bounded_step(4) [of n e c]
      by (cases ok) (auto intro: bounded_mono)
  qed
qed simp

text \<open>The loops leave the adaptations and the rule alone.\<close>

abbreviation same_source :: "rule_eval \<Rightarrow> rule_eval \<Rightarrow> bool" where
  "same_source e e' \<equiv> e_adaptations e' = e_adaptations e \<and> e_rule e' = e_rule e"

lemma step_source [simp]:
  "e_adaptations (missing c e) = e_adaptations e" "e_rule (missing c e) = e_rule e"
  "e_adaptations (failed c y n w e) = e_adaptations e" "e_rule (failed c y n w e) = e_rule e"
  "e_adaptations (satisfied c y n e) = e_adaptations e" "e_rule (satisfied c y n e) = e_rule e"
  by (simp_all add: missing_def failed_def satisfied_def)

lemma incompatible_source: "incompatible_loop l r cs e = Inr (b, e') \<Longrightarrow> same_source e e'"
proof (induction cs arbitrary: e)
  case (Cons c cs)
  then show ?case
    by (cases "check c l r") (auto split: if_splits dest!: Cons.IH)
qed simp

lemma required_source: "required_loop l r cs e a = Inr (b, e') \<Longrightarrow> same_source e e'"
proof (induction cs arbitrary: e a)
  case (Cons c cs)
  then show ?case
    by (cases "check c l r") (auto split: if_splits dest!: Cons.IH)
qed simp

lemma any_of_source: "any_of_loop l r cs e a = Inr (b, a', e') \<Longrightarrow> same_source e e'"
proof (induction cs arbitrary: e a)
  case (Cons c cs)
  then show ?case
    by (cases "check c l r") (auto split: if_splits dest!: Cons.IH)
qed simp

lemma conditions_source: "conditions_loop l r cs e a = Inr (b, e') \<Longrightarrow> same_source e e'"
proof (induction cs arbitrary: e a)
  case (Cons c cs)
  then show ?case
    by (cases "check c l r") (auto split: if_splits dest!: Cons.IH)
qed simp

lemmas loops_source = incompatible_source required_source any_of_source conditions_source

definition short_rule :: "rule \<Rightarrow> bool" where
  "short_rule rl \<longleftrightarrow> length (r_incompatible_with rl @ r_required rl @ r_any_of rl @ r_conditions rl) \<le> 1 \<and>
     (\<forall>c \<in> clauses rl. short_clause c) \<and> short_strings 1 (r_adaptations rl)"

lemma kind_result_bounded:
  assumes "kind_result rl l r e = Inr e'" and "\<forall>c \<in> set (r_conditions rl). short_clause c" and "bounded n e"
  shows "bounded (n + length (r_conditions rl)) e' \<and> e_adaptations e' = r_adaptations rl \<and> e_rule e' = e_rule e"
  using assms conditions_bounded [of l r "r_conditions rl" e True _ _ n] loops_source(4) [of l r "r_conditions rl" e True]
  by (fastforce simp: kind_result_def bindE_eq_Inr split: rule_kind.splits intro: bounded_mono)

lemma eval_rule_bounded:
  assumes "eval_rule rl l r = Inr e" and "short_rule rl"
  shows "bounded 1 e \<and> (e_adaptations e = [] \<or> e_adaptations e = r_adaptations rl) \<and> e_rule e = rl"
proof -
  have clauses: "\<forall>c \<in> set (r_incompatible_with rl). short_clause c" "\<forall>c \<in> set (r_required rl). short_clause c"
    "\<forall>c \<in> set (r_any_of rl). short_clause c" "\<forall>c \<in> set (r_conditions rl). short_clause c"
    using assms(2) by (simp_all add: short_rule_def clauses_def)
  let ?i = "length (r_incompatible_with rl)" and ?r = "length (r_required rl)" and ?a = "length (r_any_of rl)"
  have sum: "?i + ?r + ?a + length (r_conditions rl) \<le> 1"
    using assms(2) by (simp add: short_rule_def)
  obtain m e1 where e1: "incompatible_loop l r (r_incompatible_with rl) (start_eval rl) = Inr (m, e1)"
    using assms(1) by (auto simp: eval_rule_def bindE_eq_Inr)
  have b1: "bounded ?i e1" "e_adaptations e1 = []" "e_rule e1 = rl"
    using incompatible_bounded [OF e1 clauses(1) bounded_start] loops_source(1) [OF e1] by (simp_all add: start_eval_def)
  show ?thesis
  proof (cases m)
    case True
    then show ?thesis
      using assms(1) e1 b1 sum by (auto simp: eval_rule_def intro: bounded_mono)
  next
    case unmatched: False
    obtain all e2 where e2: "required_loop l r (r_required rl) e1 True = Inr (all, e2)"
      using assms(1) e1 unmatched by (auto simp: eval_rule_def bindE_eq_Inr)
    have b2: "bounded (?i + ?r) e2" "e_adaptations e2 = []" "e_rule e2 = rl"
      using required_bounded [OF e2 clauses(2) b1(1)] loops_source(2) [OF e2] b1(2,3) by simp_all
    show ?thesis
    proof (cases all)
      case False
      then show ?thesis
        using assms(1) e1 e2 unmatched b2 sum by (auto simp: eval_rule_def intro: bounded_mono split: if_splits)
    next
      case all: True
      then have any: "any_of_result rl l r e2 = Inr e"
        using assms(1) e1 e2 unmatched by (simp add: eval_rule_def)
      show ?thesis
      proof (cases "r_any_of rl = []")
        case True
        then have "kind_result rl l r e2 = Inr e"
          using any by (simp add: any_of_result_def)
        from kind_result_bounded [OF this clauses(4) b2(1)] show ?thesis
          using b2 sum True by (auto intro: bounded_mono)
      next
        case False
        then obtain x y e3 where e3: "any_of_loop l r (r_any_of rl) e2 False = Inr (x, y, e3)"
          using any by (auto simp: any_of_result_def bindE_eq_Inr)
        have b3: "bounded (?i + ?r + ?a) e3" "e_adaptations e3 = []" "e_rule e3 = rl"
          using any_of_bounded [OF e3 clauses(3) b2(1)] loops_source(3) [OF e3] b2(2,3) by simp_all
        show ?thesis
        proof (cases x)
          case False
          then show ?thesis
            using any e3 b3 sum \<open>r_any_of rl \<noteq> []\<close> by (auto simp: any_of_result_def intro: bounded_mono split: if_splits)
        next
          case True
          then have "kind_result rl l r e3 = Inr e"
            using any e3 \<open>r_any_of rl \<noteq> []\<close> by (simp add: any_of_result_def)
          from kind_result_bounded [OF this clauses(4) b3(1)] show ?thesis
            using b3 sum by (auto intro: bounded_mono)
        qed
      qed
    qed
  qed
qed

section \<open>The decision\<close>

definition short_decision :: "decision \<Rightarrow> bool" where
  "short_decision d \<longleftrightarrow> length (d_satisfied d) + length (d_failed d) \<le> 1 \<and>
     (\<forall>c \<in> set (d_satisfied d) \<union> set (d_failed d). short_item c) \<and> short_strings 1 (d_adaptations d) \<and>
     short_strings 1 (d_missing_evidence d) \<and> short_strings 12 (d_provenance d)"

lemma conflict_loop_short:
  "conflict_loop best es d = Inr d' \<Longrightarrow> short_strings n (d_provenance d) \<Longrightarrow> short_strings (n + length es) (d_provenance d')"
proof (induction es arbitrary: d n)
  case (Cons e es)
  show ?case
  proof (cases "e_outcome e = e_outcome best")
    case True
    then show ?thesis
      using Cons.IH [of d "Suc n"] Cons.prems by (simp add: short_strings_mono)
  next
    case False
    then obtain name where name: "outcome_name (e_outcome e) = Inr name"
      using Cons.prems(1) by (cases "outcome_name (e_outcome e)") simp_all
    with False show ?thesis
      using Cons.prems length_outcome_name [OF name]
      by (auto intro!: Cons.IH [of _ "Suc n", simplified] short_strings_append)
  qed
qed simp

lemma decide_short:
  assumes "decide cand evals d = Inr d'" and "length evals \<le> 10" and "\<forall>e \<in> set evals. bounded 1 e \<and> short_strings 1 (e_adaptations e)"
    and "d_satisfied d = []" and "d_failed d = []" and "d_adaptations d = []" and "d_missing_evidence d = []"
    and "short_strings 1 (d_provenance d)"
  shows "short_decision d'"
proof (cases "filter counts evals")
  case Nil
  let ?cand = "case cand of [] \<Rightarrow> d | a # _ \<Rightarrow> note_provenance (''authoritative rule '' @ uuid_to_string (r_rule_id a) @
    '' (generation '' @ show_nat (unat (r_generation a)) @ '')'') (d\<lparr>d_rule_id := r_rule_id a, d_rule_generation := r_generation a\<rparr>)"
  have "short_strings 2 (d_provenance ?cand)" "d_satisfied ?cand = []" "d_failed ?cand = []" "d_adaptations ?cand = []"
      "d_missing_evidence ?cand = []"
    using assms(4-8) order_trans [OF length_show_word]
    by (auto intro: short_strings_mono intro!: short_strings_append [of 1, simplified Suc_1] split: list.split)
  moreover have "d' = (if list_ex e_missing evals
      then note_provenance ''one or more rules needed evidence that is not present'' (?cand\<lparr>d_outcome := Insufficient_Evidence\<rparr>)
      else note_provenance ''no rule establishes compatibility; profiles differ'' (?cand\<lparr>d_outcome := Unknown\<rparr>))"
    using assms(1) Nil by (simp add: decide_def Let_def)
  moreover have "short_strings 12 (d_provenance ?cand @ [m])" if "length m \<le> 200" for m
    using short_strings_append [OF calculation(1) that] by (rule short_strings_mono) simp
  ultimately show ?thesis
    by (simp add: short_decision_def split del: list.split)
next
  case (Cons best others)
  let ?line = "''rule '' @ uuid_to_string (r_rule_id (e_rule best)) @ '' (priority '' @ show_int (sint (r_priority (e_rule best))) @ '')''"
  have loop: "conflict_loop best others (note_provenance ?line (take_eval best d)) = Inr d'"
    using assms(1) Cons by (simp add: decide_def)
  have "best \<in> set (filter counts evals)"
    unfolding Cons by simp
  then have "length (filter counts evals) \<le> 10" "best \<in> set evals"
    using assms(2) order_trans [OF length_filter_le [of counts evals]] by auto
  moreover have "short_strings 2 (d_provenance (note_provenance ?line (take_eval best d)))"
    using assms(8) length_show_priority [of "r_priority (e_rule best)"]
    by (auto intro!: short_strings_append [of 1, simplified Suc_1] simp: take_eval_def)
  from conflict_loop_short [OF loop this] have "short_strings (2 + length others) (d_provenance d')" .
  moreover obtain prov where "d' = (take_eval best d)\<lparr>d_provenance := prov\<rparr>"
    using conflict_loop_result [OF loop] by auto
  ultimately show ?thesis
    using assms(3) Cons by (auto simp: short_decision_def take_eval_def bounded_def intro: short_strings_mono)
qed

lemma enc_strings_short: "short_strings n ss \<Longrightarrow> length (enc_elements (map CStr ss)) \<le> n * 210"
proof (induction ss arbitrary: n)
  case (Cons s ss)
  then obtain m where "n = Suc m" "short_strings m ss" "length s \<le> 200"
    by (cases n) (auto simp: short_strings_def)
  with Cons.IH show ?case
    by (fastforce simp: bytes_length)
qed simp

lemma short_decision_plain:
  assumes "short_decision d" and "decision_ok d"
  shows "plain_decision d"
  unfolding plain_decision_def
proof (intro conjI allI impI)
  fix c
  assume "enc_decision d = Inr c"
  then obtain sat fail where items: "mapE enc_constraint_item (d_satisfied d) = Inr sat" "mapE enc_constraint_item (d_failed d) = Inr fail"
    and c: "c = CRecord [(1, CUuid (d_decision_id d)), (2, CUuid (d_left d)), (3, CUuid (d_right d)),
      (4, CUint (ucast (outcome_code (d_outcome d)))), (5, CUuid (d_rule_id d)), (6, CUint (d_rule_generation d)),
      (7, CUuid (d_policy_id d)), (8, CUint (d_policy_generation d)), (9, CSeq sat), (10, CSeq fail),
      (11, CSeq (map CStr (d_adaptations d))), (12, CSeq (map CStr (d_missing_evidence d))),
      (13, CSeq (map CStr (d_provenance d))), (14, CUint (d_registry_generation d)),
      (15, CBool (d_counterfactual d)), (16, CBytes (bytes_str (d_digest d)))]"
    by (auto simp: enc_decision_def bindE_eq_Inr mk_record_tags_ok)
  have one: "length (enc y) \<le> 600" if "x \<in> set (d_satisfied d) \<union> set (d_failed d)" "enc_constraint_item x = Inr y" for x y
  proof -
    have "short_item x"
      using that(1) assms(1) by (auto simp: short_decision_def)
    then show ?thesis
      using that(2) by (auto simp: short_item_def enc_constraint_item_def mk_record_tags_ok bytes_length)
  qed
  have "length (enc_elements sat) \<le> length (d_satisfied d) * 600" "length (enc_elements fail) \<le> length (d_failed d) * 600"
    using items one by (auto intro: length_enc_mapE)
  moreover have "length (d_satisfied d) \<le> 1" "length (d_failed d) \<le> 1"
    using assms(1) by (simp_all add: short_decision_def)
  ultimately have "length (enc_elements sat) \<le> 600" "length (enc_elements fail) \<le> 600"
    by simp_all
  moreover have "length (enc_elements (map CStr (d_adaptations d))) \<le> 1 * 210"
    "length (enc_elements (map CStr (d_missing_evidence d))) \<le> 1 * 210"
    "length (enc_elements (map CStr (d_provenance d))) \<le> 12 * 210"
    using assms(1) unfolding short_decision_def by (blast intro: enc_strings_short)+
  moreover have "length (d_digest d) = 32"
    using assms(2) by (simp add: decision_ok_def)
  ultimately show "length (enc c) \<le> 5000"
    unfolding c by (simp add: bytes_length)
qed (rule assms(2))

lemma named_written: "explain_text d = Inr expl \<Longrightarrow> outcome_ok (d_outcome d)"
  by (cases "d_outcome d") (simp_all add: explain_text_def)

lemma list_all2_set2: "list_all2 P xs ys \<Longrightarrow> y \<in> set ys \<Longrightarrow> \<exists>x \<in> set xs. P x y"
  by (induction rule: list_all2_induct) auto

lemma evaluated_plain:
  assumes "current left R = Some l" and "current right R = Some r" and "evaluate_locked left right False R = Inr d"
    and "length (p_fingerprint l) = 64"
    and "\<forall>rl \<in> set (candidates (scope_of False) l r R). short_rule rl" and "length (candidates (scope_of False) l r R) \<le> 10"
  shows "plain_decision d"
proof (cases "p_fingerprint l = p_fingerprint r")
  case True
  then have "short_decision d \<and> decision_ok d"
    using assms(1-4) by (auto simp: evaluate_locked_def Let_def with_digest_def compute_digest_canon empty_decision_def
        short_decision_def short_item_def decision_ok_def short_strings_def)
  then show ?thesis
    using short_decision_plain by blast
next
  case False
  let ?cand = "candidates (scope_of False) l r R"
  obtain evals base made did dig expl where d: "mapE (\<lambda>rl. eval_rule rl l r) ?cand = Inr evals" "decide ?cand evals base = Inr made"
    "base = empty_decision\<lparr>d_left := p_id l, d_right := p_id r, d_policy_id := policy_id R,
      d_registry_generation := registry_gen R, d_provenance := [''deterministic rule resolution'']\<rparr>"
    "d = made\<lparr>d_decision_id := did, d_digest := dig, d_explanation := expl\<rparr>" "explain_text d = Inr expl" "length dig = 32"
    by (rule evaluate_locked_decision [OF assms(1,2) False assms(3)]) (rule that)
  have all: "list_all2 (\<lambda>rl e. eval_rule rl l r = Inr e) ?cand evals"
    using d(1) by (simp add: mapE_eq_Inr)
  have "bounded 1 e \<and> short_strings 1 (e_adaptations e)" if e: "e \<in> set evals" for e
  proof -
    obtain rl where rl: "rl \<in> set ?cand" "eval_rule rl l r = Inr e"
      using list_all2_set2 [OF all e] by blast
    with assms(5) show ?thesis
      using eval_rule_bounded [OF rl(2)] by (auto simp: short_rule_def)
  qed
  moreover have "length evals \<le> 10"
    using all assms(6) list_all2_lengthD by fastforce
  ultimately have "short_decision made"
    using d(2,3) by (intro decide_short [of ?cand evals base]) (simp_all add: empty_decision_def)
  then have "short_decision d" "decision_ok d"
    using d(4-6) named_written [OF d(5)] by (simp_all add: short_decision_def decision_ok_def)
  then show ?thesis
    using short_decision_plain by blast
qed

lemma exact_plain:
  assumes "current left R = Some l" and "current right R = Some r" and "p_fingerprint l = p_fingerprint r"
    and "length (p_fingerprint r) = 64"
  shows "\<exists>d. evaluate_locked left right False R = Inr d \<and> d_outcome d = Exact \<and> d_adaptations d = [] \<and> plain_decision d"
proof -
  have "\<exists>d. evaluate_locked left right False R = Inr d \<and> d_outcome d = Exact \<and> d_adaptations d = [] \<and>
      short_decision d \<and> decision_ok d"
    using assms by (auto simp: evaluate_locked_def Let_def with_digest_def compute_digest_canon empty_decision_def
        short_decision_def short_item_def decision_ok_def short_strings_def)
  then show ?thesis
    using short_decision_plain by blast
qed

text \<open>The adaptations are those of the rule that decides.\<close>

lemma decided_adaptations:
  assumes "current left R = Some l" and "current right R = Some r" and "p_fingerprint l \<noteq> p_fingerprint r"
    and "evaluate_locked left right False R = Inr d"
    and "\<forall>rl \<in> set (candidates (scope_of False) l r R). \<forall>c \<in> clauses rl. settled l r c"
    and "find (\<lambda>rl. decides (verdict_of rl (truth_of l r))) (candidates (scope_of False) l r R) = Some rl"
  shows "\<exists>e. eval_rule rl l r = Inr e \<and> d_adaptations d = e_adaptations e"
proof -
  let ?cand = "candidates (scope_of False) l r R"
  obtain evals base made did dig expl where d: "mapE (\<lambda>rl. eval_rule rl l r) ?cand = Inr evals" "decide ?cand evals base = Inr made"
    "base = empty_decision\<lparr>d_left := p_id l, d_right := p_id r, d_policy_id := policy_id R,
      d_registry_generation := registry_gen R, d_provenance := [''deterministic rule resolution'']\<rparr>"
    "d = made\<lparr>d_decision_id := did, d_digest := dig, d_explanation := expl\<rparr>" "explain_text d = Inr expl" "length dig = 32"
    by (rule evaluate_locked_decision [OF assms(1-4)]) (rule that)
  have all: "list_all2 (\<lambda>rl e. eval_rule rl l r = Inr e) ?cand evals"
    using d(1) by (simp add: mapE_eq_Inr)
  have "list_all2 (\<lambda>rl e. eval_rule rl l r = Inr e \<and> (decides (verdict_of rl (truth_of l r)) \<longleftrightarrow> counts e)) ?cand evals"
    using all
  proof (rule list.rel_mono_strong)
    fix rl e
    assume "rl \<in> set ?cand" "eval_rule rl l r = Inr e"
    then show "eval_rule rl l r = Inr e \<and> (decides (verdict_of rl (truth_of l r)) \<longleftrightarrow> counts e)"
      using eval_rule_table [of rl l r] assms(5) agrees_decides(1) [of rl l r e] by auto
  qed
  then have "list_all2 (\<lambda>rl e. decides (verdict_of rl (truth_of l r)) \<longleftrightarrow> counts e) ?cand evals"
    by (rule list_all2_mono) blast
  from find_list_all2 [OF this] assms(6) obtain best others where best: "filter counts evals = best # others"
    "(rl, best) \<in> set (zip ?cand evals)"
    by auto
  then have "eval_rule rl l r = Inr best"
    using all by (auto simp: list_all2_iff)
  moreover have "d_adaptations made = e_adaptations best"
    using d(2) best(1) by (auto simp: decide_def take_eval_def dest!: conflict_loop_result)
  ultimately show ?thesis
    using d(4) by simp
qed

lemma conditional_adaptations:
  assumes "eval_rule rl l r = Inr e" and "r_incompatible_with rl = []" and "r_required rl = []" and "r_any_of rl = []"
  shows "e_adaptations e = r_adaptations rl"
  using assms by (auto simp: eval_rule_def any_of_result_def kind_result_def bindE_eq_Inr split: rule_kind.splits)

section \<open>Small registries\<close>

text \<open>Profiles, rules, invalidations and decisions all small, and not too many of them.\<close>

definition light_profile :: "profile_record \<Rightarrow> bool" where
  "light_profile p \<longleftrightarrow> profile_record_ok p \<and> length (enc (p_payload p)) \<le> 4000 \<and> length (p_deps p) \<le> 1 \<and>
     p_provenance p = [] \<and> length (p_fingerprint p) = 64"

definition light_rule :: "rule_record \<Rightarrow> bool" where
  "light_rule rr \<longleftrightarrow> rule_record_ok rr \<and>
     (\<forall>c. enc_rule (rr_rule rr) (rr_active rr) = Inr c \<longrightarrow> length (enc c) \<le> 5000)"

definition light_invalidation :: "invalidation \<Rightarrow> bool" where
  "light_invalidation iv \<longleftrightarrow> length (iv_reason iv) \<le> 100 \<and> length (iv_fingerprint_before iv) \<le> 64"

definition light :: "registry \<Rightarrow> bool" where
  "light R \<longleftrightarrow> evidence R = [] \<and> (\<forall>h \<in> snd ` set (profiles R). \<forall>p \<in> set h. light_profile p) \<and>
     (\<forall>rr \<in> snd ` set (rules R). light_rule rr) \<and> (\<forall>iv \<in> set (invalidations R). light_invalidation iv) \<and>
     (\<forall>d \<in> snd ` set (decisions R). plain_decision d)"

definition few :: "registry \<Rightarrow> bool" where
  "few R \<longleftrightarrow> length (concat (map snd (profiles R))) \<le> 100 \<and> length (rules R) \<le> 100 \<and>
     length (invalidations R) \<le> 100 \<and> length (decisions R) \<le> 100"

lemma light_profile_size: "enc_profile p = Inr c \<Longrightarrow> light_profile p \<Longrightarrow> length (enc c) \<le> 5000"
  using record_field_ok [of "p_payload p"]
  by (cases "p_deps p")
    (auto simp: enc_profile_def light_profile_def profile_record_ok_def mk_record_tags_ok bytes_length)

lemma light_invalidation_size: "enc_invalidation iv = Inr c \<Longrightarrow> light_invalidation iv \<Longrightarrow> length (enc c) \<le> 5000"
  by (auto simp: enc_invalidation_def light_invalidation_def mk_record_tags_ok bytes_length)

lemma light_document:
  assumes "light R" and "few R" and "snapshot_document R = Inr doc"
  shows "length (enc doc) \<le> 2100000"
proof -
  obtain ps rs ivs ds where parts: "mapE enc_profile (concat (map snd (profiles R))) = Inr ps"
    "mapE (\<lambda>rr. enc_rule (rr_rule rr) (rr_active rr)) (map snd (rules R)) = Inr rs"
    "mapE enc_invalidation (invalidations R) = Inr ivs" "mapE enc_decision (map snd (decisions R)) = Inr ds"
    and doc: "doc = CRecord [(1, CUint (registry_gen R)), (2, CUuid (policy_id R)), (3, CSeq ps), (4, CSeq rs), (5, CSeq []),
        (6, CSeq ivs), (7, CSeq ds)]"
    using assms by (auto simp: light_def snapshot_document_def bindE_eq_Inr mk_record_tags_ok)
  have "length (enc_elements ps) \<le> length (concat (map snd (profiles R))) * 5000"
    using parts(1) by (rule length_enc_mapE) (use assms(1) in \<open>force simp: light_def intro: light_profile_size\<close>)
  moreover have "length (enc_elements rs) \<le> length (map snd (rules R)) * 5000"
    using parts(2) by (rule length_enc_mapE) (use assms(1) in \<open>auto simp: light_def light_rule_def\<close>)
  moreover have "length (enc_elements ivs) \<le> length (invalidations R) * 5000"
    using parts(3) by (rule length_enc_mapE) (use assms(1) in \<open>auto simp: light_def intro: light_invalidation_size\<close>)
  moreover have "length (enc_elements ds) \<le> length (map snd (decisions R)) * 5000"
    using parts(4) by (rule length_enc_mapE) (use assms(1) in \<open>auto simp: light_def plain_decision_def\<close>)
  ultimately have "length (enc_elements ps) \<le> 500000" "length (enc_elements rs) \<le> 500000"
    "length (enc_elements ivs) \<le> 500000" "length (enc_elements ds) \<le> 500000"
    using assms(2) by (simp_all add: few_def)
  then show ?thesis
    unfolding doc by (simp add: bytes_length)
qed

lemma light_persistable:
  assumes "registry_ok R" and "deps_current R" and "light R" and "few R"
  shows "persistable R"
proof -
  have "objects_ok R"
    using assms(3) by (force simp: objects_ok_def light_def light_profile_def light_rule_def plain_decision_def)
  moreover have "canon_fits doc" if "snapshot_document R = Inr doc" for doc
    using light_document [OF assms(3,4) that] by (intro canon_fits_small) simp
  ultimately show ?thesis
    using assms(1,2) by (simp add: persistable_def)
qed

text \<open>Invalidating a profile and caching a decision keep a registry small.\<close>

lemma length_update_profiles:
  "map_of m u = Some h \<Longrightarrow> length (concat (map snd (AList.update u (map f h) m))) = length (concat (map snd m))"
  by (induction m) auto

lemma light_invalidate:
  assumes "light R" and "few R" and "length (invalidations R) < 100"
  shows "light (invalidate_node u R) \<and> few (invalidate_node u R) \<and>
    length (invalidations (invalidate_node u R)) \<le> Suc (length (invalidations R))"
proof (cases "map_of (profiles R) u")
  case (Some hist)
  then have row: "(u, hist) \<in> set (profiles R)"
    by (rule map_of_SomeD)
  then have profile: "\<forall>p \<in> set hist. light_profile p"
    using assms(1) by (force simp: light_def)
  then have dead: "\<forall>p \<in> set (map deactivate hist). light_profile p"
    by (auto simp: light_profile_def profile_record_ok_def)
  have "\<forall>h \<in> snd ` set (AList.update u (map deactivate hist) (profiles R)). \<forall>p \<in> set h. light_profile p"
    using set_update_subset [of u "map deactivate hist" "profiles R"] dead assms(1) by (force simp: light_def)
  moreover have "length (p_fingerprint (last hist)) \<le> 64" if "hist \<noteq> []"
    using profile last_in_set [OF that] by (simp add: light_profile_def)
  ultimately show ?thesis
    using assms Some by (auto simp: invalidate_node_def light_def few_def light_invalidation_def length_update_profiles)
qed (use assms in \<open>simp add: invalidate_node_def\<close>)

lemma length_update: "length (AList.update k v m) \<le> Suc (length m)"
  by (induction m) auto

lemma light_remember:
  assumes "light R" and "few R" and "length (decisions R) < 100" and "plain_decision d"
  shows "light (remember d R) \<and> few (remember d R)"
  using assms set_update_subset [of "d_digest d" d "decisions R"] length_update [of "d_digest d" d "decisions R"]
  by (force simp: light_def few_def remember_def)

lemma light_bump [simp]: "light (R\<lparr>registry_gen := g\<rparr>) = light R" "few (R\<lparr>registry_gen := g\<rparr>) = few R"
  by (simp_all add: light_def few_def)

end
