(* ===== verification/Process.thy ===== *)
theory Process
  imports Sizes Remote Daemon
begin

text \<open>
  The proof by processes of \<^verbatim>\<open>src/net/net_proof.cpp\<close>: a program that starts a coordinator, publishes
  profiles and a rule as two sources, queries decisions, tries what must be refused, saves a snapshot,
  and asks a second coordinator, recovered from it, again. It is modelled over the client, the frames,
  the coordinator, the registry and the coordinator process.
\<close>

section \<open>Calls of the program\<close>

text \<open>An exception ends the program; a refusal is a result.\<close>

definition calling :: "answer call \<times> link \<Rightarrow> (string + answer \<Rightarrow> link \<Rightarrow> 'b res) \<Rightarrow> 'b res" where
  "calling x f = (case x of (Inl e, _) \<Rightarrow> Inl e | (Inr a, s) \<Rightarrow> f a s)"

definition succeeded :: "string + answer \<Rightarrow> bool" where
  "succeeded a = (case a of Inl _ \<Rightarrow> False | Inr _ \<Rightarrow> True)"

text \<open>Out parameters keep their initial value when a call fails.\<close>

definition given_id :: "string + answer \<Rightarrow> uuid" where
  "given_id a = (case a of Inr (Booted u) \<Rightarrow> u | Inr (Registered u) \<Rightarrow> u | _ \<Rightarrow> zero_uuid)"

definition given_decision :: "string + answer \<Rightarrow> decision" where
  "given_decision a = (case a of Inr (Decided d) \<Rightarrow> d | _ \<Rightarrow> empty_decision)"

definition publish ::
  "uuid \<Rightarrow> string \<Rightarrow> uuid \<Rightarrow> u64 \<Rightarrow> canon res \<Rightarrow> profile_kind \<Rightarrow> string \<Rightarrow> link \<Rightarrow> (string + answer \<Rightarrow> link \<Rightarrow> 'b res) \<Rightarrow> 'b res" where
  "publish u source boot sgen payload kd domain s f =
     bindE payload (\<lambda>c. calling (remote u (Op_Profile source boot sgen c kd domain) s) f)"

definition with_epoch :: "u64 \<Rightarrow> link \<Rightarrow> link" where
  "with_epoch ep s = (set_epoch ep (fst s), snd s)"

section \<open>The profiles and the rule\<close>

definition make_kernel :: "uuid \<Rightarrow> string \<Rightarrow> string \<Rightarrow> kernel_profile" where
  "make_kernel u cc dig = (add_kernel u (''sm_'' @ cc) cc)\<lparr>ke_artifact_digest := dig, ke_generation := 1\<rparr>"

definition make_model :: "uuid \<Rightarrow> uuid \<Rightarrow> uuid \<Rightarrow> uuid \<Rightarrow> model_profile" where
  "make_model m revision tok voc = \<lparr>mo_model_id = m, mo_revision_id = revision, mo_architecture = ''transformer'',
     mo_family = ''llm'', mo_quantization = ''fp16'', mo_tokenizer_id = tok, mo_vocabulary_id = voc,
     mo_parameter_count = None, mo_adapter_ids = [], mo_dtype = ''f16'', mo_execution_req = []\<rparr>"

definition make_device :: "uuid \<Rightarrow> string \<Rightarrow> device_profile" where
  "make_device u cc = (nvidia_device u (''sm_'' @ cc) cc (32579 * 1024 * 1024))
     \<lparr>de_instruction_classes := [''sm_'' @ cc], de_runtime_min := ''12.9'', de_driver_min := ''13.4''\<rparr>"

definition make_rule :: "uuid \<Rightarrow> rule" where
  "make_rule u = capability_rule u ''kernel-device''"

section \<open>The program\<close>

text \<open>\<open>seed\<close> are the ids the coordinator draws, one for each request, and \<open>draw\<close> those of the program.\<close>

definition net_sources :: "(nat \<Rightarrow> uuid) \<Rightarrow> link \<Rightarrow> (checks \<times> (uuid \<times> uuid \<times> uuid) \<times> link) res" where
  "net_sources seed s =
     calling (remote (seed 0) (Op_Source ''source_a'' ''*'') s) (\<lambda>a s.
     calling (remote (seed 1) (Op_Source ''source_b'' ''device'') s) (\<lambda>b s.
     calling (remote (seed 2) (Op_Source ''controller'' ''*'') s) (\<lambda>c s.
     Inr ([(succeeded a, ''source A registered (scope *)''), (succeeded b, ''source B registered (scope device)''),
       (succeeded c, ''controller registered (scope *)'')], (given_id a, given_id b, given_id c), s))))"

definition net_publish :: "(nat \<Rightarrow> uuid) \<Rightarrow> (nat \<Rightarrow> uuid) \<Rightarrow> uuid \<Rightarrow> uuid \<Rightarrow> link \<Rightarrow>
    (checks \<times> (uuid \<times> uuid \<times> uuid \<times> uuid) \<times> link) res" where
  "net_publish seed draw boot_a boot_b s =
     publish (seed 3) ''source_a'' boot_a 1 (model_to_canon (make_model (draw 2) (draw 3) (draw 4) (draw 5))) PK_Model ''model'' s (\<lambda>m s.
     publish (seed 4) ''source_a'' boot_a 1 (kernel_to_canon (make_kernel (draw 0) ''12.0'' ''abc'')) PK_Kernel ''kernel'' s (\<lambda>k s.
     publish (seed 5) ''source_a'' boot_a 1 (kernel_to_canon (make_kernel (draw 1) ''13.0'' ''xyz'')) PK_Kernel ''kernel'' s (\<lambda>kb s.
     publish (seed 6) ''source_b'' boot_b 1 (device_to_canon (make_device (draw 6) ''12.0'')) PK_Device ''device'' s (\<lambda>d s.
     Inr ([(succeeded m, ''A published model profile''), (succeeded k, ''A published kernel (sm_120) profile''),
       (succeeded kb, ''A published kernel (sm_130) profile''), (succeeded d, ''B published device (sm_120) profile'')],
       (given_id m, given_id k, given_id kb, given_id d), s)))))"

definition net_authority :: "(nat \<Rightarrow> uuid) \<Rightarrow> (nat \<Rightarrow> uuid) \<Rightarrow> uuid \<Rightarrow> uuid \<Rightarrow> link \<Rightarrow> (checks \<times> link) res" where
  "net_authority seed draw boot_b boot_c s =
     calling (remote (seed 7) (Op_Rule ''controller'' boot_c 1 (make_rule (draw 7))) s) (\<lambda>r s.
     publish (seed 8) ''source_b'' boot_b 1 (model_to_canon (make_model (draw 2) (draw 3) (draw 4) (draw 5))) PK_Model ''model'' s (\<lambda>f s.
     Inr ([(succeeded r, ''controller registered kernel/device rule''),
       (\<not> succeeded f, ''authority: device-only source rejected when publishing an unrelated model domain'')], s)))"

definition net_queries :: "(nat \<Rightarrow> uuid) \<Rightarrow> uuid \<Rightarrow> uuid \<Rightarrow> uuid \<Rightarrow> uuid \<Rightarrow> link \<Rightarrow> (checks \<times> link) res" where
  "net_queries seed model_id k_id k_bad_id dev_id s =
     calling (remote (seed 9) (Op_Pair dev_id dev_id) s) (\<lambda>exact s.
     calling (remote (seed 10) (Op_Pair k_bad_id dev_id) s) (\<lambda>inc s.
     calling (remote (seed 11) (Op_Pair model_id k_id) s) (\<lambda>unk s.
     calling (remote (seed 12) (Op_Pair k_id dev_id) s) (\<lambda>compat s.
     Inr ([(d_outcome (given_decision exact) = Exact, ''[6] exact compatible result succeeds (EXACT)''),
       (d_outcome (given_decision inc) = Incompatible, ''[7] incompatible case proven (sm_130 on sm_120)''),
       (d_outcome (given_decision unk) = Unknown \<or> d_outcome (given_decision unk) = Insufficient_Evidence,
        ''[8] unknown/insufficient-evidence case proven (model vs kernel)''),
       (d_outcome (given_decision compat) = Compatible, ''[note] kernel/device pair COMPATIBLE'')], s)))))"

definition net_restart :: "(nat \<Rightarrow> uuid) \<Rightarrow> (nat \<Rightarrow> uuid) \<Rightarrow> uuid \<Rightarrow> u64 \<Rightarrow> link \<Rightarrow> (checks \<times> uuid \<times> link) res" where
  "net_restart seed draw boot_b ep s =
     (let dp = device_to_canon (make_device (draw 6) ''12.0'') in
     calling (remote (seed 13) (Op_Source ''source_b'' ''device'') s) (\<lambda>b s.
     publish (seed 14) ''source_b'' (given_id b) 2 dp PK_Device ''device'' s (\<lambda>d s.
     publish (seed 15) ''source_b'' (given_id b) 1 dp PK_Device ''device'' (with_epoch (ep + 1000) s) (\<lambda>stale_epoch s.
     publish (seed 16) ''source_b'' boot_b 1 dp PK_Device ''device'' (with_epoch ep s) (\<lambda>stale_boot s.
     publish (seed 17) ''source_b'' (given_id b) 0 dp PK_Device ''device'' s (\<lambda>stale_gen s.
     Inr ([(succeeded b, ''source B restarted with fresh SourceBootId''),
       (given_id b \<noteq> boot_b, ''restarted source B has a new SourceBootId''),
       (succeeded d, ''[11] source B rolled to generation 2 and re-published device profile''),
       (\<not> succeeded stale_epoch, ''[13] stale coordinator epoch rejected over TCP''),
       (\<not> succeeded stale_boot, ''[14] stale SourceBootId rejected over TCP''),
       (\<not> succeeded stale_gen, ''[15] stale source generation rejected over TCP'')], given_id d, s)))))))"

definition net_fresh :: "(nat \<Rightarrow> uuid) \<Rightarrow> (nat \<Rightarrow> uuid) \<Rightarrow> uuid \<Rightarrow> uuid \<Rightarrow> uuid \<Rightarrow> uuid \<Rightarrow> link \<Rightarrow>
    (checks \<times> decision \<times> link) res" where
  "net_fresh seed draw boot_a k_id dev_id dev_id2 s =
     publish (seed 18) ''source_a'' boot_a 2 (kernel_to_canon (make_kernel (draw 8) ''12.0'' ''G2'')) PK_Kernel ''kernel'' s (\<lambda>k s.
     calling (remote (seed 19) (Op_Pair k_id dev_id) s) (\<lambda>g1 s.
     calling (remote (seed 20) (Op_Pair (given_id k) dev_id) s) (\<lambda>g2 s.
     calling (remote (seed 21) (Op_Pair k_id dev_id2) s) (\<lambda>re s.
     calling (remote (seed 22) (Op_Pair k_id dev_id) s) (\<lambda>final s.
     Inr ([(succeeded k, ''published fresh kernel generation''),
       (d_decision_id (given_decision g1) \<noteq> d_decision_id (given_decision g2), ''[16] stale and fresh generation decisions are distinct''),
       (d_outcome (given_decision re) = Compatible, ''[18] re-evaluation succeeds after fresh device profile'')],
       given_decision final, s))))))"

definition net_path :: string where
  "net_path = ''build'' @ [CHR 0x5C] @ ''net_registry.bin''"

text \<open>The snapshot is requested with \<^verbatim>\<open>send\<close> itself, and empty when that fails.\<close>

definition fetch_snapshot :: "uuid \<Rightarrow> link \<Rightarrow> bytes res" where
  "fetch_snapshot u s =
     bindE (send_record (exchange_with u (snd s)) (fst s) Snapshot (mk_record []) (\<lambda>resp.
       case field (m_payload resp) 1 of Some (CBytes b) \<Rightarrow> str_bytes b | _ \<Rightarrow> []))
     (\<lambda>r. Inr (case r of Inl _ \<Rightarrow> [] | Inr snap \<Rightarrow> snap))"

definition net_save :: "(string \<Rightarrow> bool) \<Rightarrow> files \<Rightarrow> uuid \<Rightarrow> link \<Rightarrow> (checks \<times> files \<times> link) res" where
  "net_save writable fs u s =
     bindE (fetch_snapshot u s) (\<lambda>snap. Inr ([(snap \<noteq> [], ''[20] snapshot captured over TCP'')],
       if writable net_path then fs(net_path \<mapsto> snap) else fs, snd (remote u Op_Snapshot s)))"

text \<open>
  What the system does: whether a process can be created, whether its port answers in time, the
  error of connecting to it, and what becomes of calls after its end, for the first coordinator and the
  second. A coordinator that did not start cannot be reached.
\<close>

record world =
  spawns :: "nat \<Rightarrow> bool"
  reaches :: "nat \<Rightarrow> bool"
  connects :: "nat \<Rightarrow> string option"
  lingers :: "nat \<Rightarrow> nat \<Rightarrow> bool"

definition spawn_cmd :: "world \<Rightarrow> nat \<Rightarrow> files \<Rightarrow> string \<Rightarrow> coordinator option" where
  "spawn_cmd w i fs recover_path =
     (if \<not> spawns w i then None
      else case coordinator_start 0 fs ([''compat_coordinator.exe'', ''--port'', ''19731''] @
          (if recover_path \<noteq> [] then [''--recover'', recover_path] else [])) of
        Inl _ \<Rightarrow> None
      | Inr (_, port, S) \<Rightarrow> if port = 19731 then Some S else None)"

definition dial :: "world \<Rightarrow> nat \<Rightarrow> coordinator option \<Rightarrow> link" where
  "dial w i server =
     (snd (client_connect (if server = None then Some ''connect failed'' else connects w i)
        \<lparr>connected = False, cl_epoch = 0\<rparr>),
      case server of None \<Rightarrow> Gone (lingers w i) Closed (start_coordinator empty_registry)
      | Some S \<Rightarrow> Serving (lingers w i) S)"

definition net_replay :: "world \<Rightarrow> (nat \<Rightarrow> uuid) \<Rightarrow> files \<Rightarrow> uuid \<Rightarrow> uuid \<Rightarrow> decision \<Rightarrow> checks res" where
  "net_replay w seed fs k_id dev_id final =
     (let server = spawn_cmd w 1 fs net_path in
     calling (remote (seed 25) (Op_Pair k_id dev_id) (dial w 1 server)) (\<lambda>r s.
     calling (remote (seed 26) Op_Shutdown s) (\<lambda>_ s.
     Inr [(spawns w 1, ''spawned fresh coordinator #2 (recovered registry)''),
       (server \<noteq> None \<and> reaches w 1, ''coordinator #2 listening''),
       (succeeded r, ''[22] replayed prior decision over fresh coordinator''),
       (d_decision_id (given_decision r) = d_decision_id final \<and> d_outcome (given_decision r) = d_outcome final,
        ''[22-24] same decision digest + outcome reproduced after recovery'')])))"

definition net_proof :: "world \<Rightarrow> (string \<Rightarrow> bool) \<Rightarrow> files \<Rightarrow> (nat \<Rightarrow> uuid) \<Rightarrow> (nat \<Rightarrow> uuid) \<Rightarrow> (int \<times> checks \<times> string) res" where
  "net_proof w writable fs seed draw =
     (let server = spawn_cmd w 0 fs []; s = dial w 0 server;
          c0 = [(spawns w 0, ''spawned coordinator OS process''), (server \<noteq> None \<and> reaches w 0, ''coordinator listening on port''),
            (connected (fst s), ''control connection established'')] in
     bindE (net_sources seed s) (\<lambda>(c1, (boot_a, boot_b, boot_c), s).
     let ep = cl_epoch (fst s) in
     bindE (net_publish seed draw boot_a boot_b s) (\<lambda>(c2, (model_id, k_id, k_bad_id, dev_id), s).
     bindE (net_authority seed draw boot_b boot_c s) (\<lambda>(c3, s).
     bindE (net_queries seed model_id k_id k_bad_id dev_id s) (\<lambda>(c4, s).
     bindE (net_restart seed draw boot_b ep s) (\<lambda>(c5, dev_id2, s).
     bindE (net_fresh seed draw boot_a k_id dev_id dev_id2 s) (\<lambda>(c6, final, s).
     bindE (net_save writable fs (seed 23) s) (\<lambda>(c7, fs, s).
     calling (remote (seed 24) Op_Shutdown s) (\<lambda>_ _.
     bindE (net_replay w seed fs k_id dev_id final) (\<lambda>c8.
     let checks = c0 @ c1 @ c2 @ c3 @ c4 @ c5 @ c6 @ c7 @ c8 in
     Inr (if list_all fst checks then 0 else 1, checks,
       ''=== multiprocess proof '' @ (if list_all fst checks then ''PASSED'' else ''FAILED'') @ '' ==='')))))))))))"

section \<open>What its registry decides\<close>

text \<open>What the proof needs of a decision: it can be cached, saved, and sent.\<close>

definition small_decision :: "decision \<Rightarrow> bool" where
  "small_decision d \<longleftrightarrow> plain_decision d \<and> length (d_explanation d) \<le> 10000"

lemma evaluate_explained:
  assumes "current left R = Some l" and "current right R = Some r" and "evaluate_locked left right q R = Inr d"
  shows "d_explanation d = [] \<or> explain_text d = Inr (d_explanation d)"
  using assms by (auto simp: evaluate_locked_def Let_def with_digest_def bindE_eq_Inr empty_decision_def split: if_splits)

lemma length_lines: "length (lines h f xs) \<le> length h + 1 + sum_list (map (\<lambda>x. length (f x) + 1) xs)"
  by (simp add: lines_def newline_def length_concat comp_def)

lemma length_explanation:
  assumes "explain_text d = Inr x" and "length (d_digest d) = 32" and "d_adaptations d = []" and "d_missing_evidence d = []"
  shows "length x \<le> 1000 + sum_list (map (\<lambda>c. 20 + length (ci_dimension c) + length (ci_left c) + length (ci_right c)
      + length (ci_note c)) (d_satisfied d @ d_failed d))"
proof -
  obtain name where name: "outcome_name (d_outcome d) = Inr name" "length name \<le> 40"
    using assms(1) length_outcome_name by (cases "outcome_name (d_outcome d)") (auto simp: explain_text_def)
  have one: "length (lines ''  satisfied constraints:'' (\<lambda>c. ''    + '' @ ci_dimension c @ '' ['' @ ci_left c @ '' == '' @
      ci_right c @ ''] : '' @ ci_note c) cs) \<le> 30 + sum_list (map (\<lambda>c. 20 + length (ci_dimension c) + length (ci_left c)
      + length (ci_right c) + length (ci_note c)) cs)" for cs
    by (rule order_trans [OF length_lines], rule add_mono) (simp, rule sum_list_mono, simp)
  have two: "length (lines ''  failed constraints:'' (\<lambda>c. ''    - '' @ ci_dimension c @ '' : '' @ ci_note c) cs)
      \<le> 30 + sum_list (map (\<lambda>c. 20 + length (ci_dimension c) + length (ci_left c)
      + length (ci_right c) + length (ci_note c)) cs)" for cs
    by (rule order_trans [OF length_lines], rule add_mono) (simp, rule sum_list_mono, simp)
  have none: "lines h f [] = []" for h and f :: "string \<Rightarrow> string"
    by (simp add: lines_def)
  show ?thesis
    using assms name one [of "d_satisfied d"] two [of "d_failed d"] length_show_word [of "d_rule_generation d"]
      length_show_word [of "d_registry_generation d"]
    by (auto simp: explain_text_def none newline_def)
qed

lemma length_capability_text:
  assumes "explain_text ((capability_decision u kc dc l r R)\<lparr>d_decision_id := i, d_digest := dig, d_explanation := t\<rparr>) = Inr x"
    and "length dig = 32" and "length (p_fingerprint l) = 64" and "length (p_fingerprint r) = 64"
  shows "length x \<le> 2000"
proof -
  let ?d = "(capability_decision u kc dc l r R)\<lparr>d_decision_id := i, d_digest := dig, d_explanation := t\<rparr>"
  have "sum_list (map (\<lambda>c. 20 + length (ci_dimension c) + length (ci_left c) + length (ci_right c) + length (ci_note c))
      (d_satisfied ?d @ d_failed ?d)) \<le> 1000"
    using assms(3,4) by (simp add: capability_decision_def capability_items_def item_def capability_clause_def
        default_constraint_def empty_decision_def Let_def)
  moreover have "d_adaptations ?d = []" "d_missing_evidence ?d = []"
    by (simp_all add: capability_decision_def empty_decision_def Let_def)
  ultimately show ?thesis
    using length_explanation [OF assms(1)] assms(2) by simp
qed

lemma small_sent: "small_decision d \<Longrightarrow> decision_sendable d"
  by (simp add: small_decision_def plain_decision_def decision_ok_def decision_sendable_def enc_decision_wire_def
      mk_record_literal small_sendable bytes_length)

definition pair_identity :: "uuid \<Rightarrow> uuid \<Rightarrow> u64 \<Rightarrow> uuid" where
  "pair_identity left right g = digest_to_uuid (sha256 (k_magic @ [k_version] @ enc (CRecord
     [(1, CUuid left), (2, CUuid right), (3, CUint g), (4, CStr ''pair''), (5, CBool False), (6, CUuid zero_uuid)])))"

lemma decide_sides: "decide cand evals d = Inr d' \<Longrightarrow> d_left d' = d_left d \<and> d_right d' = d_right d"
  by (auto simp: decide_def take_eval_def Let_def dest!: conflict_loop_result split: list.splits if_splits)

lemma evaluate_identity:
  assumes "current left R = Some l" and "current right R = Some r" and "p_fingerprint l \<noteq> p_fingerprint r"
    and "evaluate_locked left right False R = Inr d" and "policy_id R = zero_uuid"
  shows "d_decision_id d = pair_identity (p_id l) (p_id r) (registry_gen R)"
proof -
  obtain d0 where "decision_identity d0 ''pair'' False R = Inr (d_decision_id d)" "d_left d0 = p_id l" "d_right d0 = p_id r"
    using assms(1-4)
    by (auto simp: evaluate_locked_def Let_def with_digest_def bindE_eq_Inr empty_decision_def dest: decide_sides)
  then show ?thesis
    using assms(5) by (simp add: decision_identity_def pair_identity_def mk_record_tags_ok canonical_fingerprint_def
        canonical_encode_enc bindE_eq_Inr)
qed

lemma exact_small:
  assumes "current left R = Some l" and "current right R = Some r" and "p_fingerprint l = p_fingerprint r"
    and "length (p_fingerprint r) = 64"
  shows "\<exists>d. evaluate_locked left right False R = Inr d \<and> small_decision d \<and> d_outcome d = Exact \<and>
    d_decision_id d = zero_uuid"
proof -
  obtain d where d: "evaluate_locked left right False R = Inr d" "d_outcome d = Exact" "d_decision_id d = zero_uuid" "length (d_digest d) = 32"
    "d_explanation d = []" "d_satisfied d = [\<lparr>ci_dimension = ''canonical_fingerprint'', ci_left = p_fingerprint l,
       ci_right = p_fingerprint r, ci_satisfied = True, ci_note = ''identical''\<rparr>]" "d_failed d = []"
    "d_adaptations d = []" "d_missing_evidence d = []"
    "d_provenance d = [''deterministic rule resolution'', ''identical canonical identity (exact)'']"
    using assms(1-3) by (auto simp: evaluate_locked_def Let_def with_digest_def compute_digest_canon empty_decision_def)
  have "length (enc c) \<le> 5000" if "enc_decision d = Inr c" for c
    using that d assms(3,4) by (auto simp: enc_decision_def enc_constraint_item_def mk_record_tags_ok bytes_length bindE_eq_Inr)
  with d show ?thesis
    by (simp add: small_decision_def plain_decision_def decision_ok_def)
qed

lemma decided_stock:
  assumes "distinct (map fst ps)" and "(kid, PK_Kernel, kern) \<in> set ps" and "(did, PK_Device, dev) \<in> set ps"
    and "resolve_profile_field PK_Kernel kern ''compute_capability'' = Some (CStr kc)"
    and "resolve_profile_field PK_Device dev ''compute_capability'' = Some (CStr dc)"
  shows "\<exists>d. evaluate_locked kid did False (stock ps (ruled (make_rule u)) 1 g ds) = Inr d \<and> small_decision d \<and>
    d_outcome d = (if fingerprint_of kern = fingerprint_of dev then Exact
      else if exceeds kc dc then Incompatible else Compatible) \<and>
    d_decision_id d = (if fingerprint_of kern = fingerprint_of dev then zero_uuid else pair_identity kid did g)"
proof -
  let ?l = "fresh_profile kid PK_Kernel kern" and ?r = "fresh_profile did PK_Device dev"
  let ?R = "stock ps (ruled (make_rule u)) 1 g ds"
  have cur: "current kid (stock ps rs rn h ds) = Some ?l" "current did (stock ps rs rn h ds) = Some ?r" for rs rn h
    using current_with_profiles [OF assms(1)] assms(2,3) by (simp_all add: current_stock)
  have R: "?R = with_rule (capability_rule u ''kernel-device'') (stock ps [] 0 (g - 1) ds)"
    by (simp add: stock_ruled make_rule_def)
  obtain i dig t where d: "length dig = 32" "evaluate_locked kid did False ?R =
      Inr ((capability_decision u kc dc ?l ?r ?R)\<lparr>d_decision_id := i, d_digest := dig, d_explanation := t\<rparr>)"
    using capability_decision_made [OF cur(1) cur(2) fresh_pair [OF assms(4,5)] R] by blast
  let ?d = "(capability_decision u kc dc ?l ?r ?R)\<lparr>d_decision_id := i, d_digest := dig, d_explanation := t\<rparr>"
  have "length t \<le> 10000"
    using evaluate_explained [OF cur(1) cur(2) d(2)]
  proof
    assume "explain_text ?d = Inr (d_explanation ?d)"
    then have "length (d_explanation ?d) \<le> 2000"
      by (rule length_capability_text) (simp_all add: d(1))
    then show ?thesis
      by simp
  qed simp
  then have "small_decision ?d"
    using capability_decision_plain [OF d(1)] by (simp add: small_decision_def)
  moreover have "d_outcome ?d = (if fingerprint_of kern = fingerprint_of dev then Exact
      else if exceeds kc dc then Incompatible else Compatible)"
    by (simp add: capability_decision_def Let_def)
  moreover have exact: "d_decision_id ?d = zero_uuid" if "fingerprint_of kern = fingerprint_of dev"
    using exact_small [OF cur(1) cur(2), of "ruled (make_rule u)" 1 g] that d(2) by auto
  moreover have "d_decision_id ?d = (if fingerprint_of kern = fingerprint_of dev then zero_uuid else pair_identity kid did g)"
    using evaluate_identity [OF cur(1) cur(2) _ d(2)] exact d(2) by auto
  ultimately show ?thesis
    using d(2) by blast
qed

lemma unmatched_small:
  assumes "current left R = Some l" and "current right R = Some r" and "p_fingerprint l \<noteq> p_fingerprint r"
    and "candidates (\<lambda>s. s = ''pair'') l r R = []"
  shows "\<exists>d. evaluate_locked left right False R = Inr d \<and> small_decision d \<and> d_outcome d = Unknown"
proof -
  obtain d where d: "evaluate_locked left right False R = Inr d" "d_outcome d = Unknown" "length (d_digest d) = 32"
    "d_satisfied d = []" "d_failed d = []" "d_adaptations d = []" "d_missing_evidence d = []"
    "d_provenance d = [''deterministic rule resolution'', ''no rule establishes compatibility; profiles differ'']"
    using assms by (auto simp: evaluate_locked_def Let_def with_digest_def compute_digest_canon empty_decision_def decide_def
        decision_identity_def mk_record_tags_ok canonical_fingerprint_def canonical_encode_enc explain_text_def)
  have "length (enc c) \<le> 5000" if "enc_decision d = Inr c" for c
    using that d by (auto simp: enc_decision_def mk_record_tags_ok bytes_length bindE_eq_Inr)
  moreover have "length (d_explanation d) \<le> 10000"
    using evaluate_explained [OF assms(1,2) d(1)] length_explanation [of d "d_explanation d"] d by auto
  ultimately show ?thesis
    using d by (simp add: small_decision_def plain_decision_def decision_ok_def)
qed

lemma undecided_stock:
  assumes "distinct (map fst ps)" and "(mid, PK_Model, mc) \<in> set ps" and "(kid, PK_Kernel, kc) \<in> set ps"
  shows "\<exists>d. evaluate_locked mid kid False (stock ps (ruled (make_rule u)) 1 g ds) = Inr d \<and> small_decision d \<and>
    d_outcome d = (if fingerprint_of mc = fingerprint_of kc then Exact else Unknown)"
proof -
  let ?R = "stock ps (ruled (make_rule u)) 1 g ds"
  have cur: "current mid ?R = Some (fresh_profile mid PK_Model mc)" "current kid ?R = Some (fresh_profile kid PK_Kernel kc)"
    using current_with_profiles [OF assms(1)] assms(2,3) by (simp_all add: current_stock)
  have "candidates (\<lambda>s. s = ''pair'') (fresh_profile mid PK_Model mc) (fresh_profile kid PK_Kernel kc) ?R = []"
    by (simp add: candidates_def ruled_def applicable_def kind_matches_def make_rule_def capability_rule_def)
  then show ?thesis
    using exact_small [OF cur] unmatched_small [OF cur] by (cases "fingerprint_of mc = fingerprint_of kc") auto
qed

lemma exact_stock:
  assumes "distinct (map fst ps)" and "(u, kd, c) \<in> set ps"
  shows "\<exists>d. evaluate_locked u u False (stock ps rs rn g ds) = Inr d \<and> small_decision d \<and> d_outcome d = Exact"
proof -
  have "current u (stock ps rs rn g ds) = Some (fresh_profile u kd c)"
    using current_with_profiles [OF assms] by (simp add: current_stock)
  from exact_small [OF this this] show ?thesis
    by auto
qed

end
