(* ===== verification/Multiprocess.thy ===== *)
theory Multiprocess
  imports Process
begin

text \<open>
  The proof by processes passes. The coordinator it talks to is followed through the run: \<open>hub\<close> is its
  state, and each kind of call is shown to do on it what was promised. The phases of the program are then
  a few steps each.
\<close>

section \<open>The registry of the coordinator\<close>

definition cache_ok :: "nat \<Rightarrow> (digest, decision) umap \<Rightarrow> bool" where
  "cache_ok n ds \<longleftrightarrow> keyed d_digest ds \<and> (\<forall>d \<in> snd ` set ds. plain_decision d) \<and> length ds \<le> n"

lemma cache_ok_Nil: "cache_ok 0 []"
  by (simp add: cache_ok_def)

lemma cache_ok_update: "cache_ok n ds \<Longrightarrow> small_decision d \<Longrightarrow> cache_ok (Suc n) (AList.update (d_digest d) d ds)"
  using length_update [of "d_digest d" d ds] set_update_subset
  by (fastforce simp: cache_ok_def small_decision_def keyed_update update_conv image_iff)

lemma stock_ok:
  assumes "distinct (map fst ps)" and "\<forall>x \<in> set ps. plain_row x" and "keyed d_digest ds"
  shows "registry_ok (stock ps (ruled r) rn g ds)"
  using with_profiles_ok [OF assms(1,2)] assms(3)
  by (simp add: registry_ok_def stores_ok_def ruled_def keyed_def with_profiles_def)

lemma stock_written:
  assumes "distinct (map fst ps)" and "\<forall>x \<in> set ps. plain_row x" and "length ps \<le> 100" and "cache_ok 100 ds"
    and R: "R = stock ps (ruled (make_rule u)) 1 g ds"
  shows "\<exists>bs. snapshot R = Inr bs \<and> recover bs = Inr (restored R) \<and> bs \<noteq> [] \<and> length bs < 2 ^ 25"
proof -
  have eq: "R = (with_rule (capability_rule u ''kernel-device'') (with_profiles ps))\<lparr>decisions := ds, registry_gen := g\<rparr>"
    by (simp add: R stock_def with_rule_def ruled_def make_rule_def with_profiles_def)
  have ok: "registry_ok R"
    using stock_ok [OF assms(1,2)] assms(4) by (simp add: R cache_ok_def)
  have len: "length ''kernel-device'' \<le> 1000"
    by simp
  have ds: "\<forall>d \<in> snd ` set ds. plain_decision d" "length ds \<le> 100"
    using assms(4) by (simp_all add: cache_ok_def)
  note written = scenario_persistable_at [OF assms(1-3) len eq ok ds]
  obtain bs where bs: "snapshot R = Inr bs" "recover bs = Inr (restored R)"
    using recover_snapshot [OF written(1)] by blast
  obtain doc where doc: "snapshot_document R = Inr doc" "canon_ok doc"
    using document_written [OF ok] written(1) by (auto simp: persistable_def)
  then have "bs = container (k_magic @ [k_version] @ enc doc)"
    using bs(1) by (simp add: snapshot_def canonical_encode_enc)
  with bs written(2) [OF doc(1)] show ?thesis
    by (simp add: container_def container_magic_def k_magic_def)
qed

section \<open>Calls on the coordinator\<close>

definition hub :: "(uuid \<times> profile_kind \<times> canon) list \<Rightarrow> (uuid, rule_record) umap \<Rightarrow> u64 \<Rightarrow> u64 \<Rightarrow>
    (digest, decision) umap \<Rightarrow> (string \<rightharpoonup> source_info) \<Rightarrow> coordinator" where
  "hub ps rs rn g ds src = \<lparr>co_registry = stock ps rs rn g ds, epoch = 1, sources = src\<rparr>"

definition talks :: "u64 \<Rightarrow> client" where
  "talks ep = \<lparr>connected = True, cl_epoch = ep\<rparr>"

lemma talks_simps [simp]: "connected (talks ep)" "cl_epoch (talks ep) = ep" "set_epoch ep' (talks ep) = talks ep'"
  by (simp_all add: talks_def set_epoch_def)

lemma hub_simps [simp]:
  "co_registry (hub ps rs rn g ds src) = stock ps rs rn g ds" "epoch (hub ps rs rn g ds src) = 1"
  "sources (hub ps rs rn g ds src) = src" "(hub ps rs rn g ds src)\<lparr>sources := src'\<rparr> = hub ps rs rn g ds src'"
  "(hub ps rs rn g ds src)\<lparr>co_registry := stock ps' rs' rn' g' ds'\<rparr> = hub ps' rs' rn' g' ds' src"
  by (simp_all add: hub_def)

lemma call_promised:
  assumes "deliverable ep c S" and "promised u ep c S = (r, S')" and "\<not> isl r" and "c \<noteq> Op_Shutdown"
  shows "remote u c (talks ep, Serving l S) = (r, next_client c r S (talks ep), Serving l S')"
  using remote_call [of "talks ep" c S u l] assms by (cases r) simp_all

lemma hub_source:
  assumes "source \<noteq> []" and "length source + length sc \<le> 1000"
  shows "remote u (Op_Source source sc) (talks ep, Serving l (hub ps rs rn g ds src)) =
    (Inr (Inr (Booted u)), talks 1, Serving l (hub ps rs rn g ds (src(source \<mapsto> \<lparr>boot_id = u, generation = 1, scope = sc\<rparr>))))"
proof -
  have "deliverable ep (Op_Source source sc) (hub ps rs rn g ds src)"
    using assms by (simp add: deliverable_def expressible_def source_request_def mk_record_tags_ok small_sendable bytes_length)
  from call_promised [OF this] assms(1) show ?thesis
    by (simp add: next_client_def talks_def)
qed

lemma profile_delivered:
  assumes "plain_row (u, kd, c)" and "length source + length domain \<le> 1000"
    and "u \<notin> fst ` set ps \<or> profile_refused source boot sgen domain ep (hub ps rs rn g ds src) \<noteq> None"
  shows "deliverable ep (Op_Profile source boot sgen c kd domain) (hub ps rs rn g ds src)"
proof -
  obtain r where "c = CRecord r"
    using assms(1) by (cases c) (simp_all add: plain_row_def)
  then show ?thesis
    using assms by (auto simp: deliverable_def expressible_def profile_request_def mk_record_tags_ok small_sendable bytes_length plain_row_def
        stock_register)
qed

lemma hub_profile:
  assumes "plain_row (u, kd, c)" and "length source + length domain \<le> 1000" and "u \<notin> fst ` set ps"
    and "profile_refused source boot sgen domain ep (hub ps rs rn g ds src) = None" and "src source = Some i"
  shows "remote u (Op_Profile source boot sgen c kd domain) (talks ep, Serving l (hub ps rs rn g ds src)) =
    (Inr (Inr (Registered u)), talks ep, Serving l (hub (ps @ [(u, kd, c)]) rs rn (g + 1) ds (src(source \<mapsto> i\<lparr>generation := sgen\<rparr>))))"
proof -
  have "canon_ok c"
    using assms(1) by (simp add: plain_row_def)
  then have "promised u ep (Op_Profile source boot sgen c kd domain) (hub ps rs rn g ds src) =
      (Inr (Inr (Registered u)), hub (ps @ [(u, kd, c)]) rs rn (g + 1) ds (src(source \<mapsto> i\<lparr>generation := sgen\<rparr>)))"
    using assms(3-5) by (simp add: authorised_def on_registry_def stock_register set_generation_def)
  from call_promised [OF profile_delivered [OF assms(1,2)] this] assms(3) show ?thesis
    by (simp add: next_client_def)
qed

lemma hub_profile_refused:
  assumes "plain_row (u, kd, c)" and "length source + length domain \<le> 1000"
    and "profile_refused source boot sgen domain ep (hub ps rs rn g ds src) = Some e"
  shows "remote u (Op_Profile source boot sgen c kd domain) (talks ep, Serving l (hub ps rs rn g ds src)) =
    (refusal, talks ep, Serving l (hub ps rs rn g ds src))"
proof -
  have "promised u ep (Op_Profile source boot sgen c kd domain) (hub ps rs rn g ds src) = (refusal, hub ps rs rn g ds src)"
    using assms(3) by (simp add: authorised_def)
  from call_promised [OF profile_delivered [OF assms(1,2)] this] assms(3) show ?thesis
    by (simp add: next_client_def refusal_def)
qed

lemma hub_rule:
  assumes "length source \<le> 1000" and "update_refused source boot ep (hub ps [] 0 g ds src) = None"
  shows "remote u (Op_Rule source boot sgen (make_rule v)) (talks ep, Serving l (hub ps [] 0 g ds src)) =
    (Inr (Inr Done), talks ep, Serving l (hub ps (ruled (make_rule v)) 1 (g + 1) ds src))"
proof -
  have plain: "wired (make_rule v) = make_rule v" "r_generation (make_rule v) = 0"
    by (simp_all add: wired_def wired_constraint_def make_rule_def capability_rule_def default_rule_def capability_clause_def
        default_constraint_def)
  have "deliverable ep (Op_Rule source boot sgen (make_rule v)) (hub ps [] 0 g ds src)"
    using assms(1)
    by (simp add: deliverable_def expressible_def rule_request_def enc_constraint_wire_def mk_record_tags_ok small_sendable bytes_length
        make_rule_def capability_rule_def default_rule_def capability_clause_def default_constraint_def kind_option_ok_def)
  moreover have "promised u ep (Op_Rule source boot sgen (make_rule v)) (hub ps [] 0 g ds src) =
      (Inr (Inr Done), hub ps (ruled (make_rule v)) 1 (g + 1) ds src)"
    using assms(2) by (simp add: authorised_def on_registry_def plain stock_rule apfst_def)
  ultimately show ?thesis
    by (subst call_promised) (simp_all add: next_client_def)
qed

text \<open>What the client is told of a decision.\<close>

definition shown :: "uuid \<Rightarrow> uuid \<Rightarrow> decision \<Rightarrow> decision" where
  "shown left right d = empty_decision\<lparr>d_left := left, d_right := right, d_outcome := d_outcome d,
     d_decision_id := d_decision_id d, d_rule_id := d_rule_id d, d_explanation := d_explanation d\<rparr>"

lemma shown_simps [simp]: "d_outcome (shown l r d) = d_outcome d" "d_decision_id (shown l r d) = d_decision_id d"
  by (simp_all add: shown_def)

lemma coordinator_query:
  assumes "evaluate_locked left right False (co_registry S) = Inr d" and "small_decision d"
  shows "remote u (Op_Pair left right) (talks ep, Serving l S) =
    (Inr (Inr (Decided (shown left right d))), talks ep, Serving l (S\<lparr>co_registry := remember d (co_registry S)\<rparr>))"
proof -
  have "deliverable ep (Op_Pair left right) S"
    using assms small_sent [OF assms(2)]
    by (simp add: deliverable_def expressible_def query_request_def mk_record_tags_ok small_sendable bytes_length evaluate_pair_def)
  moreover have "promised u ep (Op_Pair left right) S =
      (Inr (Inr (Decided (shown left right d))), S\<lparr>co_registry := remember d (co_registry S)\<rparr>)"
    using assms(1) by (simp add: on_registry_def evaluate_pair_def shown_def)
  ultimately show ?thesis
    by (subst call_promised) (simp_all add: next_client_def)
qed

lemma hub_query:
  assumes "evaluate_locked left right False (stock ps rs rn g ds) = Inr d" and "small_decision d"
  shows "remote u (Op_Pair left right) (talks ep, Serving l (hub ps rs rn g ds src)) =
    (Inr (Inr (Decided (shown left right d))), talks ep, Serving l (hub ps rs rn g (AList.update (d_digest d) d ds) src))"
  using coordinator_query [of left right "hub ps rs rn g ds src" d u ep] assms by (simp add: stock_remember)

lemma coordinator_shutdown: "remote u Op_Shutdown (talks ep, Serving l S) = (Inr (Inr Done), talks ep, Gone l Shut_Down S)"
proof -
  have "deliverable ep Op_Shutdown S"
    by (simp add: deliverable_def expressible_def mk_record_tags_ok small_sendable)
  then show ?thesis
    using remote_call [of "talks ep" Op_Shutdown S u l] by (simp add: next_client_def)
qed

section \<open>The profiles of the program\<close>

definition net_payloads :: "(nat \<Rightarrow> uuid) \<Rightarrow> canon \<Rightarrow> canon \<Rightarrow> canon \<Rightarrow> canon \<Rightarrow> canon \<Rightarrow> bool" where
  "net_payloads draw m k kb d k2 \<longleftrightarrow>
     model_to_canon (make_model (draw 2) (draw 3) (draw 4) (draw 5)) = Inr m \<and>
     kernel_to_canon (make_kernel (draw 0) ''12.0'' ''abc'') = Inr k \<and>
     kernel_to_canon (make_kernel (draw 1) ''13.0'' ''xyz'') = Inr kb \<and>
     device_to_canon (make_device (draw 6) ''12.0'') = Inr d \<and>
     kernel_to_canon (make_kernel (draw 8) ''12.0'' ''G2'') = Inr k2"

lemma model_made: "\<exists>c. model_to_canon (make_model a b e f) = Inr c \<and> plain_row (u, PK_Model, c)"
  by (simp add: model_to_canon_def make_model_def mk_record_tags_ok bytes_length plain_row_def)

lemma kernel_made:
  assumes "length cc + length dig \<le> 1000"
  shows "\<exists>c. kernel_to_canon (make_kernel v cc dig) = Inr c \<and> plain_row (u, PK_Kernel, c) \<and>
    resolve_profile_field PK_Kernel c ''compute_capability'' = Some (CStr cc)"
  using assms by (simp add: kernel_to_canon_def make_kernel_def add_kernel_def default_kernel_def mk_record_tags_ok
      resolve_eval bytes_length plain_row_def)

lemma device_made:
  assumes "length cc \<le> 1000"
  shows "\<exists>c. device_to_canon (make_device v cc) = Inr c \<and> plain_row (u, PK_Device, c) \<and>
    resolve_profile_field PK_Device c ''compute_capability'' = Some (CStr cc)"
  using assms by (simp add: device_to_canon_def make_device_def nvidia_device_def mk_record_tags_ok resolve_eval bytes_length
      plain_row_def)

lemma payloads_exist: "\<exists>m k kb d k2. net_payloads draw m k kb d k2"
  using model_made kernel_made [of "''12.0''" "''abc''"] kernel_made [of "''13.0''" "''xyz''"] device_made [of "''12.0''"]
    kernel_made [of "''12.0''" "''G2''"]
  unfolding net_payloads_def by simp blast

lemma payloads_plain:
  assumes "net_payloads draw m k kb d k2"
  shows "plain_row (u, PK_Model, m)" "plain_row (u, PK_Kernel, k)" "plain_row (u, PK_Kernel, kb)" "plain_row (u, PK_Device, d)"
    "plain_row (u, PK_Kernel, k2)"
  using assms model_made [of "draw 2" "draw 3" "draw 4" "draw 5" u] kernel_made [of "''12.0''" "''abc''" "draw 0" u]
    kernel_made [of "''13.0''" "''xyz''" "draw 1" u] device_made [of "''12.0''" "draw 6" u]
    kernel_made [of "''12.0''" "''G2''" "draw 8" u]
  by (simp_all add: net_payloads_def)

lemma payloads_capability:
  assumes "net_payloads draw m k kb d k2"
  shows "resolve_profile_field PK_Kernel k ''compute_capability'' = Some (CStr ''12.0'')"
    "resolve_profile_field PK_Kernel kb ''compute_capability'' = Some (CStr ''13.0'')"
    "resolve_profile_field PK_Device d ''compute_capability'' = Some (CStr ''12.0'')"
    "resolve_profile_field PK_Kernel k2 ''compute_capability'' = Some (CStr ''12.0'')"
  using assms kernel_made [of "''12.0''" "''abc''" "draw 0"]
    kernel_made [of "''13.0''" "''xyz''" "draw 1"] device_made [of "''12.0''" "draw 6"]
    kernel_made [of "''12.0''" "''G2''" "draw 8"]
  by (simp_all add: net_payloads_def)

lemma coordinator_snapshot:
  assumes "snapshot (co_registry S) = Inr bs" and "length bs < 2 ^ 25"
  shows "fetch_snapshot u (talks ep, Serving l S) = Inr bs" and "remote u Op_Snapshot (talks ep, Serving l S) = (Inr (Inr Done), talks ep, Serving l S)"
proof -
  have request: "mk_record [] = Inr (CRecord [])" "sendable (CRecord [])"
    by (simp_all add: mk_record_tags_ok small_sendable)
  let ?m = "\<lparr>m_type = Snapshot, m_payload = CRecord []\<rparr>"
  have h: "handle_request u ?m S = (Inr (True, \<lparr>m_type = Ack, m_payload = CRecord [(1, CBytes (bytes_str bs))]\<rparr>), S)"
    using assms(1) by (simp add: handle_request_def handle_snapshot_def mk_record_tags_ok)
  have ans: "answers u S ?m"
    using assms(2) by (simp add: answers_def h small_sendable bytes_length)
  show "fetch_snapshot u (talks ep, Serving l S) = Inr bs"
    by (simp add: fetch_snapshot_def coordinator_peer.send_record_reply [OF _ request(2) _ ans request(1)] reply_message_def h
        field_Cons)
  have "deliverable ep Op_Snapshot S"
    using assms request by (simp add: deliverable_def expressible_def)
  then show "remote u Op_Snapshot (talks ep, Serving l S) = (Inr (Inr Done), talks ep, Serving l S)"
    using assms(1) by (subst call_promised) (simp_all add: next_client_def)
qed

section \<open>The phases\<close>

definition sources_at :: "(nat \<Rightarrow> uuid) \<Rightarrow> u64 \<Rightarrow> u64 \<Rightarrow> uuid \<Rightarrow> (string \<rightharpoonup> source_info)" where
  "sources_at seed ga gb boot = Map.empty(
     ''source_a'' \<mapsto> \<lparr>boot_id = seed 0, generation = ga, scope = ''*''\<rparr>,
     ''source_b'' \<mapsto> \<lparr>boot_id = boot, generation = gb, scope = ''device''\<rparr>,
     ''controller'' \<mapsto> \<lparr>boot_id = seed 2, generation = 1, scope = ''*''\<rparr>)"

lemma sources_at_simps [simp]:
  "sources_at seed ga gb boot ''source_a'' = Some \<lparr>boot_id = seed 0, generation = ga, scope = ''*''\<rparr>"
  "sources_at seed ga gb boot ''source_b'' = Some \<lparr>boot_id = boot, generation = gb, scope = ''device''\<rparr>"
  "sources_at seed ga gb boot ''controller'' = Some \<lparr>boot_id = seed 2, generation = 1, scope = ''*''\<rparr>"
  "(sources_at seed ga gb boot)(''source_a'' \<mapsto> \<lparr>boot_id = seed 0, generation = g, scope = ''*''\<rparr>) =
     sources_at seed g gb boot"
  "(sources_at seed ga gb boot)(''source_b'' \<mapsto> \<lparr>boot_id = u, generation = g, scope = ''device''\<rparr>) =
     sources_at seed ga g u"
  by (simp_all add: sources_at_def fun_upd_twist)

named_theorems run_simps \<open>the calls of the program on the coordinator\<close>

lemmas [run_simps] = calling_def publish_def succeeded_def given_id_def with_epoch_def refusal_def
  hub_source hub_profile hub_profile_refused hub_rule coordinator_shutdown profile_refused_def update_refused_def

lemma sources_phase:
  "\<exists>cs. net_sources seed (talks 0, Serving l (start_coordinator empty_registry)) =
      Inr (cs, (seed 0, seed 1, seed 2), talks 1, Serving l (hub [] [] 0 0 [] (sources_at seed 1 1 (seed 1)))) \<and> list_all fst cs"
proof -
  have "start_coordinator empty_registry = hub [] [] 0 0 [] Map.empty"
    by (simp add: start_coordinator_def hub_def empty_stock)
  then show ?thesis
    by (simp add: net_sources_def run_simps sources_at_def)
qed

definition first_rows :: "(nat \<Rightarrow> uuid) \<Rightarrow> canon \<Rightarrow> canon \<Rightarrow> canon \<Rightarrow> canon \<Rightarrow> (uuid \<times> profile_kind \<times> canon) list" where
  "first_rows seed m k kb d = [(seed 3, PK_Model, m), (seed 4, PK_Kernel, k), (seed 5, PK_Kernel, kb), (seed 6, PK_Device, d)]"

lemma publish_phase:
  assumes "net_payloads draw m k kb d k2" and "distinct [seed 3, seed 4, seed 5, seed 6]"
  shows "\<exists>cs. net_publish seed draw (seed 0) (seed 1) (talks 1, Serving l (hub [] [] 0 0 [] (sources_at seed 1 1 (seed 1)))) =
      Inr (cs, (seed 3, seed 4, seed 5, seed 6), talks 1,
        Serving l (hub (first_rows seed m k kb d) [] 0 4 [] (sources_at seed 1 1 (seed 1)))) \<and> list_all fst cs"
proof -
  have ids: "seed 4 \<noteq> seed 3" "seed 5 \<noteq> seed 3" "seed 5 \<noteq> seed 4" "seed 6 \<noteq> seed 3" "seed 6 \<noteq> seed 4" "seed 6 \<noteq> seed 5"
    using assms(2) by auto
  show ?thesis
    using assms(1) ids payloads_plain [OF assms(1)]
    by (simp add: net_publish_def run_simps net_payloads_def first_rows_def)
qed

lemma authority_phase:
  assumes "net_payloads draw m k kb d k2"
  shows "\<exists>cs. net_authority seed draw (seed 1) (seed 2) (talks 1, Serving l (hub ps [] 0 g ds (sources_at seed ga 1 (seed 1)))) =
      Inr (cs, talks 1, Serving l (hub ps (ruled (make_rule (draw 7))) 1 (g + 1) ds (sources_at seed ga 1 (seed 1)))) \<and> list_all fst cs"
  using assms payloads_plain [OF assms] by (simp add: net_authority_def run_simps net_payloads_def)

lemma hub_query_stock:
  assumes "evaluate_locked left right False (stock ps rs rn g []) = Inr d" and "small_decision d"
  shows "remote u (Op_Pair left right) (talks ep, Serving l (hub ps rs rn g ds src)) =
    (Inr (Inr (Decided (shown left right d))), talks ep, Serving l (hub ps rs rn g (AList.update (d_digest d) d ds) src))"
  using hub_query assms stock_evaluate by metis

definition decided_id :: "uuid \<Rightarrow> canon \<Rightarrow> uuid \<Rightarrow> canon \<Rightarrow> u64 \<Rightarrow> uuid" where
  "decided_id kid kern did dev g = (if fingerprint_of kern = fingerprint_of dev then zero_uuid else pair_identity kid did g)"

lemma queries_phase:
  assumes "net_payloads draw m k kb d k2" and "distinct [seed 3, seed 4, seed 5, seed 6]" and "cache_ok n ds"
  shows "\<exists>ds' cs. net_queries seed (seed 3) (seed 4) (seed 5) (seed 6)
      (talks 1, Serving l (hub (first_rows seed m k kb d) (ruled (make_rule u)) 1 g ds src)) =
      Inr (cs, talks 1, Serving l (hub (first_rows seed m k kb d) (ruled (make_rule u)) 1 g ds' src)) \<and> cache_ok (n + 4) ds' \<and>
    (list_all fst cs \<longleftrightarrow> fingerprint_of kb \<noteq> fingerprint_of d \<and> fingerprint_of m \<noteq> fingerprint_of k \<and>
      fingerprint_of k \<noteq> fingerprint_of d)"
proof -
  let ?ps = "first_rows seed m k kb d"
  have ps: "distinct (map fst ?ps)" "(seed 3, PK_Model, m) \<in> set ?ps" "(seed 4, PK_Kernel, k) \<in> set ?ps"
    "(seed 5, PK_Kernel, kb) \<in> set ?ps" "(seed 6, PK_Device, d) \<in> set ?ps"
    using assms(2) by (simp_all add: first_rows_def)
  note cap = payloads_capability [OF assms(1)]
  obtain d1 where d1: "evaluate_locked (seed 6) (seed 6) False (stock ?ps (ruled (make_rule u)) 1 g []) = Inr d1"
      "small_decision d1" "d_outcome d1 = Exact"
    using exact_stock [OF ps(1) ps(5)] by blast
  obtain d2 where d2: "evaluate_locked (seed 5) (seed 6) False (stock ?ps (ruled (make_rule u)) 1 g []) = Inr d2"
      "small_decision d2" "d_outcome d2 = (if fingerprint_of kb = fingerprint_of d then Exact
        else if exceeds ''13.0'' ''12.0'' then Incompatible else Compatible)"
    using decided_stock [OF ps(1) ps(4) ps(5) cap(2,3)] by blast
  obtain d3 where d3: "evaluate_locked (seed 3) (seed 4) False (stock ?ps (ruled (make_rule u)) 1 g []) = Inr d3"
      "small_decision d3" "d_outcome d3 = (if fingerprint_of m = fingerprint_of k then Exact else Unknown)"
    using undecided_stock [OF ps(1) ps(2) ps(3)] by blast
  obtain d4 where d4: "evaluate_locked (seed 4) (seed 6) False (stock ?ps (ruled (make_rule u)) 1 g []) = Inr d4"
      "small_decision d4" "d_outcome d4 = (if fingerprint_of k = fingerprint_of d then Exact
        else if exceeds ''12.0'' ''12.0'' then Incompatible else Compatible)"
    using decided_stock [OF ps(1) ps(3) ps(5) cap(1,3)] by blast
  let ?cache = "AList.update (d_digest d4) d4 (AList.update (d_digest d3) d3 (AList.update (d_digest d2) d2
      (AList.update (d_digest d1) d1 ds)))"
  have "cache_ok (n + 4) ?cache"
    using cache_ok_update [OF cache_ok_update [OF cache_ok_update [OF cache_ok_update [OF assms(3) d1(2)] d2(2)] d3(2)] d4(2)]
    by (simp add: numeral_eq_Suc)
  then show ?thesis
    using d1(3) d2(3) d3(3) d4(3)
    by (intro exI [of _ "?cache"]) (simp add: net_queries_def calling_def given_decision_def hub_query_stock [OF d1(1,2)] hub_query_stock [OF d2(1,2)]
        hub_query_stock [OF d3(1,2)] hub_query_stock [OF d4(1,2)])
qed

lemma restart_phase:
  assumes "net_payloads draw m k kb d k2" and "seed 13 \<noteq> seed 1" and "seed 14 \<notin> fst ` set ps"
  shows "\<exists>cs. net_restart seed draw (seed 1) 1 (talks 1, Serving l (hub ps rs rn g ds (sources_at seed ga gb (seed 1)))) =
      Inr (cs, seed 14, talks 1, Serving l (hub (ps @ [(seed 14, PK_Device, d)]) rs rn (g + 1) ds (sources_at seed ga 2 (seed 13)))) \<and>
    list_all fst cs"
  using assms payloads_plain [OF assms(1)] by (simp add: net_restart_def run_simps net_payloads_def)

lemma fresh_phase:
  assumes "net_payloads draw m k kb d k2" and "distinct (map fst ps @ [seed 14, seed 18])" and "cache_ok n ds"
    and "(seed 4, PK_Kernel, k) \<in> set ps" and "(seed 6, PK_Device, d) \<in> set ps"
  shows "\<exists>final ds' cs. net_fresh seed draw (seed 0) (seed 4) (seed 6) (seed 14)
      (talks 1, Serving l (hub (ps @ [(seed 14, PK_Device, d)]) (ruled (make_rule u)) 1 g ds (sources_at seed 1 gb boot))) =
      Inr (cs, shown (seed 4) (seed 6) final, talks 1, Serving l (hub (ps @ [(seed 14, PK_Device, d), (seed 18, PK_Kernel, k2)])
        (ruled (make_rule u)) 1 (g + 1) ds' (sources_at seed 2 gb boot))) \<and> cache_ok (n + 4) ds' \<and>
    evaluate_locked (seed 4) (seed 6) False (stock (ps @ [(seed 14, PK_Device, d), (seed 18, PK_Kernel, k2)])
      (ruled (make_rule u)) 1 (g + 1) []) = Inr final \<and> small_decision final \<and>
    (list_all fst cs \<longleftrightarrow> fingerprint_of k \<noteq> fingerprint_of d \<and>
      decided_id (seed 4) k (seed 6) d (g + 1) \<noteq> decided_id (seed 18) k2 (seed 6) d (g + 1))"
proof -
  let ?ps = "ps @ [(seed 14, PK_Device, d), (seed 18, PK_Kernel, k2)]"
  let ?R = "stock ?ps (ruled (make_rule u)) 1 (g + 1) []"
  have ps: "distinct (map fst ?ps)" "(seed 4, PK_Kernel, k) \<in> set ?ps" "(seed 6, PK_Device, d) \<in> set ?ps"
    "(seed 14, PK_Device, d) \<in> set ?ps" "(seed 18, PK_Kernel, k2) \<in> set ?ps" "seed 18 \<noteq> seed 14" "seed 18 \<notin> fst ` set ps"
    using assms(2,4,5) by auto
  note cap = payloads_capability [OF assms(1)]
  obtain d1 where d1: "evaluate_locked (seed 4) (seed 6) False ?R = Inr d1" "small_decision d1"
      "d_decision_id d1 = decided_id (seed 4) k (seed 6) d (g + 1)"
    using decided_stock [OF ps(1) ps(2) ps(3) cap(1,3)] unfolding decided_id_def by blast
  obtain d2 where d2: "evaluate_locked (seed 18) (seed 6) False ?R = Inr d2" "small_decision d2"
      "d_decision_id d2 = decided_id (seed 18) k2 (seed 6) d (g + 1)"
    using decided_stock [OF ps(1) ps(5) ps(3) cap(4,3)] unfolding decided_id_def by blast
  obtain d3 where d3: "evaluate_locked (seed 4) (seed 14) False ?R = Inr d3" "small_decision d3"
      "d_outcome d3 = (if fingerprint_of k = fingerprint_of d then Exact
        else if exceeds ''12.0'' ''12.0'' then Incompatible else Compatible)"
    using decided_stock [OF ps(1) ps(2) ps(4) cap(1,3)] by blast
  let ?cache = "AList.update (d_digest d1) d1 (AList.update (d_digest d3) d3 (AList.update (d_digest d2) d2
      (AList.update (d_digest d1) d1 ds)))"
  have "cache_ok (n + 4) ?cache"
    using cache_ok_update [OF cache_ok_update [OF cache_ok_update [OF cache_ok_update [OF assms(3) d1(2)] d2(2)] d3(2)] d1(2)]
    by (simp add: numeral_eq_Suc)
  then show ?thesis
    using assms(1) payloads_plain [OF assms(1)] d1 d2(3) d3(3) ps(6,7)
    by (intro exI [of _ d1] exI [of _ "?cache"])
      (simp add: net_fresh_def run_simps net_payloads_def given_decision_def hub_query_stock [OF d1(1,2)]
        hub_query_stock [OF d2(1,2)] hub_query_stock [OF d3(1,2)])
qed

lemma save_phase:
  assumes "snapshot (co_registry S) = Inr snap" and "snap \<noteq> []" and "length snap < 2 ^ 25" and "writable net_path"
  shows "\<exists>cs. net_save writable fs u (talks ep, Serving l S) = Inr (cs, fs(net_path \<mapsto> snap), talks ep, Serving l S) \<and> list_all fst cs"
  using assms(2,4) coordinator_snapshot [OF assms(1,3)] by (simp add: net_save_def)

lemma net_port: "atoi ''19731'' = Some 19731"
  by (simp add: atoi_def is_blank_def is_digit_def digits_value_def)

lemma net_path_set: "net_path \<noteq> []"
  by (simp add: net_path_def)

definition reachable :: "world \<Rightarrow> nat \<Rightarrow> bool" where
  "reachable w i \<longleftrightarrow> spawns w i \<and> reaches w i \<and> connects w i = None"

lemma spawned_fresh:
  assumes "reachable w i"
  shows "spawn_cmd w i fs [] = Some (start_coordinator empty_registry)"
  using assms net_port by (simp add: spawn_cmd_def coordinator_start_def reachable_def)

lemma spawned_recovered:
  assumes "reachable w i" and "fs net_path = Some snap" and "recover snap = Inr R"
  shows "spawn_cmd w i fs net_path = Some (start_coordinator R)"
  using assms net_port net_path_set by (simp add: spawn_cmd_def coordinator_start_def reachable_def load_def)

lemma dialled: "reachable w i \<Longrightarrow> dial w i (Some S) = (talks 0, Serving (lingers w i) S)"
  by (simp add: dial_def reachable_def client_connect_def talks_def)

lemma replay_phase:
  assumes "reachable w 1" and "fs net_path = Some snap" and "recover snap = Inr R"
    and "evaluate_locked kid did False R = Inr final" and "small_decision final"
  shows "\<exists>cs. net_replay w seed fs kid did (shown kid did final) = Inr cs \<and> list_all fst cs"
proof -
  have query: "remote u (Op_Pair kid did) (talks 0, Serving l (start_coordinator R)) = (Inr (Inr (Decided (shown kid did final))), talks 0,
      Serving l ((start_coordinator R)\<lparr>co_registry := remember final R\<rparr>))" for u l
    using coordinator_query [of kid did "start_coordinator R" final u 0] assms(4,5) by (simp add: start_coordinator_def)
  have up: "spawns w 1" "reaches w 1"
    using assms(1) by (simp_all add: reachable_def)
  show ?thesis
    unfolding net_replay_def Let_def spawned_recovered [where fs = fs, OF assms(1-3)] dialled [OF assms(1)]
    using up by (simp add: query calling_def coordinator_shutdown succeeded_def given_decision_def)
qed

lemma recovery_phase:
  assumes "reachable w 1" and "writable net_path" and "distinct (map fst rows)"
    and "\<forall>x \<in> set rows. plain_row x" and "length rows \<le> 100" and "cache_ok 100 ds"
    and "evaluate_locked kid did False (stock rows (ruled (make_rule r)) 1 n []) = Inr final" and "small_decision final"
    and S: "S = hub rows (ruled (make_rule r)) 1 n ds ss"
  shows "\<exists>fs' c7 c8. net_save writable fs u (talks ep, Serving l S) = Inr (c7, fs', talks ep, Serving l S) \<and> list_all fst c7 \<and>
    net_replay w seed fs' kid did (shown kid did final) = Inr c8 \<and> list_all fst c8"
proof -
  obtain snap where snap: "snapshot (co_registry S) = Inr snap" "recover snap = Inr (restored (co_registry S))"
      "snap \<noteq> []" "length snap < 2 ^ 25"
    using stock_written [OF assms(3-6), of "stock rows (ruled (make_rule r)) 1 n ds" r n] by (auto simp: S)
  obtain c7 where c7: "net_save writable fs u (talks ep, Serving l S) = Inr (c7, fs(net_path \<mapsto> snap), talks ep, Serving l S)" "list_all fst c7"
    using save_phase [where writable = writable, OF snap(1,3,4) assms(2)] by blast
  have same: "evaluate_locked kid did False (restored (co_registry S)) = Inr final"
    using assms(7) by (simp add: S evaluate_restored stock_evaluate [of _ _ _ _ _ _ _ ds])
  have saved: "(fs(net_path \<mapsto> snap)) net_path = Some snap"
    by simp
  show ?thesis
    using c7 replay_phase [where fs = "fs(net_path \<mapsto> snap)", OF assms(1) saved snap(2) same assms(8)] by blast
qed

section \<open>Properties\<close>

text \<open>
  Property C20. The multi-process proof passes. When both coordinators can be started and reached, the
  snapshot can be written and the coordinator draws different ids, the whole run (sources, profiles, the rule,
  the refusals for scope, epoch, boot id and generation, the queries, the snapshot, the second coordinator
  recovered from it) ends with status 0 and the line that says so; the one thing that can make it fail is
  a collision under SHA-256, of payloads or of the two decision ids it compares.
\<close>

theorem net_proof_passes:
  assumes "reachable w 0" and "reachable w 1" and "writable net_path"
    and "distinct (map seed [3, 4, 5, 6, 14, 18])" and "seed 13 \<noteq> seed 1" and "net_payloads draw m k kb d k2"
  shows "\<exists>checks. net_proof w writable fs seed draw = Inr
    (if fingerprint_of kb \<noteq> fingerprint_of d \<and> fingerprint_of m \<noteq> fingerprint_of k \<and> fingerprint_of k \<noteq> fingerprint_of d \<and>
        decided_id (seed 4) k (seed 6) d 7 \<noteq> decided_id (seed 18) k2 (seed 6) d 7
     then (0, checks, ''=== multiprocess proof PASSED ==='') else (1, checks, ''=== multiprocess proof FAILED ===''))"
proof -
  let ?l = "lingers w 0" and ?ps = "first_rows seed m k kb d" and ?rl = "ruled (make_rule (draw 7))"
  let ?all = "?ps @ [(seed 14, PK_Device, d), (seed 18, PK_Kernel, k2)]"
  have four: "distinct [seed 3, seed 4, seed 5, seed 6]" and new: "seed 14 \<notin> fst ` set ?ps"
    and ids: "distinct (map fst ?ps @ [seed 14, seed 18])" "distinct (map fst ?all)"
    and rows: "(seed 4, PK_Kernel, k) \<in> set ?ps" "(seed 6, PK_Device, d) \<in> set ?ps"
    and up: "spawns w 0" "reaches w 0"
    using assms(1,4) by (auto simp: first_rows_def reachable_def)
  obtain c1 where c1: "net_sources seed (talks 0, Serving ?l (start_coordinator empty_registry)) =
      Inr (c1, (seed 0, seed 1, seed 2), talks 1, Serving ?l (hub [] [] 0 0 [] (sources_at seed 1 1 (seed 1))))" "list_all fst c1"
    using sources_phase [of seed] by blast
  obtain c2 where c2: "net_publish seed draw (seed 0) (seed 1) (talks 1, Serving ?l (hub [] [] 0 0 [] (sources_at seed 1 1 (seed 1)))) =
      Inr (c2, (seed 3, seed 4, seed 5, seed 6), talks 1, Serving ?l (hub ?ps [] 0 4 [] (sources_at seed 1 1 (seed 1))))" "list_all fst c2"
    using publish_phase [OF assms(6) four] by blast
  obtain c3 where c3: "net_authority seed draw (seed 1) (seed 2) (talks 1, Serving ?l (hub ?ps [] 0 4 [] (sources_at seed 1 1 (seed 1)))) =
      Inr (c3, talks 1, Serving ?l (hub ?ps ?rl 1 5 [] (sources_at seed 1 1 (seed 1))))" "list_all fst c3"
    using authority_phase [OF assms(6), of seed ?l ?ps 4 "[]" 1] by auto
  obtain ds c4 where c4: "net_queries seed (seed 3) (seed 4) (seed 5) (seed 6) (talks 1, Serving ?l (hub ?ps ?rl 1 5 [] (sources_at seed 1 1 (seed 1)))) =
      Inr (c4, talks 1, Serving ?l (hub ?ps ?rl 1 5 ds (sources_at seed 1 1 (seed 1))))" "cache_ok 4 ds"
      "list_all fst c4 \<longleftrightarrow> fingerprint_of kb \<noteq> fingerprint_of d \<and> fingerprint_of m \<noteq> fingerprint_of k \<and>
        fingerprint_of k \<noteq> fingerprint_of d"
    using queries_phase [OF assms(6) four cache_ok_Nil, of ?l "draw 7" 5 "sources_at seed 1 1 (seed 1)"] by auto
  obtain c5 where c5: "net_restart seed draw (seed 1) 1 (talks 1, Serving ?l (hub ?ps ?rl 1 5 ds (sources_at seed 1 1 (seed 1)))) =
      Inr (c5, seed 14, talks 1, Serving ?l (hub (?ps @ [(seed 14, PK_Device, d)]) ?rl 1 6 ds (sources_at seed 1 2 (seed 13))))" "list_all fst c5"
    using restart_phase [OF assms(6,5) new, of ?l ?rl 1 5 ds 1 1] by auto
  obtain final ds' c6 where c6: "net_fresh seed draw (seed 0) (seed 4) (seed 6) (seed 14)
      (talks 1, Serving ?l (hub (?ps @ [(seed 14, PK_Device, d)]) ?rl 1 6 ds (sources_at seed 1 2 (seed 13)))) =
      Inr (c6, shown (seed 4) (seed 6) final, talks 1, Serving ?l (hub ?all ?rl 1 7 ds' (sources_at seed 2 2 (seed 13))))" "cache_ok 8 ds'"
      "evaluate_locked (seed 4) (seed 6) False (stock ?all ?rl 1 7 []) = Inr final" "small_decision final"
      "list_all fst c6 \<longleftrightarrow> fingerprint_of k \<noteq> fingerprint_of d \<and>
        decided_id (seed 4) k (seed 6) d 7 \<noteq> decided_id (seed 18) k2 (seed 6) d 7"
    using fresh_phase [OF assms(6) ids(1) c4(2) rows, of ?l "draw 7" 6 2 "seed 13"] by auto
  let ?S = "hub ?all ?rl 1 7 ds' (sources_at seed 2 2 (seed 13))"
  have "\<forall>x \<in> set ?all. plain_row x" "length ?all \<le> 100" "cache_ok 100 ds'"
    using payloads_plain [OF assms(6)] c6(2) by (auto simp: first_rows_def cache_ok_def)
  then obtain fs' c7 c8 where c7: "net_save writable fs (seed 23) (talks 1, Serving ?l ?S) = Inr (c7, fs', talks 1, Serving ?l ?S)" "list_all fst c7"
    and c8: "net_replay w seed fs' (seed 4) (seed 6) (shown (seed 4) (seed 6) final) = Inr c8" "list_all fst c8"
    using recovery_phase [where writable = writable, OF assms(2,3) ids(2) _ _ _ c6(3,4) refl] by blast
  show ?thesis
    using up c1(2) c2(2) c3(2) c4(3) c5(2) c6(5) c7(2) c8(2)
    by (simp add: net_proof_def Let_def spawned_fresh [OF assms(1)] dialled [OF assms(1)] c1(1) c2(1) c3(1) c4(1) c5(1) c6(1)
        c7(1) c8(1) calling_def coordinator_shutdown del: One_nat_def)
qed

theorem net_proof_passes_witness:
  "\<exists>m k kb d k2 checks. net_payloads (\<lambda>i. Uuid (word_of_nat (100 + i))) m k kb d k2 \<and>
    net_proof \<lparr>spawns = (\<lambda>_. True), reaches = (\<lambda>_. True), connects = (\<lambda>_. None), lingers = (\<lambda>_ _. False)\<rparr> (\<lambda>_. True) (\<lambda>_. None)
      (\<lambda>i. Uuid (word_of_nat i)) (\<lambda>i. Uuid (word_of_nat (100 + i))) = Inr
    (if fingerprint_of kb \<noteq> fingerprint_of d \<and> fingerprint_of m \<noteq> fingerprint_of k \<and> fingerprint_of k \<noteq> fingerprint_of d \<and>
        decided_id (Uuid 4) k (Uuid 6) d 7 \<noteq> decided_id (Uuid 18) k2 (Uuid 6) d 7
     then (0, checks, ''=== multiprocess proof PASSED ==='') else (1, checks, ''=== multiprocess proof FAILED ===''))"
proof -
  let ?w = "\<lparr>spawns = (\<lambda>_. True), reaches = (\<lambda>_. True), connects = (\<lambda>_. None), lingers = (\<lambda>_ _. False)\<rparr>"
  let ?seed = "\<lambda>i. Uuid (word_of_nat i)" and ?draw = "\<lambda>i. Uuid (word_of_nat (100 + i))"
  have up: "reachable ?w 0" "reachable ?w 1"
    by (simp_all add: reachable_def)
  have ids: "distinct (map ?seed [3, 4, 5, 6, 14, 18])" "?seed 13 \<noteq> ?seed 1"
    by simp_all
  obtain m k kb d k2 where made: "net_payloads ?draw m k kb d k2"
    using payloads_exist by blast
  have numbers: "?seed 4 = Uuid 4" "?seed 6 = Uuid 6" "?seed 18 = Uuid 18"
    by simp_all
  note net_proof_passes [OF up _ ids made, of "\<lambda>_. True" "\<lambda>_. None", unfolded numbers, OF TrueI]
  with made show ?thesis
    by (elim exE) (intro exI conjI)
qed

end
