(* ===== verification/Examples.thy ===== *)
theory Examples
  imports Sizes
begin

text \<open>
  The example programs: \<^verbatim>\<open>examples/demo.cpp\<close>, one definition per group of its sections, and
  \<^verbatim>\<open>examples/cuda.cpp\<close>. Random ids are drawn from \<open>seed\<close> in the order of the calls.
\<close>

section \<open>The profiles and rules of the example\<close>

definition example_tensor :: "uuid \<Rightarrow> tensor_profile" where
  "example_tensor u = \<lparr>tn_schema_id = u, tn_rank = 2, tn_shape = [2, 3], tn_dynamic_dims = [], tn_dtype = ''f32'',
     tn_layout = ''row-major'', tn_strides = [], tn_alignment = None, tn_endianness = [], tn_semantic_role = ''activations''\<rparr>"

definition example_model :: "uuid \<Rightarrow> uuid \<Rightarrow> model_profile res" where
  "example_model m revision =
     bindE (uuid_from_string ''00000000-0000-0000-0000-00000000000a'') (\<lambda>tok.
     bindE (uuid_from_string ''00000000-0000-0000-0000-00000000000b'') (\<lambda>voc. Inr
       \<lparr>mo_model_id = m, mo_revision_id = revision, mo_architecture = ''transformer'', mo_family = ''llm'',
        mo_quantization = ''fp16'', mo_tokenizer_id = tok, mo_vocabulary_id = voc, mo_parameter_count = None,
        mo_adapter_ids = [], mo_dtype = ''f16'', mo_execution_req = []\<rparr>))"

definition example_tokenizer :: "model_profile \<Rightarrow> tokenizer_profile" where
  "example_tokenizer m = \<lparr>tk_tokenizer_id = mo_tokenizer_id m, tk_vocabulary_id = mo_vocabulary_id m, tk_vocab_size = 128000,
     tk_special_tokens = [], tk_normalization = ''none'', tk_chat_template = ''chatml''\<rparr>"

definition example_adapter :: "uuid \<Rightarrow> adapter_profile" where
  "example_adapter u = \<lparr>ad_adapter_id = u, ad_base_model_revision = ''rev-2'', ad_kind = ''lora'', ad_rank_config = [],
     ad_target_modules = [], ad_dtype = ''f16'', ad_composition = ''additive'', ad_activation = [], ad_generation = 0,
     ad_artifact_digest = []\<rparr>"

definition pair_rule :: "uuid \<Rightarrow> rule" where
  "pair_rule u = default_rule\<lparr>r_rule_id := u, r_scope := ''pair''\<rparr>"

definition same_dtype :: constraint where
  "same_dtype = default_constraint\<lparr>c_field := ''dtype'', c_right_field := ''dtype''\<rparr>"

definition tensor_rule :: "uuid \<Rightarrow> rule" where
  "tensor_rule u = (pair_rule u)\<lparr>r_left_kind := Some PK_Tensor, r_priority := 10, r_required := [same_dtype]\<rparr>"

definition tokenizer_rule :: "uuid \<Rightarrow> rule" where
  "tokenizer_rule u = (pair_rule u)\<lparr>r_left_kind := Some PK_Model, r_right_kind := Some PK_Tokenizer,
     r_required := [default_constraint\<lparr>c_field := ''tokenizer_id'', c_right_field := ''tokenizer_id''\<rparr>]\<rparr>"

definition adapter_rule :: "uuid \<Rightarrow> rule" where
  "adapter_rule u = (pair_rule u)\<lparr>r_left_kind := Some PK_Adapter,
     r_required := [default_constraint\<lparr>c_field := ''base_model_revision'', c_expected := CStr ''rev-2''\<rparr>]\<rparr>"

definition feature_rule :: "uuid \<Rightarrow> rule" where
  "feature_rule u = (pair_rule u)\<lparr>r_required := [default_constraint\<lparr>c_op := P_Feature_Req, c_field := ''missing_feature''\<rparr>]\<rparr>"

definition conditional_rule :: "uuid \<Rightarrow> rule" where
  "conditional_rule u = (pair_rule u)\<lparr>r_kind := RK_Conditional, r_adaptations := [''cast f16->f32''],
     r_left_kind := Some PK_Tensor, r_conditions := [default_constraint\<lparr>c_field := ''dtype'', c_expected := CStr ''f32''\<rparr>]\<rparr>"

definition old_rule :: "uuid \<Rightarrow> rule" where
  "old_rule u = (pair_rule u)\<lparr>r_priority := 10, r_required := [same_dtype]\<rparr>"

section \<open>The sections of the example\<close>

definition example_tensors :: "(nat \<Rightarrow> uuid) \<Rightarrow> registry \<Rightarrow> (string list \<times> (uuid \<times> uuid) \<times> registry) res" where
  "example_tensors seed R =
     (let t1 = example_tensor (seed 0); t2 = t1\<lparr>tn_schema_id := seed 2, tn_dtype := ''f16''\<rparr> in
     bindE (tensor_to_canon t1) (\<lambda>p1.
     callE (register_new_profile (seed 1) PK_Tensor p1 [] [] R) (\<lambda>tid R.
     callE (evaluate_pair tid tid R) (\<lambda>d R.
     bindE (outcome_name (d_outcome d)) (\<lambda>self.
     bindE (tensor_to_canon t2) (\<lambda>p2.
     callE (register_new_profile (seed 3) PK_Tensor p2 [] [] R) (\<lambda>tid2 R.
     callE (apfst Inr (register_rule (tensor_rule (seed 4)) R)) (\<lambda>_ R.
     callE (evaluate_pair tid tid2 R) (\<lambda>d R.
     bindE (outcome_name (d_outcome d)) (\<lambda>name. Inr
       ([''== exact tensor compatibility =='', ''  self-pair outcome: '' @ self @ '' (expect EXACT)'',
         ''== tensor mismatch =='',
         ''  f32 vs f16 outcome: '' @ name @ '' (expect UNKNOWN after required dtype equality fails)''],
        (tid, tid2), R)))))))))))"

definition example_models :: "(nat \<Rightarrow> uuid) \<Rightarrow> registry \<Rightarrow> (string list \<times> (canon \<times> canon) \<times> uuid \<times> registry) res" where
  "example_models seed R =
     bindE (example_model (seed 5) (seed 6)) (\<lambda>m.
     bindE (model_to_canon m) (\<lambda>mp.
     callE (register_new_profile (seed 7) PK_Model mp [] [] R) (\<lambda>mid R.
     bindE (tokenizer_to_canon (example_tokenizer m)) (\<lambda>tp.
     callE (register_new_profile (seed 8) PK_Tokenizer tp [] [] R) (\<lambda>tokid R.
     callE (apfst Inr (register_rule (tokenizer_rule (seed 9)) R)) (\<lambda>_ R.
     callE (evaluate_pair mid tokid R) (\<lambda>d R.
     bindE (outcome_name (d_outcome d)) (\<lambda>name.
     bindE (adapter_to_canon (example_adapter (seed 10))) (\<lambda>ap.
     callE (register_new_profile (seed 11) PK_Adapter ap [] [] R) (\<lambda>_ R.
     callE (apfst Inr (register_rule (adapter_rule (seed 12)) R)) (\<lambda>_ R. Inr
       ([''== model/tokenizer compatibility =='', ''  model/tokenizer outcome: '' @ name @ '' (expect COMPATIBLE)'',
         ''== adapter/base-model compatibility =='',
         ''  adapter registered with base_model_revision=rev-2 (rule requires rev-2)''],
        (mp, ap), mid, R))))))))))))"

definition example_rules :: "(nat \<Rightarrow> uuid) \<Rightarrow> uuid \<Rightarrow> uuid \<Rightarrow> uuid \<Rightarrow> registry \<Rightarrow> (string list \<times> registry) res" where
  "example_rules seed tid tid2 mid R =
     callE (apfst Inr (register_rule (feature_rule (seed 13)) R)) (\<lambda>_ R.
     callE (evaluate_pair mid mid R) (\<lambda>d R.
     bindE (outcome_name (d_outcome d)) (\<lambda>unknown.
     callE (apfst Inr (register_rule (conditional_rule (seed 14)) R)) (\<lambda>_ R.
     callE (evaluate_pair tid2 tid R) (\<lambda>d R.
     bindE (outcome_name (d_outcome d)) (\<lambda>cond.
     let adaptation = (case d_adaptations d of [] \<Rightarrow> [] | a # _ \<Rightarrow> [''    adaptation: '' @ a]) in
     callE (apfst Inr (register_rule (old_rule (seed 15)) R)) (\<lambda>old_id R.
     callE (apfst Inr (supersede_rule old_id ((old_rule (seed 15))\<lparr>r_outcome := Compatible_With_Adaptation,
       r_adaptations := [''transpose'']\<rparr>) R)) (\<lambda>_ R.
     callE (evaluate_pair tid tid2 R) (\<lambda>d R.
     bindE (outcome_name (d_outcome d)) (\<lambda>name. Inr
       ([''== unknown due to missing evidence =='',
         ''  outcome: '' @ unknown @ '' (missing evidence -> UNKNOWN/INSUFFICIENT_EVIDENCE, never compatible)'',
         ''== conditional compatibility with adaptation =='',
         ''  outcome: '' @ cond @ '' (expect CONDITIONAL with adaptation '' @ [CHR 0x27] @ ''cast f16->f32'' @ [CHR 0x27] @ '')''] @
        adaptation @
        [''== rule supersession =='', ''  superseded rule now yields: '' @ name @ '' (rule generation advanced)''], R)))))))))))"

definition yes_no :: "bool \<Rightarrow> string" where
  "yes_no b = (if b then ''yes'' else ''no'')"

definition example_invalidation :: "(nat \<Rightarrow> uuid) \<Rightarrow> canon \<Rightarrow> canon \<Rightarrow> registry \<Rightarrow> (string list \<times> registry) res" where
  "example_invalidation seed mp ap R =
     callE (register_new_profile (seed 16) PK_Model mp [] [] R) (\<lambda>parent R.
     callE (register_new_profile (seed 17) PK_Adapter ap [parent] [] R) (\<lambda>child R.
     let n = length (dependencies_of (graph R) child); R = propagate_invalidation parent R in Inr
       ([''== dependency invalidation =='', ''  child dependencies: '' @ show_nat n,
         ''  after invalidating parent, child active: '' @ yes_no (find_profile child False R \<noteq> None),
         ''  dependency cycle detected? '' @ yes_no (has_cycle (graph R))], R)))"

definition example_replay :: "uuid \<Rightarrow> registry \<Rightarrow> string list res" where
  "example_replay tid R =
     callE (evaluate_pair tid tid R) (\<lambda>d R.
     bindE (snapshot R) (\<lambda>snap.
     bindE (recover snap) (\<lambda>R2.
     callE (evaluate_pair tid tid R2) (\<lambda>d2 _. Inr
       [''== historical replay (persistence) =='',
        ''  replay digest preserved: '' @ (if d_digest d = d_digest d2 then ''YES'' else ''NO'')]))))"

definition example_main :: "(nat \<Rightarrow> uuid) \<Rightarrow> (int \<times> string list) res" where
  "example_main seed =
     bindE (example_tensors seed empty_registry) (\<lambda>(l1, (tid, tid2), R).
     bindE (example_models seed R) (\<lambda>(l2, (mp, ap), mid, R).
     bindE (example_rules seed tid tid2 mid R) (\<lambda>(l3, R).
     bindE (example_invalidation seed mp ap R) (\<lambda>(l4, R).
     bindE (example_replay tid R) (\<lambda>l5.
     Inr (0, l1 @ l2 @ l3 @ l4 @ l5 @ [[], ''[Runnable example completed]'']))))))"

section \<open>Registries with several rules\<close>

definition rule_row :: "rule \<Rightarrow> u64 \<Rightarrow> uuid \<times> rule_record" where
  "rule_row r n = (r_rule_id r, \<lparr>rr_rule = r\<lparr>r_generation := n\<rparr>, rr_active = True, rr_superseded = False\<rparr>)"

lemma stock_add_rule:
  assumes "r_generation r = 0" and "r_rule_id r \<notin> fst ` set rs"
  shows "register_rule r (stock ps rs rn g ds) = (r_rule_id r, stock ps (rs @ [rule_row r (rn + 1)]) (rn + 1) (g + 1) ds)"
proof -
  have "map_of rs (r_rule_id r) = None"
    using assms(2) by (simp only: map_of_eq_None_iff not_False_eq_True)
  then show ?thesis
    using assms by (simp add: register_rule_def stock_def with_profiles_def empty_registry_def rule_row_def update_fresh Let_def)
qed

lemma stock_supersede_rule:
  assumes "u \<notin> fst ` set rs" and "u = r_rule_id r"
  shows "supersede_rule u r' (stock ps (rs @ [rule_row r n]) rn g ds) =
    (True, stock ps (rs @ [rule_row (r'\<lparr>r_rule_id := u\<rparr>) (n + 1)]) rn (g + 1) ds)"
proof -
  have "map_of rs u = None"
    using assms(1) by (simp only: map_of_eq_None_iff not_False_eq_True)
  moreover have "AList.update u v (rs @ [(u, w)]) = rs @ [(u, v)]" for v w
    using assms(1) by (induction rs) auto
  ultimately show ?thesis
    using assms(2) by (simp add: supersede_rule_def stock_def with_profiles_def empty_registry_def rule_row_def Let_def map_add_def)
qed

text \<open>The decisions cached so far: few, small, and each under its own digest.\<close>

definition small_cache :: "nat \<Rightarrow> (digest, decision) umap \<Rightarrow> bool" where
  "small_cache n ds \<longleftrightarrow> keyed d_digest ds \<and> length ds \<le> n \<and> (\<forall>d \<in> snd ` set ds. plain_decision d)"

lemma small_cache_Nil: "small_cache 0 []"
  by (simp add: small_cache_def)

lemma small_cache_update:
  assumes "small_cache n ds" and "plain_decision d"
  shows "small_cache (Suc n) (AList.update (d_digest d) d ds)"
  using assms set_update_subset [of "d_digest d" d ds] order_trans [OF length_update [of "d_digest d" d ds]]
  by (force simp: small_cache_def intro: keyed_update)

lemma stock_self:
  assumes "distinct (map fst ps)" and "(u, kd, c) \<in> set ps" and "small_cache n ds"
  shows "\<exists>d ds'. evaluate_pair u u (stock ps rs rn g ds) = (Inr d, stock ps rs rn g ds') \<and>
    d_outcome d = Exact \<and> small_cache (Suc n) ds'"
proof -
  have cur: "current u (stock ps rs rn g ds) = Some (fresh_profile u kd c)"
    using current_with_profiles [OF assms(1,2)] by (simp add: current_stock)
  obtain d where d: "evaluate_locked u u False (stock ps rs rn g ds) = Inr d" "d_outcome d = Exact" "plain_decision d"
    using exact_plain [OF cur cur] by auto
  then show ?thesis
    using small_cache_update [OF assms(3) d(3)] by (auto simp: evaluate_pair_def stock_remember)
qed

text \<open>A rule that returns for a pair: its outcome is an enumerator and no clause throws.\<close>

definition answerable :: "profile_record \<Rightarrow> profile_record \<Rightarrow> rule \<Rightarrow> bool" where
  "answerable l r rl \<longleftrightarrow> named (r_outcome rl) \<and> (\<forall>c \<in> clauses rl. settled l r c)"

lemma stock_decision:
  assumes "distinct (map fst ps)" and "(a, ka, ca) \<in> set ps" and "(b, kb, cb) \<in> set ps"
    and cand: "candidates (scope_of False) (fresh_profile a ka ca) (fresh_profile b kb cb) (stock ps rs rn g ds) = cs"
    and ok: "\<forall>rl \<in> set cs. answerable (fresh_profile a ka ca) (fresh_profile b kb cb) rl"
  shows "\<exists>d. evaluate_locked a b False (stock ps rs rn g ds) = Inr d \<and>
    d_outcome d = (if fingerprint_of ca = fingerprint_of cb then Exact
      else resolution cs (truth_of (fresh_profile a ka ca) (fresh_profile b kb cb))) \<and>
    (fingerprint_of ca = fingerprint_of cb \<longrightarrow> d_adaptations d = [])"
proof -
  have cur: "current a (stock ps rs rn g ds) = Some (fresh_profile a ka ca)" "current b (stock ps rs rn g ds) = Some (fresh_profile b kb cb)"
    using current_with_profiles [OF assms(1)] assms(2,3) by (simp_all add: current_stock)
  show ?thesis
  proof (cases "fingerprint_of ca = fingerprint_of cb")
    case True
    then show ?thesis
      using exact_plain [OF cur] by auto
  next
    case False
    then show ?thesis
      using evaluate_locked_table [OF cur, of False] cand ok by (simp add: answerable_def)
  qed
qed

lemma stock_pair:
  assumes "distinct (map fst ps)" and "(a, ka, ca) \<in> set ps" and "(b, kb, cb) \<in> set ps" and "small_cache n ds"
    and cand: "candidates (scope_of False) (fresh_profile a ka ca) (fresh_profile b kb cb) (stock ps rs rn g ds) = cs"
    and ok: "\<forall>rl \<in> set cs. answerable (fresh_profile a ka ca) (fresh_profile b kb cb) rl"
    and "\<forall>rl \<in> set cs. short_rule rl" and "length cs \<le> 10"
  shows "\<exists>d ds'. evaluate_pair a b (stock ps rs rn g ds) = (Inr d, stock ps rs rn g ds') \<and> small_cache (Suc n) ds' \<and>
    d_outcome d = (if fingerprint_of ca = fingerprint_of cb then Exact
      else resolution cs (truth_of (fresh_profile a ka ca) (fresh_profile b kb cb))) \<and>
    (if fingerprint_of ca = fingerprint_of cb then d_adaptations d = []
     else \<forall>rl. find (\<lambda>rl. decides (verdict_of rl (truth_of (fresh_profile a ka ca) (fresh_profile b kb cb)))) cs = Some rl \<longrightarrow>
       (\<exists>e. eval_rule rl (fresh_profile a ka ca) (fresh_profile b kb cb) = Inr e \<and> d_adaptations d = e_adaptations e))"
proof -
  let ?l = "fresh_profile a ka ca" and ?r = "fresh_profile b kb cb" and ?R = "stock ps rs rn g ds"
  have cur: "current a ?R = Some ?l" "current b ?R = Some ?r"
    using current_with_profiles [OF assms(1)] assms(2,3) by (simp_all add: current_stock)
  obtain d where d: "evaluate_locked a b False ?R = Inr d" "d_outcome d = (if fingerprint_of ca = fingerprint_of cb then Exact
      else resolution cs (truth_of ?l ?r))" "fingerprint_of ca = fingerprint_of cb \<longrightarrow> d_adaptations d = []"
    using stock_decision [OF assms(1-3) cand ok] by blast
  have "plain_decision d"
    using evaluated_plain [OF cur d(1)] cand assms(7,8) by simp
  then have "small_cache (Suc n) (AList.update (d_digest d) d ds)"
    using assms(4) by (rule small_cache_update [rotated])
  moreover have "\<exists>e. eval_rule rl ?l ?r = Inr e \<and> d_adaptations d = e_adaptations e"
    if "fingerprint_of ca \<noteq> fingerprint_of cb" "find (\<lambda>rl. decides (verdict_of rl (truth_of ?l ?r))) cs = Some rl" for rl
    using decided_adaptations [OF cur _ d(1), of rl] cand that ok by (simp add: answerable_def)
  ultimately show ?thesis
    using d by (intro exI [of _ d] exI [of _ "AList.update (d_digest d) d ds"]) (simp add: evaluate_pair_def stock_remember)
qed

lemma rule_row_simps [simp]:
  "fst (rule_row r n) = r_rule_id r" "rr_rule (snd (rule_row r n)) = r\<lparr>r_generation := n\<rparr>" "rr_active (snd (rule_row r n))"
  by (simp_all add: rule_row_def)

lemmas example_rule_defs = tensor_rule_def tokenizer_rule_def adapter_rule_def feature_rule_def conditional_rule_def old_rule_def
  pair_rule_def same_dtype_def default_rule_def default_constraint_def

lemma example_rule_ids [simp]:
  "r_rule_id (tensor_rule u) = u" "r_generation (tensor_rule u) = 0"
  "r_rule_id (tokenizer_rule u) = u" "r_generation (tokenizer_rule u) = 0"
  "r_rule_id (adapter_rule u) = u" "r_generation (adapter_rule u) = 0"
  "r_rule_id (feature_rule u) = u" "r_generation (feature_rule u) = 0"
  "r_rule_id (conditional_rule u) = u" "r_generation (conditional_rule u) = 0"
  "r_rule_id (old_rule u) = u" "r_generation (old_rule u) = 0"
  by (simp_all add: example_rule_defs)

lemma example_rules_short:
  "short_rule ((tensor_rule u)\<lparr>r_generation := n\<rparr>)" "short_rule ((tokenizer_rule u)\<lparr>r_generation := n\<rparr>)"
  "short_rule ((feature_rule u)\<lparr>r_generation := n\<rparr>)" "short_rule ((conditional_rule u)\<lparr>r_generation := n\<rparr>)"
  by (simp_all add: short_rule_def clauses_def short_clause_def example_rule_defs)

section \<open>The payloads of the example\<close>

text \<open>A record that can be written in little space.\<close>

definition light_payload :: "canon \<Rightarrow> bool" where
  "light_payload c \<longleftrightarrow> canon_ok c \<and> kind c = KRecord \<and> length (enc c) \<le> 4000"

lemma tensor_made:
  "\<exists>c. tensor_to_canon ((example_tensor u)\<lparr>tn_schema_id := v, tn_dtype := dt\<rparr>) = Inr c \<and> canon_ok c \<and>
    resolve_profile_field PK_Tensor c ''dtype'' = Some (CStr dt) \<and> (length dt \<le> 100 \<longrightarrow> light_payload c)"
  by (simp add: tensor_to_canon_def example_tensor_def mk_record_tags_ok resolve_eval light_payload_def bytes_length)

lemma example_ids:
  "uuid_from_string ''00000000-0000-0000-0000-00000000000a'' = Inr (Uuid 10)"
  "uuid_from_string ''00000000-0000-0000-0000-00000000000b'' = Inr (Uuid 11)"
  by code_simp+

lemma model_published:
  "\<exists>p c. example_model m revision = Inr p \<and> model_to_canon p = Inr c \<and> canon_ok c \<and> mo_tokenizer_id p = Uuid 10 \<and>
    resolve_profile_field PK_Model c ''tokenizer_id'' = Some (CUuid (Uuid 10)) \<and> light_payload c"
  by (simp add: example_model_def example_ids model_to_canon_def mk_record_tags_ok resolve_eval light_payload_def bytes_length)

lemma tokenizer_published:
  "\<exists>c. tokenizer_to_canon (example_tokenizer p) = Inr c \<and> canon_ok c \<and>
    resolve_profile_field PK_Tokenizer c ''tokenizer_id'' = Some (CUuid (mo_tokenizer_id p)) \<and> light_payload c"
  by (simp add: tokenizer_to_canon_def example_tokenizer_def mk_record_tags_ok resolve_eval light_payload_def bytes_length)

lemma adapter_published: "\<exists>c. adapter_to_canon (example_adapter u) = Inr c \<and> canon_ok c \<and> light_payload c"
  by (simp add: adapter_to_canon_def example_adapter_def mk_record_tags_ok light_payload_def bytes_length)

lemma missing_feature_unknown: "resolve_profile_field kd c ''missing_feature'' = None"
  by (cases kd) (simp_all add: resolve_profile_field_def tag_for_def dot_head_def)

section \<open>The clauses of the example\<close>

lemma same_kind_equal [simp]: "canon_equal (CStr x) (CStr y) = Inr (x = y)" "canon_equal (CUuid u) (CUuid v) = Inr (u = v)"
  by (simp_all add: canon_equal_def accessor_defs)

lemma equal_fields:
  assumes "resolve_profile_field (p_kind l) (p_payload l) f = Some v" and "resolve_profile_field (p_kind r) (p_payload r) f' = Some w"
    and "f' \<noteq> []" and "canon_equal v w = Inr b"
  shows "truth_of l r (default_constraint\<lparr>c_field := f, c_right_field := f'\<rparr>) = (if b then Holds else Fails)"
    and "settled l r (default_constraint\<lparr>c_field := f, c_right_field := f'\<rparr>)"
  using assms by (simp_all add: truth_of_def settled_def met_def constraint_known_def check_def evaluate_def default_constraint_def
      eval_equality_def holds_def fails_def)

lemma field_is:
  assumes "resolve_profile_field (p_kind l) (p_payload l) f = Some (CStr x)"
  shows "truth_of l r (default_constraint\<lparr>c_field := f, c_expected := CStr y\<rparr>) = (if x = y then Holds else Fails)"
    and "settled l r (default_constraint\<lparr>c_field := f, c_expected := CStr y\<rparr>)"
  using assms by (simp_all add: truth_of_def settled_def met_def constraint_known_def check_def evaluate_def default_constraint_def
      eval_equality_def holds_def fails_def)

lemma feature_lacks:
  "truth_of l r (default_constraint\<lparr>c_op := P_Feature_Req, c_field := ''missing_feature''\<rparr>) = Lacks"
  "settled l r (default_constraint\<lparr>c_op := P_Feature_Req, c_field := ''missing_feature''\<rparr>)"
  by (simp_all add: truth_of_def settled_def constraint_known_def missing_feature_unknown default_constraint_def)

section \<open>What the example prints\<close>

definition tensors_lines :: "canon \<Rightarrow> canon \<Rightarrow> string list" where
  "tensors_lines p1 p2 = [''== exact tensor compatibility =='', ''  self-pair outcome: EXACT (expect EXACT)'', ''== tensor mismatch =='',
      ''  f32 vs f16 outcome: '' @ (if fingerprint_of p1 = fingerprint_of p2 then ''EXACT'' else ''UNKNOWN'') @
      '' (expect UNKNOWN after required dtype equality fails)'']"

definition models_lines :: "canon \<Rightarrow> canon \<Rightarrow> string list" where
  "models_lines mp tp = [''== model/tokenizer compatibility =='',
      ''  model/tokenizer outcome: '' @ (if fingerprint_of mp = fingerprint_of tp then ''EXACT'' else ''COMPATIBLE'') @
      '' (expect COMPATIBLE)'', ''== adapter/base-model compatibility =='',
      ''  adapter registered with base_model_revision=rev-2 (rule requires rev-2)'']"

definition tied_name :: "(nat \<Rightarrow> uuid) \<Rightarrow> canon \<Rightarrow> canon \<Rightarrow> string \<Rightarrow> string" where
  "tied_name seed p q name =
     (if fingerprint_of p = fingerprint_of q then ''EXACT'' else if seed 13 < seed 14 then ''INSUFFICIENT_EVIDENCE'' else name)"

text \<open>The adaptation is printed when the conditional rule decides.\<close>

definition adaptation_lines :: "(nat \<Rightarrow> uuid) \<Rightarrow> canon \<Rightarrow> canon \<Rightarrow> string list" where
  "adaptation_lines seed p q =
     (if fingerprint_of p = fingerprint_of q \<or> seed 13 < seed 14 then [] else [''    adaptation: cast f16->f32''])"

definition rules_lines :: "(nat \<Rightarrow> uuid) \<Rightarrow> canon \<Rightarrow> canon \<Rightarrow> string list" where
  "rules_lines seed p1 p2 = [''== unknown due to missing evidence =='',
      ''  outcome: EXACT (missing evidence -> UNKNOWN/INSUFFICIENT_EVIDENCE, never compatible)'',
      ''== conditional compatibility with adaptation =='',
      ''  outcome: '' @ tied_name seed p2 p1 ''CONDITIONAL'' @ '' (expect CONDITIONAL with adaptation '' @ [CHR 0x27] @
        ''cast f16->f32'' @ [CHR 0x27] @ '')''] @ adaptation_lines seed p2 p1 @
      [''== rule supersession =='', ''  superseded rule now yields: '' @ tied_name seed p1 p2 ''COMPATIBLE'' @
        '' (rule generation advanced)'']"

definition invalidation_lines :: "string list" where
  "invalidation_lines = [''== dependency invalidation =='', ''  child dependencies: 1'', ''  after invalidating parent, child active: no'',
      ''  dependency cycle detected? no'']"

definition tensor_rows :: "(nat \<Rightarrow> uuid) \<Rightarrow> canon \<Rightarrow> canon \<Rightarrow> (uuid \<times> profile_kind \<times> canon) list" where
  "tensor_rows seed p1 p2 = [(seed 1, PK_Tensor, p1), (seed 3, PK_Tensor, p2)]"

lemma tensors_section:
  assumes "tensor_to_canon (example_tensor (seed 0)) = Inr p1"
    and "tensor_to_canon ((example_tensor (seed 0))\<lparr>tn_schema_id := seed 2, tn_dtype := ''f16''\<rparr>) = Inr p2"
    and "seed 1 \<noteq> seed 3"
  shows "\<exists>ds. example_tensors seed empty_registry =
    Inr (tensors_lines p1 p2,
      (seed 1, seed 3), stock (tensor_rows seed p1 p2) [rule_row (tensor_rule (seed 4)) 1] 1 3 ds) \<and> small_cache 2 ds"
proof -
  let ?l = "fresh_profile (seed 1) PK_Tensor p1" and ?r = "fresh_profile (seed 3) PK_Tensor p2"
  have p: "canon_ok p1" "resolve_profile_field PK_Tensor p1 ''dtype'' = Some (CStr ''f32'')"
    "canon_ok p2" "resolve_profile_field PK_Tensor p2 ''dtype'' = Some (CStr ''f16'')"
    using tensor_made [where u = "seed 0" and v = "seed 0" and dt = "''f32''"]
      tensor_made [where u = "seed 0" and v = "seed 2" and dt = "''f16''"] assms(1,2)
    by (simp_all add: example_tensor_def)
  obtain d1 ds where d1: "evaluate_pair (seed 1) (seed 1) (stock [(seed 1, PK_Tensor, p1)] [] 0 1 []) =
      (Inr d1, stock [(seed 1, PK_Tensor, p1)] [] 0 1 ds)" "d_outcome d1 = Exact" "small_cache 1 ds"
    using stock_self [of "[(seed 1, PK_Tensor, p1)]" "seed 1" PK_Tensor p1 0 "[]" "[]" 0 1] small_cache_Nil by auto
  have dtype: "truth_of ?l ?r same_dtype = Fails" "settled ?l ?r same_dtype"
    using equal_fields [of ?l "''dtype''" "CStr ''f32''" ?r "''dtype''" "CStr ''f16''" False] p(2,4)
    by (simp_all add: same_dtype_def)
  have cand: "candidates (scope_of False) ?l ?r (stock (tensor_rows seed p1 p2) [rule_row (tensor_rule (seed 4)) 1] 1 3 ds) =
      [(tensor_rule (seed 4))\<lparr>r_generation := 1\<rparr>]"
    by (simp add: candidates_def applicable_def kind_matches_def tensor_rule_def pair_rule_def default_rule_def)
  obtain d2 ds' where d2: "evaluate_pair (seed 1) (seed 3) (stock (tensor_rows seed p1 p2) [rule_row (tensor_rule (seed 4)) 1] 1 3 ds) =
      (Inr d2, stock (tensor_rows seed p1 p2) [rule_row (tensor_rule (seed 4)) 1] 1 3 ds')"
    "d_outcome d2 = (if fingerprint_of p1 = fingerprint_of p2 then Exact else Unknown)" "small_cache 2 ds'"
    using stock_pair [OF _ _ _ d1(3) cand] assms(3) dtype example_rules_short(1) [where u = "seed 4" and n = 1]
    by (auto simp: tensor_rows_def answerable_def named_def clauses_def tensor_rule_def pair_rule_def default_rule_def resolution_def
        verdict_of_def decides_def starved_def numeral_2_eq_2)
  show ?thesis
    using assms p(1,3) d1 d2
    by (intro exI [of _ ds'])
      (simp add: example_tensors_def tensors_lines_def empty_stock stock_register stock_add_rule tensor_rows_def)
qed

definition model_rows :: "(nat \<Rightarrow> uuid) \<Rightarrow> canon \<Rightarrow> canon \<Rightarrow> canon \<Rightarrow> (uuid \<times> profile_kind \<times> canon) list" where
  "model_rows seed mp tp ap = [(seed 7, PK_Model, mp), (seed 8, PK_Tokenizer, tp), (seed 11, PK_Adapter, ap)]"

definition three_rules :: "(nat \<Rightarrow> uuid) \<Rightarrow> (uuid, rule_record) umap" where
  "three_rules seed = [rule_row (tensor_rule (seed 4)) 1, rule_row (tokenizer_rule (seed 9)) 2, rule_row (adapter_rule (seed 12)) 3]"

lemma models_section:
  assumes "distinct (map fst ps @ [seed 7, seed 8, seed 11])" and "distinct [seed 4, seed 9, seed 12]"
    and m: "example_model (seed 5) (seed 6) = Inr m" "model_to_canon m = Inr mp" "tokenizer_to_canon (example_tokenizer m) = Inr tp"
      "adapter_to_canon (example_adapter (seed 10)) = Inr ap"
    and "small_cache n ds"
  shows "\<exists>ds'. example_models seed (stock ps [rule_row (tensor_rule (seed 4)) 1] 1 3 ds) =
    Inr (models_lines mp tp,
      (mp, ap), seed 7, stock (ps @ model_rows seed mp tp ap) (three_rules seed) 3 8 ds') \<and> small_cache (Suc n) ds'"
proof -
  let ?l = "fresh_profile (seed 7) PK_Model mp" and ?r = "fresh_profile (seed 8) PK_Tokenizer tp"
  let ?ps = "ps @ [(seed 7, PK_Model, mp), (seed 8, PK_Tokenizer, tp)]"
  let ?rs = "[rule_row (tensor_rule (seed 4)) 1, rule_row (tokenizer_rule (seed 9)) 2]"
  have p: "canon_ok mp" "resolve_profile_field PK_Model mp ''tokenizer_id'' = Some (CUuid (Uuid 10))" "canon_ok tp"
    "resolve_profile_field PK_Tokenizer tp ''tokenizer_id'' = Some (CUuid (Uuid 10))" "canon_ok ap"
    using model_published [of "seed 5" "seed 6"] tokenizer_published [of m] adapter_published [of "seed 10"] m by simp_all
  let ?c = "default_constraint\<lparr>c_field := ''tokenizer_id'', c_right_field := ''tokenizer_id''\<rparr>"
  have same: "truth_of ?l ?r ?c = Holds" "settled ?l ?r ?c"
    using equal_fields [of ?l "''tokenizer_id''" "CUuid (Uuid 10)" ?r "''tokenizer_id''" "CUuid (Uuid 10)" True] p(2,4) by simp_all
  have cand: "candidates (scope_of False) ?l ?r (stock ?ps ?rs 2 6 ds) = [(tokenizer_rule (seed 9))\<lparr>r_generation := 2\<rparr>]"
    by (simp add: candidates_def applicable_def kind_matches_def tensor_rule_def tokenizer_rule_def pair_rule_def default_rule_def)
  obtain d ds' where d: "evaluate_pair (seed 7) (seed 8) (stock ?ps ?rs 2 6 ds) = (Inr d, stock ?ps ?rs 2 6 ds')"
    "d_outcome d = (if fingerprint_of mp = fingerprint_of tp then Exact else Compatible)" "small_cache (Suc n) ds'"
    using stock_pair [OF _ _ _ assms(7) cand] assms(1) same example_rules_short(2) [where u = "seed 9" and n = 2]
    by (auto simp: answerable_def named_def clauses_def tokenizer_rule_def pair_rule_def default_rule_def resolution_def
        verdict_of_def decides_def alternatives_met_def kind_outcome_def)
  have new: "seed 7 \<notin> fst ` set ps" "seed 8 \<notin> fst ` set ps" "seed 11 \<notin> fst ` set ps" "seed 8 \<noteq> seed 7" "seed 11 \<noteq> seed 7" "seed 11 \<noteq> seed 8"
    "seed 9 \<noteq> seed 4" "seed 12 \<noteq> seed 4" "seed 12 \<noteq> seed 9"
    using assms(1,2) by auto
  show ?thesis
    using m p(1,3,5) d new
    by (intro exI [of _ ds']) (simp add: example_models_def models_lines_def stock_register stock_add_rule model_rows_def three_rules_def)
qed

definition new_rule :: "uuid \<Rightarrow> rule" where
  "new_rule u = (old_rule u)\<lparr>r_outcome := Compatible_With_Adaptation, r_adaptations := [''transpose'']\<rparr>"

lemma new_rule_id [simp]: "r_rule_id (new_rule u) = u"
  by (simp add: new_rule_def)

definition five_rules :: "(nat \<Rightarrow> uuid) \<Rightarrow> (uuid, rule_record) umap" where
  "five_rules seed = three_rules seed @ [rule_row (feature_rule (seed 13)) 4, rule_row (conditional_rule (seed 14)) 5]"

text \<open>The order in which equal priorities are tried is the order of the drawn ids.\<close>

definition tied :: "(nat \<Rightarrow> uuid) \<Rightarrow> rule list" where
  "tied seed = (if seed 13 < seed 14
     then [(feature_rule (seed 13))\<lparr>r_generation := 4\<rparr>, (conditional_rule (seed 14))\<lparr>r_generation := 5\<rparr>]
     else [(conditional_rule (seed 14))\<lparr>r_generation := 5\<rparr>, (feature_rule (seed 13))\<lparr>r_generation := 4\<rparr>])"

lemma tensor_candidates:
  assumes "seed 13 \<noteq> seed 14"
  shows "candidates (scope_of False) (fresh_profile a PK_Tensor p) (fresh_profile b PK_Tensor q) (stock ps (five_rules seed) rn g ds) =
    (tensor_rule (seed 4))\<lparr>r_generation := 1\<rparr> # tied seed"
  using assms
  by (auto simp: candidates_def applicable_def kind_matches_def five_rules_def three_rules_def tied_def rule_less_def example_rule_defs)

lemma superseded_candidates:
  assumes "seed 13 \<noteq> seed 14" and "seed 4 \<noteq> seed 15"
  shows "candidates (scope_of False) (fresh_profile a PK_Tensor p) (fresh_profile b PK_Tensor q)
      (stock ps (five_rules seed @ [rule_row (new_rule (seed 15)) 7]) rn g ds) =
    (if seed 4 < seed 15 then [(tensor_rule (seed 4))\<lparr>r_generation := 1\<rparr>, (new_rule (seed 15))\<lparr>r_generation := 7\<rparr>]
     else [(new_rule (seed 15))\<lparr>r_generation := 7\<rparr>, (tensor_rule (seed 4))\<lparr>r_generation := 1\<rparr>]) @ tied seed"
  using assms
  by (auto simp: candidates_def applicable_def kind_matches_def five_rules_def three_rules_def tied_def rule_less_def new_rule_def
      example_rule_defs)

text \<open>The verdicts of the rules on two tensors with different data types.\<close>

lemma tensor_verdicts:
  assumes "resolve_profile_field PK_Tensor p ''dtype'' = Some (CStr x)" and "resolve_profile_field PK_Tensor q ''dtype'' = Some (CStr y)"
    and "x \<noteq> y" and v: "v = truth_of (fresh_profile a PK_Tensor p) (fresh_profile b PK_Tensor q)"
  shows "verdict_of ((tensor_rule u)\<lparr>r_generation := n\<rparr>) v = None" "verdict_of ((new_rule u)\<lparr>r_generation := n\<rparr>) v = None"
    "verdict_of ((feature_rule u)\<lparr>r_generation := n\<rparr>) v = Some Insufficient_Evidence"
    "verdict_of ((conditional_rule u)\<lparr>r_generation := n\<rparr>) v = Some (if x = ''f32'' then Compatible else Conditional)"
    and "answerable (fresh_profile a PK_Tensor p) (fresh_profile b PK_Tensor q) ((tensor_rule u)\<lparr>r_generation := n\<rparr>)"
      "answerable (fresh_profile a PK_Tensor p) (fresh_profile b PK_Tensor q) ((new_rule u)\<lparr>r_generation := n\<rparr>)"
      "answerable (fresh_profile a PK_Tensor p) (fresh_profile b PK_Tensor q) ((feature_rule u)\<lparr>r_generation := n\<rparr>)"
      "answerable (fresh_profile a PK_Tensor p) (fresh_profile b PK_Tensor q) ((conditional_rule u)\<lparr>r_generation := n\<rparr>)"
proof -
  let ?l = "fresh_profile a PK_Tensor p" and ?r = "fresh_profile b PK_Tensor q"
  have same: "v same_dtype = Fails" "settled ?l ?r same_dtype"
    using equal_fields [of ?l "''dtype''" "CStr x" ?r "''dtype''" "CStr y" False] assms by (simp_all add: same_dtype_def)
  let ?c = "default_constraint\<lparr>c_field := ''dtype'', c_expected := CStr ''f32''\<rparr>"
  have f32: "v ?c = (if x = ''f32'' then Holds else Fails)" "settled ?l ?r ?c"
    using field_is [of ?l "''dtype''" x ?r "''f32''"] assms by simp_all
  let ?f = "default_constraint\<lparr>c_op := P_Feature_Req, c_field := ''missing_feature''\<rparr>"
  have feature: "v ?f = Lacks" "settled ?l ?r ?f"
    using feature_lacks [of ?l ?r] v by simp_all
  show "verdict_of ((tensor_rule u)\<lparr>r_generation := n\<rparr>) v = None" "verdict_of ((new_rule u)\<lparr>r_generation := n\<rparr>) v = None"
    "verdict_of ((feature_rule u)\<lparr>r_generation := n\<rparr>) v = Some Insufficient_Evidence"
    "verdict_of ((conditional_rule u)\<lparr>r_generation := n\<rparr>) v = Some (if x = ''f32'' then Compatible else Conditional)"
    using same(1) f32(1) feature(1)
    by (simp_all add: verdict_of_def tensor_rule_def new_rule_def old_rule_def feature_rule_def conditional_rule_def pair_rule_def
        default_rule_def alternatives_met_def kind_outcome_def)
  show "answerable ?l ?r ((tensor_rule u)\<lparr>r_generation := n\<rparr>)" "answerable ?l ?r ((new_rule u)\<lparr>r_generation := n\<rparr>)"
    "answerable ?l ?r ((feature_rule u)\<lparr>r_generation := n\<rparr>)" "answerable ?l ?r ((conditional_rule u)\<lparr>r_generation := n\<rparr>)"
    using same(2) f32(2) feature(2)
    by (simp_all add: answerable_def named_def clauses_def tensor_rule_def new_rule_def old_rule_def feature_rule_def
        conditional_rule_def pair_rule_def default_rule_def)
qed

definition tied_outcome :: "(nat \<Rightarrow> uuid) \<Rightarrow> string \<Rightarrow> outcome" where
  "tied_outcome seed x = (if seed 13 < seed 14 then Insufficient_Evidence else if x = ''f32'' then Compatible else Conditional)"

lemma new_rule_short: "short_rule ((new_rule u)\<lparr>r_generation := n\<rparr>)"
  by (simp add: short_rule_def clauses_def short_clause_def new_rule_def example_rule_defs)

lemma tied_short: "\<forall>rl \<in> set (tied seed). short_rule rl" "length (tied seed) = 2"
  by (simp_all add: tied_def example_rules_short)

text \<open>Of the tied rules, only the conditional one has an adaptation.\<close>

lemma tied_adaptations:
  assumes "eval_rule (hd (tied seed)) l r = Inr e"
  shows "e_adaptations e = (if seed 13 < seed 14 then [] else [''cast f16->f32''])"
proof (cases "seed 13 < seed 14")
  case True
  then have "eval_rule ((feature_rule (seed 13))\<lparr>r_generation := 4\<rparr>) l r = Inr e"
    using assms by (simp add: tied_def)
  from eval_rule_bounded [OF this example_rules_short(3)] True show ?thesis
    by (simp add: example_rule_defs)
next
  case False
  then have "eval_rule ((conditional_rule (seed 14))\<lparr>r_generation := 5\<rparr>) l r = Inr e"
    using assms by (simp add: tied_def)
  from conditional_adaptations [OF this] False show ?thesis
    by (simp add: example_rule_defs)
qed

lemma tensor_pairs:
  assumes "distinct (map fst ps)" and "(a, PK_Tensor, p) \<in> set ps" and "(b, PK_Tensor, q) \<in> set ps"
    and "resolve_profile_field PK_Tensor p ''dtype'' = Some (CStr x)" and "resolve_profile_field PK_Tensor q ''dtype'' = Some (CStr y)"
    and "x \<noteq> y" and "seed 13 \<noteq> seed 14" and "small_cache n ds"
    and rs: "rs = five_rules seed \<and> cs = [(tensor_rule (seed 4))\<lparr>r_generation := 1\<rparr>] \<or>
      seed 4 \<noteq> seed 15 \<and> rs = five_rules seed @ [rule_row (new_rule (seed 15)) 7] \<and>
      cs = (if seed 4 < seed 15 then [(tensor_rule (seed 4))\<lparr>r_generation := 1\<rparr>, (new_rule (seed 15))\<lparr>r_generation := 7\<rparr>]
        else [(new_rule (seed 15))\<lparr>r_generation := 7\<rparr>, (tensor_rule (seed 4))\<lparr>r_generation := 1\<rparr>])"
  shows "\<exists>d ds'. evaluate_pair a b (stock ps rs rn g ds) = (Inr d, stock ps rs rn g ds') \<and> small_cache (Suc n) ds' \<and>
      d_outcome d = (if fingerprint_of p = fingerprint_of q then Exact else tied_outcome seed x) \<and>
      d_adaptations d = (if fingerprint_of p = fingerprint_of q \<or> seed 13 < seed 14 then [] else [''cast f16->f32''])"
proof -
  let ?l = "fresh_profile a PK_Tensor p" and ?r = "fresh_profile b PK_Tensor q"
  let ?v = "truth_of ?l ?r"
  note verdicts = tensor_verdicts [where a = a and b = b, OF assms(4-6) refl]
  have cand: "candidates (scope_of False) ?l ?r (stock ps rs rn g ds) = cs @ tied seed"
    using rs
  proof
    assume "rs = five_rules seed \<and> cs = [(tensor_rule (seed 4))\<lparr>r_generation := 1\<rparr>]"
    then show ?thesis
      using tensor_candidates [where seed = seed and a = a and b = b and p = p and q = q and ps = ps and rn = rn and g = g and ds = ds,
          OF assms(7)] by (elim conjE) (simp only: append_Cons append_Nil)
  qed (use superseded_candidates [where seed = seed and a = a and b = b and p = p and q = q and ps = ps and rn = rn and g = g and ds = ds,
      OF assms(7)] in blast)
  have head: "set cs \<subseteq> {(tensor_rule (seed 4))\<lparr>r_generation := 1\<rparr>, (new_rule (seed 15))\<lparr>r_generation := 7\<rparr>}" "length cs \<le> 2"
    using rs by (cases "seed 4 < seed 15"; auto)+
  have silent: "\<not> decides (verdict_of rl ?v)" if "rl \<in> set cs" for rl
    using that head(1) verdicts(1,2) by (auto simp: decides_def)
  have find: "find (\<lambda>rl. decides (verdict_of rl ?v)) (cs @ tied seed) = Some (hd (tied seed))"
  proof -
    have "find (\<lambda>rl. decides (verdict_of rl ?v)) cs = None"
      using silent by (simp add: find_None_iff)
    moreover have "find (\<lambda>rl. decides (verdict_of rl ?v)) (tied seed) = Some (hd (tied seed))"
      by (simp add: tied_def decides_def verdicts)
    moreover have "find P (xs @ ys) = (case find P xs of None \<Rightarrow> find P ys | Some z \<Rightarrow> Some z)" for P :: "rule \<Rightarrow> bool" and xs ys
      by (induction xs) auto
    ultimately show ?thesis
      by simp
  qed
  have out: "resolution (cs @ tied seed) ?v = tied_outcome seed x"
    unfolding resolution_def find by (simp add: tied_def tied_outcome_def verdicts)
  have ok: "\<forall>rl \<in> set (cs @ tied seed). answerable ?l ?r rl"
    using head(1) verdicts(5-8) by (auto simp: tied_def)
  have short: "\<forall>rl \<in> set (cs @ tied seed). short_rule rl" "length (cs @ tied seed) \<le> 10"
    using head tied_short [of seed] example_rules_short(1) new_rule_short by auto
  show ?thesis
    using stock_pair [OF assms(1-3,8) cand ok short] tied_adaptations [of seed ?l ?r]
    by (cases "fingerprint_of p = fingerprint_of q") (auto simp: out find)
qed

lemma tied_named:
  "outcome_name (if fingerprint_of p = fingerprint_of q then Exact else tied_outcome seed x) =
    Inr (tied_name seed p q (if x = ''f32'' then ''COMPATIBLE'' else ''CONDITIONAL''))"
  by (simp add: tied_outcome_def tied_name_def)

lemma rules_section:
  assumes "distinct (map fst ps)" and "(seed 1, PK_Tensor, p1) \<in> set ps" and "(seed 3, PK_Tensor, p2) \<in> set ps"
    and "(seed 7, PK_Model, mp) \<in> set ps" and "distinct [seed 4, seed 9, seed 12, seed 13, seed 14, seed 15]"
    and "resolve_profile_field PK_Tensor p1 ''dtype'' = Some (CStr ''f32'')"
    and "resolve_profile_field PK_Tensor p2 ''dtype'' = Some (CStr ''f16'')"
    and "small_cache n ds"
  shows "\<exists>ds'. example_rules seed (seed 1) (seed 3) (seed 7) (stock ps (three_rules seed) 3 8 ds) =
    Inr (rules_lines seed p1 p2,
      stock ps (five_rules seed @ [rule_row (new_rule (seed 15)) 7]) 6 12 ds') \<and> small_cache (n + 3) ds'"
proof -
  let ?rs = "three_rules seed @ [rule_row (feature_rule (seed 13)) 4]"
  have new: "seed 13 \<notin> fst ` set (three_rules seed)" "seed 14 \<notin> fst ` set ?rs" "seed 15 \<notin> fst ` set (five_rules seed)"
    "seed 13 \<noteq> seed 14" "seed 4 \<noteq> seed 15"
    using assms(5) by (auto simp: three_rules_def five_rules_def)
  obtain d1 ds1 where d1: "evaluate_pair (seed 7) (seed 7) (stock ps ?rs 4 9 ds) = (Inr d1, stock ps ?rs 4 9 ds1)" "d_outcome d1 = Exact"
      "small_cache (Suc n) ds1"
    using stock_self [OF assms(1,4,8), of ?rs 4 9] by blast
  obtain d2 ds2 where d2: "evaluate_pair (seed 3) (seed 1) (stock ps (five_rules seed) 5 10 ds1) =
      (Inr d2, stock ps (five_rules seed) 5 10 ds2)"
      "d_outcome d2 = (if fingerprint_of p2 = fingerprint_of p1 then Exact else tied_outcome seed ''f16'')"
      "small_cache (Suc (Suc n)) ds2"
      "d_adaptations d2 = (if fingerprint_of p2 = fingerprint_of p1 \<or> seed 13 < seed 14 then [] else [''cast f16->f32''])"
    using tensor_pairs [OF assms(1,3,2,7,6) _ new(4) d1(3), of "five_rules seed" _ 5 10] by auto
  let ?all = "five_rules seed @ [rule_row (new_rule (seed 15)) 7]"
  obtain d3 ds3 where d3: "evaluate_pair (seed 1) (seed 3) (stock ps ?all 6 12 ds2) = (Inr d3, stock ps ?all 6 12 ds3)"
      "d_outcome d3 = (if fingerprint_of p1 = fingerprint_of p2 then Exact else tied_outcome seed ''f32'')"
      "small_cache (n + 3) ds3"
    using tensor_pairs [OF assms(1,2,3,6,7) _ new(4) d2(3), of ?all _ 6 12] new(5) by (auto simp: numeral_3_eq_3)
  have names: "outcome_name (d_outcome d2) = Inr (tied_name seed p2 p1 ''CONDITIONAL'')"
    "outcome_name (d_outcome d3) = Inr (tied_name seed p1 p2 ''COMPATIBLE'')"
    unfolding d2(2) d3(2) tied_named by simp_all
  have five: "three_rules seed @ [rule_row (feature_rule (seed 13)) 4, rule_row (conditional_rule (seed 14)) 5] = five_rules seed"
    by (simp add: five_rules_def)
  have same: "(new_rule (seed 15))\<lparr>r_rule_id := seed 15\<rparr> = new_rule (seed 15)"
    by (simp add: new_rule_def example_rule_defs)
  have super: "supersede_rule (seed 15) (new_rule (seed 15)) (stock ps (five_rules seed @ [rule_row (old_rule (seed 15)) 6]) 6 11 ds2) =
      (True, stock ps ?all 6 12 ds2)"
    using stock_supersede_rule [OF new(3), of "old_rule (seed 15)"] by (simp add: same)
  show ?thesis
    using new(1-3) d1(1,2) d2(1,4) d3(1,3) names super
    by (intro exI [of _ ds3]) (simp add: example_rules_def rules_lines_def adaptation_lines_def stock_add_rule five flip: new_rule_def)
qed

lemma stock_register_dependent:
  assumes "canon_ok c" and "u \<notin> fst ` set ps" and "v \<noteq> u"
  shows "register_new_profile u kd c [v] [] (stock ps rs rn g ds) = (Inr u, (stock ps rs rn g ds)
    \<lparr>profiles := profiles (stock ps rs rn g ds) @ [(u, [(fresh_profile u kd c)\<lparr>p_deps := [v]\<rparr>])],
     graph := add_dependency u [v] (graph empty_registry), registry_gen := g + 1\<rparr>)"
proof -
  let ?m = "map (\<lambda>(u, kd, c). (u, [fresh_profile u kd c])) ps"
  have fresh: "u \<notin> fst ` set ?m"
    using assms(2) by force
  then have none: "map_of ?m u = None"
    by (simp only: map_of_eq_None_iff not_False_eq_True)
  moreover have "push u p ?m = ?m @ [(u, [p])]" for p
    using none fresh by (simp only: push_def option.case append_Nil update_fresh not_False_eq_True)
  moreover have "{(u, d) |d. d \<in> set [v] \<and> d \<noteq> u}\<^sup>+ = {(u, v)}"
  proof -
    have eq: "{(u, d) |d. d \<in> set [v] \<and> d \<noteq> u} = {(u, v)}"
      using assms(3) by auto
    show ?thesis
      unfolding eq using assms(3) by (intro trancl_id) (simp add: trans_def)
  qed
  then have "\<not> create_cycle u [v] (graph empty_registry)"
    using assms(3) by (simp add: create_cycle_edges empty_registry_def edges_def adjacent_def)
  ultimately show ?thesis
    using assms(1)
    by (simp add: register_new_profile_def register_profile_def canonical_fingerprint_hex_enc new_profile_def Let_def
        stock_def with_profiles_def fresh_profile_def fingerprint_of_def empty_registry_def)
qed

text \<open>The registry before its last section: well formed and small enough to be written.\<close>

definition ready :: "registry \<Rightarrow> bool" where
  "ready R \<longleftrightarrow> registry_ok R \<and> deps_current R \<and> light R \<and> few R \<and> length (invalidations R) \<le> 2 \<and> length (decisions R) < 100"

lemma stock_ready:
  assumes "distinct (map fst ps)" and "\<forall>(u, kd, c) \<in> set ps. profile_kind_ok kd \<and> light_payload c" and "length ps \<le> 50"
    and "distinct (map fst rs)" and "\<forall>(u, rr) \<in> set rs. r_rule_id (rr_rule rr) = u \<and> light_rule rr" and "length rs \<le> 50"
    and "small_cache n ds" and "n \<le> 50"
  shows "registry_ok (stock ps rs rn g ds) \<and> deps_current (stock ps rs rn g ds) \<and> light (stock ps rs rn g ds) \<and>
    length (concat (map snd (profiles (stock ps rs rn g ds)))) \<le> 50"
proof (intro conjI)
  let ?R = "stock ps rs rn g ds"
  have "\<forall>x \<in> set ps. plain_row x"
    using assms(2) by (auto simp: plain_row_def light_payload_def)
  then have "registry_ok (with_profiles ps)"
    using with_profiles_ok [OF assms(1)] by blast
  moreover have "keyed (\<lambda>rr. r_rule_id (rr_rule rr)) rs"
    using assms(4,5) by (auto simp: keyed_def dest: map_of_SomeD)
  ultimately show "registry_ok ?R"
    using assms(7) by (simp add: registry_ok_def stores_ok_def small_cache_def with_profiles_def empty_registry_def stock_def)
  show "deps_current ?R"
    by (auto simp: deps_current_def with_profiles_def empty_registry_def dependencies_of_def adjacent_def
        dest!: map_of_SomeD split: option.split)
  have "\<forall>h \<in> snd ` set (profiles ?R). \<forall>p \<in> set h. light_profile p"
    using assms(2) by (force simp: with_profiles_def light_profile_def profile_record_ok_def light_payload_def)
  then show "light ?R"
    using assms(5,7) by (auto simp: light_def small_cache_def)
  show "length (concat (map snd (profiles ?R))) \<le> 50"
    using assms(3) by (simp add: with_profiles_def length_concat comp_def case_prod_unfold sum_list_triv)
qed

lemma example_rules_light:
  "light_rule (snd (rule_row (tensor_rule u) n))" "light_rule (snd (rule_row (tokenizer_rule u) n))"
  "light_rule (snd (rule_row (adapter_rule u) n))" "light_rule (snd (rule_row (feature_rule u) n))"
  "light_rule (snd (rule_row (conditional_rule u) n))" "light_rule (snd (rule_row (new_rule u) n))"
  by (auto simp: light_rule_def rule_record_ok_def kind_option_ok_def constraint_ok_def enc_rule_def enc_constraint_def rule_row_def
      new_rule_def example_rule_defs mk_record_tags_ok bytes_length bindE_eq_Inr)

text \<open>One parent and one child: the parent goes first, then the child.\<close>

lemma propagate_pair:
  assumes "graph R = add_dependency child [parent] (graph empty_registry)" and "child \<noteq> parent"
  shows "propagate_invalidation parent R = bump (invalidate_node child (invalidate_node parent R))"
proof -
  have "graph R = \<lparr>deps = [(child, [parent])], reverse = [(parent, [child])]\<rparr>"
    using assms by (simp add: add_dependency_def push_def empty_registry_def drop_edges_def)
  then show ?thesis
    using assms(2) by (simp add: propagate_invalidation_def Let_def adjacent_def)
qed

lemma invalidation_section:
  assumes "light_payload mp" and "light_payload ap" and ids: "distinct (map fst ps @ [seed 16, seed 17])"
    and rows: "\<forall>(u, kd, c) \<in> set ps. profile_kind_ok kd \<and> light_payload c" "length ps \<le> 40" "(u, kd, c) \<in> set ps"
    and rs: "distinct (map fst rs)" "\<forall>(u, rr) \<in> set rs. r_rule_id (rr_rule rr) = u \<and> light_rule rr" "length rs \<le> 50"
    and "small_cache 50 ds"
  shows "\<exists>R. example_invalidation seed mp ap (stock ps rs rn g ds) = Inr (invalidation_lines, R) \<and> ready R \<and>
    current u R = Some (fresh_profile u kd c)"
proof -
  have new: "seed 16 \<notin> fst ` set ps" "seed 17 \<notin> fst ` set (ps @ [(seed 16, PK_Model, mp)])" "seed 16 \<noteq> seed 17"
      "seed 17 \<noteq> seed 16" "u \<noteq> seed 16" "u \<noteq> seed 17"
    using ids rows(3) by force+
  have payloads: "canon_ok mp" "canon_ok ap"
    using assms(1,2) by (simp_all add: light_payload_def)
  let ?ps = "ps @ [(seed 16, PK_Model, mp)]"
  let ?G = "add_dependency (seed 17) [seed 16] (graph empty_registry)"
  let ?p = "(fresh_profile (seed 17) PK_Adapter ap)\<lparr>p_deps := [seed 16]\<rparr>"
  let ?S = "stock ?ps rs rn (g + 1) ds"
  let ?R = "?S\<lparr>profiles := profiles ?S @ [(seed 17, [?p])], graph := ?G, registry_gen := g + 1 + 1\<rparr>"
  note parent = stock_register [OF payloads(1) new(1), of PK_Model rs rn g ds]
  note child = stock_register_dependent [OF payloads(2) new(2,3), of PK_Adapter rs rn "g + 1" ds]
  have S: "registry_ok ?S" "deps_current ?S" "light ?S" "length (concat (map snd (profiles ?S))) \<le> 50"
    using stock_ready [of ?ps rs 50 ds rn "g + 1"] assms(1) ids rows rs \<open>small_cache 50 ds\<close> by (auto simp: light_payload_def)
  have "registry_ok ?R"
    using register_new_profile_ok [OF S(1) payloads(2), of "seed 17" PK_Adapter "[seed 16]" "[]"] child by simp
  moreover have "deps_current ?R"
    using register_profile_deps [OF S(1) _ S(2), of "(new_profile (seed 17) PK_Adapter ap [seed 16] [])\<lparr>p_fingerprint := fingerprint_of ap\<rparr>"]
      child payloads(2)
    by (simp add: register_new_profile_def canonical_fingerprint_hex_enc new_profile_def fingerprint_of_def)
  moreover have "light ?R"
    using S(3) assms(2) by (auto simp: light_def light_profile_def profile_record_ok_def light_payload_def)
  moreover have "few ?R" "invalidations ?R = []" "length (decisions ?R) < 100"
    using S(4) rs(3) \<open>small_cache 50 ds\<close> by (simp_all add: few_def small_cache_def)
  ultimately have R: "registry_ok ?R" "deps_current ?R" "light ?R" "few ?R" "invalidations ?R = []" "length (decisions ?R) < 100"
    by blast+
  let ?Q = "propagate_invalidation (seed 16) ?R"
  have Q: "?Q = bump (invalidate_node (seed 17) (invalidate_node (seed 16) ?R))"
    using new(4) by (intro propagate_pair) simp_all
  have one: "light (invalidate_node (seed 16) ?R) \<and> few (invalidate_node (seed 16) ?R) \<and>
      length (invalidations (invalidate_node (seed 16) ?R)) \<le> Suc (length (invalidations ?R))"
    using light_invalidate [OF R(3,4)] R(5) by simp
  then have "light (invalidate_node (seed 17) (invalidate_node (seed 16) ?R)) \<and>
      few (invalidate_node (seed 17) (invalidate_node (seed 16) ?R)) \<and>
      length (invalidations (invalidate_node (seed 17) (invalidate_node (seed 16) ?R))) \<le>
        Suc (length (invalidations (invalidate_node (seed 16) ?R)))"
    using light_invalidate R(5) by simp
  moreover have "length (invalidations (invalidate_node (seed 16) ?R)) \<le> 1"
    using one R(5) by simp
  ultimately have "light ?Q" "few ?Q" "length (invalidations ?Q) \<le> 2"
    unfolding Q by (simp_all add: few_def)
  then have "ready ?Q"
    using R propagate_invalidation_ok [OF R(1)] propagate_deps [OF R(1,2)] by (simp add: ready_def)
  moreover have "current u ?Q = Some (fresh_profile u kd c)"
  proof -
    have "current u (with_profiles ?ps) = Some (fresh_profile u kd c)"
      using ids rows(3) new(1) by (intro current_with_profiles) auto
    then show ?thesis
      using new(5,6) unfolding Q by (cases "map_of (profiles (with_profiles ?ps)) u") (simp_all add: current_def profiles_invalidate_node map_add_def)
  qed
  moreover have "find_profile (seed 17) False ?Q = None"
  proof -
    have "map_of (profiles ?S) (seed 17) = None"
      using new(2) by (force simp: with_profiles_def map_of_eq_None_iff)
    then show ?thesis
      unfolding Q using new(4)
      by (simp add: find_profile_def profiles_invalidate_node kill_def deactivate_def newest_active_def map_add_def)
  qed
  moreover have "\<not> has_cycle ?G"
    using R(1) by (simp add: registry_ok_def)
  moreover have "dependencies_of ?G (seed 17) = [seed 16]"
    using new(3) by (simp add: add_dependency_def push_def dependencies_of_def adjacent_def empty_registry_def)
  moreover have "show_nat 1 = ''1''"
    by code_simp
  ultimately show ?thesis
    using parent child
    by (intro exI [of _ ?Q]) (simp add: example_invalidation_def invalidation_lines_def propagate_graph yes_no_def)
qed

text \<open>Saved and recovered, the registry decides as before.\<close>

definition replay_lines :: "string list" where
  "replay_lines = [''== historical replay (persistence) =='', ''  replay digest preserved: YES'']"

lemma replay_section:
  assumes "ready R" and "current u R = Some (fresh_profile u kd c)"
  shows "example_replay u R = Inr replay_lines"
proof -
  obtain d where d: "evaluate_locked u u False R = Inr d" "plain_decision d"
    using exact_plain [OF assms(2) assms(2)] by auto
  have "light (remember d R) \<and> few (remember d R)"
    using assms(1) d(2) by (intro light_remember) (simp_all add: ready_def)
  moreover have "deps_current (remember d R)"
    using assms(1) untouched_deps(6) [of R u u] d(1) by (simp add: ready_def evaluate_pair_def)
  ultimately have "persistable (remember d R)"
    using assms(1) by (intro light_persistable) (simp_all add: ready_def remember_ok)
  then obtain bs where bs: "snapshot (remember d R) = Inr bs" "recover bs = Inr (restored (remember d R))"
    using recover_snapshot by blast
  have "evaluate_locked u u False (restored (remember d R)) = Inr d"
    using d(1) by (simp add: evaluate_restored remember_def)
  then show ?thesis
    using d(1) bs by (simp add: example_replay_def replay_lines_def evaluate_pair_def)
qed

section \<open>Properties\<close>

text \<open>
  Property C40. The whole output of the example and its exit status, whatever ids it draws as long as those
  of the profiles differ and those of the rules differ: it throws nowhere, prints every section and
  returns 0; the recovered registry gives the decision under the same digest. The outcome announced as
  CONDITIONAL and the one said to come from the superseded rule are those of the rule, of two unrelated
  ones of priority 0, that drew the smaller id: the rule with the missing feature or the conditional rule; so
  each is INSUFFICIENT_EVIDENCE in one case of two, and then no adaptation is printed. The missing evidence
  section compares a profile with itself, which is EXACT. Payloads that collide under SHA-256 would be EXACT too.
\<close>

theorem example_output:
  assumes "distinct [seed 1, seed 3, seed 7, seed 8, seed 11, seed 16, seed 17]"
    and "distinct [seed 4, seed 9, seed 12, seed 13, seed 14, seed 15]"
    and "tensor_to_canon (example_tensor (seed 0)) = Inr p1"
    and "tensor_to_canon ((example_tensor (seed 0))\<lparr>tn_schema_id := seed 2, tn_dtype := ''f16''\<rparr>) = Inr p2"
    and "example_model (seed 5) (seed 6) = Inr m" and "model_to_canon m = Inr mp"
    and "tokenizer_to_canon (example_tokenizer m) = Inr tp"
  shows "example_main seed = Inr (0,
    [''== exact tensor compatibility =='', ''  self-pair outcome: EXACT (expect EXACT)'', ''== tensor mismatch =='',
     ''  f32 vs f16 outcome: '' @ (if fingerprint_of p1 = fingerprint_of p2 then ''EXACT'' else ''UNKNOWN'') @
       '' (expect UNKNOWN after required dtype equality fails)'',
     ''== model/tokenizer compatibility =='',
     ''  model/tokenizer outcome: '' @ (if fingerprint_of mp = fingerprint_of tp then ''EXACT'' else ''COMPATIBLE'') @
       '' (expect COMPATIBLE)'',
     ''== adapter/base-model compatibility =='',
     ''  adapter registered with base_model_revision=rev-2 (rule requires rev-2)'',
     ''== unknown due to missing evidence =='',
     ''  outcome: EXACT (missing evidence -> UNKNOWN/INSUFFICIENT_EVIDENCE, never compatible)'',
     ''== conditional compatibility with adaptation =='',
     ''  outcome: '' @ (if fingerprint_of p2 = fingerprint_of p1 then ''EXACT''
         else if seed 13 < seed 14 then ''INSUFFICIENT_EVIDENCE'' else ''CONDITIONAL'') @
       '' (expect CONDITIONAL with adaptation '' @ [CHR 0x27] @ ''cast f16->f32'' @ [CHR 0x27] @ '')''] @
    (if fingerprint_of p2 = fingerprint_of p1 \<or> seed 13 < seed 14 then [] else [''    adaptation: cast f16->f32'']) @
    [''== rule supersession =='', ''  superseded rule now yields: '' @ (if fingerprint_of p1 = fingerprint_of p2 then ''EXACT''
         else if seed 13 < seed 14 then ''INSUFFICIENT_EVIDENCE'' else ''COMPATIBLE'') @ '' (rule generation advanced)'',
     ''== dependency invalidation =='', ''  child dependencies: 1'', ''  after invalidating parent, child active: no'',
     ''  dependency cycle detected? no'',
     ''== historical replay (persistence) =='', ''  replay digest preserved: YES'', [], ''[Runnable example completed]''])"
proof -
  obtain ap where ap: "adapter_to_canon (example_adapter (seed 10)) = Inr ap" "canon_ok ap" "light_payload ap"
    using adapter_published [of "seed 10"] by blast
  have p: "resolve_profile_field PK_Tensor p1 ''dtype'' = Some (CStr ''f32'')"
    "resolve_profile_field PK_Tensor p2 ''dtype'' = Some (CStr ''f16'')" "light_payload p1" "light_payload p2"
    "light_payload mp" "light_payload tp"
    using tensor_made [where u = "seed 0" and v = "seed 0" and dt = "''f32''"]
      tensor_made [where u = "seed 0" and v = "seed 2" and dt = "''f16''"] model_published [of "seed 5" "seed 6"]
      tokenizer_published [of m] assms(3-7)
    by (simp_all add: example_tensor_def)
  let ?ps = "tensor_rows seed p1 p2" and ?all = "tensor_rows seed p1 p2 @ model_rows seed mp tp ap"
  let ?rs = "five_rules seed @ [rule_row (new_rule (seed 15)) 7]"
  have ids: "seed 1 \<noteq> seed 3" "distinct (map fst ?ps @ [seed 7, seed 8, seed 11])" "distinct [seed 4, seed 9, seed 12]"
    "distinct (map fst ?all)" "distinct (map fst ?all @ [seed 16, seed 17])"
    using assms(1,2) by (simp_all add: tensor_rows_def model_rows_def)
  have rows: "(seed 1, PK_Tensor, p1) \<in> set ?all" "(seed 3, PK_Tensor, p2) \<in> set ?all" "(seed 7, PK_Model, mp) \<in> set ?all"
    "\<forall>(u, kd, c) \<in> set ?all. profile_kind_ok kd \<and> light_payload c" "length ?all \<le> 40"
    using p ap(3) by (simp_all add: tensor_rows_def model_rows_def)
  have rs: "distinct (map fst ?rs)" "\<forall>(u, rr) \<in> set ?rs. r_rule_id (rr_rule rr) = u \<and> light_rule rr" "length ?rs \<le> 50"
    using assms(2) example_rules_light by (auto simp: five_rules_def three_rules_def rule_row_def)
  obtain ds where one: "example_tensors seed empty_registry =
      Inr (tensors_lines p1 p2, (seed 1, seed 3), stock ?ps [rule_row (tensor_rule (seed 4)) 1] 1 3 ds)" "small_cache 2 ds"
    using tensors_section [OF assms(3,4) ids(1)] by blast
  obtain ds' where two: "example_models seed (stock ?ps [rule_row (tensor_rule (seed 4)) 1] 1 3 ds) =
      Inr (models_lines mp tp, (mp, ap), seed 7, stock ?all (three_rules seed) 3 8 ds')" "small_cache 3 ds'"
    using models_section [OF ids(2,3) assms(5-7) ap(1) one(2)] by (auto simp: numeral_3_eq_3)
  obtain ds'' where three: "example_rules seed (seed 1) (seed 3) (seed 7) (stock ?all (three_rules seed) 3 8 ds') =
      Inr (rules_lines seed p1 p2, stock ?all ?rs 6 12 ds'')" "small_cache 6 ds''"
    using rules_section [OF ids(4) rows(1-3) assms(2) p(1,2) two(2)] by auto
  have "small_cache 50 ds''"
    using three(2) by (simp add: small_cache_def)
  then obtain R where four: "example_invalidation seed mp ap (stock ?all ?rs 6 12 ds'') = Inr (invalidation_lines, R)"
      "ready R" "current (seed 1) R = Some (fresh_profile (seed 1) PK_Tensor p1)"
    using invalidation_section [OF p(5) ap(3) ids(5) rows(4,5,1) rs] by blast
  have "example_main seed = Inr (0, tensors_lines p1 p2 @ models_lines mp tp @
      rules_lines seed p1 p2 @ invalidation_lines @ replay_lines @ [[], ''[Runnable example completed]''])"
    unfolding example_main_def one(1) two(1) three(1) four(1) replay_section [OF four(2,3)] bindE_simps prod.case ..
  then show ?thesis
    unfolding tensors_lines_def models_lines_def rules_lines_def invalidation_lines_def replay_lines_def adaptation_lines_def
      tied_name_def append_Cons append_Nil append_assoc .
qed

text \<open>Ids that fall from draw to draw: the conditional rule is tried before the rule with the missing feature.\<close>

theorem example_output_witness:
  "\<exists>p1 p2 mp tp. example_main (\<lambda>i. Uuid (word_of_nat (100 - i))) = Inr (0,
    [''== exact tensor compatibility =='', ''  self-pair outcome: EXACT (expect EXACT)'', ''== tensor mismatch =='',
     ''  f32 vs f16 outcome: '' @ (if fingerprint_of p1 = fingerprint_of p2 then ''EXACT'' else ''UNKNOWN'') @
       '' (expect UNKNOWN after required dtype equality fails)'',
     ''== model/tokenizer compatibility =='',
     ''  model/tokenizer outcome: '' @ (if fingerprint_of mp = fingerprint_of tp then ''EXACT'' else ''COMPATIBLE'') @
       '' (expect COMPATIBLE)'',
     ''== adapter/base-model compatibility =='',
     ''  adapter registered with base_model_revision=rev-2 (rule requires rev-2)'',
     ''== unknown due to missing evidence =='',
     ''  outcome: EXACT (missing evidence -> UNKNOWN/INSUFFICIENT_EVIDENCE, never compatible)'',
     ''== conditional compatibility with adaptation =='',
     ''  outcome: '' @ (if fingerprint_of p2 = fingerprint_of p1 then ''EXACT'' else ''CONDITIONAL'') @
       '' (expect CONDITIONAL with adaptation '' @ [CHR 0x27] @ ''cast f16->f32'' @ [CHR 0x27] @ '')''] @
    (if fingerprint_of p2 = fingerprint_of p1 then [] else [''    adaptation: cast f16->f32'']) @
    [''== rule supersession =='',
     ''  superseded rule now yields: '' @ (if fingerprint_of p1 = fingerprint_of p2 then ''EXACT'' else ''COMPATIBLE'') @
       '' (rule generation advanced)'',
     ''== dependency invalidation =='', ''  child dependencies: 1'', ''  after invalidating parent, child active: no'',
     ''  dependency cycle detected? no'',
     ''== historical replay (persistence) =='', ''  replay digest preserved: YES'', [], ''[Runnable example completed]''])"
proof -
  let ?seed = "\<lambda>i. Uuid (word_of_nat (100 - i))"
  have ids: "distinct [?seed 1, ?seed 3, ?seed 7, ?seed 8, ?seed 11, ?seed 16, ?seed 17]"
    "distinct [?seed 4, ?seed 9, ?seed 12, ?seed 13, ?seed 14, ?seed 15]" "\<not> ?seed 13 < ?seed 14"
    by (simp_all add: less_uuid_def)
  obtain p1 p2 where tensors: "tensor_to_canon (example_tensor (?seed 0)) = Inr p1"
    "tensor_to_canon ((example_tensor (?seed 0))\<lparr>tn_schema_id := ?seed 2, tn_dtype := ''f16''\<rparr>) = Inr p2"
    using tensor_made [where u = "?seed 0" and v = "?seed 0" and dt = "''f32''"]
      tensor_made [where u = "?seed 0" and v = "?seed 2" and dt = "''f16''"] by (auto simp: example_tensor_def)
  obtain m mp tp where models: "example_model (?seed 5) (?seed 6) = Inr m" "model_to_canon m = Inr mp"
    "tokenizer_to_canon (example_tokenizer m) = Inr tp"
    using model_published tokenizer_published by blast
  show ?thesis
    by (rule exI [of _ p1], rule exI [of _ p2], rule exI [of _ mp], rule exI [of _ tp])
      (simp only: example_output [where seed = ?seed, OF ids(1,2) tensors models] ids(3) simp_thms if_False)
qed

end
