(* ===== verification/Cuda_Proof.thy ===== *)
theory Cuda_Proof
  imports Examples Cuda
begin

text \<open>
  The CUDA programs: the proof of \<^verbatim>\<open>src/cuda/cuda_proof.cpp\<close> and the example \<^verbatim>\<open>examples/cuda.cpp\<close>. \<open>devs\<close> is
  what \<^verbatim>\<open>discover_cuda_devices\<close> finds, \<open>launch\<close> whether a kernel compiled for an architecture runs and
  agrees with the CPU; random ids are drawn from \<open>seed\<close> in the order of the calls.
\<close>

section \<open>Without a device\<close>

definition cuda_absent :: "(nat \<Rightarrow> uuid) \<Rightarrow> device_info \<Rightarrow> checks res" where
  "cuda_absent seed dev =
     bindE (device_to_canon (make_cuda_device_profile (seed 0) dev)) (\<lambda>dp.
     callE (register_new_profile (seed 1) PK_Device dp [] [] empty_registry) (\<lambda>dev_id R.
     bindE (kernel_to_canon (add_kernel (seed 2) ''sm_130'' ''13.0'')) (\<lambda>kp.
     callE (register_new_profile (seed 3) PK_Kernel kp [] [] R) (\<lambda>kid R.
     callE (apfst Inr (register_rule (capability_rule (seed 4) []) R)) (\<lambda>_ R.
     callE (evaluate_pair kid dev_id R) (\<lambda>d _.
     Inr [(d_outcome d = Incompatible, ''[B] unsupported arch rejected before execution (registry-level)'')]))))))"

section \<open>With a device\<close>

definition kernel_120 :: "uuid \<Rightarrow> kernel_profile" where
  "kernel_120 u = add_kernel u ''sm_120'' ''12.0''"

text \<open>The architecture the kernel is compiled for: the capability without its dots.\<close>

definition compute_arch :: "string \<Rightarrow> string" where
  "compute_arch cc = ''compute_'' @ filter (\<lambda>c. c \<noteq> CHR ''.'') cc"

definition cuda_supported :: "(nat \<Rightarrow> uuid) \<Rightarrow> (string \<Rightarrow> bool) \<Rightarrow> device_info \<Rightarrow> uuid \<Rightarrow> registry \<Rightarrow>
    (checks \<times> uuid \<times> registry) res" where
  "cuda_supported seed launch dev dev_id R =
     bindE (kernel_to_canon (kernel_120 (seed 3))) (\<lambda>kp.
     callE (register_new_profile (seed 4) PK_Kernel kp [] [] R) (\<lambda>k120 R.
     callE (evaluate_pair k120 dev_id R) (\<lambda>d R.
     Inr ([(d_outcome d = Compatible, ''[A] sm_120 kernel -> COMPATIBLE with RTX 5090''),
       (launch (compute_arch (di_compute_capability dev)), ''[A] real CUDA kernel launched on sm_120, CPU parity verified'')],
       k120, R))))"

definition cuda_unsupported :: "(nat \<Rightarrow> uuid) \<Rightarrow> uuid \<Rightarrow> registry \<Rightarrow> (checks \<times> registry) res" where
  "cuda_unsupported seed dev_id R =
     bindE (kernel_to_canon ((kernel_120 (seed 5))\<lparr>ke_architecture := ''sm_130'', ke_compute_capability := ''13.0''\<rparr>)) (\<lambda>kp.
     callE (register_new_profile (seed 6) PK_Kernel kp [] [] R) (\<lambda>k130 R.
     callE (evaluate_pair k130 dev_id R) (\<lambda>d R.
     Inr ([(d_outcome d = Incompatible, ''[B] sm_130 kernel -> INCOMPATIBLE (rejected before execution)''),
       (d_failed d \<noteq> [], ''[B] incompatible decision records the failed dimension'')], R))))"

definition dtype_rule :: "uuid \<Rightarrow> rule" where
  "dtype_rule u = default_rule\<lparr>r_rule_id := u, r_scope := ''pair'', r_left_kind := Some PK_Kernel,
     r_right_kind := Some PK_Device, r_priority := 10,
     r_incompatible_with := [default_constraint\<lparr>c_field := ''dtype'', c_expected := CStr ''f64''\<rparr>]\<rparr>"

definition cuda_mismatch :: "(nat \<Rightarrow> uuid) \<Rightarrow> uuid \<Rightarrow> registry \<Rightarrow> (checks \<times> registry) res" where
  "cuda_mismatch seed dev_id R =
     bindE (kernel_to_canon ((kernel_120 (seed 7))\<lparr>ke_dtype := ''f64''\<rparr>)) (\<lambda>kp.
     callE (register_new_profile (seed 8) PK_Kernel kp [] [] R) (\<lambda>kf64 R.
     callE (apfst Inr (register_rule (dtype_rule (seed 9)) R)) (\<lambda>_ R.
     callE (evaluate_pair kf64 dev_id R) (\<lambda>d R.
     Inr ([(d_outcome d = Incompatible, ''[C] dtype/layout mismatch (f64) -> INCOMPATIBLE before execution''),
       (d_outcome d \<noteq> Exact, ''[C] mismatch never collapses to EXACT'')], R)))))"

definition cuda_generations :: "(nat \<Rightarrow> uuid) \<Rightarrow> uuid \<Rightarrow> registry \<Rightarrow> (checks \<times> registry) res" where
  "cuda_generations seed dev_id R =
     (let g1 = (kernel_120 (seed 10))\<lparr>ke_artifact_digest := ''abc123'', ke_generation := 1\<rparr> in
     bindE (kernel_to_canon g1) (\<lambda>p1.
     callE (register_new_profile (seed 11) PK_Kernel p1 [] [] R) (\<lambda>kg1 R.
     callE (evaluate_pair kg1 dev_id R) (\<lambda>d1 R.
     bindE (kernel_to_canon (g1\<lparr>ke_artifact_digest := ''def456'', ke_generation := 2\<rparr>)) (\<lambda>p2.
     callE (supersede_profile PK_Kernel kg1 p2 [] [] R) (\<lambda>_ R.
     callE (evaluate_pair kg1 dev_id R) (\<lambda>d2 R.
     Inr ([(d_decision_id d1 \<noteq> d_decision_id d2, ''[D] stale G1 and current G2 decisions are distinct''),
       (d_digest d1 \<noteq> d_digest d2, ''[D] historical decision digest preserved (replay) and current differs'')], R))))))))"

definition cuda_toolchain :: "(nat \<Rightarrow> uuid) \<Rightarrow> device_profile \<Rightarrow> uuid \<Rightarrow> registry \<Rightarrow> (checks \<times> registry) res" where
  "cuda_toolchain seed dev_prof k120 R =
     bindE (device_to_canon dev_prof) (\<lambda>p1.
     callE (register_new_profile (seed 12) PK_Device p1 [] [] R) (\<lambda>dev_id R.
     callE (evaluate_pair k120 dev_id R) (\<lambda>d1 R.
     bindE (device_to_canon (dev_prof\<lparr>de_runtime_min := ''99.0''\<rparr>)) (\<lambda>p2.
     callE (supersede_profile PK_Device dev_id p2 [] [] R) (\<lambda>_ R.
     callE (evaluate_pair k120 dev_id R) (\<lambda>d2 R.
     Inr ([(d_decision_id d1 \<noteq> d_decision_id d2,
       ''[E] historical and current decisions remain distinct after toolchain/runtime gen change'')], R)))))))"

definition cuda_present :: "(nat \<Rightarrow> uuid) \<Rightarrow> (string \<Rightarrow> bool) \<Rightarrow> device_info \<Rightarrow> checks res" where
  "cuda_present seed launch dev =
     (let dev_prof = make_cuda_device_profile (seed 0) dev in
     bindE (device_to_canon dev_prof) (\<lambda>dp.
     callE (register_new_profile (seed 1) PK_Device dp [] [] empty_registry) (\<lambda>dev_id R.
     callE (apfst Inr (register_rule (capability_rule (seed 2) []) R)) (\<lambda>_ R.
     bindE (cuda_supported seed launch dev dev_id R) (\<lambda>(a, k120, R).
     bindE (cuda_unsupported seed dev_id R) (\<lambda>(b, R).
     bindE (cuda_mismatch seed dev_id R) (\<lambda>(c, R).
     bindE (cuda_generations seed dev_id R) (\<lambda>(d, R).
     bindE (cuda_toolchain seed dev_prof k120 R) (\<lambda>(e, R).
     Inr (a @ b @ c @ d @ e))))))))))"

text \<open>
  \<^verbatim>\<open>main\<close>: its exit status, its checks and the other lines it prints. \<^verbatim>\<open>devs[0]\<close> of an empty vector
  is undefined.
\<close>

definition cuda_title :: string where
  "cuda_title = ''=== Compatibility Registry CUDA proof (real RTX 5090 / sm_120) ===''"

definition device_line :: "device_info \<Rightarrow> string" where
  "device_line dev = ''  device: '' @ di_name dev @ ''  compute='' @ di_compute_capability dev @ ''  mem='' @
     show_nat (unat (di_total_memory dev div (1024 * 1024))) @ '' MB  runtime='' @ di_runtime_version dev @
     ''  driver='' @ di_driver_version dev"

definition cuda_proof :: "(nat \<Rightarrow> uuid) \<Rightarrow> (string \<Rightarrow> bool) \<Rightarrow> device_info list \<Rightarrow> (int \<times> checks \<times> string list) res" where
  "cuda_proof seed launch devs =
     (case devs of
        [] \<Rightarrow> Inl Out_Of_Bounds
      | dev # _ \<Rightarrow>
          let found = [(True, ''device discovery returned at least one entry''),
            (di_initialized dev, ''device discovery initialized (CUDA device present)'')] in
          if \<not> di_initialized dev
          then bindE (cuda_absent seed dev) (\<lambda>cs. let cs = found @ cs in
            Inr (if list_all fst cs then 0 else 1, cs, [cuda_title, ''  error: '' @ di_error dev]))
          else bindE (cuda_present seed launch dev) (\<lambda>cs. let cs = found @ cs in
            Inr (if list_all fst cs then 0 else 1, cs, [cuda_title, device_line dev,
              ''=== CUDA proof '' @ (if list_all fst cs then ''PASSED'' else ''FAILED'') @ '' ===''])))"

section \<open>The example\<close>

definition cuda_example :: "(nat \<Rightarrow> uuid) \<Rightarrow> device_info list \<Rightarrow> (int \<times> string list) res" where
  "cuda_example seed devs =
     (if devs = [] \<or> \<not> di_initialized (hd devs)
      then Inr (0, [''no CUDA device observed: '' @ (if devs = [] then ''none'' else di_error (hd devs))])
      else let d = hd devs; p = make_cuda_device_profile (seed 0) d in
        bindE (device_to_canon p) (\<lambda>c. bindE (canonical_fingerprint_hex c) (\<lambda>fp. Inr (0,
          [''CUDA device: '' @ di_name d,
           ''  compute capability: '' @ di_compute_capability d @ ''  total mem: '' @
             show_nat (unat (di_total_memory d div (1024 * 1024))) @ '' MB  SMs: '' @
             show_nat (unat (di_multi_processor_count d)),
           ''  canonical device profile fp: '' @ fp] @
          (if de_compute_capability p = ''12.0'' then [''  architecture is sm_120 (RTX 5090)''] else [])))))"

section \<open>The run without a device\<close>

lemma absent_payload:
  assumes "\<not> di_initialized dev"
  shows "\<exists>c. device_to_canon (make_cuda_device_profile u dev) = Inr c \<and> canon_ok c \<and>
    resolve_profile_field PK_Device c ''compute_capability'' = Some (CStr [])"
  using assms by (simp add: device_to_canon_def make_cuda_device_profile_def Let_def mk_record_tags_ok resolve_eval)

lemma exceeds_unknown: "exceeds ''13.0'' []"
proof -
  have "parse_ver [] = (0, 0)"
    by (simp add: parse_ver_def dot_head_def dot_tail_def parse_num_def digits_value_def)
  then show ?thesis
    by (simp add: exceeds_def known_versions compare_ver_def)
qed

section \<open>Properties\<close>

text \<open>
  The rule that case C adds to reject a data type decides every other kernel as well: with it in
  the registry, a kernel whose data type is not f64 is compatible with the device whatever the two
  capabilities are, since the rule has the higher priority, requires nothing and says Compatible.
\<close>

theorem dtype_rule_admits_all:
  assumes "distinct (map fst ps)" and "(kid, PK_Kernel, kern) \<in> set ps" and "(did, PK_Device, dev) \<in> set ps"
    and "resolve_profile_field PK_Kernel kern ''dtype'' = Some (CStr dt)" and "dt \<noteq> ''f64''"
    and "resolve_profile_field PK_Kernel kern ''compute_capability'' = Some (CStr kc)"
    and "resolve_profile_field PK_Device dev ''compute_capability'' = Some (CStr dc)"
  shows "\<exists>d R. evaluate_pair kid did (stock ps [rule_row (capability_rule u []) 1, rule_row (dtype_rule v) 2] 2 g ds) = (Inr d, R) \<and>
    d_outcome d = (if fingerprint_of kern = fingerprint_of dev then Exact else Compatible)"
proof -
  let ?l = "fresh_profile kid PK_Kernel kern" and ?r = "fresh_profile did PK_Device dev"
  let ?c = "default_constraint\<lparr>c_field := ''dtype'', c_expected := CStr ''f64''\<rparr>"
  have f64: "truth_of ?l ?r ?c = Fails" "settled ?l ?r ?c"
    using field_is [of ?l "''dtype''" dt ?r "''f64''"] assms(4,5) by simp_all
  let ?rules = "[(dtype_rule v)\<lparr>r_generation := 2\<rparr>, (capability_rule u [])\<lparr>r_generation := 1\<rparr>]"
  have cand: "candidates (scope_of False) ?l ?r (stock ps [rule_row (capability_rule u []) 1, rule_row (dtype_rule v) 2] 2 g ds) = ?rules"
    by (simp add: candidates_def applicable_def kind_matches_def rule_less_def dtype_rule_def capability_rule_def default_rule_def)
  have "answerable ?l ?r ((capability_rule u [])\<lparr>r_generation := 1\<rparr>)"
    using capability_verdict(2) [OF fresh_pair [OF assms(6,7)]]
    by (simp add: answerable_def named_def capability_rule_def default_rule_def)
  moreover have "answerable ?l ?r ((dtype_rule v)\<lparr>r_generation := 2\<rparr>)"
    using f64(2) by (simp add: answerable_def named_def clauses_def dtype_rule_def default_rule_def)
  moreover have "resolution ?rules (truth_of ?l ?r) = Compatible"
    using f64(1) by (simp add: resolution_def decides_def verdict_of_def alternatives_met_def kind_outcome_def dtype_rule_def
        default_rule_def)
  ultimately show ?thesis
    using stock_decision [OF assms(1-3) cand] by (cases "fingerprint_of kern = fingerprint_of dev") (auto simp: evaluate_pair_def)
qed

theorem dtype_rule_admits_all_witness:
  "\<exists>kern dev d R. evaluate_pair (Uuid 2) (Uuid 1) (stock [(Uuid 1, PK_Device, dev), (Uuid 2, PK_Kernel, kern)]
      [rule_row (capability_rule (Uuid 3) []) 1, rule_row (dtype_rule (Uuid 4)) 2] 2 4 []) = (Inr d, R) \<and>
    exceeds ''13.0'' ''9.0'' \<and> d_outcome d = (if fingerprint_of kern = fingerprint_of dev then Exact else Compatible)"
proof -
  obtain dev where dev: "resolve_profile_field PK_Device dev ''compute_capability'' = Some (CStr ''9.0'')"
    using device_payload [of "Uuid 5" "''sm_90''" "''9.0''"] by blast
  obtain kern where kern: "kernel_to_canon (add_kernel (Uuid 6) ''sm_130'' ''13.0'') = Inr kern"
    "resolve_profile_field PK_Kernel kern ''compute_capability'' = Some (CStr ''13.0'')"
    using kernel_payload by blast
  have dtype: "resolve_profile_field PK_Kernel kern ''dtype'' = Some (CStr ''f32'')"
    using kern(1) by (auto simp: kernel_to_canon_def add_kernel_def default_kernel_def mk_record_tags_ok resolve_eval)
  let ?ps = "[(Uuid 1, PK_Device, dev), (Uuid 2, PK_Kernel, kern)]"
  have "distinct (map fst ?ps)" "(Uuid 2, PK_Kernel, kern) \<in> set ?ps" "(Uuid 1, PK_Device, dev) \<in> set ?ps" "''f32'' \<noteq> ''f64''"
    by simp_all
  from dtype_rule_admits_all [OF this(1-3) dtype this(4) kern(2) dev, of "Uuid 3" "Uuid 4" 4 "[]"] show ?thesis
    by (elim exE) (intro exI conjI known_exceeds, (erule conjunct1), erule conjunct2)
qed

text \<open>
  Without a device the proof ends with status 1 and the error of the discovery, though its
  check of the registry passes: the empty capability of a device that was not observed is a version below every
  kernel's, so the kernel is found incompatible and not unknown.
\<close>

theorem cuda_proof_without_device:
  assumes "\<not> di_initialized dev" and "device_to_canon (make_cuda_device_profile (seed 0) dev) = Inr dp"
    and "kernel_to_canon (add_kernel (seed 2) ''sm_130'' ''13.0'') = Inr kp" and "seed 3 \<noteq> seed 1"
  shows "cuda_proof seed launch (dev # devs) = Inr (1,
    [(True, ''device discovery returned at least one entry''),
     (False, ''device discovery initialized (CUDA device present)''),
     (fingerprint_of kp \<noteq> fingerprint_of dp, ''[B] unsupported arch rejected before execution (registry-level)'')],
    [cuda_title, ''  error: '' @ di_error dev])"
proof -
  let ?ps = "[(seed 1, PK_Device, dp), (seed 3, PK_Kernel, kp)]"
  let ?R = "with_rule (capability_rule (seed 4) []) (with_profiles ?ps)"
  have dp: "canon_ok dp" "resolve_profile_field PK_Device dp ''compute_capability'' = Some (CStr [])"
    using absent_payload [OF assms(1), of "seed 0"] assms(2) by simp_all
  have kp: "canon_ok kp" "resolve_profile_field PK_Kernel kp ''compute_capability'' = Some (CStr ''13.0'')"
    using kernel_payload [of "seed 2" "''sm_130''" "''13.0''"] assms(3) by simp_all
  have distinct: "distinct (map fst ?ps)"
    using assms(4) by simp
  obtain d where "evaluate_locked (seed 3) (seed 1) False ?R = Inr d"
    "d_outcome d = (if fingerprint_of kp = fingerprint_of dp then Exact else Incompatible)"
    using decided_registry [OF distinct _ _ kp(2) dp(2) refl, of "seed 3" "seed 1" "seed 4" "[]"] exceeds_unknown by auto
  moreover have "register_new_profile (seed 1) PK_Device dp [] [] empty_registry = (Inr (seed 1), with_profiles [(seed 1, PK_Device, dp)])"
    using register_next [OF dp(1), of "seed 1" "[]"] by (simp add: with_profiles_Nil)
  moreover have "register_new_profile (seed 3) PK_Kernel kp [] [] (with_profiles [(seed 1, PK_Device, dp)]) =
      (Inr (seed 3), with_profiles ?ps)"
    using register_next [OF kp(1), of "seed 3" "[(seed 1, PK_Device, dp)]"] assms(4) by simp
  ultimately have "cuda_absent seed dev = Inr [(fingerprint_of kp \<noteq> fingerprint_of dp,
      ''[B] unsupported arch rejected before execution (registry-level)'')]"
    using assms(2,3) by (simp add: cuda_absent_def register_capability_rule evaluate_pair_def)
  then show ?thesis
    using assms(1) by (simp add: cuda_proof_def)
qed

theorem cuda_proof_without_device_witness:
  "\<exists>dp kp. cuda_proof (\<lambda>i. Uuid (word_of_nat i)) (\<lambda>_. False) discover_without_cuda = Inr (1,
    [(True, ''device discovery returned at least one entry''),
     (False, ''device discovery initialized (CUDA device present)''),
     (fingerprint_of kp \<noteq> fingerprint_of dp, ''[B] unsupported arch rejected before execution (registry-level)'')],
    [cuda_title, ''  error: CUDA support not compiled in''])"
proof -
  let ?seed = "\<lambda>i. Uuid (word_of_nat i)" and ?dev = "no_device\<lparr>di_error := ''CUDA support not compiled in''\<rparr>"
  have dev: "\<not> di_initialized ?dev" and ids: "?seed 3 \<noteq> ?seed 1"
    by (simp_all add: no_device_def)
  obtain dp where dp: "device_to_canon (make_cuda_device_profile (?seed 0) ?dev) = Inr dp"
    using absent_payload [OF dev] by blast
  obtain kp where kp: "kernel_to_canon (add_kernel (?seed 2) ''sm_130'' ''13.0'') = Inr kp"
    using kernel_payload by blast
  show ?thesis
    using cuda_proof_without_device [where seed = ?seed, OF dev dp kp ids, of "\<lambda>_. False" "[]"]
    by (intro exI) (simp add: discover_without_cuda_def)
qed

end
