(* ===== verification/Spec2Isabelle.thy ===== *)
theory Spec2Isabelle
  imports Client Profiles Capability Json Cuda Transport Verdict View Remote Command Daemon Multiprocess Examples Cuda_Proof
begin

text \<open>
  The Compatibility Registry: a C++20 library that answers, for two profiles, whether rules and evidence
  prove them compatible, with a coordinator process and its client around it. The theories follow the program
  from the bytes up; each names the files it models, with paths relative to the root of the repository.

  \<^bold>\<open>Values and bytes.\<close>
  \<^item> \<open>Identity\<close> (\<^verbatim>\<open>uuid.hpp\<close>, \<^verbatim>\<open>id.hpp\<close>, \<^verbatim>\<open>compat.cpp\<close>): \<open>uuid\<close> is \<^verbatim>\<open>Uuid\<close>, 128 bits in a type of its own with
    the order of \<^verbatim>\<open>operator<\<close>; text form and its parser. The typed wrappers of \<^verbatim>\<open>COMPAT_DECLARE_ID\<close> are all \<open>uuid\<close>.
  \<^item> \<open>Sha256\<close> (\<^verbatim>\<open>sha256.hpp\<close>) and \<open>Double\<close>: the hash as written, on machine words; the bit patterns of
    \<^verbatim>\<open>double\<close> with the classification and comparisons the code makes.
  \<^item> \<open>Canonical\<close>, \<open>Decode\<close> (\<^verbatim>\<open>canonical.hpp\<close>, \<^verbatim>\<open>canonical.cpp\<close>): \<open>canon\<close> is \<^verbatim>\<open>Canon\<close>, \<open>mk_record\<close> and \<open>mk_float\<close> its
    checking factories, \<open>canonical_encode\<close> and \<open>canonical_decode\<close> the codec. The decoder works on positions in
    the buffer; its bounds check subtracts on 64 bits as \<^verbatim>\<open>std::size_t\<close> does, and a copy past the buffer is
    the error \<open>Out_Of_Bounds\<close>. Both directions are inverse to each other on well-formed values (\<open>canon_ok\<close>,
    \<open>canon_fits\<close>: lengths below 2 to the 32).
  \<^item> \<open>Json\<close> (\<^verbatim>\<open>canonical_to_json\<close>, \<^verbatim>\<open>explain_json\<close>): the rendering, against a grammar of JSON texts.

  \<^bold>\<open>Profiles and rules.\<close>
  \<^item> \<open>Enums\<close>: every \<^verbatim>\<open>enum class\<close> with one more constructor for values that are no enumerator, since the
    code casts integers unchecked; \<open>u8_enum\<close> is the contract of such a type, interpreted for each.
  \<^item> \<open>Codec\<close>: how objects are written to records and read back; \<open>record_codec\<close> is the contract of a writer and
    its reader, interpreted for every typed profile and every stored record.
  \<^item> \<open>Profiles\<close> (\<^verbatim>\<open>profile.hpp\<close>), \<open>Capability\<close> (\<^verbatim>\<open>capability.hpp\<close>), \<open>Cuda\<close> (\<^verbatim>\<open>cuda.hpp\<close>, \<^verbatim>\<open>cuda.cpp\<close>): the eleven
    profile structs, the capability set, and the profile made of a discovered device.
  \<^item> \<open>Rule\<close> (\<^verbatim>\<open>rule.hpp\<close>, \<^verbatim>\<open>rule.cpp\<close>): field resolution, versions, value equality, all predicates and
    payload edits.

  \<^bold>\<open>The registry\<close> (\<^verbatim>\<open>decision.hpp\<close>, \<^verbatim>\<open>registry.hpp\<close>, \<^verbatim>\<open>registry.cpp\<close>).
  \<^item> \<open>Decision\<close>: the records it stores, digests and the text explanation.
  \<^item> \<open>Dep_Graph\<close>: both adjacency maps and the depth-first cycle search, which always ends and is exact.
  \<^item> \<open>Registry\<close>: the record \<open>registry\<close> has one field per member of \<^verbatim>\<open>CompatibilityRegistry\<close>; hash maps are
    association lists in their iteration order. Each operation takes the registry and returns its result with the
    new registry, also when it throws. \<open>registry_ok\<close> is the invariant, \<open>extends_history\<close> says that histories only grow.
  \<^item> \<open>Evaluate\<close>: rule evaluation, pair and requirement evaluation with the decision cache, counterfactuals, matrix.
  \<^item> \<open>Verdict\<close>: what evaluation is to compute, as a table over the truth values of the clauses of the candidate
    rules; the loops of the evaluator are shown to compute it.
  \<^item> \<open>Persist\<close>: snapshot, recovery, save and load. Recovery compares every fingerprint but an empty one, which the
    theorems say.
  \<^item> \<open>View\<close>: what of a registry its mutations, evaluations and most reads depend on (current payloads, rules,
    dependencies, policy, two counters). \<open>reg_op\<close> lists these calls; each refines one on views, registries with the
    same view answer every sequence of them alike, and so do a registry and its recovered snapshot, the numbering of
    new rules aside. Reads of histories, evidence, cached decisions and statistics are no \<open>reg_op\<close>: a view forgets them.
  \<^item> \<open>Machine\<close>: every mutating operation as a step of one transition relation; the locales \<open>machine\<close>,
    \<open>progress\<close> and \<open>simulation\<close> carry invariants and simulations over sequences of steps.

  \<^bold>\<open>The network\<close> (\<^verbatim>\<open>net.hpp\<close>, \<^verbatim>\<open>net.cpp\<close>).
  \<^item> \<open>Frame\<close>: message types, CRC-32, frames and \<^verbatim>\<open>recv_frame\<close>.
  \<^item> \<open>Coordinator\<close>: \<open>handle_request\<close> with one definition per request, \<open>serve\<close> for a connection and \<open>run\<close> for the
    accept loop. The coordinator simulates the registry machine, so whatever bytes arrive its registry keeps the
    invariant.
  \<^item> \<open>Client\<close>: every request the client builds and what it reads from the response. The peer is a parameter
    with the contract \<open>responder\<close>; the coordinator is an interpretation of it.
  \<^item> \<open>Remote\<close>: client and coordinator together. \<open>remote\<close> is a call from its encoding to the decoding of the answer;
    \<open>promised\<close> is what it is to return and do, in terms of the registry alone. The peer of a client serves (\<open>Serving\<close>)
    until a shutdown or an exception ends it (\<open>Gone\<close>); from then on its calls fail.
  \<^item> \<open>Transport\<close>: the loops around \<^verbatim>\<open>send\<close> and \<^verbatim>\<open>recv\<close>, over any pair of calls that meet the contracts
    \<open>byte_sink\<close> and \<open>byte_source\<close>, and the server over connections that cut what arrives into segments, take
    part of what is sent and fail. It refines \<open>run\<close>.

  \<^bold>\<open>The programs.\<close>
  \<^item> \<open>Scenario\<close>: the rule and the profiles the programs register, the registries they build, with what is decided on
    them and that they can be saved, and the downstream consumer (\<^verbatim>\<open>downstream/consumer.cpp\<close>).
  \<^item> \<open>Sizes\<close>: how large the decisions of small rules can get, so that small registries can be saved.
  \<^item> \<open>Command\<close> (\<^verbatim>\<open>src/cli/main.cpp\<close>) is the command line with its demonstration; \<open>Daemon\<close>
    (\<^verbatim>\<open>src/net/coordinator_main.cpp\<close>) the coordinator process, from its arguments to the run of the server.
  \<^item> \<open>Process\<close> (\<^verbatim>\<open>src/net/net_proof.cpp\<close>): the program that starts a coordinator, drives it over the network as three
    sources, and replays a decision on a second one recovered from the first's snapshot; \<open>Multiprocess\<close> follows it
    through the client, the frames, the coordinator, the registry and the snapshot, and shows that it passes.
  \<^item> \<open>Examples\<close> (\<^verbatim>\<open>examples/demo.cpp\<close>) and \<open>Cuda_Proof\<close> (\<^verbatim>\<open>src/cuda/cuda_proof.cpp\<close>, \<^verbatim>\<open>examples/cuda.cpp\<close>): the
    examples and the CUDA proof, with all they print or check.

  \<^bold>\<open>Conventions.\<close> \<open>'a res\<close> is \<open>Inl\<close> an exception or \<open>Inr\<close> a result. Machine integers are words of their width. A
  value \<^verbatim>\<open>genseed\<close> draws at random is an argument. The mutex makes each operation one step. Strings are lists of bytes.

  \<^bold>\<open>Bounds and termination.\<close> Nothing uses fuel: the decoder, the cycle search, the propagation of an invalidation and
  the serving of a connection are total functions with termination proofs. Properties of the codec ask for lengths
  below 2 to the 32, those of frames for payloads of at most 64 MiB, as the receiver does.

  \<^bold>\<open>Parameters.\<close> The text of a \<^verbatim>\<open>double\<close> printed with 17 digits (\<open>prints_numbers\<close>: it is a JSON number for a
  finite value), the answers of the CUDA runtime, whether a file can be written, the segments that arrive on a
  connection and how much each call of \<^verbatim>\<open>send\<close> takes, whether a process starts and its port answers, and whether a
  compiled kernel runs.

  \<^bold>\<open>Not modelled.\<close> Setting up sockets, starting and stopping threads and \<^verbatim>\<open>stop\<close> from another thread; the
  iteration order of a hash map after insertion (new keys go last, and decisions are shown not to depend
  on it); allocation failure; the compilation and launch of a kernel, which only calls the CUDA libraries; the
  benchmark and the test programs.
\<close>

section \<open>Properties that span components\<close>

text \<open>
  Property C16. A typed profile survives the whole way: written as a canonical record, registered under a fresh
  identity, snapshotted, recovered from the bytes, found as the current generation of that identity and
  read back, it is the profile it was.
\<close>

theorem typed_profile_survives:
  assumes "registry_ok R" and "typed_ok p" and "typed_to_canon p = Inr c" and "map_of (profiles R) u = None"
    and "register_new_profile u (typed_kind p) c ds prov R = (Inr pid, R')" and "persistable R'"
  shows "pid = u \<and> (\<exists>bs R'' q. snapshot R' = Inr bs \<and> recover bs = Inr R'' \<and>
    find_profile u False R'' = Some q \<and> p_kind q = typed_kind p \<and> p_deps q = ds \<and>
    typed_from_canon (typed_kind p) (p_payload q) = Inr p)"
proof -
  have c: "canon_ok c" "typed_from_canon (typed_kind p) c = Inr p"
    using typed_codec.to_canon_ok [of p "typed_kind p"] assms(2,3) by simp_all
  obtain fp where fp: "canonical_fingerprint_hex c = Inr fp"
    using canonical_fingerprint_hex_enc [OF c(1)] by blast
  let ?p = "(new_profile u (typed_kind p) c ds prov)\<lparr>p_fingerprint := fp\<rparr>"
  have reg: "register_profile ?p R = (Inr pid, R')"
    using assms(5) fp by (simp add: register_new_profile_def)
  have fields: "p_id ?p = u" "p_payload ?p = c" "p_kind ?p = typed_kind p" "p_deps ?p = ds" "p_active ?p"
    by (simp_all add: new_profile_def)
  obtain bs where bs: "snapshot R' = Inr bs" "recover bs = Inr (restored R')"
    using recover_snapshot [OF assms(6)] by blast
  have "canon_ok (p_payload ?p)"
    using c(1) fields(2) by simp
  with assms(1) show ?thesis
  proof (cases rule: register_profile_cases)
    case (same hist)
    with assms(4) fields(1) show ?thesis by simp
  next
    case (rejected e)
    with reg show ?thesis by simp
  next
    case (added fp' q R'')
    then have R': "R' = R''" "pid = u"
      using reg fields(1) by simp_all
    have "find_profile u False (restored R') = Some q"
      by (rule find_profile_append [where h = "map supersede_active (history_of u R)"])
        (use added R' fields in \<open>simp_all add: restored_def\<close>)
    with bs R' c(2) added(2) fields show ?thesis
      by (intro conjI exI [of _ bs] exI [of _ "restored R'"] exI [of _ q]) simp_all
  qed
qed

theorem typed_profile_survives_witness:
  "\<exists>bs R'' q. recover bs = Inr R'' \<and> find_profile (Uuid 1) False R'' = Some q \<and>
     typed_from_canon PK_Policy (p_payload q) = Inr (Typed_Policy example_policy)"
proof -
  let ?p = "Typed_Policy example_policy"
  obtain c where c: "typed_to_canon ?p = Inr c" "canon_ok c" "kind c = KRecord" "canon_fits c" "length (enc c) < 1000"
    by (simp add: policy_to_canon_def example_policy_def mk_record_tags_ok bytes_length)
  let ?fp = "sha_hex (sha256 (k_magic @ [k_version] @ enc c))"
  let ?q = "(new_profile (Uuid 1) PK_Policy c [] [])\<lparr>p_fingerprint := ?fp, p_generation := 1\<rparr>"
  let ?R = "empty_registry\<lparr>profiles := [(Uuid 1, [?q])], registry_gen := 1\<rparr>"
  have "\<not> create_cycle (Uuid 1) [] (graph empty_registry)"
    by (simp add: create_cycle_edges empty_registry_def edges_def adjacent_def)
  then have reg: "register_new_profile (Uuid 1) (typed_kind ?p) c [] [] empty_registry = (Inr (Uuid 1), ?R)"
    using c(2) by (simp add: register_new_profile_def register_profile_def canonical_fingerprint_hex_enc new_profile_def
        Let_def push_def add_dependency_def empty_registry_def)
  have "registry_ok ?R"
    using register_new_profile_ok [OF empty_registry_ok c(2), of "Uuid 1" "typed_kind ?p" "[]" "[]"] reg by simp
  moreover have "deps_current ?R" "objects_ok ?R"
    using c(2,3) by (simp_all add: deps_current_def dependencies_of_def adjacent_def objects_ok_def
        profile_record_ok_def new_profile_def empty_registry_def)
  moreover have "canon_fits doc" if "snapshot_document ?R = Inr doc" for doc
    using that c by (cases c) (auto simp: snapshot_document_def empty_registry_def enc_profile_def mk_record_tags_ok
        new_profile_def bytes_length)
  ultimately have "persistable ?R"
    by (simp add: persistable_def)
  moreover have "typed_ok ?p"
    by (simp add: policy_ok_def)
  ultimately show ?thesis
    using typed_profile_survives [OF empty_registry_ok _ c(1) _ reg] by (auto simp: empty_registry_def)
qed

end
